(* ===== verification/Rust_Prelude.thy ===== *)
theory Rust_Prelude
  imports Main "HOL-Library.List_Lexorder" "HOL-Library.Char_ord" "HOL-Library.Sublist"
begin

text \<open>
  What the components share: Rust strings as their UTF-8 bytes with the operations of
  \<open>str\<close> the code uses, the fixed-width integer operations (wrap-around and saturation written
  out), results as sums, and the lemma collections the component proofs use.

  A Rust \<open>&str\<close> or \<open>String\<close> is the list of its UTF-8 bytes, a HOL \<open>string\<close>. So \<open>len()\<close> is
  \<open>length\<close>, comparison and sorting are the byte-wise lexicographic order of \<open>List_Lexorder\<close>
  and searching for an ASCII pattern is searching bytes. What Rust does per character
  (\<open>chars()\<close>, \<open>trim()\<close>, \<open>is_char_boundary\<close>) groups a lead byte with its continuation bytes.
\<close>

named_theorems str_simps "rewrite rules for the string operations"
named_theorems invI "introduction rules for component invariants"

section \<open>Results\<close>

type_synonym ('e, 'a) result = "'e + 'a"

abbreviation Err :: "'e \<Rightarrow> ('e, 'a) result" where "Err \<equiv> Inl"
abbreviation Ok :: "'a \<Rightarrow> ('e, 'a) result" where "Ok \<equiv> Inr"

fun is_ok :: "('e, 'a) result \<Rightarrow> bool" where
  "is_ok (Inl _) = False"
| "is_ok (Inr _) = True"

fun ok :: "('e, 'a) result \<Rightarrow> 'a option" where
  "ok (Inl _) = None"
| "ok (Inr x) = Some x"

fun unwrap_or :: "'a \<Rightarrow> ('e, 'a) result \<Rightarrow> 'a" where
  "unwrap_or d (Inl _) = d"
| "unwrap_or d (Inr x) = x"

text \<open>\<open>iter().map(f).collect::<Result<Vec<_>,_>>()\<close>: the first error, or every value.\<close>

fun collect_results :: "('a \<Rightarrow> ('e, 'b) result) \<Rightarrow> 'a list \<Rightarrow> ('e, 'b list) result" where
  "collect_results f [] = Ok []"
| "collect_results f (x # xs) =
     (case f x of
        Inl e \<Rightarrow> Err e
      | Inr y \<Rightarrow> (case collect_results f xs of Inl e \<Rightarrow> Err e | Inr ys \<Rightarrow> Ok (y # ys)))"

lemma collect_results_Ok:
  "collect_results f xs = Inr ys \<longleftrightarrow> list_all2 (\<lambda>x y. f x = Inr y) xs ys"
proof (induction xs arbitrary: ys)
  case (Cons x xs)
  then show ?case by (cases ys; cases "f x"; cases "collect_results f xs") auto
qed auto

lemma collect_results_id:
  "\<forall>x \<in> set xs. f x = Inr x \<Longrightarrow> collect_results f xs = Inr xs"
  by (induction xs) auto

lemma collect_results_Err:
  "collect_results f xs = Inl e \<Longrightarrow> \<exists>x \<in> set xs. f x = Inl e"
  by (induction xs) (auto split: sum.splits)

lemma collect_results_mem:
  assumes "collect_results f xs = Inr ys" and "y \<in> set ys"
  shows "\<exists>x \<in> set xs. f x = Inr y"
proof -
  from assms have "list_all2 (\<lambda>x y. f x = Inr y) xs ys" by (simp add: collect_results_Ok)
  then show ?thesis using assms(2) by (induction rule: list_all2_induct) auto
qed

lemma collect_results_mem':
  assumes "collect_results f xs = Inr ys" and "x \<in> set xs"
  shows "\<exists>y \<in> set ys. f x = Inr y"
proof -
  from assms have "list_all2 (\<lambda>x y. f x = Inr y) xs ys" by (simp add: collect_results_Ok)
  then show ?thesis using assms(2) by (induction rule: list_all2_induct) auto
qed

section \<open>Fixed-width integers\<close>

text \<open>
  An \<open>i64\<close> is an \<open>int\<close> in its range. The release profile of the workspace leaves overflow
  checks off, so \<open>+\<close> wraps in two's complement.
\<close>

definition i64_min :: int where "i64_min = - (2 ^ 63)"
definition i64_max :: int where "i64_max = 2 ^ 63 - 1"

definition in_i64 :: "int \<Rightarrow> bool" where
  "in_i64 x \<longleftrightarrow> i64_min \<le> x \<and> x \<le> i64_max"

definition i64_wrap :: "int \<Rightarrow> int" where
  "i64_wrap x = (x + 2 ^ 63) mod 2 ^ 64 - 2 ^ 63"

definition i64_add :: "int \<Rightarrow> int \<Rightarrow> int" where
  "i64_add a b = i64_wrap (a + b)"

definition i64_saturating_add :: "int \<Rightarrow> int \<Rightarrow> int" where
  "i64_saturating_add a b = max i64_min (min i64_max (a + b))"

lemma in_i64_wrap: "in_i64 (i64_wrap x)"
proof -
  have "0 \<le> (x + 2 ^ 63) mod 2 ^ 64 \<and> (x + 2 ^ 63) mod 2 ^ 64 < (2 ^ 64 :: int)"
    by simp
  then show ?thesis
    by (simp add: in_i64_def i64_wrap_def i64_min_def i64_max_def)
qed

lemma i64_wrap_id: "in_i64 x \<Longrightarrow> i64_wrap x = x"
  by (simp add: in_i64_def i64_wrap_def i64_min_def i64_max_def)

lemma i64_add_exact: "in_i64 (a + b) \<Longrightarrow> i64_add a b = a + b"
  by (simp add: i64_add_def i64_wrap_id)

definition u32_max :: nat where "u32_max = 2 ^ 32 - 1"
definition usize_max :: nat where "usize_max = 2 ^ 64 - 1"

definition u32_saturating_add :: "nat \<Rightarrow> nat \<Rightarrow> nat" where
  "u32_saturating_add a b = min u32_max (a + b)"

definition usize_saturating_add :: "nat \<Rightarrow> nat \<Rightarrow> nat" where
  "usize_saturating_add a b = min usize_max (a + b)"

definition usize_saturating_mul :: "nat \<Rightarrow> nat \<Rightarrow> nat" where
  "usize_saturating_mul a b = min usize_max (a * b)"

section \<open>Strings\<close>

subsection \<open>Characters of a UTF-8 string\<close>

definition is_cont :: "char \<Rightarrow> bool" where
  "is_cont c \<longleftrightarrow> digit7 c \<and> \<not> digit6 c"

text \<open>\<open>s.chars()\<close>: each character as the bytes that encode it.\<close>

function chars :: "string \<Rightarrow> string list" where
  "chars [] = []"
| "chars (c # cs) = (c # takeWhile is_cont cs) # chars (dropWhile is_cont cs)"
  by pat_completeness auto
termination
  by (relation "measure length") (auto simp: le_imp_less_Suc length_dropWhile_le)

lemma concat_chars [simp, str_simps]: "concat (chars s) = s"
  by (induction s rule: chars.induct) auto

lemma chars_nonempty: "g \<in> set (chars s) \<Longrightarrow> g \<noteq> []"
  by (induction s rule: chars.induct) auto

lemma chars_inj: "chars s = chars t \<Longrightarrow> s = t"
  by (metis concat_chars)

lemma chars_append:
  "b = [] \<or> \<not> is_cont (hd b) \<Longrightarrow> chars (a @ b) = chars a @ chars b"
proof (induction a rule: chars.induct)
  case (2 c cs)
  show ?case
  proof (cases "\<forall>x \<in> set cs. is_cont x")
    case True
    then have t: "takeWhile is_cont (cs @ b) = cs" "dropWhile is_cont (cs @ b) = b"
      using 2(2) by (cases b; simp)+
    have u: "takeWhile is_cont cs = cs" "dropWhile is_cont cs = []"
      using True by (simp_all add: takeWhile_eq_all_conv dropWhile_eq_Nil_conv)
    show ?thesis by (simp only: append_Cons chars.simps t u append_Nil)
  next
    case False
    then obtain x where x: "x \<in> set cs" "\<not> is_cont x" by blast
    then have "takeWhile is_cont (cs @ b) = takeWhile is_cont cs"
      "dropWhile is_cont (cs @ b) = dropWhile is_cont cs @ b"
      by (simp_all add: takeWhile_append1 dropWhile_append1)
    with 2 show ?thesis by simp
  qed
qed simp

definition is_ascii :: "string \<Rightarrow> bool" where
  "is_ascii s \<longleftrightarrow> list_all (\<lambda>c. \<not> digit7 c) s"

lemma chars_ascii: "is_ascii s \<Longrightarrow> chars s = map (\<lambda>c. [c]) s"
proof (induction s rule: chars.induct)
  case (2 c cs)
  then have na: "takeWhile is_cont cs = []" "dropWhile is_cont cs = cs"
    by (cases cs; simp add: is_ascii_def is_cont_def)+
  with 2 show ?case by (simp add: is_ascii_def)
qed simp

text \<open>\<open>s.is_char_boundary(i)\<close> and \<open>String::truncate\<close>, which panics off a boundary.\<close>

definition is_char_boundary :: "string \<Rightarrow> nat \<Rightarrow> bool" where
  "is_char_boundary s i \<longleftrightarrow>
     i = 0 \<or> i = length s \<or> (i < length s \<and> \<not> is_cont (s ! i))"

definition str_truncate :: "string \<Rightarrow> nat \<Rightarrow> string option" where
  "str_truncate s n =
     (if length s \<le> n then Some s
      else if is_char_boundary s n then Some (take n s) else None)"

subsection \<open>Whitespace and trimming\<close>

text \<open>Unicode \<open>White_Space\<close>, the set Rust's \<open>char::is_whitespace\<close> tests, in UTF-8.\<close>

definition white_space :: "string list" where
  "white_space =
     [[CHR 0x09], [CHR 0x0A], [CHR 0x0B], [CHR 0x0C], [CHR 0x0D], [CHR 0x20],
      [CHR 0xC2, CHR 0x85], [CHR 0xC2, CHR 0xA0], [CHR 0xE1, CHR 0x9A, CHR 0x80]]
     @ map (\<lambda>c. [CHR 0xE2, CHR 0x80, c])
         [CHR 0x80, CHR 0x81, CHR 0x82, CHR 0x83, CHR 0x84, CHR 0x85, CHR 0x86, CHR 0x87,
          CHR 0x88, CHR 0x89, CHR 0x8A, CHR 0xA8, CHR 0xA9, CHR 0xAF]
     @ [[CHR 0xE2, CHR 0x81, CHR 0x9F], [CHR 0xE3, CHR 0x80, CHR 0x80]]"

definition is_ws :: "string \<Rightarrow> bool" where
  "is_ws g \<longleftrightarrow> g \<in> set white_space"

definition trim :: "string \<Rightarrow> string" where
  "trim s = concat (rev (dropWhile is_ws (rev (dropWhile is_ws (chars s)))))"

text \<open>\<open>split_whitespace\<close>: the maximal runs of other characters.\<close>

fun ws_words :: "string \<Rightarrow> string list \<Rightarrow> string list" where
  "ws_words acc [] = (if acc = [] then [] else [acc])"
| "ws_words acc (g # gs) =
     (if is_ws g then (if acc = [] then ws_words [] gs else acc # ws_words [] gs)
      else ws_words (acc @ g) gs)"

definition split_whitespace :: "string \<Rightarrow> string list" where
  "split_whitespace s = ws_words [] (chars s)"

subsection \<open>Splitting, joining and searching\<close>

fun split_by :: "(char \<Rightarrow> bool) \<Rightarrow> string \<Rightarrow> string list" where
  "split_by P [] = [[]]"
| "split_by P (c # cs) =
     (if P c then [] # split_by P cs
      else (case split_by P cs of [] \<Rightarrow> [[c]] | w # ws \<Rightarrow> (c # w) # ws))"

abbreviation split_char :: "char \<Rightarrow> string \<Rightarrow> string list" where
  "split_char d \<equiv> split_by (\<lambda>c. c = d)"

fun join :: "string \<Rightarrow> string list \<Rightarrow> string" where
  "join sep [] = []"
| "join sep [w] = w"
| "join sep (w # ws) = w @ sep @ join sep ws"

definition starts_with :: "string \<Rightarrow> string \<Rightarrow> bool" where
  "starts_with s p \<longleftrightarrow> prefix p s"

definition ends_with :: "string \<Rightarrow> string \<Rightarrow> bool" where
  "ends_with s p \<longleftrightarrow> suffix p s"

fun str_contains :: "string \<Rightarrow> string \<Rightarrow> bool" where
  "str_contains [] p = (p = [])"
| "str_contains (c # cs) p = (prefix p (c # cs) \<or> str_contains cs p)"

fun strip_prefix :: "string \<Rightarrow> string \<Rightarrow> string option" where
  "strip_prefix s [] = Some s"
| "strip_prefix [] (p # ps) = None"
| "strip_prefix (c # cs) (p # ps) = (if c = p then strip_prefix cs ps else None)"

text \<open>\<open>split_once(sep)\<close> at the first occurrence; \<open>rsplit(sep).next()\<close> after the last one.\<close>

fun split_once :: "string \<Rightarrow> string \<Rightarrow> (string \<times> string) option" where
  "split_once [] sep = (if sep = [] then Some ([], []) else None)"
| "split_once (c # cs) sep =
     (case strip_prefix (c # cs) sep of
        Some rest \<Rightarrow> Some ([], rest)
      | None \<Rightarrow> map_option (\<lambda>(l, r). (c # l, r)) (split_once cs sep))"

fun after_last :: "string \<Rightarrow> string \<Rightarrow> string option" where
  "after_last [] sep = (if sep = [] then Some [] else None)"
| "after_last (c # cs) sep =
     (case after_last cs sep of
        Some r \<Rightarrow> Some r
      | None \<Rightarrow> strip_prefix (c # cs) sep)"

definition rsplit_next :: "string \<Rightarrow> string \<Rightarrow> string" where
  "rsplit_next s sep = (case after_last s sep of Some r \<Rightarrow> r | None \<Rightarrow> s)"

text \<open>\<open>trim_end_matches\<close>: a suffix removed as often as it is there.\<close>

function trim_end_matches :: "string \<Rightarrow> string \<Rightarrow> string" where
  "trim_end_matches s p =
     (if p \<noteq> [] \<and> suffix p s then trim_end_matches (take (length s - length p) s) p else s)"
  by pat_completeness auto
termination
proof (relation "measure (\<lambda>(s, p). length s)", simp, goal_cases)
  case (1 s p)
  then have "0 < length p" "length p \<le> length s" by (auto dest: suffix_length_le)
  then show ?case by (cases p) auto
qed

declare trim_end_matches.simps [simp del]

definition replace_char :: "char \<Rightarrow> char \<Rightarrow> string \<Rightarrow> string" where
  "replace_char a b s = map (\<lambda>c. if c = a then b else c) s"

subsection \<open>ASCII classes and replacements\<close>

definition ascii_digit :: "char \<Rightarrow> bool" where
  "ascii_digit c \<longleftrightarrow> c \<in> set ''0123456789''"

definition ascii_lowercase :: "char \<Rightarrow> bool" where
  "ascii_lowercase c \<longleftrightarrow> c \<in> set ''abcdefghijklmnopqrstuvwxyz''"

definition ascii_uppercase :: "char \<Rightarrow> bool" where
  "ascii_uppercase c \<longleftrightarrow> c \<in> set ''ABCDEFGHIJKLMNOPQRSTUVWXYZ''"

definition ascii_alphanumeric :: "char \<Rightarrow> bool" where
  "ascii_alphanumeric c \<longleftrightarrow> ascii_digit c \<or> ascii_lowercase c \<or> ascii_uppercase c"

text \<open>\<open>s.replace([a, b, ..], to)\<close> for single ASCII characters, and the character \<open>U+2026\<close>.\<close>

definition replace_any :: "char list \<Rightarrow> char \<Rightarrow> string \<Rightarrow> string" where
  "replace_any cs d s = map (\<lambda>c. if c \<in> set cs then d else c) s"

definition ellipsis :: string where
  "ellipsis = [CHR 0xE2, CHR 0x80, CHR 0xA6]"

subsection \<open>Lines, one-sided trimming and decimals\<close>

definition trim_start :: "string \<Rightarrow> string" where
  "trim_start s = concat (dropWhile is_ws (chars s))"

definition trim_end :: "string \<Rightarrow> string" where
  "trim_end s = concat (rev (dropWhile is_ws (rev (chars s))))"

definition trim_start_chars :: "char list \<Rightarrow> string \<Rightarrow> string" where
  "trim_start_chars cs s = dropWhile (\<lambda>c. c \<in> set cs) s"

definition trim_end_chars :: "char list \<Rightarrow> string \<Rightarrow> string" where
  "trim_end_chars cs s = rev (dropWhile (\<lambda>c. c \<in> set cs) (rev s))"

text \<open>\<open>lines()\<close>: a line ends at \<open>\n\<close>, which takes a preceding \<open>\r\<close> with it.\<close>

definition strip_cr :: "string \<Rightarrow> string" where
  "strip_cr l = (if l \<noteq> [] \<and> last l = CHR 0x0D then butlast l else l)"

definition str_lines :: "string \<Rightarrow> string list" where
  "str_lines s =
     (let ps = split_char (CHR 0x0A) s in
      map strip_cr (butlast ps) @ (if last ps = [] then [] else [last ps]))"

fun dec :: "nat \<Rightarrow> string" where
  "dec n = (if n < 10 then [char_of (48 + n)] else dec (n div 10) @ [char_of (48 + n mod 10)])"

declare dec.simps [simp del]

subsection \<open>Laws\<close>

lemma split_by_nonempty [simp]: "split_by P s \<noteq> []"
  by (induction s) (auto split: list.splits)

lemma split_by_none: "\<forall>c \<in> set s. \<not> P c \<Longrightarrow> split_by P s = [s]"
  by (induction s) auto

lemma split_by_append [str_simps]:
  "P d \<Longrightarrow> split_by P (a @ d # b) = split_by P a @ split_by P b"
proof (induction a)
  case (Cons c a)
  then show ?case by (cases "split_by P a") auto
qed simp

lemma split_by_parts:
  "w \<in> set (split_by P s) \<Longrightarrow> c \<in> set w \<Longrightarrow> \<not> P c \<and> c \<in> set s"
proof (induction s arbitrary: w)
  case (Cons a s)
  obtain v vs where v: "split_by P s = v # vs" by (cases "split_by P s") auto
  have IH: "u = v \<or> u \<in> set vs \<Longrightarrow> c \<in> set u \<Longrightarrow> \<not> P c \<and> c \<in> set s" for u
    using Cons.IH [of u] v by auto
  show ?case
  proof (cases "P a")
    case True
    with Cons.prems v IH [of w] show ?thesis by auto
  next
    case False
    with Cons.prems v have "w = a # v \<or> w \<in> set vs" by auto
    with Cons.prems(2) False IH [of v] IH [of w] show ?thesis by auto
  qed
qed simp

lemma join_Cons: "ws \<noteq> [] \<Longrightarrow> join sep (w # ws) = w @ sep @ join sep ws"
  by (cases ws) auto

lemma join_append:
  "xs \<noteq> [] \<Longrightarrow> ys \<noteq> [] \<Longrightarrow> join sep (xs @ ys) = join sep xs @ sep @ join sep ys"
proof (induction xs)
  case (Cons x xs)
  then show ?case by (cases xs) (auto simp: join_Cons)
qed simp

lemma join_split [str_simps]: "join [d] (split_char d s) = s"
proof (induction s)
  case (Cons c s)
  obtain w ws where w: "split_char d s = w # ws" by (cases "split_char d s") auto
  with Cons show ?case by (cases ws) (auto simp: join_Cons)
qed simp

lemma split_join:
  "ws \<noteq> [] \<Longrightarrow> \<forall>w \<in> set ws. d \<notin> set w \<Longrightarrow> split_char d (join [d] ws) = ws"
proof (induction ws)
  case (Cons w ws)
  have w: "split_char d w = [w]" using Cons.prems by (intro split_by_none) auto
  show ?case
  proof (cases "ws = []")
    case False
    with Cons w show ?thesis
      using split_by_append [of "\<lambda>c. c = d" d w "join [d] ws"] by (auto simp: join_Cons)
  qed (simp add: w)
qed simp

lemma strip_prefix_Some: "strip_prefix s p = Some r \<longleftrightarrow> s = p @ r"
  by (induction s p rule: strip_prefix.induct) auto

lemma strip_prefix_append [simp]: "strip_prefix (p @ s) p = Some s"
  by (simp add: strip_prefix_Some)

lemma trim_end_matches_form:
  "p \<noteq> [] \<Longrightarrow> \<exists>n. s = trim_end_matches s p @ concat (replicate n p)"
proof (induction s p rule: trim_end_matches.induct)
  case (1 s p)
  show ?case
  proof (cases "suffix p s")
    case True
    then obtain t where t: "s = t @ p" by (auto simp: suffix_def)
    with 1 True obtain n where "t = trim_end_matches t p @ concat (replicate n p)" by auto
    moreover have "concat (replicate n p) @ p = concat (replicate (Suc n) p)" by (induction n) auto
    ultimately have "s = trim_end_matches t p @ concat (replicate (Suc n) p)"
      using t by (metis append_assoc)
    moreover have "trim_end_matches s p = trim_end_matches t p"
      using True 1 t by (subst trim_end_matches.simps) simp
    ultimately show ?thesis by metis
  next
    case False
    then show ?thesis
      by (intro exI [of _ 0]) (subst trim_end_matches.simps, simp)
  qed
qed

subsection \<open>Case\<close>

text \<open>The lower-case letter of an ASCII capital has bit 5 set.\<close>

definition ascii_lower :: "char \<Rightarrow> char" where
  "ascii_lower c =
     (if ascii_uppercase c
      then Char (digit0 c) (digit1 c) (digit2 c) (digit3 c) (digit4 c) True (digit6 c) (digit7 c)
      else c)"

definition to_ascii_lowercase :: "string \<Rightarrow> string" where
  "to_ascii_lowercase s = map ascii_lower s"

text \<open>
  \<open>to_lowercase\<close> follows the Unicode tables off ASCII. The tables are a parameter \<open>u\<close> of the
  definitions that use it; on ASCII text it is \<open>to_ascii_lowercase\<close>.
\<close>

definition to_lowercase :: "(string \<Rightarrow> string) \<Rightarrow> string \<Rightarrow> string" where
  "to_lowercase u s = (if is_ascii s then to_ascii_lowercase s else u s)"

end
