(* ===== verification/Lifecycle.thy ===== *)
theory Lifecycle
  imports Rust_Prelude
begin

text \<open>
  The contract shared by Bridge's lifecycle machines (\<open>worker_lifecycle.rs\<close> and
  \<open>agent_lifecycle.rs\<close>): an enum with a complete list of its states, a textual form and its
  parser, a table of legal edges and a \<open>transition_to\<close> that accepts exactly the table. The
  locale's lemmas are about runs: what a sequence of requested transitions can reach, and
  which states it has to pass through.
\<close>

text \<open>A run requests transitions in order and stops at the first refusal, as \<open>?\<close> does.\<close>

fun drive :: "('m \<Rightarrow> 's \<Rightarrow> ('e, 'm) result) \<Rightarrow> 'm \<Rightarrow> 's list \<Rightarrow> ('e, 'm) result" where
  "drive step m [] = Ok m"
| "drive step m (t # ts) = (case step m t of Inl e \<Rightarrow> Err e | Inr m' \<Rightarrow> drive step m' ts)"

lemma drive_append:
  "drive step m (xs @ ys) =
     (case drive step m xs of Inl e \<Rightarrow> Err e | Inr m' \<Rightarrow> drive step m' ys)"
  by (induction xs arbitrary: m) (auto split: sum.splits)

locale lifecycle =
  fixes all_states :: "'s list"
    and as_str :: "'s \<Rightarrow> string"
    and from_str :: "string \<Rightarrow> ('p, 's) result"
    and legal :: "('s \<times> 's) list"
    and state :: "'m \<Rightarrow> 's"
    and transition_to :: "'m \<Rightarrow> 's \<Rightarrow> ('e, 'm) result"
  assumes from_str_finds:
      "ok (from_str v) = find (\<lambda>s. as_str s = v) all_states"
    and all_complete: "s \<in> set all_states"
    and as_str_inj: "as_str s = as_str t \<Longrightarrow> s = t"
    and transition_legal: "(state m, t) \<in> set legal \<Longrightarrow> \<exists>m'. transition_to m t = Inr m'"
    and transition_Ok:
      "transition_to m t = Inr m' \<Longrightarrow> (state m, t) \<in> set legal \<and> state m' = t"
begin

lemma find_as_str: "find (\<lambda>t. as_str t = v) xs = Some s \<Longrightarrow> as_str s = v"
  by (induction xs) (auto split: if_splits)

lemma find_as_str_mem: "s \<in> set xs \<Longrightarrow> find (\<lambda>t. as_str t = as_str s) xs = Some s"
  by (induction xs) (auto dest: as_str_inj)

lemma parse_exact: "from_str v = Inr s \<longleftrightarrow> v = as_str s"
proof
  assume "from_str v = Inr s"
  then have "find (\<lambda>t. as_str t = v) all_states = Some s"
    using from_str_finds [of v] by simp
  then show "v = as_str s" by (rule find_as_str [symmetric])
next
  assume "v = as_str s"
  then have "ok (from_str v) = Some s"
    using from_str_finds [of v] find_as_str_mem [OF all_complete] by simp
  then show "from_str v = Inr s" by (cases "from_str v") auto
qed

lemma parse_print: "from_str (as_str s) = Inr s"
  by (simp add: parse_exact)

lemma parse_fails: "is_ok (from_str v) = (v \<in> range as_str)"
  by (cases "from_str v") (auto simp: parse_exact parse_print)

lemma accepts_iff: "is_ok (transition_to m t) \<longleftrightarrow> (state m, t) \<in> set legal"
  using transition_legal [of m t] transition_Ok [of m t]
  by (cases "transition_to m t") auto

lemma drive_last:
  "drive transition_to m ts = Inr m' \<Longrightarrow> ts \<noteq> [] \<Longrightarrow> state m' = last ts"
proof (induction ts arbitrary: m)
  case (Cons t ts)
  then obtain n where "transition_to m t = Inr n" "drive transition_to n ts = Inr m'"
    by (auto split: sum.splits)
  with Cons.IH [of n] transition_Ok [of m t n] show ?case by auto
qed simp

text \<open>A set of states no legal edge leaves is never left by a run.\<close>

lemma drive_closed:
  assumes "\<And>a b. (a, b) \<in> set legal \<Longrightarrow> a \<in> S \<Longrightarrow> b \<in> S"
    and "drive transition_to m ts = Inr m'" and "state m \<in> S"
  shows "state m' \<in> S"
  using assms(2,3)
proof (induction ts arbitrary: m)
  case (Cons t ts)
  then obtain n where n: "transition_to m t = Inr n" "drive transition_to n ts = Inr m'"
    by (auto split: sum.splits)
  with transition_Ok [OF n(1)] assms(1) Cons.prems(2) have "state n \<in> S" by metis
  with Cons.IH n(2) show ?case by blast
qed simp

text \<open>When every edge into \<open>T\<close> from outside lands on a gate, a run into \<open>T\<close> visits a gate.\<close>

lemma drive_gate:
  assumes gate: "\<And>a b. (a, b) \<in> set legal \<Longrightarrow> a \<notin> T \<Longrightarrow> b \<in> T \<Longrightarrow> b \<in> G"
    and "drive transition_to m ts = Inr m'" and "state m \<notin> T" and "state m' \<in> T"
  shows "\<exists>g \<in> G. g \<in> set ts"
  using assms(2,3)
proof (induction ts arbitrary: m)
  case Nil
  with assms(4) show ?case by simp
next
  case (Cons t ts)
  then obtain n where n: "transition_to m t = Inr n" "drive transition_to n ts = Inr m'"
    by (auto split: sum.splits)
  note edge = transition_Ok [OF n(1)]
  show ?case
  proof (cases "state n \<in> T")
    case True
    with edge gate [of "state m" t] Cons.prems(2) have "t \<in> G" by auto
    then show ?thesis by auto
  next
    case False
    with Cons.IH n(2) show ?thesis by auto
  qed
qed

text \<open>A state with no outgoing edge refuses every request and ends every run.\<close>

lemma no_exit:
  assumes "\<And>b. (state m, b) \<notin> set legal"
  shows "drive transition_to m ts = Inr m' \<longleftrightarrow> ts = [] \<and> m' = m"
proof (cases ts)
  case (Cons t us)
  have "\<not> is_ok (transition_to m t)" using assms accepts_iff by blast
  then show ?thesis using Cons by (cases "transition_to m t") auto
qed auto

end

end
