(* ===== verification/Worker_Lifecycle.thy ===== *)
theory Worker_Lifecycle
  imports Lifecycle
begin

text \<open>
  The worker lifecycle machine of \<open>bridge-core/src/worker_lifecycle.rs\<close>: the states, their
  stored text, the legal edges in the order of \<open>LEGAL_TRANSITIONS\<close>, and \<open>transition_to\<close>. The
  properties say that the stored text parses back, that a stop lands from every live state and
  that an ended worker stays ended.
\<close>

datatype worker_state =
  Starting | Working | Waiting | Warm | Checkpointing | Stopped | Resuming | Restored
  | Failed | Completed | Cancelled

definition worker_all :: "worker_state list" where
  "worker_all = [Starting, Working, Waiting, Warm, Checkpointing, Stopped, Resuming, Restored,
     Failed, Completed, Cancelled]"

fun worker_as_str :: "worker_state \<Rightarrow> string" where
  "worker_as_str Starting = ''starting''"
| "worker_as_str Working = ''working''"
| "worker_as_str Waiting = ''waiting''"
| "worker_as_str Warm = ''warm''"
| "worker_as_str Checkpointing = ''checkpointing''"
| "worker_as_str Stopped = ''stopped''"
| "worker_as_str Resuming = ''resuming''"
| "worker_as_str Restored = ''restored''"
| "worker_as_str Failed = ''failed''"
| "worker_as_str Completed = ''completed''"
| "worker_as_str Cancelled = ''cancelled''"

definition worker_is_terminal :: "worker_state \<Rightarrow> bool" where
  "worker_is_terminal s \<longleftrightarrow> s = Completed \<or> s = Cancelled"

definition worker_legal :: "(worker_state \<times> worker_state) list" where
  "worker_legal =
     [(Starting, Working),
      (Working, Waiting),
      (Waiting, Working),
      (Working, Warm),
      (Working, Completed),
      (Working, Checkpointing),
      (Warm, Working),
      (Warm, Checkpointing),
      (Checkpointing, Stopped),
      (Stopped, Resuming),
      (Resuming, Working),
      (Resuming, Restored),
      (Restored, Working),
      (Working, Failed),
      (Failed, Resuming),
      (Failed, Completed),
      (Working, Cancelled),
      (Waiting, Cancelled),
      (Starting, Cancelled),
      (Warm, Cancelled),
      (Checkpointing, Cancelled),
      (Resuming, Cancelled),
      (Restored, Cancelled),
      (Failed, Cancelled),
      (Stopped, Cancelled)]"

definition worker_can_transition_to :: "worker_state \<Rightarrow> worker_state \<Rightarrow> bool" where
  "worker_can_transition_to s next \<longleftrightarrow> (s, next) \<in> set worker_legal"

datatype parse_worker_state_error = ParseWorkerLifecycleStateError string

fun parse_worker_state_error_display :: "parse_worker_state_error \<Rightarrow> string" where
  "parse_worker_state_error_display (ParseWorkerLifecycleStateError v) =
     ''unknown worker lifecycle state: '' @ v"

definition worker_from_str :: "string \<Rightarrow> (parse_worker_state_error, worker_state) result" where
  "worker_from_str value =
     (case find (\<lambda>s. worker_as_str s = value) worker_all of
        Some s \<Rightarrow> Ok s
      | None \<Rightarrow> Err (ParseWorkerLifecycleStateError value))"

record invalid_worker_transition =
  wt_from :: worker_state
  wt_to :: worker_state

definition invalid_worker_transition_display :: "invalid_worker_transition \<Rightarrow> string" where
  "invalid_worker_transition_display e =
     ''illegal worker lifecycle transition: '' @ worker_as_str (wt_from e) @ '' -> ''
       @ worker_as_str (wt_to e)"

definition worker_validate_transition ::
    "worker_state \<Rightarrow> worker_state \<Rightarrow> (invalid_worker_transition, unit) result" where
  "worker_validate_transition src dst =
     (if worker_can_transition_to src dst then Ok ()
      else Err \<lparr>wt_from = src, wt_to = dst\<rparr>)"

record worker_lifecycle =
  wl_state :: worker_state

definition worker_lifecycle_new :: "worker_state \<Rightarrow> worker_lifecycle" where
  "worker_lifecycle_new s = \<lparr>wl_state = s\<rparr>"

definition worker_transition_to ::
    "worker_lifecycle \<Rightarrow> worker_state \<Rightarrow> (invalid_worker_transition, worker_lifecycle) result"
  where
  "worker_transition_to m next =
     (case worker_validate_transition (wl_state m) next of
        Inl e \<Rightarrow> Err e
      | Inr _ \<Rightarrow> Ok (m\<lparr>wl_state := next\<rparr>))"

lemmas worker_simps =
  worker_can_transition_to_def worker_validate_transition_def worker_transition_to_def
  worker_is_terminal_def

lemma worker_all_complete: "s \<in> set worker_all"
  by (cases s) (simp_all add: worker_all_def)

lemma worker_as_str_inj: "worker_as_str s = worker_as_str t \<Longrightarrow> s = t"
  by (cases s; cases t) simp_all

lemma worker_transition_to_Ok:
  "worker_transition_to m t = Inr m' \<longleftrightarrow>
     (wl_state m, t) \<in> set worker_legal \<and> m' = m\<lparr>wl_state := t\<rparr>"
  by (auto simp: worker_simps)

interpretation wl: lifecycle worker_all worker_as_str worker_from_str worker_legal wl_state
    worker_transition_to
  by unfold_locales
    (auto simp: worker_from_str_def worker_all_complete worker_as_str_inj worker_transition_to_Ok
      split: option.splits)

lemma worker_terminal_no_exit: "worker_is_terminal s \<Longrightarrow> (s, t) \<notin> set worker_legal"
  by (auto simp: worker_is_terminal_def worker_legal_def)

lemma worker_live_cancels:
  "\<not> worker_is_terminal s \<Longrightarrow> (s, Cancelled) \<in> set worker_legal"
  by (cases s) (simp_all add: worker_is_terminal_def worker_legal_def)

text \<open>
  A lifecycle state survives being stored as text: \<open>from_str\<close> accepts exactly the texts
  \<open>as_str\<close> produces and returns the state that produced them; every other text is the parse
  error that quotes it.
\<close>
theorem worker_text_round_trip:
  "(worker_from_str v = Ok s) = (v = worker_as_str s)
   \<and> (worker_from_str v = Err e) =
        (v \<notin> range worker_as_str \<and> e = ParseWorkerLifecycleStateError v)"
proof -
  have "worker_from_str v = Err e \<Longrightarrow> e = ParseWorkerLifecycleStateError v"
    by (auto simp: worker_from_str_def split: option.splits)
  moreover have "v \<notin> range worker_as_str \<Longrightarrow>
      worker_from_str v = Err (ParseWorkerLifecycleStateError v)"
    using wl.parse_fails [of v] by (auto simp: worker_from_str_def split: option.splits)
  ultimately show ?thesis using wl.parse_exact [of v s] wl.parse_fails [of v] by auto
qed

text \<open>
  A stop always lands, and an ended worker stays ended: cancelling is accepted in exactly
  the non-terminal states, and from a terminal state no sequence of requests other than the
  empty one is accepted.
\<close>
theorem worker_stop_lands_and_ends:
  "is_ok (worker_transition_to m Cancelled) = (\<not> worker_is_terminal (wl_state m))
   \<and> (worker_is_terminal (wl_state m) =
        (\<forall>ts m'. drive worker_transition_to m ts = Inr m' \<longleftrightarrow> ts = [] \<and> m' = m))"
proof (intro conjI)
  show cancels: "is_ok (worker_transition_to m Cancelled) = (\<not> worker_is_terminal (wl_state m))"
    using worker_live_cancels worker_terminal_no_exit wl.accepts_iff by blast
  show "worker_is_terminal (wl_state m) =
        (\<forall>ts m'. drive worker_transition_to m ts = Inr m' \<longleftrightarrow> ts = [] \<and> m' = m)"
  proof
    assume "worker_is_terminal (wl_state m)"
    then show "\<forall>ts m'. drive worker_transition_to m ts = Inr m' \<longleftrightarrow> ts = [] \<and> m' = m"
      using wl.no_exit [of m] worker_terminal_no_exit by blast
  next
    assume stuck: "\<forall>ts m'. drive worker_transition_to m ts = Inr m' \<longleftrightarrow> ts = [] \<and> m' = m"
    show "worker_is_terminal (wl_state m)"
    proof (rule ccontr)
      assume "\<not> worker_is_terminal (wl_state m)"
      with cancels obtain n where "worker_transition_to m Cancelled = Inr n"
        by (cases "worker_transition_to m Cancelled") auto
      then have "drive worker_transition_to m [Cancelled] = Inr n" by simp
      with stuck show False by blast
    qed
  qed
qed

text \<open>
  A worker that stopped or failed works again only through \<open>resuming\<close>: every accepted run
  from \<open>stopped\<close> or \<open>failed\<close> to \<open>working\<close> requests \<open>resuming\<close> on the way.
\<close>
theorem worker_resumes_before_working:
  assumes "wl_state m \<in> {Stopped, Failed}"
    and "drive worker_transition_to m ts = Inr m'" and "wl_state m' = Working"
  shows "Resuming \<in> set ts"
proof -
  have "\<exists>g \<in> {Resuming}. g \<in> set ts"
  proof (rule wl.drive_gate [OF _ assms(2)])
    fix a b
    assume "(a, b) \<in> set worker_legal" "a \<notin> - {Stopped, Failed, Completed, Cancelled}"
      "b \<in> - {Stopped, Failed, Completed, Cancelled}"
    then show "b \<in> {Resuming}" by (auto simp: worker_legal_def)
  qed (use assms in auto)
  then show ?thesis by simp
qed

theorem worker_resumes_before_working_witness:
  "Resuming \<in> set [Resuming, Restored, Working]"
proof (rule worker_resumes_before_working)
  show "wl_state (worker_lifecycle_new Stopped) \<in> {Stopped, Failed}"
    by (simp add: worker_lifecycle_new_def)
  show "drive worker_transition_to (worker_lifecycle_new Stopped) [Resuming, Restored, Working]
      = Inr (worker_lifecycle_new Working)"
    by (simp add: worker_lifecycle_new_def worker_simps worker_legal_def)
  show "wl_state (worker_lifecycle_new Working) = Working"
    by (simp add: worker_lifecycle_new_def)
qed

end
