(* ===== verification/Frame_Queue.thy ===== *)
theory Frame_Queue
  imports Rust_Prelude
begin

text \<open>
  The bounded provider-frame queue of \<open>bridge-core/src/frame_queue.rs\<close>: the shared state under
  its mutex, each critical section as a function, and the producer and consumer threads as a
  step relation in which waiting on a condition variable and being notified are explicit.
  The properties are the queue's promises: the budget, no lost or reordered durable frame,
  exact drop counters, and no pair of threads waiting for each other.

  Byte counts and lengths are \<open>nat\<close>: they measure frames that are resident in memory, so the
  \<open>usize\<close> sums of the code cannot overflow. Removing \<open>frame.len()\<close> from \<open>bytes\<close> is the
  truncating subtraction of \<open>nat\<close>; the invariant shows that it never truncates.
\<close>

section \<open>State\<close>

record queue_budget =
  max_items :: nat
  max_bytes :: nat

definition queue_budget_default :: queue_budget where
  "queue_budget_default = \<lparr>max_items = 2048, max_bytes = 8 * 1024 * 1024\<rparr>"

record queue_metrics_snapshot =
  m_depth :: nat
  m_bytes :: nat
  m_high_water_bytes :: nat
  m_dropped_transient :: nat
  m_dropped_foreign :: nat

datatype frame_class = Durable | Transient

type_synonym frame = "frame_class \<times> string"

record queue_state =
  q_frames :: "frame list"
  q_bytes :: nat
  high_water_bytes :: nat
  dropped_transient :: nat
  dropped_foreign :: nat
  sender_alive :: bool
  receiver_alive :: bool

definition bounded_frame_queue :: queue_state where
  "bounded_frame_queue =
     \<lparr>q_frames = [], q_bytes = 0, high_water_bytes = 0, dropped_transient = 0, dropped_foreign = 0,
      sender_alive = True, receiver_alive = True\<rparr>"

section \<open>Critical sections\<close>

definition over_budget :: "queue_budget \<Rightarrow> queue_state \<Rightarrow> nat \<Rightarrow> bool" where
  "over_budget b st incoming \<longleftrightarrow>
     max_items b \<le> length (q_frames st) \<or> max_bytes b < q_bytes st + incoming"

text \<open>\<open>frames.iter().position(\<dots>)\<close> and \<open>frames.remove(position)\<close> in one.\<close>

fun remove_transient :: "frame list \<Rightarrow> (string \<times> frame list) option" where
  "remove_transient [] = None"
| "remove_transient ((c, f) # fs) =
     (if c = Transient then Some (f, fs)
      else map_option (\<lambda>(g, rest). (g, (c, f) # rest)) (remove_transient fs))"

lemma remove_transient_length:
  "remove_transient fs = Some (f, rest) \<Longrightarrow> length fs = Suc (length rest)"
  by (induction fs arbitrary: rest rule: remove_transient.induct) (auto split: if_splits)

function evict_transients :: "queue_budget \<Rightarrow> queue_state \<Rightarrow> nat \<Rightarrow> queue_state" where
  "evict_transients b st incoming =
     (if over_budget b st incoming
      then (case remove_transient (q_frames st) of
              None \<Rightarrow> st
            | Some (f, rest) \<Rightarrow>
                evict_transients b
                  (st\<lparr>q_frames := rest, q_bytes := q_bytes st - length f,
                      dropped_transient := dropped_transient st + 1\<rparr>) incoming)
      else st)"
  by pat_completeness auto
termination
  by (relation "measure (\<lambda>(b, st, n). length (q_frames st))")
    (auto dest: remove_transient_length)

declare evict_transients.simps [simp del]

definition push :: "queue_state \<Rightarrow> frame_class \<Rightarrow> string \<Rightarrow> queue_state" where
  "push st c f =
     (let n = q_bytes st + length f in
      st\<lparr>q_bytes := n, high_water_bytes := max (high_water_bytes st) n,
         q_frames := q_frames st @ [(c, f)]\<rparr>)"

definition snapshot :: "queue_state \<Rightarrow> queue_metrics_snapshot" where
  "snapshot st =
     \<lparr>m_depth = length (q_frames st), m_bytes = q_bytes st,
      m_high_water_bytes = high_water_bytes st, m_dropped_transient = dropped_transient st,
      m_dropped_foreign = dropped_foreign st\<rparr>"

text \<open>One turn of the loop of \<open>send_durable\<close>, up to its return or its wait.\<close>

datatype send_outcome = Sent | SendDisconnected | SendWait

definition send_durable :: "queue_budget \<Rightarrow> queue_state \<Rightarrow> string \<Rightarrow> send_outcome \<times> queue_state"
  where
  "send_durable b st f =
     (if \<not> receiver_alive st then (SendDisconnected, st)
      else let st' = evict_transients b st (length f) in
        if \<not> over_budget b st' (length f) \<or> q_frames st' = []
        then (Sent, push st' Durable f)
        else (SendWait, st'))"

datatype disconnected = Disconnected

definition send_transient ::
    "queue_budget \<Rightarrow> queue_state \<Rightarrow> string \<Rightarrow> (disconnected, bool) result \<times> queue_state" where
  "send_transient b st f =
     (if \<not> receiver_alive st then (Err Disconnected, st)
      else if over_budget b st (length f)
      then (Ok False, st\<lparr>dropped_transient := dropped_transient st + 1\<rparr>)
      else (Ok True, push st Transient f))"

definition record_foreign_drop :: "queue_state \<Rightarrow> queue_state" where
  "record_foreign_drop st = st\<lparr>dropped_foreign := dropped_foreign st + 1\<rparr>"

definition drop_sender :: "queue_state \<Rightarrow> queue_state" where
  "drop_sender st = st\<lparr>sender_alive := False\<rparr>"

definition drop_receiver :: "queue_state \<Rightarrow> queue_state" where
  "drop_receiver st = st\<lparr>receiver_alive := False\<rparr>"

text \<open>One turn of the loop of \<open>recv\<close>.\<close>

datatype recv_outcome = Received frame | RecvDisconnected | RecvWait

definition recv :: "queue_state \<Rightarrow> recv_outcome \<times> queue_state" where
  "recv st =
     (case q_frames st of
        (c, f) # rest \<Rightarrow>
          (Received (c, f), st\<lparr>q_frames := rest, q_bytes := q_bytes st - length f\<rparr>)
      | [] \<Rightarrow> if \<not> sender_alive st then (RecvDisconnected, st) else (RecvWait, st))"

section \<open>Threads\<close>

text \<open>
  \<open>FrameSender\<close> and \<open>FrameReceiver\<close> are not \<open>Clone\<close>: one producer and one consumer thread. A
  thread is outside the queue, about to take the lock for its call, or waiting on its condition
  variable; notifying a waiting thread sends it back for the lock. The last three fields record
  the history the properties speak of: the frames accepted and delivered, in order, and the
  number of transient frames offered while the receiver was alive.
\<close>

datatype sender = SIdle | STrying string | SWaiting string | SGone
datatype receiver = RIdle | RTrying | RWaiting | RGone

record sys =
  sys_q :: queue_state
  snd_th :: sender
  rcv_th :: receiver
  accepted :: "frame list"
  delivered :: "frame list"
  offered :: nat

fun wake_sender :: "sender \<Rightarrow> sender" where
  "wake_sender (SWaiting f) = STrying f"
| "wake_sender s = s"

fun wake_receiver :: "receiver \<Rightarrow> receiver" where
  "wake_receiver RWaiting = RTrying"
| "wake_receiver r = r"

definition init_sys :: sys where
  "init_sys = \<lparr>sys_q = bounded_frame_queue, snd_th = SIdle, rcv_th = RIdle, accepted = [],
     delivered = [], offered = 0\<rparr>"

inductive qstep :: "queue_budget \<Rightarrow> sys \<Rightarrow> sys \<Rightarrow> bool" for b :: queue_budget where
  durable_call: "snd_th s = SIdle \<Longrightarrow> qstep b s (s\<lparr>snd_th := STrying f\<rparr>)"
| durable_sent: "snd_th s = STrying f \<Longrightarrow> send_durable b (sys_q s) f = (Sent, st) \<Longrightarrow>
    qstep b s (s\<lparr>sys_q := st, snd_th := SIdle, rcv_th := wake_receiver (rcv_th s),
      accepted := accepted s @ [(Durable, f)]\<rparr>)"
| durable_refused: "snd_th s = STrying f \<Longrightarrow> send_durable b (sys_q s) f = (SendDisconnected, st) \<Longrightarrow>
    qstep b s (s\<lparr>sys_q := st, snd_th := SIdle\<rparr>)"
| durable_waits: "snd_th s = STrying f \<Longrightarrow> send_durable b (sys_q s) f = (SendWait, st) \<Longrightarrow>
    qstep b s (s\<lparr>sys_q := st, snd_th := SWaiting f\<rparr>)"
| transient_queued: "snd_th s = SIdle \<Longrightarrow> send_transient b (sys_q s) f = (Inr True, st) \<Longrightarrow>
    qstep b s (s\<lparr>sys_q := st, rcv_th := wake_receiver (rcv_th s),
      accepted := accepted s @ [(Transient, f)], offered := offered s + 1\<rparr>)"
| transient_shed: "snd_th s = SIdle \<Longrightarrow> send_transient b (sys_q s) f = (Inr False, st) \<Longrightarrow>
    qstep b s (s\<lparr>sys_q := st, offered := offered s + 1\<rparr>)"
| transient_refused: "snd_th s = SIdle \<Longrightarrow> send_transient b (sys_q s) f = (Inl Disconnected, st) \<Longrightarrow>
    qstep b s (s\<lparr>sys_q := st\<rparr>)"
| foreign: "snd_th s = SIdle \<Longrightarrow> qstep b s (s\<lparr>sys_q := record_foreign_drop (sys_q s)\<rparr>)"
| sender_drops: "snd_th s = SIdle \<Longrightarrow>
    qstep b s (s\<lparr>sys_q := drop_sender (sys_q s), snd_th := SGone, rcv_th := wake_receiver (rcv_th s)\<rparr>)"
| recv_call: "rcv_th s = RIdle \<Longrightarrow> qstep b s (s\<lparr>rcv_th := RTrying\<rparr>)"
| recv_frame: "rcv_th s = RTrying \<Longrightarrow> recv (sys_q s) = (Received f, st) \<Longrightarrow>
    qstep b s (s\<lparr>sys_q := st, rcv_th := RIdle, snd_th := wake_sender (snd_th s),
      delivered := delivered s @ [f]\<rparr>)"
| recv_ends: "rcv_th s = RTrying \<Longrightarrow> recv (sys_q s) = (RecvDisconnected, st) \<Longrightarrow>
    qstep b s (s\<lparr>sys_q := st, rcv_th := RIdle\<rparr>)"
| recv_waits: "rcv_th s = RTrying \<Longrightarrow> recv (sys_q s) = (RecvWait, st) \<Longrightarrow>
    qstep b s (s\<lparr>sys_q := st, rcv_th := RWaiting\<rparr>)"
| receiver_drops: "rcv_th s = RIdle \<Longrightarrow>
    qstep b s (s\<lparr>sys_q := drop_receiver (sys_q s), rcv_th := RGone, snd_th := wake_sender (snd_th s)\<rparr>)"
| spurious_sender: "qstep b s (s\<lparr>snd_th := wake_sender (snd_th s)\<rparr>)"
| spurious_receiver: "qstep b s (s\<lparr>rcv_th := wake_receiver (rcv_th s)\<rparr>)"

abbreviation reachable :: "queue_budget \<Rightarrow> sys \<Rightarrow> bool" where
  "reachable b s \<equiv> (qstep b)\<^sup>*\<^sup>* init_sys s"

section \<open>Eviction\<close>

abbreviation durables :: "frame list \<Rightarrow> frame list" where
  "durables fs \<equiv> filter (\<lambda>x. fst x = Durable) fs"

abbreviation transients :: "frame list \<Rightarrow> frame list" where
  "transients fs \<equiv> filter (\<lambda>x. fst x = Transient) fs"

definition total_bytes :: "frame list \<Rightarrow> nat" where
  "total_bytes fs = sum_list (map (length \<circ> snd) fs)"

lemma total_bytes_simps [simp]:
  "total_bytes [] = 0" "total_bytes (x # fs) = length (snd x) + total_bytes fs"
  "total_bytes (fs @ gs) = total_bytes fs + total_bytes gs"
  by (simp_all add: total_bytes_def)

lemma remove_transient_None: "remove_transient fs = None \<longleftrightarrow> transients fs = []"
  by (induction fs rule: remove_transient.induct) auto

lemma remove_transient_Some:
  assumes "remove_transient fs = Some (f, rest)"
  shows "durables rest = durables fs" "subseq rest fs"
    "length (transients fs) = Suc (length (transients rest))"
    "total_bytes fs = length f + total_bytes rest"
  using assms
  by (induction fs arbitrary: rest rule: remove_transient.induct) (auto split: if_splits)

text \<open>What evicting may change: transient frames leave, each one counted, nothing else moves.\<close>

definition sheds :: "queue_state \<Rightarrow> queue_state \<Rightarrow> bool" where
  "sheds st st' \<longleftrightarrow>
     durables (q_frames st') = durables (q_frames st)
     \<and> subseq (q_frames st') (q_frames st)
     \<and> dropped_transient st' + length (transients (q_frames st'))
         = dropped_transient st + length (transients (q_frames st))
     \<and> (q_bytes st = total_bytes (q_frames st) \<longrightarrow> q_bytes st' = total_bytes (q_frames st'))
     \<and> q_bytes st' \<le> q_bytes st \<and> length (q_frames st') \<le> length (q_frames st)
     \<and> high_water_bytes st' = high_water_bytes st \<and> dropped_foreign st' = dropped_foreign st
     \<and> sender_alive st' = sender_alive st \<and> receiver_alive st' = receiver_alive st"

lemma sheds_refl: "sheds st st"
  by (simp add: sheds_def)

lemma sheds_trans: "sheds a b \<Longrightarrow> sheds b c \<Longrightarrow> sheds a c"
  unfolding sheds_def by (auto intro: subseq_order.order_trans)

lemma sheds_one:
  assumes "remove_transient (q_frames st) = Some (f, rest)"
  shows "sheds st (st\<lparr>q_frames := rest, q_bytes := q_bytes st - length f,
    dropped_transient := dropped_transient st + 1\<rparr>)"
  using remove_transient_Some [OF assms] remove_transient_length [OF assms]
  by (simp add: sheds_def)

lemma evict_sheds: "sheds st (evict_transients b st n)"
proof (induction b st n rule: evict_transients.induct)
  case (1 b st n)
  show ?case
  proof (cases "over_budget b st n \<and> remove_transient (q_frames st) \<noteq> None")
    case True
    then obtain f rest where r: "remove_transient (q_frames st) = Some (f, rest)" by auto
    with True 1 [of "(f, rest)" f rest] sheds_one [OF r] show ?thesis
      by (subst evict_transients.simps) (auto intro: sheds_trans)
  next
    case False
    then show ?thesis by (subst evict_transients.simps) (auto simp: sheds_refl split: option.splits)
  qed
qed

lemma evict_over_budget:
  "over_budget b (evict_transients b st n) n \<Longrightarrow>
     transients (q_frames (evict_transients b st n)) = []"
proof (induction b st n rule: evict_transients.induct)
  case (1 b st n)
  show ?case
  proof (cases "over_budget b st n")
    case True
    show ?thesis
    proof (cases "remove_transient (q_frames st)")
      case None
      then have "transients (q_frames st) = []" by (simp add: remove_transient_None)
      with None True show ?thesis by (simp add: evict_transients.simps [of b st n])
    next
      case (Some p)
      with True 1 show ?thesis
        by (cases p) (simp add: evict_transients.simps [of b st n])
    qed
  next
    case False
    with 1 show ?thesis by (simp add: evict_transients.simps [of b st n])
  qed
qed

section \<open>The queue state is well formed\<close>

definition q_wf :: "queue_budget \<Rightarrow> queue_state \<Rightarrow> bool" where
  "q_wf b st \<longleftrightarrow>
     q_bytes st = total_bytes (q_frames st) \<and> q_bytes st \<le> high_water_bytes st
     \<and> length (q_frames st) \<le> max 1 (max_items b)
     \<and> (q_bytes st \<le> max_bytes b \<or> length (q_frames st) = 1)"

lemma q_wf_init: "q_wf b bounded_frame_queue"
  by (simp add: q_wf_def bounded_frame_queue_def)

lemma total_bytes_one: "length fs \<le> 1 \<Longrightarrow> fs \<noteq> [] \<Longrightarrow> length fs = 1"
  by (cases fs) auto

lemma q_wf_sheds:
  assumes "sheds st st'" and "q_wf b st" shows "q_wf b st'"
proof -
  have "q_frames st' \<noteq> [] \<Longrightarrow> length (q_frames st) = 1 \<Longrightarrow> length (q_frames st') = 1"
    using assms(1) by (cases "q_frames st'") (auto simp: sheds_def)
  moreover have "q_frames st' = [] \<Longrightarrow> q_bytes st' = 0"
    using assms by (simp add: sheds_def q_wf_def)
  ultimately show ?thesis using assms by (cases "q_frames st' = []") (auto simp: sheds_def q_wf_def)
qed

lemma q_wf_push:
  assumes "q_wf b st" and "\<not> over_budget b st (length f) \<or> q_frames st = []"
  shows "q_wf b (push st c f)"
  using assms by (auto simp: q_wf_def push_def over_budget_def Let_def)

lemma q_wf_dropped [simp]: "q_wf b (st\<lparr>dropped_transient := n\<rparr>) = q_wf b st"
  by (simp add: q_wf_def)

lemma q_wf_send_durable:
  "q_wf b st \<Longrightarrow> send_durable b st f = (r, st') \<Longrightarrow> q_wf b st'"
  using q_wf_sheds [OF evict_sheds] q_wf_push
  by (auto simp: send_durable_def Let_def split: if_splits)

lemma q_wf_send_transient:
  "q_wf b st \<Longrightarrow> send_transient b st f = (r, st') \<Longrightarrow> q_wf b st'"
  using q_wf_push [of b st f Transient] by (auto simp: send_transient_def split: if_splits)

lemma q_wf_recv: "q_wf b st \<Longrightarrow> recv st = (r, st') \<Longrightarrow> q_wf b st'"
  by (auto simp: recv_def q_wf_def split: list.splits if_splits)

lemma q_wf_flags [simp]:
  "q_wf b (record_foreign_drop st) = q_wf b st" "q_wf b (drop_sender st) = q_wf b st"
  "q_wf b (drop_receiver st) = q_wf b st"
  by (simp_all add: q_wf_def record_foreign_drop_def drop_sender_def drop_receiver_def)

section \<open>What each call does to the history\<close>

lemma send_durable_Sent:
  assumes "send_durable b st f = (Sent, st')"
  shows "\<exists>m. sheds st m \<and> st' = push m Durable f"
  using assms evict_sheds [of st b "length f"]
  by (auto simp: send_durable_def Let_def split: if_splits)

lemma send_durable_Wait:
  assumes "send_durable b st f = (SendWait, st')"
  shows "sheds st st'" "over_budget b st' (length f)" "q_frames st' \<noteq> []"
    "transients (q_frames st') = []" "receiver_alive st'"
  using assms evict_sheds [of st b "length f"] evict_over_budget [of b st "length f"]
  by (auto simp: send_durable_def Let_def sheds_def split: if_splits)

lemma send_durable_Disconnected:
  "send_durable b st f = (SendDisconnected, st') \<longleftrightarrow> \<not> receiver_alive st \<and> st' = st"
  by (auto simp: send_durable_def Let_def split: if_splits)

lemma push_simps [simp]:
  "q_frames (push st c f) = q_frames st @ [(c, f)]"
  "dropped_transient (push st c f) = dropped_transient st"
  "dropped_foreign (push st c f) = dropped_foreign st"
  "sender_alive (push st c f) = sender_alive st"
  "receiver_alive (push st c f) = receiver_alive st"
  by (simp_all add: push_def Let_def)

lemma recv_Received:
  "recv st = (Received x, st') \<longleftrightarrow>
     (\<exists>rest. q_frames st = x # rest
        \<and> st' = st\<lparr>q_frames := rest, q_bytes := q_bytes st - length (snd x)\<rparr>)"
  by (cases x) (auto simp: recv_def split: list.splits)

lemma recv_Disconnected:
  "recv st = (RecvDisconnected, st') \<longleftrightarrow> q_frames st = [] \<and> \<not> sender_alive st \<and> st' = st"
  by (auto simp: recv_def split: list.splits)

lemma recv_Wait:
  "recv st = (RecvWait, st') \<longleftrightarrow> q_frames st = [] \<and> sender_alive st \<and> st' = st"
  by (auto simp: recv_def split: list.splits)

definition history_ok :: "sys \<Rightarrow> bool" where
  "history_ok s \<longleftrightarrow>
     durables (delivered s) @ durables (q_frames (sys_q s)) = durables (accepted s)
     \<and> subseq (delivered s @ q_frames (sys_q s)) (accepted s)
     \<and> dropped_transient (sys_q s) + length (transients (delivered s))
         + length (transients (q_frames (sys_q s))) = offered s"

lemma history_ok_sheds:
  assumes "history_ok s" and "sheds (sys_q s) st"
  shows "history_ok (s\<lparr>sys_q := st\<rparr>)"
proof -
  have "subseq (delivered s @ q_frames st) (delivered s @ q_frames (sys_q s))"
    using assms(2) by (simp add: sheds_def subseq_append')
  then show ?thesis
    using assms by (auto simp: history_ok_def sheds_def intro: subseq_order.order_trans)
qed

lemma history_ok_push:
  assumes "history_ok s"
  shows "history_ok (s\<lparr>sys_q := push (sys_q s) c f, accepted := accepted s @ [(c, f)],
      offered := offered s + (if c = Transient then 1 else 0)\<rparr>)"
  using assms list_emb_append_mono [of "(=)" "delivered s @ q_frames (sys_q s)" "accepted s"
      "[(c, f)]" "[(c, f)]"]
  by (cases c) (auto simp: history_ok_def)

section \<open>The invariant of the running system\<close>

definition threads_ok :: "queue_budget \<Rightarrow> sys \<Rightarrow> bool" where
  "threads_ok b s \<longleftrightarrow>
     (\<forall>f. snd_th s = SWaiting f \<longrightarrow>
        over_budget b (sys_q s) (length f) \<and> q_frames (sys_q s) \<noteq> []
        \<and> transients (q_frames (sys_q s)) = [])
     \<and> (rcv_th s = RWaiting \<longrightarrow> q_frames (sys_q s) = [])
     \<and> receiver_alive (sys_q s) = (rcv_th s \<noteq> RGone)
     \<and> sender_alive (sys_q s) = (snd_th s \<noteq> SGone)
     \<and> (rcv_th s = RWaiting \<longrightarrow> snd_th s \<noteq> SGone)
     \<and> (rcv_th s = RGone \<longrightarrow> (\<forall>f. snd_th s \<noteq> SWaiting f))"

definition sys_inv :: "queue_budget \<Rightarrow> sys \<Rightarrow> bool" where
  "sys_inv b s \<longleftrightarrow> q_wf b (sys_q s) \<and> history_ok s \<and> threads_ok b s"

lemma wake_simps [simp]:
  "wake_sender t \<noteq> SWaiting f" "wake_sender t = SGone \<longleftrightarrow> t = SGone"
  "wake_receiver r \<noteq> RWaiting" "wake_receiver r = RGone \<longleftrightarrow> r = RGone"
  by (cases t; simp)+ (cases r; simp)+

lemma sys_inv_init: "sys_inv b init_sys"
  by (simp add: sys_inv_def init_sys_def q_wf_def history_ok_def threads_ok_def
      bounded_frame_queue_def)

lemma qstep_q_wf:
  assumes "qstep b s s'" and "q_wf b (sys_q s)"
  shows "q_wf b (sys_q s')"
  using assms
  by (cases rule: qstep.cases)
    (auto dest: q_wf_send_durable q_wf_send_transient q_wf_recv)

lemma send_transient_cases:
  "send_transient b st f = (Inr True, st') \<longleftrightarrow>
     receiver_alive st \<and> \<not> over_budget b st (length f) \<and> st' = push st Transient f"
  "send_transient b st f = (Inr False, st') \<longleftrightarrow>
     receiver_alive st \<and> over_budget b st (length f)
     \<and> st' = st\<lparr>dropped_transient := dropped_transient st + 1\<rparr>"
  "send_transient b st f = (Inl d, st') \<longleftrightarrow> \<not> receiver_alive st \<and> st' = st"
  by (cases d; auto simp: send_transient_def)+

lemma qstep_history:
  assumes "qstep b s s'" and "history_ok s"
  shows "history_ok s'"
  using assms
proof (cases rule: qstep.cases)
  case (durable_sent f st)
  then obtain m where m: "sheds (sys_q s) m" "st = push m Durable f"
    using send_durable_Sent by blast
  from history_ok_push [OF history_ok_sheds [OF assms(2) m(1)], of Durable f]
  show ?thesis using durable_sent m by (simp add: history_ok_def)
next
  case (durable_waits f st)
  from history_ok_sheds [OF assms(2) send_durable_Wait(1)] durable_waits
  show ?thesis by (simp add: history_ok_def)
next
  case (transient_queued f st)
  then show ?thesis
    using history_ok_push [OF assms(2), of Transient f]
    by (simp add: send_transient_cases history_ok_def)
qed (auto simp: history_ok_def send_durable_Disconnected send_transient_cases recv_Received
    recv_Disconnected recv_Wait record_foreign_drop_def drop_sender_def drop_receiver_def)

lemma qstep_threads:
  assumes "qstep b s s'" and "threads_ok b s"
  shows "threads_ok b s'"
  using assms
proof (cases rule: qstep.cases)
  case (durable_sent f st)
  then obtain m where m: "sheds (sys_q s) m" "st = push m Durable f"
    using send_durable_Sent by blast
  with durable_sent assms(2) show ?thesis by (simp add: threads_ok_def sheds_def)
next
  case (durable_waits f st)
  with assms(2) send_durable_Wait [of b "sys_q s" f st] show ?thesis
    by (auto simp: threads_ok_def sheds_def)
qed (auto simp: threads_ok_def send_durable_Disconnected send_transient_cases recv_Received
    recv_Disconnected recv_Wait record_foreign_drop_def drop_sender_def drop_receiver_def
    over_budget_def)

lemma reachable_inv: "reachable b s \<Longrightarrow> sys_inv b s"
proof (induction rule: rtranclp_induct)
  case base
  show ?case by (rule sys_inv_init)
next
  case (step s t)
  then show ?case
    using qstep_q_wf qstep_history qstep_threads by (auto simp: sys_inv_def)
qed

section \<open>Properties\<close>

text \<open>The queue after the consumer has received \<open>n\<close> more times.\<close>

fun drain :: "nat \<Rightarrow> queue_state \<Rightarrow> queue_state" where
  "drain 0 st = st"
| "drain (Suc n) st = drain n (snd (recv st))"

lemma drained:
  "n \<le> length (q_frames st) \<Longrightarrow>
     q_frames (drain n st) = drop n (q_frames st)
     \<and> receiver_alive (drain n st) = receiver_alive st"
proof (induction n arbitrary: st)
  case (Suc n)
  then obtain c f rest where "q_frames st = (c, f) # rest" by (cases "q_frames st") auto
  with Suc show ?case by (simp add: recv_def)
qed simp

lemma send_durable_empty:
  "receiver_alive st \<Longrightarrow> q_frames st = [] \<Longrightarrow> fst (send_durable b st f) = Sent"
  by (simp add: send_durable_def Let_def evict_transients.simps [of b st])

text \<open>A run that fills a one-frame queue and then blocks the producer, for the witnesses.\<close>

definition one_frame :: queue_budget where
  "one_frame = \<lparr>max_items = 1, max_bytes = 10\<rparr>"

definition blocked_sys :: sys where
  "blocked_sys =
     \<lparr>sys_q = \<lparr>q_frames = [(Durable, ''a'')], q_bytes = 1, high_water_bytes = 1,
        dropped_transient = 0, dropped_foreign = 0, sender_alive = True, receiver_alive = True\<rparr>,
      snd_th = SWaiting ''b'', rcv_th = RIdle, accepted = [(Durable, ''a'')], delivered = [],
      offered = 0\<rparr>"

lemma blocked_reachable: "reachable one_frame blocked_sys"
proof -
  let ?s1 = "init_sys\<lparr>snd_th := STrying ''a''\<rparr>"
  let ?s2 = "blocked_sys\<lparr>snd_th := SIdle\<rparr>"
  let ?s3 = "blocked_sys\<lparr>snd_th := STrying ''b''\<rparr>"
  have 1: "qstep one_frame init_sys ?s1" by (rule durable_call) (simp add: init_sys_def)
  have "qstep one_frame ?s1 (?s1\<lparr>sys_q := push (sys_q ?s1) Durable ''a'', snd_th := SIdle,
      rcv_th := wake_receiver (rcv_th ?s1), accepted := accepted ?s1 @ [(Durable, ''a'')]\<rparr>)"
    by (rule durable_sent)
      (simp_all add: send_durable_def Let_def init_sys_def bounded_frame_queue_def over_budget_def
        one_frame_def evict_transients.simps)
  then have 2: "qstep one_frame ?s1 ?s2"
    by (simp add: init_sys_def bounded_frame_queue_def blocked_sys_def push_def)
  have 3: "qstep one_frame ?s2 ?s3"
    using durable_call [of ?s2 one_frame "''b''"] by (simp add: blocked_sys_def)
  have 4: "qstep one_frame ?s3 blocked_sys"
    using durable_waits [of ?s3 "''b''" one_frame "sys_q blocked_sys"]
    by (simp add: send_durable_def Let_def blocked_sys_def over_budget_def one_frame_def
        evict_transients.simps)
  from 1 2 3 4 show ?thesis by (meson rtranclp.rtrancl_refl rtranclp.rtrancl_into_rtrancl)
qed

text \<open>
  The queue stays inside its budget: at most \<open>max_items\<close> frames (one when that is zero) and
  at most \<open>max_bytes\<close> bytes, unless a single frame larger than the whole budget is queued
  alone; the byte count is exact and never above the recorded high water.
\<close>
theorem queue_within_budget:
  assumes "reachable b s"
  shows "length (q_frames (sys_q s)) \<le> max 1 (max_items b)
    \<and> (q_bytes (sys_q s) \<le> max_bytes b \<or> length (q_frames (sys_q s)) = 1)
    \<and> q_bytes (sys_q s) = sum_list (map (length \<circ> snd) (q_frames (sys_q s)))
    \<and> q_bytes (sys_q s) \<le> high_water_bytes (sys_q s)"
  using reachable_inv [OF assms] unfolding sys_inv_def q_wf_def total_bytes_def by blast

theorem queue_within_budget_witness:
  "q_bytes (sys_q blocked_sys) = sum_list (map (length \<circ> snd) (q_frames (sys_q blocked_sys)))"
  using queue_within_budget [OF blocked_reachable] by blast

text \<open>
  C27. No durable frame is lost, duplicated or reordered, whatever the interleaving: the durable
  frames delivered so far followed by those still queued are exactly the durable frames accepted,
  in order; everything delivered is in acceptance order; and when the consumer is told the queue
  is disconnected, it has received every durable frame the producer ever had accepted.
\<close>
theorem queue_durable_fifo:
  assumes "reachable b s"
  shows "durables (delivered s) @ durables (q_frames (sys_q s)) = durables (accepted s)
    \<and> subseq (delivered s) (accepted s)
    \<and> (fst (recv (sys_q s)) = RecvDisconnected \<longrightarrow> durables (delivered s) = durables (accepted s))"
proof -
  from reachable_inv [OF assms] have h: "history_ok s" by (simp add: sys_inv_def)
  then have "subseq (delivered s) (accepted s)"
    unfolding history_ok_def by (meson list_emb_prefix subseq_order.order_refl subseq_order.order_trans)
  moreover have "fst (recv (sys_q s)) = RecvDisconnected \<Longrightarrow> q_frames (sys_q s) = []"
    by (cases "recv (sys_q s)") (simp add: recv_Disconnected)
  ultimately show ?thesis using h by (auto simp: history_ok_def)
qed

theorem queue_durable_fifo_witness:
  "durables (delivered blocked_sys) @ durables (q_frames (sys_q blocked_sys)) = [(Durable, ''a'')]"
  using queue_durable_fifo [OF blocked_reachable] by (simp add: blocked_sys_def)

text \<open>
  Shedding is counted exactly: every transient frame offered while the receiver was alive was
  delivered, is still queued, or is one of the \<open>dropped_transient\<close>.
\<close>
theorem queue_drops_are_counted:
  assumes "reachable b s"
  shows "offered s = length (transients (delivered s)) + length (transients (q_frames (sys_q s)))
      + dropped_transient (sys_q s)"
  using reachable_inv [OF assms] by (simp add: sys_inv_def history_ok_def)

theorem queue_drops_are_counted_witness:
  "offered blocked_sys = length (transients (delivered blocked_sys))
     + length (transients (q_frames (sys_q blocked_sys))) + dropped_transient (sys_q blocked_sys)"
  by (rule queue_drops_are_counted [OF blocked_reachable])

text \<open>
  Back-pressure cannot deadlock and no wake-up is lost: when the producer waits, the consumer
  is alive and not waiting itself, its next \<open>recv\<close> returns a frame, and once the consumer has
  drained the frames that are queued the waiting frame is accepted.
\<close>
theorem queue_waiting_producer_gets_through:
  assumes "reachable b s" and "snd_th s = SWaiting f"
  shows "rcv_th s \<in> {RIdle, RTrying}
    \<and> (\<exists>x st. recv (sys_q s) = (Received x, st))
    \<and> fst (send_durable b (drain (length (q_frames (sys_q s))) (sys_q s)) f) = Sent"
proof -
  from reachable_inv [OF assms(1)] assms(2)
  have w: "q_frames (sys_q s) \<noteq> []" "rcv_th s \<noteq> RWaiting" "rcv_th s \<noteq> RGone"
    "receiver_alive (sys_q s)"
    by (auto simp: sys_inv_def threads_ok_def)
  then have "\<exists>x st. recv (sys_q s) = (Received x, st)"
    by (auto simp: recv_Received neq_Nil_conv)
  moreover have "rcv_th s \<in> {RIdle, RTrying}" using w by (cases "rcv_th s") auto
  ultimately show ?thesis
    using drained [OF order_refl, of "sys_q s"] w send_durable_empty by auto
qed

theorem queue_waiting_producer_gets_through_witness:
  "rcv_th blocked_sys \<in> {RIdle, RTrying}
   \<and> fst (send_durable one_frame (drain 1 (sys_q blocked_sys)) ''b'') = Sent"
  using queue_waiting_producer_gets_through [OF blocked_reachable, of "''b''"]
  by (simp add: blocked_sys_def)

end
