(* ===== verification/Owned_Paths.thy ===== *)
theory Owned_Paths
  imports Rust_Prelude
begin

text \<open>
  The owned-path language of \<open>bridge-core/src/policy.rs\<close>: normalising a pattern, matching a
  repository path against it (\<open>*\<close>, \<open>?\<close> and \<open>**\<close>), deciding whether a trusted scope covers a
  claim and whether two claims overlap. The properties relate the code's matching loop to a
  declarative glob semantics and show that authorisation and overlap are sound for what a
  lease may write.
\<close>

section \<open>Normalisation\<close>

fun normal_parts :: "string list \<Rightarrow> (string, string list) result" where
  "normal_parts [] = Ok []"
| "normal_parts (w # ws) =
     (if w = '''' \<or> w = ''.'' then normal_parts ws
      else if w = ''..'' then Err ''owned path must not traverse parents''
      else (case normal_parts ws of Inl e \<Rightarrow> Err e | Inr ps \<Rightarrow> Ok (w # ps)))"

definition normalize_owned_pattern :: "string \<Rightarrow> (string, string) result" where
  "normalize_owned_pattern pattern =
     (let replaced = replace_char (CHR 0x5C) (CHR ''/'') (trim pattern) in
      if replaced = [] \<or> starts_with replaced ''/'' \<or> starts_with replaced ''~''
      then Err ''owned path must be non-empty and relative''
      else (case normal_parts (split_char (CHR ''/'') replaced) of
              Inl e \<Rightarrow> Err e
            | Inr parts \<Rightarrow>
                if parts = [] then Err ''owned path must identify a workspace path''
                else Ok (join ''/'' parts)))"

definition normalize_owned_paths :: "string list \<Rightarrow> (string, string list) result" where
  "normalize_owned_paths paths =
     (case collect_results normalize_owned_pattern paths of
        Inl e \<Rightarrow> Err e
      | Inr normalized \<Rightarrow> Ok (remdups_adj (sort normalized)))"

section \<open>Matching\<close>

text \<open>
  The loop of \<open>segment_matches\<close>: \<open>p\<close> and \<open>s\<close> index the pattern and the segment, \<open>star\<close> is the
  last \<open>*\<close> passed and \<open>star_s\<close> where its match of the segment is currently taken to end.
\<close>

function match_loop ::
    "string list \<Rightarrow> string list \<Rightarrow> nat \<Rightarrow> nat \<Rightarrow> nat option \<Rightarrow> nat \<Rightarrow> bool" where
  "match_loop pat seg p s star star_s =
     (if s < length seg then
        (if p < length pat \<and> (pat ! p = ''?'' \<or> pat ! p = seg ! s)
         then match_loop pat seg (p + 1) (s + 1) star star_s
         else if p < length pat \<and> pat ! p = ''*''
         then match_loop pat seg (p + 1) s (Some p) s
         else (case star of
                 Some k \<Rightarrow> match_loop pat seg (k + 1) (star_s + 1) (Some k) (star_s + 1)
               | None \<Rightarrow> False))
      else list_all (\<lambda>c. c = ''*'') (drop p pat))"
  by pat_completeness auto
termination
proof (relation "measures
    [\<lambda>(pat, seg, p, s, star, star_s). case star of None \<Rightarrow> 0 | Some k \<Rightarrow> if p \<le> k then 1 else 0,
     \<lambda>(pat, seg, p, s, star, star_s).
       case star of None \<Rightarrow> Suc (length pat) | Some k \<Rightarrow> length pat - k,
     \<lambda>(pat, seg, p, s, star, star_s). Suc (length seg) - star_s,
     \<lambda>(pat, seg, p, s, star, star_s). length seg - s]", goal_cases)
  case 1
  then show ?case by simp
next
  case (2 pat seg p s star star_s)
  then show ?case by (auto split: option.splits)
next
  case (3 pat seg p s star star_s)
  then show ?case by (auto split: option.splits)
next
  case (4 pat seg p s star star_s k)
  then show ?case by auto
qed

declare match_loop.simps [simp del]

definition segment_matches :: "string \<Rightarrow> string \<Rightarrow> bool" where
  "segment_matches pattern segment = match_loop (chars pattern) (chars segment) 0 0 None 0"

fun segments_match :: "string list \<Rightarrow> string list \<Rightarrow> bool" where
  "segments_match [] path = (path = [])"
| "segments_match (head # rest) path =
     (if head = ''**'' then
        (if rest = [] then True
         else list_ex (\<lambda>skip. segments_match rest (drop skip path)) [0..<Suc (length path)])
      else (case path of
              [] \<Rightarrow> False
            | segment # remaining \<Rightarrow>
                segment_matches head segment \<and> segments_match rest remaining))"

definition glob_matches :: "string \<Rightarrow> string \<Rightarrow> bool" where
  "glob_matches pattern path =
     segments_match (split_char (CHR ''/'') pattern) (split_char (CHR ''/'') path)"

definition is_wild :: "char \<Rightarrow> bool" where
  "is_wild c \<longleftrightarrow> c = CHR ''*'' \<or> c = CHR ''?'' \<or> c = CHR ''[''"

definition has_wild :: "string \<Rightarrow> bool" where
  "has_wild s \<longleftrightarrow> list_ex is_wild s"

definition owned_paths_cover_path :: "string list \<Rightarrow> string \<Rightarrow> bool" where
  "owned_paths_cover_path patterns path =
     (case normalize_owned_pattern path of
        Inl _ \<Rightarrow> False
      | Inr path \<Rightarrow>
          (case normalize_owned_paths patterns of
             Inl _ \<Rightarrow> False
           | Inr patterns \<Rightarrow>
               list_ex (\<lambda>pattern. glob_matches pattern path
                 \<or> (\<not> has_wild pattern \<and> starts_with path (pattern @ ''/''))) patterns))"

section \<open>Authorisation and overlap\<close>

text \<open>\<open>s.find(['*','?','['])\<close> and the text before it: the literal front of a pattern.\<close>

definition literal_front :: "string \<Rightarrow> string" where
  "literal_front s = takeWhile (\<lambda>c. \<not> is_wild c) s"

definition trusted_pattern_covers :: "string \<Rightarrow> string \<Rightarrow> bool" where
  "trusted_pattern_covers scope claim =
     (if scope = claim then True
      else if \<not> ends_with scope ''/**'' then False
      else let scope_base = trim_end_matches scope ''/**'' in
        if scope_base = [] \<or> has_wild scope_base then False
        else let claim_literal = (if has_wild claim then literal_front claim else claim) in
          starts_with claim_literal (scope_base @ ''/''))"

definition owned_paths_are_provenanced :: "string list \<Rightarrow> string list \<Rightarrow> bool" where
  "owned_paths_are_provenanced claimed trusted =
     (case normalize_owned_paths claimed of
        Inl _ \<Rightarrow> False
      | Inr claimed \<Rightarrow>
          (case normalize_owned_paths trusted of
             Inl _ \<Rightarrow> False
           | Inr trusted \<Rightarrow>
               claimed \<noteq> []
               \<and> list_all (\<lambda>claim. list_ex (\<lambda>scope. trusted_pattern_covers scope claim) trusted)
                   claimed))"

definition path_prefix :: "string \<Rightarrow> string \<Rightarrow> bool" where
  "path_prefix p candidate \<longleftrightarrow>
     p = candidate
     \<or> (case strip_prefix candidate p of None \<Rightarrow> False | Some rest \<Rightarrow> starts_with rest ''/'')"

text \<open>The part of a pattern the overlap check compares.\<close>

definition overlap_prefix :: "string \<Rightarrow> string" where
  "overlap_prefix s =
     (if has_wild s then rev (dropWhile (\<lambda>c. c = CHR ''/'') (rev (literal_front s))) else s)"

definition normalized_patterns_overlap :: "string \<Rightarrow> string \<Rightarrow> bool" where
  "normalized_patterns_overlap left right =
     (if overlap_prefix left = [] \<or> overlap_prefix right = [] then True
      else path_prefix (overlap_prefix left) (overlap_prefix right)
           \<or> path_prefix (overlap_prefix right) (overlap_prefix left))"

definition owned_path_sets_overlap :: "string list \<Rightarrow> string list \<Rightarrow> (string, bool) result" where
  "owned_path_sets_overlap left right =
     (if left = [] \<or> right = [] then Ok True
      else (case normalize_owned_paths left of
              Inl e \<Rightarrow> Err e
            | Inr left \<Rightarrow>
                (case normalize_owned_paths right of
                   Inl e \<Rightarrow> Err e
                 | Inr right \<Rightarrow>
                     Ok (list_ex (\<lambda>l. list_ex (normalized_patterns_overlap l) right) left))))"

section \<open>Glob semantics\<close>

fun glob :: "string list \<Rightarrow> string list \<Rightarrow> bool" where
  "glob [] xs = (xs = [])"
| "glob (c # ps) xs =
     (if c = ''*'' then list_ex (\<lambda>k. glob ps (drop k xs)) [0..<Suc (length xs)]
      else (case xs of [] \<Rightarrow> False | x # r \<Rightarrow> (c = ''?'' \<or> c = x) \<and> glob ps r))"

lemma glob_star: "glob (''*'' # ps) xs \<longleftrightarrow> (\<exists>k. glob ps (drop k xs))"
proof -
  have "\<exists>j \<le> length xs. drop k xs = drop j xs" for k
    by (rule exI [of _ "min k (length xs)"]) (auto simp: min_def)
  then have "(\<exists>k. glob ps (drop k xs)) = (\<exists>k \<le> length xs. glob ps (drop k xs))"
    by metis
  then show ?thesis by (auto simp: list_ex_iff less_Suc_eq_le simp del: upt_Suc)
qed

lemma glob_star_drop: "glob (''*'' # ps) (drop s xs) \<longleftrightarrow> (\<exists>j \<ge> s. glob ps (drop j xs))"
proof
  assume "glob (''*'' # ps) (drop s xs)"
  then obtain k where "glob ps (drop (k + s) xs)" by (auto simp only: glob_star drop_drop)
  then show "\<exists>j \<ge> s. glob ps (drop j xs)" by (intro exI [of _ "k + s"]) simp
next
  assume "\<exists>j \<ge> s. glob ps (drop j xs)"
  then obtain j where j: "j \<ge> s" "glob ps (drop j xs)" by blast
  then have "glob ps (drop (j - s) (drop s xs))" by simp
  then show "glob (''*'' # ps) (drop s xs)" unfolding glob_star by blast
qed

lemma glob_empty: "glob ps [] = list_all (\<lambda>c. c = ''*'') ps"
  by (induction ps) auto

definition fits :: "string \<Rightarrow> string \<Rightarrow> bool" where
  "fits a x \<longleftrightarrow> a = ''?'' \<or> a = x"

lemma glob_fits: "list_all2 fits ps xs \<Longrightarrow> glob qs ys \<Longrightarrow> glob (ps @ qs) (xs @ ys)"
proof (induction rule: list_all2_induct)
  case (Cons a ps x xs)
  then show ?case
  proof (cases "a = ''*''")
    case True
    have "glob (ps @ qs) (drop 1 (x # xs @ ys))" using Cons by simp
    then show ?thesis unfolding True append_Cons glob_star by blast
  qed (auto simp: fits_def)
qed simp

lemma glob_rigid:
  "''*'' \<notin> set ps \<Longrightarrow>
     glob (ps @ qs) xs \<longleftrightarrow>
       list_all2 fits ps (take (length ps) xs) \<and> glob qs (drop (length ps) xs)"
  by (induction ps arbitrary: xs) (auto simp: fits_def split: list.splits)

text \<open>The stretch of pattern and segment between the last star and the loop's position.\<close>

definition between :: "'a list \<Rightarrow> nat \<Rightarrow> nat \<Rightarrow> 'a list" where
  "between xs i j = take (j - i) (drop i xs)"

lemma between_Suc:
  "i \<le> j \<Longrightarrow> j < length xs \<Longrightarrow> between xs i (Suc j) = between xs i j @ [xs ! j]"
  by (simp add: between_def Suc_diff_le take_Suc_conv_app_nth)

lemma between_drop: "i \<le> j \<Longrightarrow> drop i xs = between xs i j @ drop j xs"
  unfolding between_def by (metis append_take_drop_id drop_drop le_add_diff_inverse2)

lemma between_same [simp]: "between xs i i = []"
  by (simp add: between_def)

lemma between_length: "j \<le> length xs \<Longrightarrow> length (between xs i j) = j - i"
  by (simp add: between_def)

definition loop_ok :: "string list \<Rightarrow> string list \<Rightarrow> nat \<Rightarrow> nat \<Rightarrow> nat option \<Rightarrow> nat \<Rightarrow> bool" where
  "loop_ok pat seg p s star star_s \<longleftrightarrow>
     p \<le> length pat \<and> s \<le> length seg
     \<and> (case star of
          None \<Rightarrow> True
        | Some k \<Rightarrow> k < p \<and> pat ! k = ''*'' \<and> star_s \<le> s
            \<and> list_all2 fits (between pat (Suc k) p) (between seg star_s s))"

text \<open>What the loop still has to decide.\<close>

definition loop_goal :: "string list \<Rightarrow> string list \<Rightarrow> nat \<Rightarrow> nat \<Rightarrow> nat option \<Rightarrow> nat \<Rightarrow> bool" where
  "loop_goal pat seg p s star star_s \<longleftrightarrow>
     (case star of
        None \<Rightarrow> glob (drop p pat) (drop s seg)
      | Some k \<Rightarrow> glob (drop k pat) (drop star_s seg))"

lemma loop_goal_Some:
  assumes "loop_ok pat seg p s (Some k) star_s" and "glob (drop p pat) (drop s seg)"
  shows "glob (drop k pat) (drop star_s seg)"
proof -
  from assms(1) have k: "k < length pat" "k < p" "pat ! k = ''*''" "star_s \<le> s"
    "list_all2 fits (between pat (Suc k) p) (between seg star_s s)"
    by (auto simp: loop_ok_def)
  then have "glob (drop (Suc k) pat) (drop star_s seg)"
    using glob_fits [OF k(5) assms(2)] by (simp add: between_drop [of "Suc k" p] between_drop [of star_s s])
  then show ?thesis
    using k by (simp only: Cons_nth_drop_Suc [symmetric] glob_star_drop) blast
qed

lemma match_loop_sound:
  "match_loop pat seg p s star star_s \<Longrightarrow> loop_ok pat seg p s star star_s \<Longrightarrow>
     loop_goal pat seg p s star star_s"
proof (induction pat seg p s star star_s rule: match_loop.induct)
  case (1 pat seg p s star star_s)
  have direct: "loop_goal pat seg p s star star_s" if "glob (drop p pat) (drop s seg)"
    using that 1(5) loop_goal_Some by (cases star) (auto simp: loop_goal_def)
  consider (hit) "s < length seg" "p < length pat \<and> (pat ! p = ''?'' \<or> pat ! p = seg ! s)"
    | (star) "s < length seg" "\<not> (p < length pat \<and> (pat ! p = ''?'' \<or> pat ! p = seg ! s))"
        "p < length pat \<and> pat ! p = ''*''"
    | (retry) k where "s < length seg"
        "\<not> (p < length pat \<and> (pat ! p = ''?'' \<or> pat ! p = seg ! s))"
        "\<not> (p < length pat \<and> pat ! p = ''*'')" "star = Some k"
    | (fin) "\<not> s < length seg" "list_all (\<lambda>c. c = ''*'') (drop p pat)"
    using 1(4) by (subst (asm) match_loop.simps) (auto split: if_splits option.splits)
  then show ?case
  proof cases
    case hit
    then have f: "fits (pat ! p) (seg ! s)" by (simp add: fits_def)
    have ok: "loop_ok pat seg (p + 1) (s + 1) star star_s"
      using 1(5) hit f by (auto simp: loop_ok_def between_Suc intro!: list_all2_appendI split: option.splits)
    then have "loop_goal pat seg (p + 1) (s + 1) star star_s"
      using 1(1) [OF hit] 1(4) hit by (simp add: match_loop.simps [of pat seg p])
    then show ?thesis
    proof (cases star)
      case None
      then have "glob (drop (p + 1) pat) (drop (s + 1) seg)"
        using \<open>loop_goal pat seg (p + 1) (s + 1) star star_s\<close> by (simp add: loop_goal_def)
      then have "glob ([pat ! p] @ drop (p + 1) pat) ([seg ! s] @ drop (s + 1) seg)"
        using f by (intro glob_fits) auto
      then show ?thesis using None hit by (simp add: loop_goal_def Cons_nth_drop_Suc)
    qed (simp add: loop_goal_def)
  next
    case star
    have "loop_ok pat seg (p + 1) s (Some p) s" using star by (simp add: loop_ok_def)
    then have "glob (drop p pat) (drop s seg)"
      using 1(2) [OF star] 1(4) star by (simp add: match_loop.simps [of pat seg p] loop_goal_def)
    then show ?thesis by (rule direct)
  next
    case retry
    then have "k < length pat" "pat ! k = ''*''" "star_s \<le> s" using 1(5) by (auto simp: loop_ok_def)
    then have "loop_ok pat seg (k + 1) (star_s + 1) (Some k) (star_s + 1)"
      using retry by (simp add: loop_ok_def)
    then have "glob (drop k pat) (drop (Suc star_s) seg)"
      using 1(3) [OF retry] 1(4) retry by (simp add: match_loop.simps [of pat seg p] loop_goal_def)
    then have "glob (drop k pat) (drop star_s seg)"
      using \<open>k < length pat\<close> \<open>pat ! k = ''*''\<close>
      by (simp only: Cons_nth_drop_Suc [symmetric] glob_star_drop) (meson Suc_leD)
    then show ?thesis using retry by (simp add: loop_goal_def)
  next
    case fin
    then show ?thesis using direct by (simp add: glob_empty)
  qed
qed


text \<open>
  Completeness needs that the segment holds no literal star: on one the code takes the pattern's
  star for that character.
\<close>

lemma fits_star: "fits ''*'' x \<longleftrightarrow> x = ''*''"
  by (auto simp: fits_def)

lemma between_in_set: "x \<in> set (between xs i j) \<Longrightarrow> x \<in> set xs"
  unfolding between_def by (meson in_set_dropD in_set_takeD)

lemma fits_no_star:
  "list_all2 fits ps xs \<Longrightarrow> ''*'' \<notin> set xs \<Longrightarrow> ''*'' \<notin> set ps"
  by (induction rule: list_all2_induct) (auto simp: fits_def)

lemma rigid_exact:
  assumes "list_all2 fits ps xs" and "''*'' \<notin> set xs"
  shows "glob (ps @ qs) (xs @ ys) \<longleftrightarrow> glob qs ys"
proof -
  have "''*'' \<notin> set ps" using fits_no_star [OF assms] .
  then show ?thesis
    using glob_rigid [of ps qs "xs @ ys"] list_all2_lengthD [OF assms(1)] assms(1) by simp
qed

text \<open>A match from further right still uses up the rigid stretch, so the later star can take it.\<close>

lemma rigid_shift:
  assumes "loop_ok pat seg p s (Some k) star_s" and "''*'' \<notin> set seg"
    and "glob (drop k pat) (drop star_s seg)"
  shows "\<exists>j \<ge> s. j \<le> length seg \<and> glob (drop p pat) (drop j seg)"
proof -
  have k: "k < p" "p \<le> length pat" "pat ! k = ''*''" "star_s \<le> s" "s \<le> length seg"
    "list_all2 fits (between pat (Suc k) p) (between seg star_s s)"
    using assms(1) by (auto simp: loop_ok_def)
  let ?r = "between pat (Suc k) p"
  have len: "length ?r = s - star_s"
    using list_all2_lengthD [OF k(6)] k by (simp add: between_length)
  have "''*'' \<notin> set ?r"
    using fits_no_star [OF k(6)] between_in_set assms(2) by metis
  moreover obtain j where j: "j \<ge> star_s" "glob (?r @ drop p pat) (drop j seg)"
    using assms(3) k between_drop [of "Suc k" p pat]
    by (auto simp only: Cons_nth_drop_Suc [symmetric, of k pat] glob_star_drop)
  ultimately have "list_all2 fits ?r (take (length ?r) (drop j seg))"
    and g: "glob (drop p pat) (drop (j + (s - star_s)) seg)"
    using glob_rigid [of ?r "drop p pat" "drop j seg"] len by (simp_all add: add.commute)
  then have "s - star_s \<le> length seg - j" using len by (auto dest!: list_all2_lengthD)
  then show ?thesis
  proof (cases "j \<le> length seg")
    case True
    with g k j \<open>s - star_s \<le> length seg - j\<close> show ?thesis
      by (intro exI [of _ "j + (s - star_s)"]) auto
  next
    case False
    with g \<open>s - star_s \<le> length seg - j\<close> k show ?thesis
      by (intro exI [of _ "length seg"]) auto
  qed
qed

lemma match_loop_complete:
  "loop_goal pat seg p s star star_s \<Longrightarrow> ''*'' \<notin> set seg \<Longrightarrow> loop_ok pat seg p s star star_s \<Longrightarrow>
     match_loop pat seg p s star star_s"
proof (induction pat seg p s star star_s rule: match_loop.induct)
  case (1 pat seg p s star star_s)
  note lit = 1(5) and ok = 1(6)
  have seg_s: "s < length seg \<Longrightarrow> seg ! s \<noteq> ''*''" using lit nth_mem by metis
  show ?case
  proof (cases "s < length seg")
    case False
    then have "s = length seg" using ok by (simp add: loop_ok_def)
    then have "glob (drop p pat) []"
    proof (cases star)
      case None
      with 1(4) \<open>s = length seg\<close> show ?thesis by (simp add: loop_goal_def)
    next
      case (Some k)
      with 1(4) ok obtain j where "j \<ge> s" "glob (drop p pat) (drop j seg)"
        using rigid_shift [OF _ lit, of pat p s k star_s] by (auto simp: loop_goal_def)
      with \<open>s = length seg\<close> show ?thesis by simp
    qed
    with False show ?thesis by (simp add: match_loop.simps [of pat seg p] glob_empty)
  next
    case s: True
    show ?thesis
    proof (cases "p < length pat \<and> (pat ! p = ''?'' \<or> pat ! p = seg ! s)")
      case hit: True
      then have f: "fits (pat ! p) (seg ! s)" "pat ! p \<noteq> ''*''"
        using seg_s [OF s] by (auto simp: fits_def)
      have "loop_ok pat seg (p + 1) (s + 1) star star_s"
        using ok hit s f
        by (auto simp: loop_ok_def between_Suc intro!: list_all2_appendI split: option.splits)
      moreover have "loop_goal pat seg (p + 1) (s + 1) star star_s"
      proof (cases star)
        case None
        with 1(4) have "glob (drop p pat) (drop s seg)" by (simp add: loop_goal_def)
        then have "glob (pat ! p # drop (p + 1) pat) (seg ! s # drop (s + 1) seg)"
          using hit s by (simp add: Cons_nth_drop_Suc)
        with None f show ?thesis by (simp add: loop_goal_def)
      next
        case (Some k)
        with 1(4) show ?thesis by (simp add: loop_goal_def)
      qed
      ultimately show ?thesis using 1(1) [OF s hit] lit hit s by (simp add: match_loop.simps [of pat seg p])
    next
      case miss: False
      show ?thesis
      proof (cases "p < length pat \<and> pat ! p = ''*''")
        case st: True
        have "glob (drop p pat) (drop s seg)"
        proof (cases star)
          case None
          with 1(4) show ?thesis by (simp add: loop_goal_def)
        next
          case (Some k)
          with 1(4) ok obtain j where j: "j \<ge> s" "glob (drop p pat) (drop j seg)"
            using rigid_shift [OF _ lit, of pat p s k star_s] by (auto simp: loop_goal_def)
          have p: "drop p pat = ''*'' # drop (Suc p) pat"
            using st by (simp add: Cons_nth_drop_Suc [symmetric])
          from j show ?thesis unfolding p glob_star_drop by (meson order_trans)
        qed
        moreover have "loop_ok pat seg (p + 1) s (Some p) s" using st s by (simp add: loop_ok_def)
        ultimately show ?thesis
          using 1(2) [OF s miss st] lit st s miss
          by (simp add: match_loop.simps [of pat seg p] loop_goal_def)
      next
        case lost: False
        have "\<not> glob (drop p pat) (drop s seg)"
          using miss lost s
          by (cases "p < length pat")
             (auto simp: Cons_nth_drop_Suc [symmetric, of p pat] Cons_nth_drop_Suc [symmetric, of s seg]
               simp del: upt_Suc)
        with 1(4) obtain k where k: "star = Some k" by (cases star) (auto simp: loop_goal_def)
        with ok have o: "k < p" "k < length pat" "p \<le> length pat" "pat ! k = ''*''" "star_s \<le> s"
          "list_all2 fits (between pat (Suc k) p) (between seg star_s s)"
          by (auto simp: loop_ok_def)
        have "\<not> glob (drop (Suc k) pat) (drop star_s seg)"
          using rigid_exact [OF o(6)] between_in_set [of "''*''" seg] lit o s \<open>\<not> glob (drop p pat) (drop s seg)\<close>
          by (auto simp: between_drop [of "Suc k" p pat] between_drop [of star_s s seg])
        moreover have "\<exists>j \<ge> star_s. glob (drop (Suc k) pat) (drop j seg)"
          using 1(4) k o
          by (simp only: loop_goal_def option.case Cons_nth_drop_Suc [symmetric] glob_star_drop)
        ultimately have "\<exists>j \<ge> Suc star_s. glob (drop (Suc k) pat) (drop j seg)"
          by (metis le_antisym not_less_eq_eq)
        then have "glob (drop k pat) (drop (Suc star_s) seg)"
          using o by (simp only: Cons_nth_drop_Suc [symmetric] glob_star_drop)
        moreover have "loop_ok pat seg (k + 1) (star_s + 1) (Some k) (star_s + 1)"
          using o s by (simp add: loop_ok_def)
        ultimately have "match_loop pat seg (k + 1) (star_s + 1) (Some k) (star_s + 1)"
          using 1(3) [OF s miss lost k] lit by (simp add: loop_goal_def)
        then show ?thesis by (subst match_loop.simps) (use s miss lost k in auto)
      qed
    qed
  qed
qed

text \<open>The declarative meaning of a pattern against a path, segment by segment.\<close>

lemma segment_matches_sound: "segment_matches p s \<Longrightarrow> glob (chars p) (chars s)"
  using match_loop_sound [of "chars p" "chars s" 0 0 None 0]
  by (simp add: segment_matches_def loop_ok_def loop_goal_def)

lemma segment_matches_complete:
  "glob (chars p) (chars s) \<Longrightarrow> ''*'' \<notin> set (chars s) \<Longrightarrow> segment_matches p s"
  using match_loop_complete [of "chars p" "chars s" 0 0 None 0]
  by (simp add: segment_matches_def loop_ok_def loop_goal_def)

inductive path_glob :: "string list \<Rightarrow> string list \<Rightarrow> bool" where
  pg_end: "path_glob [] []"
| pg_any: "path_glob rest (drop k path) \<Longrightarrow> path_glob (''**'' # rest) path"
| pg_seg: "head \<noteq> ''**'' \<Longrightarrow> glob (chars head) (chars seg) \<Longrightarrow> path_glob rest path \<Longrightarrow>
    path_glob (head # rest) (seg # path)"

inductive_cases path_globE: "path_glob (h # r) xs"

lemma path_glob_any: "path_glob [''**''] xs"
  by (rule pg_any [of _ "length xs"]) (simp add: pg_end)

lemma segments_match_sound: "segments_match p xs \<Longrightarrow> path_glob p xs"
proof (induction p xs rule: segments_match.induct)
  case (1 path)
  then show ?case by (simp add: pg_end)
next
  case (2 head rest path)
  show ?case
  proof (cases "head = ''**''")
    case True
    show ?thesis
    proof (cases "rest = []")
      case False
      with 2(3) True obtain k where k: "k < Suc (length path)" "segments_match rest (drop k path)"
        by (auto simp: list_ex_iff simp del: upt_Suc)
      then have "path_glob rest (drop k path)" using 2(1) [OF True False, of k] by (auto simp: less_Suc_eq)
      then show ?thesis using True by (simp add: pg_any)
    qed (simp add: True path_glob_any)
  next
    case False
    with 2 show ?thesis by (auto split: list.splits intro: pg_seg segment_matches_sound)
  qed
qed

lemma segments_match_complete:
  "path_glob p xs \<Longrightarrow> \<forall>s \<in> set xs. ''*'' \<notin> set (chars s) \<Longrightarrow> segments_match p xs"
proof (induction rule: path_glob.induct)
  case pg_end
  then show ?case by simp
next
  case (pg_any rest k path)
  have "drop (min k (length path)) path = drop k path" by (simp add: min_def)
  moreover have "segments_match rest (drop k path)"
    using pg_any by (meson in_set_dropD)
  ultimately have "\<exists>j \<le> length path. segments_match rest (drop j path)"
    by (intro exI [of _ "min k (length path)"]) simp
  then show ?case by (auto simp: list_ex_iff less_Suc_eq_le simp del: upt_Suc)
next
  case (pg_seg head seg rest path)
  then show ?case by (simp add: segment_matches_complete)
qed


section \<open>What normalisation guarantees\<close>

lemma normal_parts_eq:
  "normal_parts ws =
     (if ''..'' \<in> set ws then Err ''owned path must not traverse parents''
      else Ok (filter (\<lambda>w. w \<noteq> '''' \<and> w \<noteq> ''.'') ws))"
  by (induction ws) auto

lemma set_join: "set (join sep ws) \<subseteq> set sep \<union> \<Union> (set ` set ws)"
  by (induction sep ws rule: join.induct) auto

lemma normalize_owned_pattern_Ok:
  assumes "normalize_owned_pattern p = Inr r"
  shows "\<exists>ps. r = join ''/'' ps \<and> split_char (CHR ''/'') r = ps \<and> ps \<noteq> []
    \<and> set ps \<inter> {'''', ''.'', ''..''} = {} \<and> CHR 0x5C \<notin> set r"
proof -
  let ?w = "replace_char (CHR 0x5C) (CHR ''/'') (trim p)"
  let ?ps = "filter (\<lambda>w. w \<noteq> '''' \<and> w \<noteq> ''.'') (split_char (CHR ''/'') ?w)"
  from assms have r: "r = join ''/'' ?ps" "?ps \<noteq> []" "''..'' \<notin> set ?ps"
    by (auto simp: normalize_owned_pattern_def Let_def normal_parts_eq
        split: if_splits sum.splits)
  have sl: "CHR ''/'' \<notin> set w \<and> CHR 0x5C \<notin> set w" if "w \<in> set ?ps" for w
    using that split_by_parts [of w "\<lambda>c. c = CHR ''/''" ?w]
    by (auto simp: replace_char_def)
  have parts: "split_char (CHR ''/'') r = ?ps"
    unfolding r(1) using sl by (intro split_join [OF r(2)]) blast
  have "CHR 0x5C \<notin> set r" unfolding r(1) using sl set_join [of "''/''" ?ps] by auto
  with r parts show ?thesis by auto
qed

lemma parts_join_slash:
  assumes "r = join ''/'' ps" and "ps \<noteq> []" and "'''' \<notin> set ps" and "CHR ''/'' \<notin> set (hd ps)"
  shows "r \<noteq> [] \<and> \<not> starts_with r ''/''"
  using assms by (cases ps; cases "hd ps"; cases "tl ps") (auto simp: starts_with_def join_Cons)

text \<open>
  C38. A normalised owned path is a relative path of proper segments: it is not empty, does not
  start with a slash, holds no backslash, and none of its segments is empty, \<open>.\<close> or \<open>..\<close>;
  and normalising it again changes nothing, unless it ends in white space or starts with \<open>~\<close>
  (which dropping a leading \<open>./\<close> can uncover).
\<close>
theorem normalised_paths_are_relative:
  assumes "normalize_owned_pattern p = Ok r"
  shows "r \<noteq> [] \<and> \<not> starts_with r ''/'' \<and> CHR 0x5C \<notin> set r
    \<and> set (split_char (CHR ''/'') r) \<inter> {'''', ''.'', ''..''} = {}
    \<and> (trim r = r \<and> \<not> starts_with r ''~'' \<longrightarrow> normalize_owned_pattern r = Ok r)"
proof -
  obtain ps where ps: "r = join ''/'' ps" "split_char (CHR ''/'') r = ps" "ps \<noteq> []"
    "set ps \<inter> {'''', ''.'', ''..''} = {}" "CHR 0x5C \<notin> set r"
    using normalize_owned_pattern_Ok [OF assms] by blast
  have "CHR ''/'' \<notin> set (hd ps)"
    using split_by_parts [of "hd ps" "\<lambda>c. c = CHR ''/''" r] ps(2,3) by auto
  then have rel: "r \<noteq> [] \<and> \<not> starts_with r ''/''"
    using parts_join_slash [OF ps(1,3)] ps(4) by auto
  have keep: "filter (\<lambda>w. w \<noteq> '''' \<and> w \<noteq> ''.'') ps = ps" using ps(4) by (auto simp: filter_id_conv)
  have "replace_char (CHR 0x5C) (CHR ''/'') r = r"
    using ps(5) by (auto simp: replace_char_def intro!: map_idI)
  then have "normalize_owned_pattern r = Ok r" if "trim r = r" "\<not> starts_with r ''~''"
    using that rel ps keep
    by (auto simp: normalize_owned_pattern_def normal_parts_eq)
  then show ?thesis using rel ps by auto
qed

theorem normalised_paths_are_relative_witness:
  "''src/lib.rs'' \<noteq> [] \<and> normalize_owned_pattern ''src/lib.rs'' = Ok ''src/lib.rs''"
proof -
  have n: "normalize_owned_pattern '' ./src//lib.rs '' = Ok ''src/lib.rs''" by code_simp
  have t: "trim ''src/lib.rs'' = ''src/lib.rs'' \<and> \<not> starts_with ''src/lib.rs'' ''~''" by code_simp
  show ?thesis using normalised_paths_are_relative [OF n] t by blast
qed

text \<open>
  Matching means what a glob means: whenever the code's matcher accepts, the path is in the
  declarative glob relation (\<open>*\<close> any run of characters inside a segment, \<open>?\<close> any one character,
  \<open>**\<close> any run of segments), and on a path without a literal star it accepts all of them.
\<close>
theorem owned_path_matching_is_glob:
  "(glob_matches pattern path \<longrightarrow>
      path_glob (split_char (CHR ''/'') pattern) (split_char (CHR ''/'') path))
   \<and> (CHR ''*'' \<notin> set path \<longrightarrow>
      glob_matches pattern path =
        path_glob (split_char (CHR ''/'') pattern) (split_char (CHR ''/'') path))"
proof -
  have "''*'' \<notin> set (chars s)" if "CHR ''*'' \<notin> set path" "s \<in> set (split_char (CHR ''/'') path)" for s
  proof
    assume "''*'' \<in> set (chars s)"
    then have "CHR ''*'' \<in> set (concat (chars s))" by (auto simp del: concat_chars intro!: bexI [of _ "''*''"])
    then show False using split_by_parts [OF that(2)] that(1) by auto
  qed
  then show ?thesis
    using segments_match_sound segments_match_complete unfolding glob_matches_def by blast
qed

theorem owned_path_matching_is_glob_witness:
  "path_glob (split_char (CHR ''/'') ''src/**/*.rs'') (split_char (CHR ''/'') ''src/a/b/c.rs'')
   \<and> \<not> path_glob (split_char (CHR ''/'') ''src/*'') (split_char (CHR ''/'') ''src/a/b'')"
proof -
  have "glob_matches ''src/**/*.rs'' ''src/a/b/c.rs'' \<and> \<not> glob_matches ''src/*'' ''src/a/b''
    \<and> CHR ''*'' \<notin> set ''src/a/b''" by code_simp
  then show ?thesis using owned_path_matching_is_glob by blast
qed

text \<open>The hypothesis is needed: a literal star in the path is taken for the pattern's.\<close>

lemma star_pattern_misses_literal_star:
  "\<not> glob_matches ''*'' ''*a''
   \<and> path_glob (split_char (CHR ''/'') ''*'') (split_char (CHR ''/'') ''*a'')"
proof
  show "\<not> glob_matches ''*'' ''*a''" by code_simp
  have "glob (chars ''*'') (chars ''*a'')" by code_simp
  then show "path_glob (split_char (CHR ''/'') ''*'') (split_char (CHR ''/'') ''*a'')"
    by (auto intro!: pg_seg pg_end)
qed


section \<open>Literal stretches of a pattern\<close>

lemma no_wild_chars:
  assumes "\<not> has_wild w" and "g \<in> set (chars w)"
  shows "g \<noteq> ''*'' \<and> g \<noteq> ''?''"
proof -
  have "c \<in> set g \<Longrightarrow> \<not> is_wild c" for c
    using assms concat_chars [of w] unfolding has_wild_def list_ex_iff by (metis UN_I set_concat)
  then show ?thesis by (auto simp: is_wild_def)
qed

lemma glob_literal: "\<forall>g \<in> set ps. g \<noteq> ''*'' \<and> g \<noteq> ''?'' \<Longrightarrow> glob ps xs = (ps = xs)"
  by (induction ps arbitrary: xs) (auto split: list.splits)

lemma segment_matches_literal: "\<not> has_wild w \<Longrightarrow> segment_matches w s = (w = s)"
  using segment_matches_sound [of w s] segment_matches_complete [of w s]
    glob_literal [of "chars w"] no_wild_chars [of w] chars_inj by blast

lemma segments_match_literal:
  "\<forall>w \<in> set ws. \<not> has_wild w \<Longrightarrow>
     segments_match (ws @ rs) xs \<longleftrightarrow> (\<exists>ys. xs = ws @ ys \<and> segments_match rs ys)"
proof (induction ws arbitrary: xs)
  case (Cons w ws)
  then have "w \<noteq> ''**''" by (auto simp: has_wild_def is_wild_def)
  then show ?case using Cons by (cases xs) (auto simp: segment_matches_literal)
qed simp

lemma segments_match_stars: "segments_match (replicate (Suc n) ''**'') xs"
proof (induction n)
  case (Suc n)
  then have "list_ex (\<lambda>k. segments_match (replicate (Suc n) ''**'') (drop k xs)) [0..<Suc (length xs)]"
    by (auto simp: list_ex_iff simp del: upt_Suc replicate_Suc intro!: bexI [of _ 0])
  then show ?case by (subst replicate_Suc) (simp del: upt_Suc replicate_Suc)
qed simp

lemma no_wild_parts: "\<not> has_wild s \<Longrightarrow> w \<in> set (split_char d s) \<Longrightarrow> \<not> has_wild w"
  using split_by_parts [of w "\<lambda>c. c = d" s] by (auto simp: has_wild_def list_ex_iff)

text \<open>A pattern that starts with a literal directory only covers paths below it.\<close>

definition below :: "string \<Rightarrow> string \<Rightarrow> bool" where
  "below base path \<longleftrightarrow> prefix (split_char (CHR ''/'') base) (split_char (CHR ''/'') path)"

lemma split_dir: "split_char (CHR ''/'') (a @ ''/'' @ b) = split_char (CHR ''/'') a @ split_char (CHR ''/'') b"
  by (simp add: str_simps)

lemma below_dir [simp]: "below base (base @ ''/'' @ rest)"
  using split_dir [of base rest] by (simp add: below_def)

lemma below_trans: "below a b \<Longrightarrow> below b c \<Longrightarrow> below a c"
  unfolding below_def by (rule prefix_order.order_trans)

lemma below_refl [simp]: "below a a"
  by (simp add: below_def)

lemma glob_below:
  assumes "\<not> has_wild base" and "glob_matches (base @ ''/'' @ rest) path"
  shows "below base path"
  using assms segments_match_literal [of "split_char (CHR ''/'') base"] no_wild_parts [OF assms(1)]
  unfolding glob_matches_def split_dir below_def by (metis prefixI)

lemma glob_literal_path:
  assumes "\<not> has_wild base"
  shows "glob_matches base path \<longleftrightarrow> base = path"
  using segments_match_literal [of "split_char (CHR ''/'') base" "[]"] no_wild_parts [OF assms]
  by (auto simp: glob_matches_def) (metis join_split)+

lemma glob_covers_below:
  assumes "\<not> has_wild base" and "below base path"
  shows "glob_matches (base @ ''/'' @ join ''/'' (replicate (Suc n) ''**'')) path"
proof -
  have "split_char (CHR ''/'') (join ''/'' (replicate (Suc n) ''**'')) = replicate (Suc n) ''**''"
    by (rule split_join) (auto simp: replicate_eq_replicate)
  then show ?thesis
    using assms segments_match_literal [of "split_char (CHR ''/'') base"] no_wild_parts [OF assms(1)]
      segments_match_stars [of n]
    unfolding glob_matches_def split_dir below_def prefix_def by metis
qed

text \<open>One normalised pattern covers one normalised path.\<close>

definition covers1 :: "string \<Rightarrow> string \<Rightarrow> bool" where
  "covers1 pattern path \<longleftrightarrow>
     glob_matches pattern path \<or> (\<not> has_wild pattern \<and> starts_with path (pattern @ ''/''))"

lemma owned_paths_cover_path_iff:
  "owned_paths_cover_path patterns path \<longleftrightarrow>
     (\<exists>q ps. normalize_owned_pattern path = Ok q \<and> normalize_owned_paths patterns = Ok ps
        \<and> (\<exists>p \<in> set ps. covers1 p q))"
  by (auto simp: owned_paths_cover_path_def covers1_def list_ex_iff split: sum.splits)

lemma covers1_dir:
  assumes "\<not> has_wild base" and "covers1 (base @ ''/'' @ rest) path"
  shows "below base path"
  using assms glob_below [OF assms(1)] below_dir [of base "rest @ _"]
  by (auto simp: covers1_def starts_with_def prefix_def)

lemma covers1_literal:
  assumes "\<not> has_wild base" and "covers1 base path"
  shows "below base path"
  using assms glob_literal_path [OF assms(1)] below_dir [of base]
  by (auto simp: covers1_def starts_with_def prefix_def)

section \<open>Authorisation\<close>

lemma slash_stars:
  "concat (replicate (Suc n) ''/**'') = ''/'' @ join ''/'' (replicate (Suc n) ''**'')"
  by (induction n) (auto simp: join_Cons)

lemma literal_front_has: "\<exists>rest. s = literal_front s @ rest"
  unfolding literal_front_def by (metis takeWhile_dropWhile_id)

lemma trusted_pattern_covers_sound:
  assumes "trusted_pattern_covers scope claim" and "covers1 claim path"
  shows "covers1 scope path"
proof (cases "scope = claim")
  case False
  let ?b = "trim_end_matches scope ''/**''"
  let ?l = "if has_wild claim then literal_front claim else claim"
  from False assms(1) have b: "suffix ''/**'' scope" "\<not> has_wild ?b" "prefix (?b @ ''/'') ?l"
    by (auto simp: trusted_pattern_covers_def ends_with_def starts_with_def Let_def split: if_splits)
  have "prefix ?l claim" using literal_front_has [of claim] by (auto simp: prefix_def)
  with b(3) have "prefix (?b @ ''/'') claim" by (rule prefix_order.order_trans)
  then obtain rest where "claim = ?b @ ''/'' @ rest" by (auto simp: prefix_def)
  then have below: "below ?b path" using covers1_dir [OF b(2)] assms(2) by metis
  obtain n where n: "scope = ?b @ concat (replicate n ''/**'')"
    using trim_end_matches_form [of "''/**''" scope] by auto
  have "n \<noteq> 0"
  proof
    assume "n = 0"
    with n have "scope = ?b" by simp
    then have "\<not> has_wild scope" using b(2) by simp
    then show False using b(1) by (auto simp: has_wild_def is_wild_def suffix_def)
  qed
  then obtain k where "n = Suc k" by (cases n) auto
  with n have "scope = ?b @ ''/'' @ join ''/'' (replicate (Suc k) ''**'')" by (simp only: slash_stars)
  then have "glob_matches scope path" using glob_covers_below [OF b(2) below, of k] by metis
  then show ?thesis by (simp add: covers1_def)
qed (use assms in simp)


text \<open>
  A provenance check is an authorisation: when every claimed pattern is covered by a trusted
  one, no path the claim covers lies outside the trusted scope.
\<close>
theorem provenanced_claims_stay_inside:
  assumes "owned_paths_are_provenanced claimed trusted"
    and "owned_paths_cover_path claimed path"
  shows "owned_paths_cover_path trusted path"
proof -
  from assms(2) obtain q cs c where c: "normalize_owned_pattern path = Ok q"
    "normalize_owned_paths claimed = Ok cs" "c \<in> set cs" "covers1 c q"
    by (auto simp: owned_paths_cover_path_iff)
  with assms(1) obtain ts t where "normalize_owned_paths trusted = Ok ts" "t \<in> set ts"
    "trusted_pattern_covers t c"
    by (auto simp: owned_paths_are_provenanced_def list_all_iff list_ex_iff split: sum.splits)
  with c trusted_pattern_covers_sound show ?thesis by (auto simp: owned_paths_cover_path_iff)
qed

theorem provenanced_claims_stay_inside_witness:
  "owned_paths_cover_path [''src/**''] ''src/ui/app.tsx''"
proof (rule provenanced_claims_stay_inside)
  show "owned_paths_are_provenanced [''src/ui/*.tsx''] [''src/**'']" by code_simp
  show "owned_paths_cover_path [''src/ui/*.tsx''] ''src/ui/app.tsx''" by code_simp
qed

section \<open>Overlap\<close>

lemma path_prefix_below: "below a b \<Longrightarrow> path_prefix a b"
proof -
  assume "below a b"
  then obtain ys where ys: "split_char (CHR ''/'') b = split_char (CHR ''/'') a @ ys"
    by (auto simp: below_def prefix_def)
  show ?thesis
  proof (cases "ys = []")
    case True
    with ys have "a = b" by (metis append_Nil2 join_split)
    then show ?thesis by (simp add: path_prefix_def)
  next
    case False
    have "join ''/'' (split_char (CHR ''/'') b) = a @ ''/'' @ join ''/'' ys"
      unfolding ys by (subst join_append) (simp_all add: False join_split)
    then have "b = a @ ''/'' @ join ''/'' ys" by (simp add: join_split)
    then show ?thesis by (simp add: path_prefix_def starts_with_def)
  qed
qed

lemma below_total: "below a p \<Longrightarrow> below b p \<Longrightarrow> below a b \<or> below b a"
  unfolding below_def by (rule prefix_same_cases)

text \<open>The patterns whose first wildcard starts a segment.\<close>

definition wildcard_starts_segment :: "string \<Rightarrow> bool" where
  "wildcard_starts_segment s \<longleftrightarrow>
     has_wild s \<and> literal_front s \<noteq> [] \<longrightarrow> last (literal_front s) = CHR ''/''"

lemma drop_slashes:
  "\<exists>n. s = rev (dropWhile (\<lambda>c. c = x) (rev s)) @ replicate n x"
proof -
  have "rev s = takeWhile (\<lambda>c. c = x) (rev s) @ dropWhile (\<lambda>c. c = x) (rev s)" by simp
  moreover have "takeWhile (\<lambda>c. c = x) (rev s) = replicate (length (takeWhile (\<lambda>c. c = x) (rev s))) x"
    by (rule replicate_eqI) (auto dest: set_takeWhileD)
  ultimately show ?thesis by (metis rev_append rev_replicate rev_rev_ident)
qed

lemma literal_front_no_wild: "\<not> has_wild (literal_front s)"
  unfolding has_wild_def literal_front_def list_ex_iff by (auto dest: set_takeWhileD)

lemma overlap_prefix_below:
  assumes "wildcard_starts_segment s" and "overlap_prefix s \<noteq> []" and "covers1 s path"
  shows "below (overlap_prefix s) path"
proof (cases "has_wild s")
  case False
  then show ?thesis using assms covers1_literal by (simp add: overlap_prefix_def)
next
  case True
  let ?l = "literal_front s" and ?p = "overlap_prefix s"
  obtain n where n: "?l = ?p @ replicate n (CHR ''/'')"
    using drop_slashes [of ?l "CHR ''/''"] True by (auto simp: overlap_prefix_def)
  have l: "?l \<noteq> []" using n assms(2) by auto
  have "n \<noteq> 0"
  proof
    assume "n = 0"
    with n have "last ?p = CHR ''/''" using assms(1) True l by (simp add: wildcard_starts_segment_def)
    moreover have "?p = rev (dropWhile (\<lambda>c. c = CHR ''/'') (rev ?l))"
      using True by (simp add: overlap_prefix_def)
    ultimately show False
      using assms(2) hd_dropWhile [of "\<lambda>c. c = CHR ''/''" "rev ?l"] by (auto simp: last_rev)
  qed
  then obtain k where "n = Suc k" by (cases n) auto
  moreover obtain rest where "s = ?l @ rest" using literal_front_has by blast
  ultimately have s: "s = ?p @ ''/'' @ replicate k (CHR ''/'') @ rest" using n by simp
  have "\<not> has_wild ?p" using literal_front_no_wild [of s] n by (metis Un_iff has_wild_def list_ex_iff set_append)
  then show ?thesis using covers1_dir s assms(3) by metis
qed

lemma apart_covers_disjoint:
  assumes "\<not> normalized_patterns_overlap l r"
    and "wildcard_starts_segment l" and "wildcard_starts_segment r" and "covers1 l path"
  shows "\<not> covers1 r path"
proof
  assume "covers1 r path"
  moreover have "overlap_prefix l \<noteq> []" "overlap_prefix r \<noteq> []"
    using assms(1) by (auto simp: normalized_patterns_overlap_def)
  ultimately have "below (overlap_prefix l) path" "below (overlap_prefix r) path"
    using assms overlap_prefix_below by blast+
  then have "below (overlap_prefix l) (overlap_prefix r) \<or> below (overlap_prefix r) (overlap_prefix l)"
    by (rule below_total)
  with path_prefix_below assms(1) show False
    by (auto simp: normalized_patterns_overlap_def split: if_splits)
qed

text \<open>Claims whose patterns normalise to ones whose first wildcard starts a segment.\<close>

definition pattern_aligned :: "string \<Rightarrow> bool" where
  "pattern_aligned p \<longleftrightarrow>
     (case normalize_owned_pattern p of Inl _ \<Rightarrow> True | Inr q \<Rightarrow> wildcard_starts_segment q)"

definition segment_aligned :: "string list \<Rightarrow> bool" where
  "segment_aligned ps \<longleftrightarrow> list_all pattern_aligned ps"

lemma normalize_owned_paths_mem:
  "normalize_owned_paths ps = Ok qs \<Longrightarrow> q \<in> set qs \<Longrightarrow> \<exists>p \<in> set ps. normalize_owned_pattern p = Ok q"
  by (auto simp: normalize_owned_paths_def dest: collect_results_mem split: sum.splits)

lemma segment_aligned_mem:
  "segment_aligned ps \<Longrightarrow> normalize_owned_paths ps = Ok qs \<Longrightarrow> q \<in> set qs \<Longrightarrow> wildcard_starts_segment q"
  using normalize_owned_paths_mem [of ps qs q] by (auto simp: segment_aligned_def pattern_aligned_def list_all_iff)

lemma apart_claims_share_no_path:
  assumes "owned_path_sets_overlap left right = Ok False"
    and "segment_aligned left" and "segment_aligned right"
    and "owned_paths_cover_path left path"
  shows "\<not> owned_paths_cover_path right path"
proof
  assume r: "owned_paths_cover_path right path"
  from assms(1) obtain ls rs where n: "normalize_owned_paths left = Ok ls"
    "normalize_owned_paths right = Ok rs"
    "\<forall>l \<in> set ls. \<forall>r \<in> set rs. \<not> normalized_patterns_overlap l r"
    by (auto simp: owned_path_sets_overlap_def list_ex_iff split: if_splits sum.splits)
  with r assms(4) obtain q l r where "l \<in> set ls" "r \<in> set rs" "covers1 l q" "covers1 r q"
    by (auto simp: owned_paths_cover_path_iff)
  with n apart_covers_disjoint segment_aligned_mem assms(2,3) show False by blast
qed

text \<open>
  Leases that do not overlap are disjoint: when the check finds no overlap between two claims
  whose wildcards start at a segment, no path is covered by both.
\<close>
theorem disjoint_leases_share_no_path:
  assumes "owned_path_sets_overlap left right = Ok False"
    and "segment_aligned left" and "segment_aligned right"
    and "owned_paths_cover_path left path"
  shows "\<not> owned_paths_cover_path right path"
  using assms by (rule apart_claims_share_no_path)

theorem disjoint_leases_share_no_path_witness:
  "\<not> owned_paths_cover_path [''src/ui/**''] ''src/core/lib.rs''"
proof (rule disjoint_leases_share_no_path)
  show "owned_path_sets_overlap [''src/core/*.rs''] [''src/ui/**''] = Ok False" by code_simp
  show "segment_aligned [''src/core/*.rs'']" by code_simp
  show "segment_aligned [''src/ui/**'']" by code_simp
  show "owned_paths_cover_path [''src/core/*.rs''] ''src/core/lib.rs''" by code_simp
qed

text \<open>A stem that ends inside a segment, followed by a star:\<close>

lemma split_last: "CHR ''/'' \<notin> set y \<Longrightarrow>
  split_char (CHR ''/'') (a @ y) = butlast (split_char (CHR ''/'') a) @ [last (split_char (CHR ''/'') a) @ y]"
proof (induction a)
  case Nil
  then show ?case by (induction y) (auto simp: str_simps)
next
  case (Cons c a)
  then show ?case
    by (cases "split_char (CHR ''/'') a") (auto simp: str_simps split: list.splits)
qed

lemma star_matches_on:
  assumes "\<not> has_wild (a @ x)" "CHR ''/'' \<notin> set x" "\<not> is_cont (hd x)"
  shows "glob_matches (a @ ''*'') (a @ x)"
proof -
  let ?s = "split_char (CHR ''/'') a"
  let ?l = "last ?s"
  have ne: "?s \<noteq> []" by (simp add: str_simps)
  have wild: "\<not> has_wild w" if "w \<in> set ?s" for w
    using assms(1) split_by_parts [OF that] by (auto simp: has_wild_def list_ex_iff)
  have cont: "\<not> is_cont CHR ''*''" by code_simp
  have "glob (chars ?l @ [''*'']) (chars ?l @ chars x)"
  proof (rule glob_fits)
    show "list_all2 fits (chars ?l) (chars ?l)" by (rule list_all2_refl) (simp add: fits_def)
    have "glob [] (drop (length (chars x)) (chars x))" by simp
    then show "glob [''*''] (chars x)" unfolding glob_star by blast
  qed
  moreover have "chars (?l @ ''*'') = chars ?l @ [''*'']" using chars_append [of "''*''"] cont by simp
  moreover have "chars (?l @ x) = chars ?l @ chars x" using chars_append assms(3) by blast
  moreover have "''*'' \<notin> set (chars (?l @ x))"
  proof -
    have "\<not> has_wild (?l @ x)" using wild [of ?l] ne assms(1) by (auto simp: has_wild_def)
    from no_wild_chars [OF this] show ?thesis by blast
  qed
  ultimately have seg: "segment_matches (?l @ ''*'') (?l @ x)" by (simp add: segment_matches_complete)
  have "?l @ ''*'' \<noteq> ''**''" using wild [of ?l] ne by (auto simp: has_wild_def is_wild_def)
  with seg have "segments_match [?l @ ''*''] [?l @ x]" by simp
  then show ?thesis
    using segments_match_literal [of "butlast ?s" "[?l @ ''*'']" "butlast ?s @ [?l @ x]"] wild in_set_butlastD [of _ ?s]
      split_last [of "''*''" a] split_last [OF assms(2), of a]
    by (auto simp: glob_matches_def)
qed

lemma normalize_owned_path: "normalize_owned_pattern p = Ok q \<Longrightarrow> normalize_owned_paths [p] = Ok [q]"
  by (simp add: normalize_owned_paths_def)

text \<open>
  C35. The alignment is needed: the check cuts the pattern \<open>a*\<close> to the stem \<open>a\<close> and compares whole
  segments. For every stem and every rest \<open>x\<close> of a segment, both without wildcards and in normal
  form, with \<open>a\<close> not ending in a slash and \<open>x\<close> a non-empty run of characters without one, it calls
  \<open>a*\<close> and the path \<open>ax\<close> disjoint although both claims cover \<open>ax\<close>.
\<close>
theorem overlap_misses_partial_segment:
  assumes "normalize_owned_pattern (a @ ''*'') = Ok (a @ ''*'')" "normalize_owned_pattern (a @ x) = Ok (a @ x)"
    and "a \<noteq> []" "last a \<noteq> CHR ''/''" "x \<noteq> []" "CHR ''/'' \<notin> set x" "\<not> is_cont (hd x)" "\<not> has_wild (a @ x)"
  shows "owned_path_sets_overlap [a @ ''*''] [a @ x] = Ok False
    \<and> owned_paths_cover_path [a @ ''*''] (a @ x) \<and> owned_paths_cover_path [a @ x] (a @ x)"
proof -
  have tame: "\<not> is_wild c" if "c \<in> set a" for c using that assms(8) by (auto simp: has_wild_def list_ex_iff)
  then have "literal_front (a @ ''*'') = a" by (auto simp: literal_front_def takeWhile_append is_wild_def)
  moreover have "dropWhile (\<lambda>c. c = CHR ''/'') (rev a) = rev a"
    using assms(3,4) by (cases a rule: rev_cases) simp_all
  ultimately have o: "overlap_prefix (a @ ''*'') = a" "overlap_prefix (a @ x) = a @ x"
    using assms(8) by (auto simp: overlap_prefix_def has_wild_def is_wild_def)
  have "\<not> path_prefix a (a @ x)" "\<not> path_prefix (a @ x) a"
    using assms(5,6)
    by (auto simp: path_prefix_def strip_prefix_Some starts_with_def prefix_def split: option.splits)
  then have "\<not> normalized_patterns_overlap (a @ ''*'') (a @ x)"
    using o assms(3) by (simp add: normalized_patterns_overlap_def)
  moreover have "covers1 (a @ ''*'') (a @ x)"
    using star_matches_on [OF assms(8,6,7)] by (simp add: covers1_def)
  moreover have "covers1 (a @ x) (a @ x)"
    using segments_match_literal [of "split_char (CHR ''/'') (a @ x)" "[]"] assms(8) split_by_parts
    by (fastforce simp: covers1_def glob_matches_def has_wild_def list_ex_iff)
  ultimately show ?thesis
    using assms(1,2) normalize_owned_path
    by (auto simp: owned_path_sets_overlap_def owned_paths_cover_path_iff)
qed

theorem overlap_misses_partial_segment_witness:
  "owned_path_sets_overlap [''src/a*''] [''src/abc''] = Ok False
   \<and> owned_paths_cover_path [''src/a*''] ''src/abc'' \<and> owned_paths_cover_path [''src/abc''] ''src/abc''"
proof -
  have "normalize_owned_pattern (''src/a'' @ ''*'') = Ok (''src/a'' @ ''*'')"
    "normalize_owned_pattern (''src/a'' @ ''bc'') = Ok (''src/a'' @ ''bc'')"
    "last ''src/a'' \<noteq> CHR ''/''" "CHR ''/'' \<notin> set ''bc''" "\<not> is_cont (hd ''bc'')" "\<not> has_wild (''src/a'' @ ''bc'')"
    by code_simp+
  from overlap_misses_partial_segment [OF this(1,2) _ this(3) _ this(4-6)] show ?thesis by simp
qed

section \<open>How long a match takes\<close>

text \<open>The loop of \<open>segment_matches\<close> run for a number of iterations: \<open>None\<close> when it needs more.\<close>

fun match_fuel ::
    "nat \<Rightarrow> string list \<Rightarrow> string list \<Rightarrow> nat \<Rightarrow> nat \<Rightarrow> nat option \<Rightarrow> nat \<Rightarrow> bool option" where
  "match_fuel 0 pat seg p s star star_s = None"
| "match_fuel (Suc n) pat seg p s star star_s =
     (if s < length seg then
        (if p < length pat \<and> (pat ! p = ''?'' \<or> pat ! p = seg ! s)
         then match_fuel n pat seg (p + 1) (s + 1) star star_s
         else if p < length pat \<and> pat ! p = ''*''
         then match_fuel n pat seg (p + 1) s (Some p) s
         else (case star of
                 Some k \<Rightarrow> match_fuel n pat seg (k + 1) (star_s + 1) (Some k) (star_s + 1)
               | None \<Rightarrow> Some False))
      else Some (list_all (\<lambda>c. c = ''*'') (drop p pat)))"

lemma match_fuel_enough:
  assumes "(length seg - star_s) * (length pat + 1) + (length pat - p) < n"
    and "p \<le> length pat" "star_s \<le> s" "s \<le> length seg" "\<forall>k. star = Some k \<longrightarrow> k < length pat"
  shows "match_fuel n pat seg p s star star_s = Some (match_loop pat seg p s star star_s)"
  using assms
proof (induction n arbitrary: p s star star_s)
  case (Suc n)
  let ?m = "length pat" and ?l = "length seg"
  have eq: "match_loop pat seg p s star star_s =
     (if s < length seg then
        (if p < length pat \<and> (pat ! p = ''?'' \<or> pat ! p = seg ! s)
         then match_loop pat seg (p + 1) (s + 1) star star_s
         else if p < length pat \<and> pat ! p = ''*''
         then match_loop pat seg (p + 1) s (Some p) s
         else (case star of
                 Some k \<Rightarrow> match_loop pat seg (k + 1) (star_s + 1) (Some k) (star_s + 1)
               | None \<Rightarrow> False))
      else list_all (\<lambda>c. c = ''*'') (drop p pat))"
    by (rule match_loop.simps)
  consider "\<not> s < ?l" | "s < ?l" "p < ?m \<and> (pat ! p = ''?'' \<or> pat ! p = seg ! s)"
    | "s < ?l" "\<not> (p < ?m \<and> (pat ! p = ''?'' \<or> pat ! p = seg ! s))" "p < ?m \<and> pat ! p = ''*''"
    | "s < ?l" "\<not> (p < ?m \<and> (pat ! p = ''?'' \<or> pat ! p = seg ! s))" "\<not> (p < ?m \<and> pat ! p = ''*'')"
    by blast
  then show ?case
  proof cases
    case 2
    have "match_fuel n pat seg (p + 1) (s + 1) star star_s = Some (match_loop pat seg (p + 1) (s + 1) star star_s)"
      by (rule Suc.IH) (use Suc.prems 2 in auto)
    with 2 show ?thesis by (simp only: match_fuel.simps eq if_True simp_thms)
  next
    case 3
    have "(?l - s) * (?m + 1) \<le> (?l - star_s) * (?m + 1)" using Suc.prems by (intro mult_right_mono) auto
    then have "match_fuel n pat seg (p + 1) s (Some p) s = Some (match_loop pat seg (p + 1) s (Some p) s)"
      using Suc.prems 3 by (intro Suc.IH) auto
    with 3 show ?thesis by (simp only: match_fuel.simps eq if_True if_False simp_thms)
  next
    case 4
    show ?thesis
    proof (cases star)
      case (Some k)
      have k: "k < ?m" and ss: "star_s < ?l" using Suc.prems 4 Some by auto
      then obtain d where d: "?l - star_s = Suc d" by (cases "?l - star_s") auto
      then have "?l - (star_s + 1) = d" by simp
      then have "match_fuel n pat seg (k + 1) (star_s + 1) (Some k) (star_s + 1)
          = Some (match_loop pat seg (k + 1) (star_s + 1) (Some k) (star_s + 1))"
        using Suc.prems(1) k ss d by (intro Suc.IH) auto
      with 4 Some show ?thesis
        by (simp only: match_fuel.simps eq [unfolded Some] if_True if_False simp_thms option.case)
    next
      case None
      with 4 show ?thesis by (simp only: match_fuel.simps eq [unfolded None] if_True if_False simp_thms option.case)
    qed
  next
    case 1
    then show ?thesis by (simp only: match_fuel.simps eq if_False)
  qed
qed simp

text \<open>
  Matching a segment against a pattern ends, and soon: whatever the pattern, however many
  stars it has, the loop needs at most (pattern length + 1) * (segment length + 1) iterations,
  counted in characters, and what it has answered by then is what \<open>segment_matches\<close> answers.
\<close>
theorem segment_match_is_quadratic:
  "match_fuel ((length (chars pattern) + 1) * (length (chars segment) + 1))
     (chars pattern) (chars segment) 0 0 None 0 = Some (segment_matches pattern segment)"
  unfolding segment_matches_def by (rule match_fuel_enough) (auto simp: algebra_simps)

end
