(* ===== verification/Harness.thy ===== *)
theory Harness
  imports Rust_Prelude
begin

text \<open>
  Harness identity: the wire id and its grammar (\<open>bridge-protocol/src/messages/common.rs\<close>),
  the \<open>Harness\<close> enum with its strict and its total reading (\<open>bridge-core/src/model.rs\<close>), and
  the folding of a model-written hint (\<open>normalize_harness\<close> in \<open>delegation.rs\<close>). The properties
  say that an id has one spelling and one variant, that a stored row always loads and loads to
  itself, and that no hint ever names the shell.
\<close>

definition builtin_harness_ids :: "string list" where
  "builtin_harness_ids =
     [''claude'', ''codex'', ''cursor'', ''grok'', ''opencode'', ''pi'', ''shell'']"

record harness_id_error =
  hie_value :: string
  hie_reason :: string

definition harness_id_error_new :: "string \<Rightarrow> string \<Rightarrow> harness_id_error" where
  "harness_id_error_new value reason =
     (let echoed = concat (take 80 (chars value)) in
      \<lparr>hie_value = (if min 80 (length (chars value)) < length (chars value)
                   then echoed @ ellipsis else echoed),
       hie_reason = reason\<rparr>)"

definition harness_id_char :: "char \<Rightarrow> bool" where
  "harness_id_char c \<longleftrightarrow>
     ascii_lowercase c \<or> ascii_digit c \<or> c = CHR ''-'' \<or> c = CHR ''.'' \<or> c = CHR ''_''"

definition harness_id_parse :: "string \<Rightarrow> (harness_id_error, string) result" where
  "harness_id_parse value =
     (if value = [] then Err (harness_id_error_new value ''a harness id cannot be empty'')
      else if length value > 64
      then Err (harness_id_error_new value ''a harness id may not exceed 64 characters'')
      else if \<not> (ascii_lowercase (hd value) \<or> ascii_digit (hd value))
      then Err (harness_id_error_new value
                  ''a harness id must start with a lowercase letter or digit'')
      else if \<not> list_all harness_id_char value
      then Err (harness_id_error_new value
        (''a harness id may only contain lowercase letters, digits, '-', '.', and '_'' @ [CHR 0x27]))
      else Ok value)"

datatype harness =
  Claude | Codex | Cursor | Grok | OpenCode | Pi | Shell | Agent string | Unknown string

fun harness_id :: "harness \<Rightarrow> string" where
  "harness_id Claude = ''claude''"
| "harness_id Codex = ''codex''"
| "harness_id Cursor = ''cursor''"
| "harness_id Grok = ''grok''"
| "harness_id OpenCode = ''opencode''"
| "harness_id Pi = ''pi''"
| "harness_id Shell = ''shell''"
| "harness_id (Agent a) = a"
| "harness_id (Unknown raw) = raw"

definition harness_of_id :: "string \<Rightarrow> harness" where
  "harness_of_id i =
     (if i = ''claude'' then Claude
      else if i = ''codex'' then Codex
      else if i = ''cursor'' then Cursor
      else if i = ''grok'' then Grok
      else if i = ''opencode'' then OpenCode
      else if i = ''pi'' then Pi
      else if i = ''shell'' then Shell
      else Agent i)"

definition harness_parse :: "string \<Rightarrow> (harness_id_error, harness) result" where
  "harness_parse value =
     (case harness_id_parse value of Inl e \<Rightarrow> Err e | Inr i \<Rightarrow> Ok (harness_of_id i))"

definition harness_from_stored :: "string \<Rightarrow> harness" where
  "harness_from_stored value = unwrap_or (Unknown value) (harness_parse value)"

fun harness_label :: "harness \<Rightarrow> string" where
  "harness_label Claude = ''Claude''"
| "harness_label Codex = ''Codex''"
| "harness_label Cursor = ''Cursor''"
| "harness_label Grok = ''Grok Build''"
| "harness_label OpenCode = ''OpenCode''"
| "harness_label Pi = ''Pi''"
| "harness_label Shell = ''Shell''"
| "harness_label (Agent a) = a"
| "harness_label (Unknown raw) = raw"

text \<open>The strict wire id of a harness: refused for exactly the unknown ones.\<close>

definition harness_try_id :: "harness \<Rightarrow> (harness_id_error, string) result" where
  "harness_try_id h = harness_id_parse (harness_id h)"

definition normalize_harness :: "string \<Rightarrow> string option" where
  "normalize_harness value =
     (let lowercased = to_ascii_lowercase (trim value) in
      if lowercased \<in> {''claude'', ''claude-code'', ''claudecode'', ''anthropic''} then Some ''claude''
      else if lowercased \<in> {''codex'', ''gpt'', ''openai''} then Some ''codex''
      else if lowercased \<in> {''opencode'', ''open-code''} then Some ''opencode''
      else if lowercased = ''shell'' then None
      else map_option harness_id (ok (harness_parse lowercased)))"

section \<open>Identity\<close>

lemma harness_id_parse_Ok: "harness_id_parse v = Inr i \<Longrightarrow> i = v"
  by (auto simp: harness_id_parse_def split: if_splits)

lemma harness_id_of_id [simp]: "harness_id (harness_of_id i) = i"
  by (simp add: harness_of_id_def)

lemma harness_of_id_known: "harness_of_id i \<noteq> Unknown raw"
  by (simp add: harness_of_id_def)

lemma harness_parse_id: "harness_parse v = Inr h \<Longrightarrow> harness_id h = v \<and> h = harness_of_id v"
  by (auto simp: harness_parse_def dest!: harness_id_parse_Ok split: sum.splits)

lemma harness_from_stored_id: "harness_id (harness_from_stored v) = v"
  by (cases "harness_parse v") (auto simp: harness_from_stored_def dest: harness_parse_id)

text \<open>
  A stored harness id always loads, keeps its name and has one reading: the id of the loaded
  harness is the stored text, so loading it again gives the same harness; an id the strict
  parser accepts loads as what the parser returns; and the loaded harness is \<open>Unknown\<close> exactly
  when the parser refuses the text, which is also when it has no wire id.
\<close>
theorem harness_stored_id_round_trip:
  "harness_id (harness_from_stored v) = v
   \<and> harness_from_stored (harness_id (harness_from_stored v)) = harness_from_stored v
   \<and> (harness_parse v = Ok h) = (is_ok (harness_id_parse v) \<and> h = harness_from_stored v)
   \<and> (harness_from_stored v = Unknown v) = (\<not> is_ok (harness_try_id (harness_from_stored v)))"
proof (cases "harness_id_parse v")
  case (Inl e)
  then show ?thesis by (simp add: harness_from_stored_def harness_parse_def harness_try_id_def)
next
  case (Inr i)
  with harness_id_parse_Ok have "i = v" by blast
  with Inr harness_of_id_known [of v v] show ?thesis
    by (auto simp: harness_from_stored_def harness_parse_def harness_try_id_def)
qed

text \<open>
  A model cannot delegate to the shell: whatever a hint says, it folds to no harness or to a
  well-formed id other than \<open>shell\<close>.
\<close>
theorem harness_hint_is_never_shell:
  assumes "normalize_harness hint = Some i"
  shows "i \<noteq> ''shell'' \<and> harness_id_parse i = Ok i"
proof -
  have "is_ok (harness_id_parse ''claude'') \<and> is_ok (harness_id_parse ''codex'')
    \<and> is_ok (harness_id_parse ''opencode'')" by code_simp
  moreover have "is_ok (harness_id_parse v) \<Longrightarrow> harness_id_parse v = Ok v" for v
    using harness_id_parse_Ok by (cases "harness_id_parse v") auto
  ultimately show ?thesis
    using assms
    by (auto simp: normalize_harness_def Let_def harness_parse_def dest: harness_id_parse_Ok
        split: if_splits sum.splits)
qed

theorem harness_hint_is_never_shell_witness:
  "''gemini'' \<noteq> ''shell'' \<and> normalize_harness '' Gemini'' = Some ''gemini''"
proof -
  have "normalize_harness '' Gemini'' = Some ''gemini''" by code_simp
  with harness_hint_is_never_shell show ?thesis by blast
qed

end
