(* ===== verification/Json.thy ===== *)
theory Json
  imports Rust_Prelude Complex_Main "HOL-Library.Multiset"
begin

text \<open>
  \<open>serde_json::Value\<close> as the components read and edit it. An object is its entries in
  insertion order (the lock file's \<open>serde_json\<close> is built on \<open>indexmap\<close>): \<open>insert\<close> replaces in
  place or appends, \<open>remove\<close> moves the last entry into the hole. A number is what the parser
  stores: a \<open>u64\<close>, a negative \<open>i64\<close>, or a finite \<open>f64\<close>, which is a rational. Parsing text is a
  library's, so the parser is a parameter wherever the code calls it.
\<close>

datatype json =
    JNull
  | JBool bool
  | JPos nat
  | JNeg int
  | JFloat rat
  | JStr string
  | JArr "json list"
  | JObj "(string \<times> json) list"

type_synonym json_object = "(string \<times> json) list"

fun as_str :: "json \<Rightarrow> string option" where
  "as_str (JStr s) = Some s"
| "as_str _ = None"

fun as_u64 :: "json \<Rightarrow> nat option" where
  "as_u64 (JPos n) = Some n"
| "as_u64 _ = None"

text \<open>\<open>as_i64\<close> refuses a \<open>u64\<close> above \<open>i64::MAX\<close>.\<close>

fun as_i64 :: "json \<Rightarrow> int option" where
  "as_i64 (JPos n) = (if int n \<le> i64_max then Some (int n) else None)"
| "as_i64 (JNeg i) = Some i"
| "as_i64 _ = None"

fun as_bool :: "json \<Rightarrow> bool option" where
  "as_bool (JBool b) = Some b"
| "as_bool _ = None"

fun as_array :: "json \<Rightarrow> json list option" where
  "as_array (JArr xs) = Some xs"
| "as_array _ = None"

fun as_object :: "json \<Rightarrow> json_object option" where
  "as_object (JObj ob) = Some ob"
| "as_object _ = None"

fun obj_insert :: "string \<Rightarrow> json \<Rightarrow> json_object \<Rightarrow> json_object" where
  "obj_insert k v [] = [(k, v)]"
| "obj_insert k v ((k', v') # ob) = (if k = k' then (k, v) # ob else (k', v') # obj_insert k v ob)"

fun swap_remove :: "string \<Rightarrow> json_object \<Rightarrow> json_object" where
  "swap_remove k [] = []"
| "swap_remove k ((k', v') # ob) =
     (if k = k' then (if ob = [] then [] else last ob # butlast ob) else (k', v') # swap_remove k ob)"

text \<open>\<open>object.get(key)\<close> and \<open>value.get(key)\<close>: \<open>map_of\<close> on the entries.\<close>

definition obj_get :: "json_object \<Rightarrow> string \<Rightarrow> json option" where
  "obj_get ob k = map_of ob k"

definition json_get :: "json \<Rightarrow> string \<Rightarrow> json option" where
  "json_get v k = (case as_object v of None \<Rightarrow> None | Some ob \<Rightarrow> obj_get ob k)"

definition obj_keys :: "json_object \<Rightarrow> string list" where
  "obj_keys ob = map fst ob"

text \<open>\<open>get(key).and_then(Value::as_str)\<close>\<close>

definition get_str :: "json_object \<Rightarrow> string \<Rightarrow> string option" where
  "get_str ob k = Option.bind (obj_get ob k) as_str"

text \<open>How an \<open>i64\<close> and an \<open>Option\<close> are written.\<close>

definition json_int :: "int \<Rightarrow> json" where
  "json_int i = (if i < 0 then JNeg i else JPos (nat i))"

definition json_opt :: "('a \<Rightarrow> json) \<Rightarrow> 'a option \<Rightarrow> json" where
  "json_opt f v = (case v of None \<Rightarrow> JNull | Some a \<Rightarrow> f a)"

section \<open>Laws of objects\<close>

lemma obj_get_insert [simp]:
  "obj_get (obj_insert k v ob) k' = (if k' = k then Some v else obj_get ob k')"
  by (induction k v ob rule: obj_insert.induct) (auto simp: obj_get_def)

lemma get_str_insert [simp]:
  "get_str (obj_insert k v ob) k' = (if k' = k then as_str v else get_str ob k')"
  by (simp add: get_str_def)

lemma obj_keys_insert:
  "set (obj_keys (obj_insert k v ob)) = insert k (set (obj_keys ob))"
  by (induction k v ob rule: obj_insert.induct) (auto simp: obj_keys_def)

lemma obj_keys_insert_order:
  "obj_keys (obj_insert k v ob) = (if k \<in> set (obj_keys ob) then obj_keys ob else obj_keys ob @ [k])"
  by (induction k v ob rule: obj_insert.induct) (auto simp: obj_keys_def)

lemma distinct_obj_insert: "distinct (obj_keys ob) \<Longrightarrow> distinct (obj_keys (obj_insert k v ob))"
  by (simp add: obj_keys_insert_order)

lemma obj_insert_same: "obj_get ob k = Some v \<Longrightarrow> distinct (obj_keys ob) \<Longrightarrow> obj_insert k v ob = ob"
  by (induction k v ob rule: obj_insert.induct) (auto simp: obj_get_def obj_keys_def split: if_splits)

lemma mset_last_first: "xs \<noteq> [] \<Longrightarrow> mset (last xs # butlast xs) = mset xs"
  by (cases xs rule: rev_cases) auto

lemma mset_swap_remove:
  "mset (swap_remove k ob) = mset (case find (\<lambda>e. fst e = k) ob of None \<Rightarrow> ob | Some e \<Rightarrow> remove1 e ob)"
proof (induction k ob rule: swap_remove.induct)
  case (2 k k' v' ob)
  show ?case
  proof (cases "k = k'")
    case True
    then show ?thesis using mset_last_first [of ob] by (cases "ob = []") auto
  next
    case False
    with 2 have IH: "mset (swap_remove k ob)
        = mset (case find (\<lambda>e. fst e = k) ob of None \<Rightarrow> ob | Some e \<Rightarrow> remove1 e ob)" by simp
    show ?thesis
    proof (cases "find (\<lambda>e. fst e = k) ob")
      case None
      then show ?thesis using False IH by simp
    next
      case (Some e)
      then have "fst e = k" by (auto simp: find_Some_iff)
      then show ?thesis using False IH Some by auto
    qed
  qed
qed simp

lemma find_key_remove:
  "distinct (obj_keys ob) \<Longrightarrow>
     mset (case find (\<lambda>e. fst e = k) ob of None \<Rightarrow> ob | Some e \<Rightarrow> remove1 e ob)
       = mset (filter (\<lambda>e. fst e \<noteq> k) ob)"
proof (induction ob)
  case (Cons a ob)
  show ?case
  proof (cases "fst a = k")
    case True
    with Cons.prems have "filter (\<lambda>e. fst e \<noteq> k) ob = ob"
      by (intro filter_True) (auto simp: obj_keys_def image_iff)
    with True show ?thesis by simp
  next
    case False
    have IH: "mset (case find (\<lambda>e. fst e = k) ob of None \<Rightarrow> ob | Some e \<Rightarrow> remove1 e ob)
        = mset (filter (\<lambda>e. fst e \<noteq> k) ob)"
      using Cons by (simp add: obj_keys_def)
    show ?thesis
    proof (cases "find (\<lambda>e. fst e = k) ob")
      case None
      then show ?thesis using False IH by simp
    next
      case (Some e)
      then have "e \<noteq> a" using False by (auto simp: find_Some_iff)
      then show ?thesis using False IH Some by simp
    qed
  qed
qed simp

lemma swap_remove_mset:
  "distinct (obj_keys ob) \<Longrightarrow> mset (swap_remove k ob) = mset (filter (\<lambda>e. fst e \<noteq> k) ob)"
  by (simp only: mset_swap_remove find_key_remove)

lemma swap_remove_set:
  "distinct (obj_keys ob) \<Longrightarrow> set (swap_remove k ob) = {e \<in> set ob. fst e \<noteq> k}"
  using mset_eq_setD [OF swap_remove_mset [of ob k]] by auto

lemma swap_remove_distinct:
  assumes "distinct (obj_keys ob)"
  shows "distinct (obj_keys (swap_remove k ob))"
proof -
  have "mset (obj_keys (swap_remove k ob)) = mset (map fst (filter (\<lambda>e. fst e \<noteq> k) ob))"
    unfolding obj_keys_def mset_map swap_remove_mset [OF assms] ..
  moreover have "distinct (map fst (filter (\<lambda>e. fst e \<noteq> k) ob))"
    using assms by (simp add: obj_keys_def distinct_map_filter)
  ultimately show ?thesis by (metis mset_eq_imp_distinct_iff)
qed

lemma obj_get_swap_remove:
  assumes "distinct (obj_keys ob)"
  shows "obj_get (swap_remove k ob) k' = (if k' = k then None else obj_get ob k')"
proof -
  have "map_of (swap_remove k ob) k' = Some v \<longleftrightarrow> k' \<noteq> k \<and> map_of ob k' = Some v" for v
    using assms swap_remove_distinct [OF assms, of k] swap_remove_set [OF assms, of k]
    by (auto simp: obj_keys_def)
  then show ?thesis unfolding obj_get_def by (metis not_None_eq)
qed

end
