(* ===== verification/Delegation.thy ===== *)
theory Delegation
  imports Harness Json
begin

text \<open>
  The vocabulary of the typed delegation protocol of \<open>bridge-core/src/delegation.rs\<close>: roles,
  tiers, modes, efforts and contracts, their stored text and the folding of what a model
  writes into them, and \<open>DelegationRequest\<close> with its validation. Results, normalisation,
  directives and parsers are in \<open>Envelopes\<close>, \<open>Directives\<close>, \<open>Machine_Blocks\<close> and \<open>Envelope_Parsing\<close>.
\<close>

section \<open>Vocabulary\<close>

definition schema_version :: nat where "schema_version = 1"
definition default_max_depth :: int where "default_max_depth = 1"
definition max_evidence_references :: nat where "max_evidence_references = 16"

datatype worker_role = Research | Implementation | Verification | Planning | Documentation
datatype capability_tier = Fast | Standard | Strong
datatype write_mode = ReadOnly | Shared | Isolated | Full
datatype effort = Low | Medium | High | Xhigh
datatype output_contract =
  ImplementationResult | ResearchResult | VerificationResult | DecisionResult | DocumentationResult

fun role_as_str :: "worker_role \<Rightarrow> string" where
  "role_as_str Research = ''research''"
| "role_as_str Implementation = ''implementation''"
| "role_as_str Verification = ''verification''"
| "role_as_str Planning = ''planning''"
| "role_as_str Documentation = ''documentation''"

definition fold_word :: "string \<Rightarrow> string" where
  "fold_word value = replace_any [CHR ''-'', CHR '' '', CHR ''.''] (CHR ''_'') (to_ascii_lowercase (trim value))"

definition role_parse :: "string \<Rightarrow> worker_role option" where
  "role_parse value =
     (let w = fold_word value in
      if w \<in> {''research'', ''researcher'', ''investigation'', ''investigator'', ''analysis'',
            ''analyst'', ''explore'', ''exploration''} then Some Research
      else if w \<in> {''implementation'', ''implementer'', ''implement'', ''coder'', ''code'', ''coding'',
            ''engineer'', ''developer'', ''dev'', ''fix'', ''builder''} then Some Implementation
      else if w \<in> {''verification'', ''verifier'', ''verify'', ''implementation_verifier'',
            ''implementation_verification'', ''review'', ''reviewer'', ''test'', ''tester'',
            ''testing'', ''qa'', ''validation'', ''validator''} then Some Verification
      else if w \<in> {''planning'', ''planner'', ''plan'', ''design'', ''designer'', ''architect'',
            ''architecture'', ''orchestrator'', ''coordinator''} then Some Planning
      else if w \<in> {''documentation'', ''documenter'', ''docs'', ''doc'', ''writer'',
            ''technical_writer''} then Some Documentation
      else None)"

definition role_is_read_only :: "worker_role \<Rightarrow> bool" where
  "role_is_read_only r \<longleftrightarrow> r \<noteq> Implementation"

fun role_default_write_mode :: "worker_role \<Rightarrow> write_mode" where
  "role_default_write_mode Implementation = Isolated"
| "role_default_write_mode _ = ReadOnly"

fun role_output_contract :: "worker_role \<Rightarrow> output_contract" where
  "role_output_contract Research = ResearchResult"
| "role_output_contract Implementation = ImplementationResult"
| "role_output_contract Verification = VerificationResult"
| "role_output_contract Planning = DecisionResult"
| "role_output_contract Documentation = DocumentationResult"

fun role_label :: "worker_role \<Rightarrow> string" where
  "role_label Research = ''Research''"
| "role_label Implementation = ''Implementation''"
| "role_label Verification = ''Verification''"
| "role_label Planning = ''Planning''"
| "role_label Documentation = ''Documentation''"

fun tier_as_str :: "capability_tier \<Rightarrow> string" where
  "tier_as_str Fast = ''fast''"
| "tier_as_str Standard = ''standard''"
| "tier_as_str Strong = ''strong''"

fun effort_as_str :: "effort \<Rightarrow> string" where
  "effort_as_str Low = ''low''"
| "effort_as_str Medium = ''medium''"
| "effort_as_str High = ''high''"
| "effort_as_str Xhigh = ''xhigh''"

fun write_mode_wire_name :: "write_mode \<Rightarrow> string" where
  "write_mode_wire_name ReadOnly = ''readOnly''"
| "write_mode_wire_name Shared = ''shared''"
| "write_mode_wire_name Isolated = ''isolated''"
| "write_mode_wire_name Full = ''full''"

fun output_contract_wire_name :: "output_contract \<Rightarrow> string" where
  "output_contract_wire_name ImplementationResult = ''implementation-result''"
| "output_contract_wire_name ResearchResult = ''research-result''"
| "output_contract_wire_name VerificationResult = ''verification-result''"
| "output_contract_wire_name DecisionResult = ''decision-result''"
| "output_contract_wire_name DocumentationResult = ''documentation-result''"

definition write_mode_parse :: "string \<Rightarrow> write_mode option" where
  "write_mode_parse value =
     (let w = fold_word value in
      if w \<in> {''readonly'', ''read_only'', ''read'', ''none'', ''no_write''} then Some ReadOnly
      else if w \<in> {''shared'', ''workspace'', ''write''} then Some Shared
      else if w \<in> {''isolated'', ''worktree'', ''branch''} then Some Isolated
      else if w \<in> {''full'', ''danger_full_access'', ''unrestricted''} then Some Full
      else None)"

definition capability_tier_parse :: "string \<Rightarrow> capability_tier option" where
  "capability_tier_parse value =
     (let w = to_ascii_lowercase (trim value) in
      if w \<in> {''fast'', ''low'', ''cheap'', ''quick''} then Some Fast
      else if w \<in> {''standard'', ''medium'', ''balanced'', ''default''} then Some Standard
      else if w \<in> {''strong'', ''high'', ''max'', ''best''} then Some Strong
      else None)"

definition effort_parse :: "string \<Rightarrow> effort" where
  "effort_parse value =
     (let w = to_ascii_lowercase (trim value) in
      if w \<in> {''low'', ''min'', ''minimal'', ''light''} then Low
      else if w = ''high'' then High
      else if w \<in> {''xhigh'', ''x-high'', ''extra'', ''very-high'', ''very high'', ''ultra'', ''max'',
            ''maximum''} then Xhigh
      else Medium)"

section \<open>Delegation requests\<close>

record delegation_request =
  dr_schema_version :: nat
  dr_role :: worker_role
  dr_objective :: string
  dr_acceptance_criteria :: "string list"
  dr_known_facts :: "string list"
  dr_decisions :: "string list"
  dr_evidence_ids :: "string list"
  dr_relevant_files :: "string list"
  dr_owned_paths :: "string list"
  dr_write_mode :: write_mode
  dr_capability_tier :: capability_tier
  dr_effort :: effort
  dr_network_access :: bool
  dr_writable_output_paths :: "string list"
  dr_verification :: "string list"
  dr_output_contract :: output_contract
  dr_harness :: "string option"
  dr_model :: "string option"

definition require_non_empty :: "string \<Rightarrow> string \<Rightarrow> (string, unit) result" where
  "require_non_empty field value =
     (if trim value = [] then Err (field @ '' must not be empty'') else Ok ())"

definition validate_non_empty_items :: "string \<Rightarrow> string list \<Rightarrow> (string, unit) result" where
  "validate_non_empty_items field values =
     (if list_ex (\<lambda>v. trim v = []) values then Err (field @ '' must not contain empty items'')
      else Ok ())"

definition require_non_empty_list :: "string \<Rightarrow> string list \<Rightarrow> (string, unit) result" where
  "require_non_empty_list field values =
     (if values = [] then Err (field @ '' must contain at least one item'')
      else validate_non_empty_items field values)"

definition bad_output_path :: "string \<Rightarrow> bool" where
  "bad_output_path path \<longleftrightarrow>
     path = [] \<or> starts_with path ''/''
     \<or> list_ex (\<lambda>part. part = ''..'' \<or> part = []) (split_char (CHR ''/'') path)"

fun validate_output_paths :: "string list \<Rightarrow> (string, unit) result" where
  "validate_output_paths [] = Ok ()"
| "validate_output_paths (path # paths) =
     (if bad_output_path path
      then Err (''writableOutputPaths contains invalid relative path: '' @ path)
      else validate_output_paths paths)"

text \<open>\<open>a?; b\<close> on results without a value.\<close>

definition and_then :: "('e, unit) result \<Rightarrow> ('e, 'a) result \<Rightarrow> ('e, 'a) result" where
  "and_then a b = (case a of Inl e \<Rightarrow> Err e | Inr _ \<Rightarrow> b)"

definition check :: "bool \<Rightarrow> string \<Rightarrow> (string, unit) result" where
  "check good reason = (if good then Ok () else Err reason)"

definition request_validate :: "delegation_request \<Rightarrow> (string, unit) result" where
  "request_validate r =
     and_then (check (dr_schema_version r = schema_version)
       (''unsupported delegation schema version '' @ dec (dr_schema_version r)))
     (and_then (require_non_empty ''objective'' (dr_objective r))
     (and_then (require_non_empty_list ''acceptanceCriteria'' (dr_acceptance_criteria r))
     (and_then (validate_non_empty_items ''knownFacts'' (dr_known_facts r))
     (and_then (validate_non_empty_items ''decisions'' (dr_decisions r))
     (and_then (validate_non_empty_items ''evidenceIds'' (dr_evidence_ids r))
     (and_then (check (length (dr_evidence_ids r) \<le> max_evidence_references)
       (''evidenceIds cannot contain more than '' @ dec max_evidence_references @ '' entries''))
     (and_then (check (distinct (dr_evidence_ids r)) ''evidenceIds cannot contain duplicates'')
     (and_then (validate_non_empty_items ''relevantFiles'' (dr_relevant_files r))
     (and_then (validate_non_empty_items ''ownedPaths'' (dr_owned_paths r))
     (and_then (validate_non_empty_items ''verification'' (dr_verification r))
     (and_then (validate_output_paths (dr_writable_output_paths r))
       (case dr_harness r of
          None \<Rightarrow> Ok ()
        | Some h \<Rightarrow>
            check (normalize_harness h \<noteq> None) (''unsupported harness hint: '' @ h)))))))))))))"

definition runtime_harness :: "delegation_request \<Rightarrow> string" where
  "runtime_harness r =
     (case Option.bind (dr_harness r) normalize_harness of None \<Rightarrow> ''codex'' | Some h \<Rightarrow> h)"

definition request_label :: "delegation_request \<Rightarrow> string" where
  "request_label r =
     role_label (dr_role r) @ '' '' @ [CHR 0xC2, CHR 0xB7] @ '' '' @ tier_as_str (dr_capability_tier r)"

end
