(* ===== verification/Policy.thy ===== *)
theory Policy
  imports Owned_Paths Delegation
begin

text \<open>
  The routing policy of \<open>bridge-core/src/policy.rs\<close>: \<open>PolicyEngine::decide\<close> with its reasons,
  and capability units. The properties state what an accepted launch has passed, what the user
  is never asked, and the bounds and order of the units.
\<close>

section \<open>Data\<close>

record worker_spec =
  spec_request :: delegation_request
  spec_requires_child_worktree :: bool
  spec_capability_units :: int

datatype route_decision =
    ExecuteInParent
  | ResumeWorker string
  | SpawnWorker worker_spec
  | Queue
  | Reject
  | RequireUserApproval

datatype route_reason =
    ParentExecutionPreferred | CompatibleWarmWorker | EligibleFreshSpawn | ConcurrencyLimit
  | WriterConflict | DepthLimit | WorkerBudgetExhausted | StrongWorkerLimit | RetryLimit
  | CapabilityBudgetExhausted | UserApprovalRequired | OwnedPathProvenanceRequired
  | InvalidOwnedPath | ChildWorktreeUnavailable

fun reason_as_str :: "route_reason \<Rightarrow> string" where
  "reason_as_str ParentExecutionPreferred = ''parent_execution_preferred''"
| "reason_as_str CompatibleWarmWorker = ''compatible_warm_worker''"
| "reason_as_str EligibleFreshSpawn = ''eligible_fresh_spawn''"
| "reason_as_str ConcurrencyLimit = ''concurrency_limit''"
| "reason_as_str WriterConflict = ''writer_conflict''"
| "reason_as_str DepthLimit = ''depth_limit''"
| "reason_as_str WorkerBudgetExhausted = ''worker_budget_exhausted''"
| "reason_as_str StrongWorkerLimit = ''strong_worker_limit''"
| "reason_as_str RetryLimit = ''retry_limit''"
| "reason_as_str CapabilityBudgetExhausted = ''capability_budget_exhausted''"
| "reason_as_str UserApprovalRequired = ''user_approval_required''"
| "reason_as_str OwnedPathProvenanceRequired = ''owned_path_provenance_required''"
| "reason_as_str InvalidOwnedPath = ''invalid_owned_path''"
| "reason_as_str ChildWorktreeUnavailable = ''child_worktree_unavailable''"

record owned_path_provenance =
  trusted_paths :: "string list"
  source_entry_ids :: "string list"
  unscoped_write_approved :: bool
  full_access :: bool

record policy_outcome =
  out_decision :: route_decision
  out_reason :: route_reason
  out_capability_units :: int

datatype restoration_kind = Hot | Native | CheckpointRestored | Fresh

record worker_snapshot =
  ws_session_id :: string
  ws_workspace_id :: string
  ws_worktree_id :: string
  ws_role :: worker_role
  ws_harness :: string
  ws_capability_tier :: capability_tier
  ws_task_family :: string
  ws_owned_paths :: "string list"
  ws_write_mode :: write_mode

record request_budget =
  workers_used :: nat
  strong_workers_used :: nat
  capability_units_used :: int

record policy_input =
  pi_workspace_id :: string
  pi_worktree_id :: string
  pi_parent_session_id :: string
  pi_turn_id :: string
  pi_parent_depth :: int
  pi_request :: delegation_request
  pi_owned_path_provenance :: owned_path_provenance
  pi_requested_harness :: string
  pi_task_family :: string
  pi_active_workers :: "worker_snapshot list"
  pi_warm_workers :: "worker_snapshot list"
  pi_budget :: request_budget
  pi_retry_count :: nat
  pi_parent_can_execute :: bool
  pi_requires_user_approval :: bool
  pi_child_worktrees_available :: bool

record policy_config =
  max_concurrent_workers :: nat
  max_writers_per_worktree :: nat
  max_workers_per_turn :: nat
  max_strong_workers_per_turn :: nat
  max_automatic_retries :: nat
  max_depth :: int
  max_capability_units_per_turn :: int

definition policy_config_default :: policy_config where
  "policy_config_default =
     \<lparr>max_concurrent_workers = 2, max_writers_per_worktree = 1, max_workers_per_turn = 3,
      max_strong_workers_per_turn = 1, max_automatic_retries = 1, max_depth = 1,
      max_capability_units_per_turn = 24\<rparr>"

section \<open>Decision\<close>

definition outcome :: "route_decision \<Rightarrow> route_reason \<Rightarrow> int \<Rightarrow> policy_outcome" where
  "outcome d r u = \<lparr>out_decision = d, out_reason = r, out_capability_units = u\<rparr>"

definition scope_explicitly_authorized :: "string list \<Rightarrow> owned_path_provenance \<Rightarrow> bool" where
  "scope_explicitly_authorized claimed p \<longleftrightarrow>
     (claimed = [] \<and> unscoped_write_approved p)
     \<or> owned_paths_are_provenanced claimed (trusted_paths p)"

definition compatible_worker :: "worker_snapshot \<Rightarrow> policy_input \<Rightarrow> bool" where
  "compatible_worker w inp \<longleftrightarrow>
     ws_workspace_id w = pi_workspace_id inp
     \<and> ws_role w = dr_role (pi_request inp)
     \<and> ws_harness w = pi_requested_harness inp
     \<and> ws_capability_tier w = dr_capability_tier (pi_request inp)
     \<and> ws_task_family w = pi_task_family inp
     \<and> ws_write_mode w = dr_write_mode (pi_request inp)
     \<and> ok (normalize_owned_paths (ws_owned_paths w))
         = ok (normalize_owned_paths (dr_owned_paths (pi_request inp)))"

definition active_writers :: "worker_snapshot list \<Rightarrow> worker_snapshot list" where
  "active_writers ws = filter (\<lambda>w. ws_write_mode w \<noteq> ReadOnly) ws"

definition writer_conflict :: "policy_input \<Rightarrow> nat \<Rightarrow> bool" where
  "writer_conflict inp max_writers =
     (let mode = dr_write_mode (pi_request inp); writers = active_writers (pi_active_workers inp) in
      if mode = ReadOnly then False
      else if (mode = Shared \<or> mode = Full)
          \<and> length (filter (\<lambda>w. ws_worktree_id w = pi_worktree_id inp) writers) \<ge> max_writers
      then True
      else list_ex
        (\<lambda>w. unwrap_or True
          (owned_path_sets_overlap (dr_owned_paths (pi_request inp)) (ws_owned_paths w))) writers)"

text \<open>
  The weights are dyadic fractions far below 2 to the 53, so the code's \<open>f64\<close> products are exact
  and \<open>ceil\<close> is the rational ceiling.
\<close>

fun base_units :: "capability_tier \<Rightarrow> effort \<Rightarrow> rat" where
  "base_units Fast Low = 1"
| "base_units Fast Medium = 2"
| "base_units Fast High = 3"
| "base_units Fast Xhigh = 3 * 2"
| "base_units Standard Low = 2"
| "base_units Standard Medium = 3"
| "base_units Standard High = 5"
| "base_units Standard Xhigh = 5 * 2"
| "base_units Strong Low = 5"
| "base_units Strong Medium = 6"
| "base_units Strong High = 8"
| "base_units Strong Xhigh = 8 * 2"

fun restoration_multiplier :: "restoration_kind \<Rightarrow> rat" where
  "restoration_multiplier Hot = 1"
| "restoration_multiplier Native = 3 / 4"
| "restoration_multiplier CheckpointRestored = 1"
| "restoration_multiplier Fresh = 5 / 4"

definition capability_units ::
    "capability_tier \<Rightarrow> effort \<Rightarrow> restoration_kind \<Rightarrow> bool \<Rightarrow> int" where
  "capability_units t e r is_retry =
     \<lceil>base_units t e * restoration_multiplier r * (if is_retry then 3 / 2 else 1)\<rceil>"

definition warm_match :: "policy_input \<Rightarrow> worker_snapshot option" where
  "warm_match inp = find (\<lambda>w. compatible_worker w inp) (pi_warm_workers inp)"

definition route_units :: "policy_input \<Rightarrow> int" where
  "route_units inp =
     capability_units (dr_capability_tier (pi_request inp)) (dr_effort (pi_request inp))
       (if warm_match inp \<noteq> None then Native else Fresh) (pi_retry_count inp > 0)"

definition decide :: "policy_config \<Rightarrow> policy_input \<Rightarrow> policy_outcome" where
  "decide c inp =
     (if pi_parent_depth inp \<ge> max_depth c then outcome Reject DepthLimit 0
      else if pi_parent_can_execute inp \<and> \<not> pi_requires_user_approval inp
      then outcome ExecuteInParent ParentExecutionPreferred 0
      else if \<not> is_ok (normalize_owned_paths (dr_owned_paths (pi_request inp)))
      then outcome Reject InvalidOwnedPath 0
      else if pi_retry_count inp > max_automatic_retries c then outcome Reject RetryLimit 0
      else if workers_used (pi_budget inp) \<ge> max_workers_per_turn c
      then outcome Reject WorkerBudgetExhausted 0
      else if dr_capability_tier (pi_request inp) = Strong
          \<and> strong_workers_used (pi_budget inp) \<ge> max_strong_workers_per_turn c
      then outcome Reject StrongWorkerLimit 0
      else let units = route_units inp in
      if i64_add (capability_units_used (pi_budget inp)) units > max_capability_units_per_turn c
      then outcome Reject CapabilityBudgetExhausted units
      else if pi_requires_user_approval inp then outcome RequireUserApproval UserApprovalRequired 0
      else if dr_write_mode (pi_request inp) \<noteq> ReadOnly
          \<and> \<not> full_access (pi_owned_path_provenance inp)
          \<and> \<not> scope_explicitly_authorized (dr_owned_paths (pi_request inp))
               (pi_owned_path_provenance inp)
      then outcome RequireUserApproval OwnedPathProvenanceRequired 0
      else if length (pi_active_workers inp) \<ge> max_concurrent_workers c
      then outcome Queue ConcurrencyLimit units
      else if writer_conflict inp (max_writers_per_worktree c) then outcome Queue WriterConflict units
      else let requires_child_worktree = (dr_write_mode (pi_request inp) = Isolated) in
      if requires_child_worktree \<and> \<not> pi_child_worktrees_available inp
      then outcome Queue ChildWorktreeUnavailable units
      else (case warm_match inp of
              Some w \<Rightarrow> outcome (ResumeWorker (ws_session_id w)) CompatibleWarmWorker units
            | None \<Rightarrow> outcome
                (SpawnWorker \<lparr>spec_request = pi_request inp,
                   spec_requires_child_worktree = requires_child_worktree,
                   spec_capability_units = units\<rparr>) EligibleFreshSpawn units))"

section \<open>Properties\<close>

definition accepted :: "policy_outcome \<Rightarrow> bool" where
  "accepted out \<longleftrightarrow>
     (case out_decision out of SpawnWorker _ \<Rightarrow> True | ResumeWorker _ \<Rightarrow> True | _ \<Rightarrow> False)"

text \<open>The limits nothing but a change of the request or of the turn can lift.\<close>

definition hard_limits_passed :: "policy_config \<Rightarrow> policy_input \<Rightarrow> bool" where
  "hard_limits_passed c inp \<longleftrightarrow>
     pi_parent_depth inp < max_depth c
     \<and> is_ok (normalize_owned_paths (dr_owned_paths (pi_request inp)))
     \<and> pi_retry_count inp \<le> max_automatic_retries c
     \<and> workers_used (pi_budget inp) < max_workers_per_turn c
     \<and> (dr_capability_tier (pi_request inp) = Strong \<longrightarrow>
          strong_workers_used (pi_budget inp) < max_strong_workers_per_turn c)
     \<and> i64_add (capability_units_used (pi_budget inp)) (route_units inp)
          \<le> max_capability_units_per_turn c"

definition write_authorised :: "policy_input \<Rightarrow> bool" where
  "write_authorised inp \<longleftrightarrow>
     dr_write_mode (pi_request inp) = ReadOnly
     \<or> full_access (pi_owned_path_provenance inp)
     \<or> scope_explicitly_authorized (dr_owned_paths (pi_request inp)) (pi_owned_path_provenance inp)"

definition must_ask :: "policy_input \<Rightarrow> bool" where
  "must_ask inp \<longleftrightarrow> pi_requires_user_approval inp \<or> \<not> write_authorised inp"

definition must_wait :: "policy_config \<Rightarrow> policy_input \<Rightarrow> bool" where
  "must_wait c inp \<longleftrightarrow>
     length (pi_active_workers inp) \<ge> max_concurrent_workers c
     \<or> writer_conflict inp (max_writers_per_worktree c)
     \<or> (dr_write_mode (pi_request inp) = Isolated \<and> \<not> pi_child_worktrees_available inp)"

definition parent_executes :: "policy_config \<Rightarrow> policy_input \<Rightarrow> bool" where
  "parent_executes c inp \<longleftrightarrow>
     pi_parent_depth inp < max_depth c \<and> pi_parent_can_execute inp
     \<and> \<not> pi_requires_user_approval inp"

lemmas decide_simps = decide_def outcome_def accepted_def hard_limits_passed_def write_authorised_def
  Let_def

text \<open>The three stretches of \<open>decide\<close>: the parent, the hard limits, and what follows them.\<close>

lemma decide_parent: "parent_executes c inp \<Longrightarrow> decide c inp = outcome ExecuteInParent ParentExecutionPreferred 0"
  by (simp add: decide_def parent_executes_def)

lemma decide_hard_limit:
  assumes "\<not> parent_executes c inp" and "\<not> hard_limits_passed c inp"
  shows "out_decision (decide c inp) = Reject"
proof -
  have "\<exists>rest. decide c inp =
      (if pi_parent_depth inp \<ge> max_depth c then outcome Reject DepthLimit 0
       else if pi_parent_can_execute inp \<and> \<not> pi_requires_user_approval inp
       then outcome ExecuteInParent ParentExecutionPreferred 0
       else if \<not> is_ok (normalize_owned_paths (dr_owned_paths (pi_request inp)))
       then outcome Reject InvalidOwnedPath 0
       else if pi_retry_count inp > max_automatic_retries c then outcome Reject RetryLimit 0
       else if workers_used (pi_budget inp) \<ge> max_workers_per_turn c
       then outcome Reject WorkerBudgetExhausted 0
       else if dr_capability_tier (pi_request inp) = Strong
           \<and> strong_workers_used (pi_budget inp) \<ge> max_strong_workers_per_turn c
       then outcome Reject StrongWorkerLimit 0
       else if i64_add (capability_units_used (pi_budget inp)) (route_units inp)
           > max_capability_units_per_turn c
       then outcome Reject CapabilityBudgetExhausted (route_units inp)
       else rest)"
    unfolding decide_def Let_def by (rule exI, rule refl)
  then show ?thesis
    using assms unfolding hard_limits_passed_def parent_executes_def
    by (auto simp: outcome_def split: if_splits)
qed

lemma decide_past_limits:
  assumes "\<not> parent_executes c inp" and "hard_limits_passed c inp"
  shows "decide c inp =
    (if pi_requires_user_approval inp then outcome RequireUserApproval UserApprovalRequired 0
     else if \<not> write_authorised inp then outcome RequireUserApproval OwnedPathProvenanceRequired 0
     else if length (pi_active_workers inp) \<ge> max_concurrent_workers c
     then outcome Queue ConcurrencyLimit (route_units inp)
     else if writer_conflict inp (max_writers_per_worktree c)
     then outcome Queue WriterConflict (route_units inp)
     else if dr_write_mode (pi_request inp) = Isolated \<and> \<not> pi_child_worktrees_available inp
     then outcome Queue ChildWorktreeUnavailable (route_units inp)
     else (case warm_match inp of
             Some w \<Rightarrow> outcome (ResumeWorker (ws_session_id w)) CompatibleWarmWorker (route_units inp)
           | None \<Rightarrow> outcome
               (SpawnWorker \<lparr>spec_request = pi_request inp,
                  spec_requires_child_worktree = (dr_write_mode (pi_request inp) = Isolated),
                  spec_capability_units = route_units inp\<rparr>) EligibleFreshSpawn (route_units inp)))"
proof -
  have past: "(pi_parent_depth inp \<ge> max_depth c) = False"
    "(pi_parent_can_execute inp \<and> \<not> pi_requires_user_approval inp) = False"
    "(\<not> is_ok (normalize_owned_paths (dr_owned_paths (pi_request inp)))) = False"
    "(pi_retry_count inp > max_automatic_retries c) = False"
    "(workers_used (pi_budget inp) \<ge> max_workers_per_turn c) = False"
    "(dr_capability_tier (pi_request inp) = Strong
       \<and> strong_workers_used (pi_budget inp) \<ge> max_strong_workers_per_turn c) = False"
    "(i64_add (capability_units_used (pi_budget inp)) (route_units inp)
       > max_capability_units_per_turn c) = False"
    using assms by (auto simp: hard_limits_passed_def parent_executes_def)
  have asks: "(dr_write_mode (pi_request inp) \<noteq> ReadOnly \<and> \<not> full_access (pi_owned_path_provenance inp)
      \<and> \<not> scope_explicitly_authorized (dr_owned_paths (pi_request inp)) (pi_owned_path_provenance inp))
    = (\<not> write_authorised inp)"
    by (auto simp: write_authorised_def)
  show ?thesis by (simp only: decide_def Let_def past asks if_False)
qed

lemma accepted_past_limits:
  "accepted (decide c inp) \<Longrightarrow> \<not> parent_executes c inp \<and> hard_limits_passed c inp"
  using decide_parent [of c inp] decide_hard_limit [of c inp]
  by (cases "parent_executes c inp"; cases "hard_limits_passed c inp")
    (auto simp: accepted_def outcome_def)

lemma decide_accepted:
  assumes "accepted (decide c inp)"
  shows "hard_limits_passed c inp" and "write_authorised inp"
    and "\<not> pi_requires_user_approval inp"
    and "length (pi_active_workers inp) < max_concurrent_workers c"
    and "\<not> writer_conflict inp (max_writers_per_worktree c)"
    and "out_capability_units (decide c inp) = route_units inp"
  using assms accepted_past_limits [OF assms] decide_past_limits [of c inp]
  by (auto simp: accepted_def outcome_def split: if_splits option.splits)

text \<open>
  C12. A launch the policy accepts has passed every limit: depth, path syntax, retries, the
  turn's worker, strong-worker and capability budgets, write authorisation, concurrency and
  writer exclusion; it needed no approval, an isolated writer has a child worktree, and a
  resumed worker is a compatible warm one.
\<close>
theorem accepted_route_passed_every_limit:
  assumes "accepted (decide c inp)"
  shows "hard_limits_passed c inp \<and> write_authorised inp \<and> \<not> pi_requires_user_approval inp
    \<and> length (pi_active_workers inp) < max_concurrent_workers c
    \<and> \<not> writer_conflict inp (max_writers_per_worktree c)
    \<and> (dr_write_mode (pi_request inp) = Isolated \<longrightarrow> pi_child_worktrees_available inp)
    \<and> (case out_decision (decide c inp) of
         ResumeWorker sid \<Rightarrow>
           \<exists>w \<in> set (pi_warm_workers inp). ws_session_id w = sid \<and> compatible_worker w inp
       | SpawnWorker spec \<Rightarrow>
           spec_request spec = pi_request inp \<and> spec_capability_units spec = route_units inp
           \<and> (spec_requires_child_worktree spec = (dr_write_mode (pi_request inp) = Isolated))
           \<and> (\<forall>w \<in> set (pi_warm_workers inp). \<not> compatible_worker w inp)
       | _ \<Rightarrow> False)"
proof -
  have m: "warm_match inp = Some w \<Longrightarrow> w \<in> set (pi_warm_workers inp) \<and> compatible_worker w inp" for w
    by (auto simp: warm_match_def find_Some_iff)
  have n: "warm_match inp = None \<Longrightarrow> w \<in> set (pi_warm_workers inp) \<Longrightarrow> \<not> compatible_worker w inp" for w
    by (auto simp: warm_match_def find_None_iff)
  show ?thesis
    using assms decide_accepted [OF assms] m n accepted_past_limits [OF assms]
      decide_past_limits [of c inp]
    by (auto simp: accepted_def outcome_def split: if_splits option.splits)
qed

text \<open>
  C18. The gates come in order, so the answer is never stronger than needed: the parent executes
  exactly when it may; otherwise the route is rejected exactly when a hard limit fails, the user
  is asked exactly when every hard limit passes and approval or authorisation is missing, the
  launch is queued exactly when only capacity is missing, and it is accepted in the rest.
\<close>
theorem decision_follows_the_gates:
  "(out_decision (decide c inp) = ExecuteInParent) = parent_executes c inp
   \<and> (out_decision (decide c inp) = Reject)
       = (\<not> parent_executes c inp \<and> \<not> hard_limits_passed c inp)
   \<and> (out_decision (decide c inp) = RequireUserApproval)
       = (\<not> parent_executes c inp \<and> hard_limits_passed c inp \<and> must_ask inp)
   \<and> (out_decision (decide c inp) = Queue)
       = (\<not> parent_executes c inp \<and> hard_limits_passed c inp \<and> \<not> must_ask inp \<and> must_wait c inp)
   \<and> accepted (decide c inp)
       = (\<not> parent_executes c inp \<and> hard_limits_passed c inp \<and> \<not> must_ask inp
          \<and> \<not> must_wait c inp)"
proof (cases "parent_executes c inp")
  case True
  then show ?thesis by (simp add: decide_parent accepted_def outcome_def)
next
  case np: False
  show ?thesis
  proof (cases "hard_limits_passed c inp")
    case False
    with np show ?thesis by (simp add: decide_hard_limit accepted_def)
  next
    case True
    with np show ?thesis
      by (simp add: decide_past_limits accepted_def outcome_def must_ask_def must_wait_def
          split: option.splits)
  qed
qed

fun tier_rank :: "capability_tier \<Rightarrow> nat" where
  "tier_rank Fast = 0" | "tier_rank Standard = 1" | "tier_rank Strong = 2"

fun effort_rank :: "effort \<Rightarrow> nat" where
  "effort_rank Low = 0" | "effort_rank Medium = 1" | "effort_rank High = 2" | "effort_rank Xhigh = 3"

instantiation capability_tier :: linorder
begin

definition less_eq_capability_tier :: "capability_tier \<Rightarrow> capability_tier \<Rightarrow> bool" where
  "less_eq_capability_tier a b \<longleftrightarrow> tier_rank a \<le> tier_rank b"

definition less_capability_tier :: "capability_tier \<Rightarrow> capability_tier \<Rightarrow> bool" where
  "less_capability_tier a b \<longleftrightarrow> tier_rank a < tier_rank b"

instance
proof
  fix a b :: capability_tier
  show "a \<le> b \<Longrightarrow> b \<le> a \<Longrightarrow> a = b"
    by (cases a; cases b) (simp_all add: less_eq_capability_tier_def)
qed (auto simp: less_eq_capability_tier_def less_capability_tier_def)

end

instantiation effort :: linorder
begin

definition less_eq_effort :: "effort \<Rightarrow> effort \<Rightarrow> bool" where
  "less_eq_effort a b \<longleftrightarrow> effort_rank a \<le> effort_rank b"

definition less_effort :: "effort \<Rightarrow> effort \<Rightarrow> bool" where
  "less_effort a b \<longleftrightarrow> effort_rank a < effort_rank b"

instance
proof
  fix a b :: effort
  show "a \<le> b \<Longrightarrow> b \<le> a \<Longrightarrow> a = b"
    by (cases a; cases b) (simp_all add: less_eq_effort_def)
qed (auto simp: less_eq_effort_def less_effort_def)

end

lemma base_units_mono: "t \<le> t' \<Longrightarrow> e \<le> e' \<Longrightarrow> base_units t e \<le> base_units t' e'"
  by (cases t; cases t'; cases e; cases e')
    (simp_all add: less_eq_capability_tier_def less_eq_effort_def)

lemma base_units_bounds: "1 \<le> base_units t e \<and> base_units t e \<le> 16"
  by (cases t; cases e) simp_all

lemma restoration_bounds: "3 / 4 \<le> restoration_multiplier r \<and> restoration_multiplier r \<le> 5 / 4"
  by (cases r) simp_all

lemma capability_units_range: "1 \<le> capability_units t e r b \<and> capability_units t e r b \<le> 30"
proof -
  let ?k = "if b then 3 / 2 else (1::rat)"
  let ?x = "base_units t e" and ?m = "restoration_multiplier r"
  note B = base_units_bounds [of t e] and R = restoration_bounds [of r]
  have k: "1 \<le> ?k" "?k \<le> 3 / 2" by simp_all
  have "1 * (3 / 4) \<le> ?x * ?m" using B R by (intro mult_mono) auto
  then have "1 * (3 / 4) * 1 \<le> ?x * ?m * ?k" using k B R by (intro mult_mono) auto
  then have lo: "0 < ?x * ?m * ?k" by linarith
  have "?x * ?m \<le> 16 * (5 / 4)" using B R by (intro mult_mono) auto
  then have hi: "?x * ?m * ?k \<le> 16 * (5 / 4) * (3 / 2)" using k B R by (intro mult_mono) auto
  have "1 \<le> capability_units t e r b" using lo by (simp add: capability_units_def one_le_ceiling)
  moreover have "capability_units t e r b \<le> 30"
    using hi by (simp add: capability_units_def ceiling_le_iff)
  ultimately show ?thesis by blast
qed

text \<open>
  Capability units are bounded and ordered: every worker costs between 1 and 30, the cost
  grows with tier and effort and with a retry, and continuing a native session is never dearer
  than a hot one, nor that than a fresh one.
\<close>
theorem capability_units_bounded_and_monotone:
  assumes "t \<le> t'" and "e \<le> e'"
  shows "1 \<le> capability_units t e r b \<and> capability_units t e r b \<le> 30
    \<and> capability_units t e r b \<le> capability_units t' e' r b
    \<and> capability_units t e r False \<le> capability_units t e r True
    \<and> capability_units t e Native b \<le> capability_units t e Hot b
    \<and> capability_units t e Hot b \<le> capability_units t e Fresh b"
proof -
  let ?k = "if b then 3 / 2 else (1::rat)"
  note B = base_units_bounds [of t e] and R = restoration_bounds [of r]
  have k: "1 \<le> ?k" by simp
  have "capability_units t e r b \<le> capability_units t' e' r b"
    unfolding capability_units_def
    using k R B base_units_mono [OF assms] by (intro ceiling_mono mult_right_mono) auto
  moreover have "capability_units t e r False \<le> capability_units t e r True"
    unfolding capability_units_def using B R by (intro ceiling_mono mult_left_mono) auto
  moreover have "capability_units t e Native b \<le> capability_units t e Hot b"
    "capability_units t e Hot b \<le> capability_units t e Fresh b"
    unfolding capability_units_def using k B
    by (intro ceiling_mono mult_right_mono mult_left_mono; simp)+
  ultimately show ?thesis using capability_units_range [of t e r b] by blast
qed

lemma ceiling_15_4: "\<lceil>15 / 4 :: rat\<rceil> = 4"
  by (rule ceiling_unique) auto

theorem capability_units_bounded_and_monotone_witness:
  "capability_units Standard Medium Fresh False \<le> capability_units Strong Xhigh Fresh False
   \<and> capability_units Standard Medium Fresh False = 4"
proof -
  have "Standard \<le> Strong" "Medium \<le> Xhigh"
    by (simp_all add: less_eq_capability_tier_def less_eq_effort_def)
  from capability_units_bounded_and_monotone [OF this, of Fresh False]
  have "capability_units Standard Medium Fresh False \<le> capability_units Strong Xhigh Fresh False"
    by blast
  moreover have "capability_units Standard Medium Fresh False = 4"
    by (simp add: capability_units_def ceiling_15_4)
  ultimately show ?thesis by blast
qed

text \<open>A request and a route input for the witnesses: a scoped writer in an otherwise idle turn.\<close>

definition sample_request :: "capability_tier \<Rightarrow> write_mode \<Rightarrow> string list \<Rightarrow> delegation_request" where
  "sample_request t m ps =
     \<lparr>dr_schema_version = 1, dr_role = Implementation, dr_objective = ''Rotate tokens'',
      dr_acceptance_criteria = [''tests pass''], dr_known_facts = [], dr_decisions = [],
      dr_evidence_ids = [], dr_relevant_files = [], dr_owned_paths = ps, dr_write_mode = m,
      dr_capability_tier = t, dr_effort = Medium, dr_network_access = False,
      dr_writable_output_paths = [], dr_verification = [],
      dr_output_contract = ImplementationResult, dr_harness = None, dr_model = None\<rparr>"

definition sample_input ::
    "delegation_request \<Rightarrow> worker_snapshot list \<Rightarrow> worker_snapshot list \<Rightarrow> request_budget \<Rightarrow> policy_input"
  where
  "sample_input r active warm budget =
     \<lparr>pi_workspace_id = ''w'', pi_worktree_id = ''w'', pi_parent_session_id = ''parent'',
      pi_turn_id = ''turn'', pi_parent_depth = 0, pi_request = r,
      pi_owned_path_provenance = \<lparr>trusted_paths = [''src/**''], source_entry_ids = [],
        unscoped_write_approved = False, full_access = False\<rparr>,
      pi_requested_harness = ''codex'', pi_task_family = ''implementation'',
      pi_active_workers = active, pi_warm_workers = warm, pi_budget = budget, pi_retry_count = 0,
      pi_parent_can_execute = False, pi_requires_user_approval = False,
      pi_child_worktrees_available = True\<rparr>"

definition fresh_budget :: request_budget where
  "fresh_budget = \<lparr>workers_used = 0, strong_workers_used = 0, capability_units_used = 0\<rparr>"

lemma sample_spawns:
  "out_decision (decide policy_config_default
      (sample_input (sample_request Standard Isolated [''src/auth/**'']) [] [] fresh_budget))
    = SpawnWorker \<lparr>spec_request = sample_request Standard Isolated [''src/auth/**''],
        spec_requires_child_worktree = True, spec_capability_units = 4\<rparr>"
proof -
  have "is_ok (normalize_owned_paths [''src/auth/**''])" by code_simp
  moreover have "owned_paths_are_provenanced [''src/auth/**''] [''src/**'']" by code_simp
  ultimately show ?thesis
    by (simp add: decide_simps sample_input_def sample_request_def fresh_budget_def route_units_def
        warm_match_def policy_config_default_def capability_units_def ceiling_15_4 i64_add_def i64_wrap_def
        scope_explicitly_authorized_def writer_conflict_def active_writers_def)
qed

theorem accepted_route_passed_every_limit_witness:
  "write_authorised
     (sample_input (sample_request Standard Isolated [''src/auth/**'']) [] [] fresh_budget)"
proof -
  have "accepted (decide policy_config_default
      (sample_input (sample_request Standard Isolated [''src/auth/**'']) [] [] fresh_budget))"
    by (simp add: accepted_def sample_spawns)
  from accepted_route_passed_every_limit [OF this] show ?thesis by blast
qed

end
