(* ===== verification/Worker_Leases.thy ===== *)
theory Worker_Leases
  imports Policy
begin

text \<open>
  What the routing policy is decided against and charged to: the usage ledger of a turn
  (\<open>load_request_budget\<close>, \<open>record_spawn_usage\<close>), the stored leases and the snapshots read from
  them (\<open>load_workers\<close>), and the three moments that change them: the spawn reservation
  (\<open>live_turn.rs\<close>), the activation of a resumed worker (\<open>worker_pool.rs\<close>) and the end of a
  lease. A step relation interleaves them; its properties are the turn budget and the exclusion
  of writers.
\<close>

section \<open>Ledger and leases\<close>

text \<open>
  The ledger columns the budget query reads. SQLite's \<open>LIKE\<close> compares ASCII letters without
  case, and \<open>SUM\<close> of integers fails when it leaves \<open>i64\<close>.
\<close>

record usage_row =
  ur_workspace_id :: string
  ur_session_id :: string
  ur_turn_id :: string
  ur_source :: string
  ur_capability_units :: int

definition spawn_rows :: "usage_row list \<Rightarrow> string \<Rightarrow> string \<Rightarrow> usage_row list" where
  "spawn_rows ledger workspace turn =
     filter (\<lambda>r. ur_workspace_id r = workspace \<and> ur_turn_id r = turn
       \<and> starts_with (to_ascii_lowercase (ur_source r)) ''policy.spawn.'') ledger"

definition load_request_budget ::
    "usage_row list \<Rightarrow> string \<Rightarrow> string \<Rightarrow> (string, request_budget) result" where
  "load_request_budget ledger workspace turn =
     (let rows = spawn_rows ledger workspace turn; units = sum_list (map ur_capability_units rows) in
      if \<not> in_i64 units then Err ''integer overflow''
      else Ok \<lparr>workers_used = length rows,
        strong_workers_used = length (filter (\<lambda>r. ur_source r = ''policy.spawn.strong'') rows),
        capability_units_used = units\<rparr>)"

fun spawn_source :: "capability_tier \<Rightarrow> string" where
  "spawn_source Fast = ''policy.spawn.fast''"
| "spawn_source Standard = ''policy.spawn.standard''"
| "spawn_source Strong = ''policy.spawn.strong''"

definition record_spawn_usage ::
    "usage_row list \<Rightarrow> string \<Rightarrow> string \<Rightarrow> string \<Rightarrow> policy_outcome \<Rightarrow> capability_tier
      \<Rightarrow> usage_row list" where
  "record_spawn_usage ledger workspace session turn out tier =
     ledger @ [\<lparr>ur_workspace_id = workspace, ur_session_id = session, ur_turn_id = turn,
       ur_source = spawn_source tier, ur_capability_units = out_capability_units out\<rparr>]"

fun role_name :: "worker_role \<Rightarrow> string" where
  "role_name Research = ''research''"
| "role_name Implementation = ''implementation''"
| "role_name Verification = ''verification''"
| "role_name Planning = ''planning''"
| "role_name Documentation = ''documentation''"

fun tier_name :: "capability_tier \<Rightarrow> string" where
  "tier_name Fast = ''fast''"
| "tier_name Standard = ''standard''"
| "tier_name Strong = ''strong''"

fun write_mode_name :: "write_mode \<Rightarrow> string" where
  "write_mode_name ReadOnly = ''readOnly''"
| "write_mode_name Shared = ''shared''"
| "write_mode_name Isolated = ''isolated''"
| "write_mode_name Full = ''full''"

definition parse_role :: "string \<Rightarrow> worker_role" where
  "parse_role v =
     (if v = ''research'' then Research
      else if v = ''verification'' then Verification
      else if v = ''planning'' then Planning
      else if v = ''documentation'' then Documentation
      else Implementation)"

definition parse_tier :: "string \<Rightarrow> capability_tier" where
  "parse_tier v =
     (if v = ''fast'' then Fast else if v = ''strong'' then Strong else Standard)"

definition parse_write_mode :: "string \<Rightarrow> write_mode" where
  "parse_write_mode v =
     (if v = ''readOnly'' then ReadOnly
      else if v = ''isolated'' then Isolated
      else if v = ''full'' then Full
      else Shared)"

text \<open>
  A stored lease, its owned paths read back from JSON (\<open>None\<close> when the column does not hold a
  list of strings), and the snapshot \<open>worker_from_lease\<close> makes of it.
\<close>

record worker_lease =
  wle_session_id :: string
  wle_workspace_id :: string
  wle_role :: string
  wle_capability_tier :: string
  wle_task_family :: string
  wle_owned_paths :: "string list option"
  wle_write_mode :: string
  wle_status :: string

definition worker_from_lease :: "(string \<Rightarrow> string option) \<Rightarrow> worker_lease \<Rightarrow> worker_snapshot option" where
  "worker_from_lease harness_of l =
     (case harness_of (wle_session_id l) of
        None \<Rightarrow> None
      | Some h \<Rightarrow> Some
          \<lparr>ws_session_id = wle_session_id l, ws_workspace_id = wle_workspace_id l,
           ws_worktree_id = wle_workspace_id l, ws_role = parse_role (wle_role l), ws_harness = h,
           ws_capability_tier = parse_tier (wle_capability_tier l),
           ws_task_family = wle_task_family l,
           ws_owned_paths = (case wle_owned_paths l of None \<Rightarrow> [] | Some ps \<Rightarrow> ps),
           ws_write_mode = parse_write_mode (wle_write_mode l)\<rparr>)"

text \<open>
  The tables: leases in query order (by creation), the harness column of \<open>sessions\<close>, lifecycle
  state and result status of \<open>worker_runtime\<close>, and the ledger. \<open>pending\<close> holds the resumptions
  that are decided but whose worker is not activated yet: the code gives up the database lock
  in between.
\<close>

record desk =
  leases :: "worker_lease list"
  sessions :: "string \<rightharpoonup> string"
  runtimes :: "string \<rightharpoonup> string \<times> string"
  ledger :: "usage_row list"
  pending :: "(string \<times> policy_input) list"

definition lease_eligible :: "desk \<Rightarrow> string \<Rightarrow> worker_lease \<Rightarrow> bool" where
  "lease_eligible d status l \<longleftrightarrow>
     (if status = ''warm''
      then wle_status l \<in> {''warm'', ''checkpointed'', ''expired''}
        \<and> (case runtimes d (wle_session_id l) of
             None \<Rightarrow> False
           | Some (state, res) \<Rightarrow> state \<in> {''warm'', ''stopped''} \<and> res = ''reported'')
      else wle_status l = status)"

definition load_workers :: "desk \<Rightarrow> string \<Rightarrow> string \<Rightarrow> (string, worker_snapshot list) result" where
  "load_workers d workspace status =
     collect_results
       (\<lambda>l. case worker_from_lease (sessions d) l of
              None \<Rightarrow> Err ''Query returned no rows'' | Some w \<Rightarrow> Ok w)
       (filter (lease_eligible d status)
         (filter (\<lambda>l. wle_workspace_id l = workspace) (leases d)))"

text \<open>\<open>decide_worker_route\<close> fills the input from the tables.\<close>

definition input_of :: "desk \<Rightarrow> policy_input \<Rightarrow> bool" where
  "input_of d inp \<longleftrightarrow>
     pi_worktree_id inp = pi_workspace_id inp
     \<and> load_request_budget (ledger d) (pi_workspace_id inp) (pi_turn_id inp) = Ok (pi_budget inp)
     \<and> load_workers d (pi_workspace_id inp) ''active'' = Ok (pi_active_workers inp)
     \<and> load_workers d (pi_workspace_id inp) ''warm'' = Ok (pi_warm_workers inp)"

definition spawned_lease :: "policy_input \<Rightarrow> string \<Rightarrow> worker_lease" where
  "spawned_lease inp sid =
     (let r = pi_request inp in
      \<lparr>wle_session_id = sid, wle_workspace_id = pi_workspace_id inp, wle_role = role_name (dr_role r),
       wle_capability_tier = tier_name (dr_capability_tier r), wle_task_family = role_name (dr_role r),
       wle_owned_paths = Some (dr_owned_paths r), wle_write_mode = write_mode_name (dr_write_mode r),
       wle_status = ''active''\<rparr>)"

text \<open>The reservation's transaction: session row, lease, runtime record, ledger row.\<close>

definition reserve_spawn :: "desk \<Rightarrow> policy_input \<Rightarrow> policy_outcome \<Rightarrow> string \<Rightarrow> desk" where
  "reserve_spawn d inp out sid =
     d\<lparr>leases := leases d @ [spawned_lease inp sid],
       sessions := (sessions d)(sid \<mapsto> runtime_harness (pi_request inp)),
       runtimes := (runtimes d)(sid \<mapsto> (''starting'', ''pending'')),
       ledger := record_spawn_usage (ledger d) (pi_workspace_id inp) sid (pi_turn_id inp) out
         (dr_capability_tier (pi_request inp))\<rparr>"

definition activate_lease :: "string \<Rightarrow> delegation_request \<Rightarrow> worker_lease \<Rightarrow> worker_lease" where
  "activate_lease sid r l =
     (if wle_session_id l = sid
      then l\<lparr>wle_role := role_name (dr_role r), wle_capability_tier := tier_as_str (dr_capability_tier r),
             wle_task_family := role_name (dr_role r), wle_owned_paths := Some (dr_owned_paths r),
             wle_write_mode := write_mode_name (dr_write_mode r), wle_status := ''active''\<rparr>
      else l)"

definition activate_reused_worker :: "desk \<Rightarrow> string \<Rightarrow> delegation_request \<Rightarrow> desk" where
  "activate_reused_worker d sid r =
     d\<lparr>leases := map (activate_lease sid r) (leases d),
       runtimes := (case runtimes d sid of
          None \<Rightarrow> runtimes d
        | Some (state, res) \<Rightarrow> (runtimes d)(sid \<mapsto> (state, ''pending'')))\<rparr>"

definition set_lease_status :: "string \<Rightarrow> string \<Rightarrow> worker_lease \<Rightarrow> worker_lease" where
  "set_lease_status sid status l =
     (if wle_session_id l = sid then l\<lparr>wle_status := status\<rparr> else l)"

text \<open>
  The steps. With \<open>serial\<close> a decision is only made when no resumption is pending, which is how
  the launches look when nothing runs between a decision and its activation; without it they
  interleave as the code lets them. The settings are read anew for every decision: each is made
  under a configuration \<open>k\<close> of its own, with no limit above the one of \<open>c\<close>.
\<close>

definition config_within :: "policy_config \<Rightarrow> policy_config \<Rightarrow> bool" where
  "config_within c k \<longleftrightarrow>
     max_concurrent_workers k \<le> max_concurrent_workers c
     \<and> max_workers_per_turn k \<le> max_workers_per_turn c
     \<and> max_strong_workers_per_turn k \<le> max_strong_workers_per_turn c
     \<and> max_capability_units_per_turn k \<le> max_capability_units_per_turn c"

lemma config_within_refl [simp]: "config_within c c"
  by (simp add: config_within_def)

inductive desk_step :: "bool \<Rightarrow> policy_config \<Rightarrow> desk \<Rightarrow> desk \<Rightarrow> bool"
  for serial :: bool and c :: policy_config where
  spawn: "serial \<longrightarrow> pending d = [] \<Longrightarrow> input_of d inp \<Longrightarrow> config_within c k \<Longrightarrow>
    out_decision (decide k inp) = SpawnWorker spec \<Longrightarrow>
    sid \<notin> wle_session_id ` set (leases d) \<Longrightarrow>
    desk_step serial c d (reserve_spawn d inp (decide k inp) sid)"
| resume: "serial \<longrightarrow> pending d = [] \<Longrightarrow> input_of d inp \<Longrightarrow> config_within c k \<Longrightarrow>
    out_decision (decide k inp) = ResumeWorker sid \<Longrightarrow>
    desk_step serial c d (d\<lparr>pending := pending d @ [(sid, inp)]\<rparr>)"
| activate: "(sid, inp) \<in> set (pending d) \<Longrightarrow>
    desk_step serial c d
      ((activate_reused_worker d sid (pi_request inp))\<lparr>pending := remove1 (sid, inp) (pending d)\<rparr>)"
| end_lease: "status \<noteq> ''active'' \<Longrightarrow>
    desk_step serial c d (d\<lparr>leases := map (set_lease_status sid status) (leases d)\<rparr>)"
| runtime_changes: "desk_step serial c d (d\<lparr>runtimes := r\<rparr>)"
| other_usage: "\<not> starts_with (to_ascii_lowercase (ur_source row)) ''policy.spawn.'' \<Longrightarrow>
    desk_step serial c d (d\<lparr>ledger := ledger d @ [row]\<rparr>)"

definition empty_desk :: desk where
  "empty_desk = \<lparr>leases = [], sessions = Map.empty, runtimes = Map.empty, ledger = [], pending = []\<rparr>"

abbreviation desk_reachable :: "bool \<Rightarrow> policy_config \<Rightarrow> desk \<Rightarrow> bool" where
  "desk_reachable serial c d \<equiv> (desk_step serial c)\<^sup>*\<^sup>* empty_desk d"

section \<open>Text columns\<close>

lemma parse_role_name [simp]: "parse_role (role_name r) = r"
  by (cases r) (simp_all add: parse_role_def)

lemma parse_tier_name [simp]: "parse_tier (tier_name t) = t"
  by (cases t) (simp_all add: parse_tier_def)

lemma parse_write_mode_name [simp]: "parse_write_mode (write_mode_name m) = m"
  by (cases m) (simp_all add: parse_write_mode_def)

lemma tier_as_str_name: "tier_as_str t = tier_name t"
  by (cases t) simp_all

text \<open>
  What a reservation stores is what the policy later decides against: the snapshot read back
  from a spawned worker's lease has the request's role, tier, mode and paths and the harness the
  request runs on.
\<close>
theorem spawned_lease_reads_back:
  "worker_from_lease (sessions (reserve_spawn d inp out sid)) (spawned_lease inp sid) =
     Some \<lparr>ws_session_id = sid, ws_workspace_id = pi_workspace_id inp,
       ws_worktree_id = pi_workspace_id inp, ws_role = dr_role (pi_request inp),
       ws_harness = runtime_harness (pi_request inp),
       ws_capability_tier = dr_capability_tier (pi_request inp),
       ws_task_family = role_name (dr_role (pi_request inp)),
       ws_owned_paths = dr_owned_paths (pi_request inp),
       ws_write_mode = dr_write_mode (pi_request inp)\<rparr>"
  by (simp add: worker_from_lease_def reserve_spawn_def spawned_lease_def Let_def)

section \<open>Overlap is symmetric\<close>

lemma normalized_patterns_overlap_sym:
  "normalized_patterns_overlap l r = normalized_patterns_overlap r l"
  by (auto simp: normalized_patterns_overlap_def)

lemma overlap_False_sym:
  assumes "owned_path_sets_overlap l r = Inr False"
  shows "owned_path_sets_overlap r l = Inr False"
proof -
  from assms obtain ls rs where n: "l \<noteq> []" "r \<noteq> []" "normalize_owned_paths l = Inr ls"
    "normalize_owned_paths r = Inr rs" "\<forall>a \<in> set ls. \<forall>b \<in> set rs. \<not> normalized_patterns_overlap a b"
    by (auto simp: owned_path_sets_overlap_def list_ex_iff split: if_splits sum.splits)
  then have "\<forall>b \<in> set rs. \<forall>a \<in> set ls. \<not> normalized_patterns_overlap b a"
    using normalized_patterns_overlap_sym by blast
  with n show ?thesis by (auto simp: owned_path_sets_overlap_def list_ex_iff)
qed

section \<open>What a decision says about the leases\<close>

definition lease_paths :: "worker_lease \<Rightarrow> string list" where
  "lease_paths l = (case wle_owned_paths l of None \<Rightarrow> [] | Some ps \<Rightarrow> ps)"

definition lease_writes :: "worker_lease \<Rightarrow> bool" where
  "lease_writes l \<longleftrightarrow> parse_write_mode (wle_write_mode l) \<noteq> ReadOnly"

definition active_in :: "string \<Rightarrow> worker_lease \<Rightarrow> bool" where
  "active_in workspace l \<longleftrightarrow> wle_workspace_id l = workspace \<and> wle_status l = ''active''"

definition active_count :: "desk \<Rightarrow> string \<Rightarrow> nat" where
  "active_count d workspace = length (filter (active_in workspace) (leases d))"

lemma load_active:
  assumes "load_workers d workspace ''active'' = Inr ws"
  shows "list_all2 (\<lambda>l w. worker_from_lease (sessions d) l = Some w)
    (filter (active_in workspace) (leases d)) ws"
proof -
  have "filter (lease_eligible d ''active'') (filter (\<lambda>l. wle_workspace_id l = workspace) (leases d))
      = filter (active_in workspace) (leases d)"
    by (auto simp: lease_eligible_def active_in_def intro!: filter_cong)
  with assms have "list_all2 (\<lambda>l w. (case worker_from_lease (sessions d) l of
        None \<Rightarrow> Err ''Query returned no rows'' | Some w \<Rightarrow> Ok w) = Inr w)
      (filter (active_in workspace) (leases d)) ws"
    by (simp add: load_workers_def collect_results_Ok)
  then show ?thesis by (rule list_all2_mono) (auto split: option.splits)
qed

lemma worker_from_lease_fields:
  "worker_from_lease h l = Some w \<Longrightarrow>
     ws_session_id w = wle_session_id l \<and> ws_workspace_id w = wle_workspace_id l
     \<and> ws_owned_paths w = lease_paths l \<and> (ws_write_mode w \<noteq> ReadOnly) = lease_writes l"
  by (auto simp: worker_from_lease_def lease_paths_def lease_writes_def split: option.splits)

lemma list_all2_find: "list_all2 P xs ys \<Longrightarrow> x \<in> set xs \<Longrightarrow> \<exists>y \<in> set ys. P x y"
  by (induction rule: list_all2_induct) auto

lemma list_all2_find': "list_all2 P xs ys \<Longrightarrow> y \<in> set ys \<Longrightarrow> \<exists>x \<in> set xs. P x y"
  by (induction rule: list_all2_induct) auto

definition request_writes :: "policy_input \<Rightarrow> bool" where
  "request_writes inp \<longleftrightarrow> dr_write_mode (pi_request inp) \<noteq> ReadOnly"

lemma accepted_has_room:
  assumes "accepted (decide c inp)" and "input_of d inp"
  shows "active_count d (pi_workspace_id inp) < max_concurrent_workers c"
  using decide_accepted(4) [OF assms(1)] assms(2) load_active [THEN list_all2_lengthD]
  by (auto simp: input_of_def active_count_def)

lemma accepted_is_apart:
  assumes "accepted (decide c inp)" and "input_of d inp" and "request_writes inp"
    and "l \<in> set (leases d)" and "active_in (pi_workspace_id inp) l" and "lease_writes l"
  shows "owned_path_sets_overlap (dr_owned_paths (pi_request inp)) (lease_paths l) = Inr False"
proof -
  have "load_workers d (pi_workspace_id inp) ''active'' = Inr (pi_active_workers inp)"
    using assms(2) by (simp add: input_of_def)
  from list_all2_find [OF load_active [OF this], of l] assms(4,5) obtain w where
    w: "w \<in> set (pi_active_workers inp)" "worker_from_lease (sessions d) l = Some w"
    by auto
  with assms(6) have "w \<in> set (active_writers (pi_active_workers inp))" "ws_owned_paths w = lease_paths l"
    using worker_from_lease_fields by (auto simp: active_writers_def)
  with decide_accepted(5) [OF assms(1)] assms(3)
  have "\<not> unwrap_or True (owned_path_sets_overlap (dr_owned_paths (pi_request inp)) (lease_paths l))"
    by (auto simp: writer_conflict_def request_writes_def Let_def list_ex_iff split: if_splits)
  then show ?thesis
    by (cases "owned_path_sets_overlap (dr_owned_paths (pi_request inp)) (lease_paths l)") auto
qed

lemma resume_lease:
  assumes "out_decision (decide c inp) = ResumeWorker sid" and "input_of d inp"
  shows "\<exists>l \<in> set (leases d). wle_session_id l = sid \<and> wle_workspace_id l = pi_workspace_id inp"
proof -
  have "\<exists>w \<in> set (pi_warm_workers inp). ws_session_id w = sid"
    using assms(1)
    by (auto simp: decide_simps warm_match_def find_Some_iff split: if_splits option.splits)
  then obtain w where w: "w \<in> set (pi_warm_workers inp)" "ws_session_id w = sid" by blast
  from assms(2) have "load_workers d (pi_workspace_id inp) ''warm'' = Inr (pi_warm_workers inp)"
    by (simp add: input_of_def)
  from collect_results_mem [OF this [unfolded load_workers_def] w(1)] obtain l where
    "l \<in> set (leases d)" "wle_workspace_id l = pi_workspace_id inp"
    "worker_from_lease (sessions d) l = Some w"
    by (auto split: option.splits)
  with worker_from_lease_fields [OF this(3)] w(2) show ?thesis by auto
qed

section \<open>The invariant of serial launches\<close>

definition leases_apart :: "worker_lease list \<Rightarrow> bool" where
  "leases_apart ls \<longleftrightarrow>
     (\<forall>a \<in> set ls. \<forall>b \<in> set ls.
        wle_session_id a \<noteq> wle_session_id b \<and> wle_workspace_id a = wle_workspace_id b
        \<and> wle_status a = ''active'' \<and> wle_status b = ''active'' \<and> lease_writes a \<and> lease_writes b
        \<longrightarrow> owned_path_sets_overlap (lease_paths a) (lease_paths b) = Inr False)"

definition others_in :: "string \<Rightarrow> string \<Rightarrow> worker_lease \<Rightarrow> bool" where
  "others_in workspace sid l \<longleftrightarrow> active_in workspace l \<and> wle_session_id l \<noteq> sid"

definition room_for :: "policy_config \<Rightarrow> worker_lease list \<Rightarrow> string \<Rightarrow> policy_input \<Rightarrow> bool" where
  "room_for c ls sid inp \<longleftrightarrow>
     length (filter (others_in (pi_workspace_id inp) sid) ls) < max_concurrent_workers c
     \<and> (request_writes inp \<longrightarrow>
          (\<forall>l \<in> set ls. others_in (pi_workspace_id inp) sid l \<and> lease_writes l \<longrightarrow>
             owned_path_sets_overlap (dr_owned_paths (pi_request inp)) (lease_paths l) = Inr False))
     \<and> (\<forall>l \<in> set ls. wle_session_id l = sid \<longrightarrow> wle_workspace_id l = pi_workspace_id inp)"

definition desk_inv :: "policy_config \<Rightarrow> desk \<Rightarrow> bool" where
  "desk_inv c d \<longleftrightarrow>
     distinct (map wle_session_id (leases d))
     \<and> leases_apart (leases d)
     \<and> (\<forall>workspace. active_count d workspace \<le> max_concurrent_workers c)
     \<and> length (pending d) \<le> 1
     \<and> (\<forall>(sid, inp) \<in> set (pending d). room_for c (leases d) sid inp)"

lemma one_with_session:
  "distinct (map wle_session_id ls) \<Longrightarrow>
     length (filter (\<lambda>l. wle_session_id l = sid \<and> P l) ls) \<le> 1"
proof (induction ls)
  case (Cons l ls)
  show ?case
  proof (cases "wle_session_id l = sid")
    case True
    with Cons.prems have "filter (\<lambda>l. wle_session_id l = sid \<and> P l) ls = []"
      by (auto simp: filter_empty_conv image_iff)
    then show ?thesis by simp
  qed (use Cons in simp)
qed simp

lemma filter_le: "(\<And>x. x \<in> set xs \<Longrightarrow> P x \<Longrightarrow> Q x) \<Longrightarrow> length (filter P xs) \<le> length (filter Q xs)"
  by (induction xs) auto

lemma count_split:
  assumes "distinct (map wle_session_id ls)"
  shows "length (filter (active_in w) ls) \<le> Suc (length (filter (others_in w sid) ls))"
proof -
  have "length (filter (active_in w) ls) =
      length (filter (others_in w sid) ls)
      + length (filter (\<lambda>l. wle_session_id l = sid \<and> active_in w l) ls)"
    by (induction ls) (auto simp: others_in_def)
  with one_with_session [OF assms, of sid "active_in w"] show ?thesis by linarith
qed

lemma accepted_room:
  assumes "accepted (decide c inp)" and "input_of d inp"
    and "\<forall>l \<in> set (leases d). wle_session_id l = sid \<longrightarrow> wle_workspace_id l = pi_workspace_id inp"
  shows "room_for c (leases d) sid inp"
proof -
  have "length (filter (others_in (pi_workspace_id inp) sid) (leases d))
      \<le> active_count d (pi_workspace_id inp)"
    unfolding active_count_def by (rule filter_le) (simp add: others_in_def)
  then show ?thesis
    using accepted_has_room [OF assms(1,2)] accepted_is_apart [OF assms(1,2)] assms(3)
    by (auto simp: room_for_def others_in_def)
qed

text \<open>Giving a session an active lease on a request's terms keeps the leases apart.\<close>

lemma join_keeps_apart:
  assumes "leases_apart ls" and "room_for c ls sid inp"
    and "\<And>m. m \<in> set ms \<Longrightarrow>
      (m \<in> set ls \<and> wle_session_id m \<noteq> sid)
      \<or> (wle_session_id m = sid \<and> wle_workspace_id m = pi_workspace_id inp
         \<and> lease_paths m = dr_owned_paths (pi_request inp) \<and> lease_writes m = request_writes inp)"
  shows "leases_apart ms"
proof -
  have new: "owned_path_sets_overlap (lease_paths a) (lease_paths b) = Inr False"
    if "wle_session_id a = sid" "a \<in> set ms" "b \<in> set ms" "wle_session_id b \<noteq> sid"
      "wle_workspace_id a = wle_workspace_id b" "wle_status b = ''active''"
      "lease_writes a" "lease_writes b" for a b
    using that assms(2) assms(3) [of a] assms(3) [of b]
    by (auto simp: room_for_def others_in_def active_in_def)
  show ?thesis
    unfolding leases_apart_def
  proof (intro ballI impI, elim conjE)
    fix a b
    assume ab: "a \<in> set ms" "b \<in> set ms" "wle_session_id a \<noteq> wle_session_id b"
      "wle_workspace_id a = wle_workspace_id b" "wle_status a = ''active''" "wle_status b = ''active''"
      "lease_writes a" "lease_writes b"
    consider "wle_session_id a = sid" | "wle_session_id b = sid"
      | "wle_session_id a \<noteq> sid" "wle_session_id b \<noteq> sid" by blast
    then show "owned_path_sets_overlap (lease_paths a) (lease_paths b) = Inr False"
    proof cases
      case 1
      then show ?thesis using new [of a b] ab by simp
    next
      case 2
      then show ?thesis using overlap_False_sym [OF new [of b a]] ab by simp
    next
      case 3
      with assms(3) ab have "a \<in> set ls" "b \<in> set ls" by blast+
      with assms(1) ab show ?thesis by (auto simp: leases_apart_def)
    qed
  qed
qed

lemma spawned_lease_fields [simp]:
  "wle_session_id (spawned_lease inp sid) = sid"
  "wle_workspace_id (spawned_lease inp sid) = pi_workspace_id inp"
  "wle_status (spawned_lease inp sid) = ''active''"
  "lease_paths (spawned_lease inp sid) = dr_owned_paths (pi_request inp)"
  "lease_writes (spawned_lease inp sid) = request_writes inp"
  by (simp_all add: spawned_lease_def lease_paths_def lease_writes_def request_writes_def Let_def)

lemma activate_lease_fields [simp]:
  "wle_session_id (activate_lease sid r l) = wle_session_id l"
  "wle_workspace_id (activate_lease sid r l) = wle_workspace_id l"
  "wle_session_id l \<noteq> sid \<Longrightarrow> activate_lease sid r l = l"
  "wle_session_id l = sid \<Longrightarrow> lease_paths (activate_lease sid r l) = dr_owned_paths r"
  "wle_session_id l = sid \<Longrightarrow>
     lease_writes (activate_lease sid r l) = (dr_write_mode r \<noteq> ReadOnly)"
  by (simp_all add: activate_lease_def lease_paths_def lease_writes_def)

lemma set_lease_status_fields [simp]:
  "wle_session_id (set_lease_status sid st l) = wle_session_id l"
  "wle_workspace_id (set_lease_status sid st l) = wle_workspace_id l"
  "lease_paths (set_lease_status sid st l) = lease_paths l"
  "lease_writes (set_lease_status sid st l) = lease_writes l"
  by (simp_all add: set_lease_status_def lease_paths_def lease_writes_def)

lemma set_lease_status_active:
  "st \<noteq> ''active'' \<Longrightarrow> wle_status (set_lease_status sid st l) = ''active'' \<Longrightarrow>
     wle_status l = ''active''"
  by (auto simp: set_lease_status_def split: if_splits)

lemma room_for_within: "room_for k ls sid inp \<Longrightarrow> config_within c k \<Longrightarrow> room_for c ls sid inp"
  by (auto simp: room_for_def config_within_def)

lemma spawn_inv:
  assumes "desk_inv c d" and "pending d = []" and "accepted (decide k inp)" and "input_of d inp"
    and "config_within c k" and "sid \<notin> wle_session_id ` set (leases d)"
  shows "desk_inv c (reserve_spawn d inp out sid)"
proof -
  have room: "room_for c (leases d) sid inp"
    using accepted_room [OF assms(3,4), of sid] assms(5,6) room_for_within by blast
  have "leases_apart (leases d)" using assms(1) by (simp add: desk_inv_def)
  then have "leases_apart (leases d @ [spawned_lease inp sid])"
  proof (rule join_keeps_apart [OF _ room])
    fix m
    assume "m \<in> set (leases d @ [spawned_lease inp sid])"
    then consider "m \<in> set (leases d)" | "m = spawned_lease inp sid" by auto
    then show "(m \<in> set (leases d) \<and> wle_session_id m \<noteq> sid)
        \<or> (wle_session_id m = sid \<and> wle_workspace_id m = pi_workspace_id inp
           \<and> lease_paths m = dr_owned_paths (pi_request inp) \<and> lease_writes m = request_writes inp)"
      using assms(6) by cases (blast, simp)
  qed
  moreover have "length (filter (active_in w) (leases d @ [spawned_lease inp sid]))
      \<le> max_concurrent_workers c" for w
    using assms(1,5) accepted_has_room [OF assms(3,4)]
    by (cases "w = pi_workspace_id inp")
       (auto simp: desk_inv_def active_count_def active_in_def config_within_def)
  ultimately show ?thesis
    using assms by (auto simp: desk_inv_def reserve_spawn_def active_count_def)
qed

lemma activate_inv:
  assumes "desk_inv c d" and "(sid, inp) \<in> set (pending d)"
  shows "desk_inv c
    ((activate_reused_worker d sid (pi_request inp))\<lparr>pending := remove1 (sid, inp) (pending d)\<rparr>)"
proof -
  let ?ls = "map (activate_lease sid (pi_request inp)) (leases d)"
  have room: "room_for c (leases d) sid inp" and dist: "distinct (map wle_session_id (leases d))"
    using assms by (auto simp: desk_inv_def)
  have none: "remove1 (sid, inp) (pending d) = []"
    using assms by (cases "pending d") (auto simp: desk_inv_def)
  have "leases_apart (leases d)" using assms(1) by (simp add: desk_inv_def)
  then have "leases_apart ?ls"
  proof (rule join_keeps_apart [OF _ room])
    fix m
    assume "m \<in> set ?ls"
    then obtain l where l: "l \<in> set (leases d)" "m = activate_lease sid (pi_request inp) l" by auto
    show "(m \<in> set (leases d) \<and> wle_session_id m \<noteq> sid)
        \<or> (wle_session_id m = sid \<and> wle_workspace_id m = pi_workspace_id inp
           \<and> lease_paths m = dr_owned_paths (pi_request inp) \<and> lease_writes m = request_writes inp)"
    proof (cases "wle_session_id l = sid")
      case True
      then show ?thesis using l room by (simp add: room_for_def request_writes_def)
    qed (use l in simp)
  qed
  moreover have ids: "map wle_session_id ?ls = map wle_session_id (leases d)" by simp
  moreover have "length (filter (active_in w) ?ls) \<le> max_concurrent_workers c" for w
  proof -
    have same: "filter (others_in w sid) ?ls = filter (others_in w sid) (leases d)"
    proof -
      have "filter (others_in w sid) (map (activate_lease sid r) ls) = filter (others_in w sid) ls" for r ls
        by (induction ls) (auto simp: others_in_def active_in_def activate_lease_def)
      then show ?thesis .
    qed
    show ?thesis
    proof (cases "w = pi_workspace_id inp")
      case True
      have "length (filter (active_in w) ?ls) \<le> Suc (length (filter (others_in w sid) ?ls))"
        by (rule count_split) (simp only: ids dist)
      with True room same show ?thesis by (auto simp: room_for_def)
    next
      case False
      have "filter (active_in w) ?ls = filter (others_in w sid) ?ls"
        using room False by (intro filter_cong) (auto simp: others_in_def active_in_def room_for_def)
      then have "length (filter (active_in w) ?ls) \<le> active_count d w"
        unfolding same active_count_def by (simp only:) (rule filter_le, simp add: others_in_def)
      with assms(1) show ?thesis by (meson desk_inv_def le_trans)
    qed
  qed
  ultimately show ?thesis
    using none dist ids
    by (simp add: desk_inv_def activate_reused_worker_def active_count_def del: map_map)
qed

lemma end_lease_inv:
  assumes "desk_inv c d" and "st \<noteq> ''active''"
  shows "desk_inv c (d\<lparr>leases := map (set_lease_status sid st) (leases d)\<rparr>)"
proof -
  note was = set_lease_status_active [OF assms(2)]
  have shrink: "length (filter P (map (set_lease_status sid st) ls)) \<le> length (filter P ls)"
    if "\<And>l. P (set_lease_status sid st l) \<Longrightarrow> P l" for P ls
    using that by (induction ls) auto
  have act: "active_in w (set_lease_status sid st l) \<Longrightarrow> active_in w l" for w l
    using was by (auto simp: active_in_def)
  have oth: "others_in w s (set_lease_status sid st l) \<Longrightarrow> others_in w s l" for w s l
    using act by (auto simp: others_in_def)
  have "map (\<lambda>l. wle_session_id (set_lease_status sid st l)) (leases d) = map wle_session_id (leases d)"
    by simp
  moreover have "leases_apart (map (set_lease_status sid st) (leases d))"
    using assms(1) was by (auto simp: desk_inv_def leases_apart_def)
  moreover have "length (filter (active_in w) (map (set_lease_status sid st) (leases d)))
      \<le> max_concurrent_workers c" for w
  proof -
    have "length (filter (active_in w) (map (set_lease_status sid st) (leases d))) \<le> active_count d w"
      unfolding active_count_def using act by (rule shrink)
    with assms(1) show ?thesis by (meson desk_inv_def le_trans)
  qed
  moreover have "room_for c (map (set_lease_status sid st) (leases d)) s inp"
    if "room_for c (leases d) s inp" for s inp
    using that shrink [of "others_in (pi_workspace_id inp) s" "leases d"] oth
    by (auto simp: room_for_def intro: le_less_trans)
  ultimately show ?thesis
    using assms(1) by (auto simp: desk_inv_def active_count_def comp_def)
qed

lemma desk_step_inv: "desk_step True c d d' \<Longrightarrow> desk_inv c d \<Longrightarrow> desk_inv c d'"
proof (induction rule: desk_step.induct)
  case (spawn d inp k spec sid)
  then show ?case using spawn_inv [of c d k inp sid] by (simp add: accepted_def)
next
  case (resume d inp k sid)
  then obtain l where l: "l \<in> set (leases d)" "wle_session_id l = sid"
    "wle_workspace_id l = pi_workspace_id inp"
    using resume_lease by blast
  have "inj_on wle_session_id (set (leases d))" using resume by (simp add: desk_inv_def distinct_map)
  then have "\<forall>m \<in> set (leases d). wle_session_id m = sid \<longrightarrow> wle_workspace_id m = pi_workspace_id inp"
    using l by (metis inj_onD)
  then have "room_for k (leases d) sid inp"
    using resume by (intro accepted_room) (simp_all add: accepted_def)
  then have "room_for c (leases d) sid inp" using resume room_for_within by blast
  then show ?case using resume by (simp add: desk_inv_def active_count_def)
next
  case (activate sid inp d)
  then show ?case using activate_inv by blast
next
  case (end_lease status d sid)
  then show ?case using end_lease_inv by blast
qed (simp_all add: desk_inv_def active_count_def)

lemma empty_desk_inv: "desk_inv c empty_desk"
  by (simp add: desk_inv_def empty_desk_def leases_apart_def active_count_def)

lemma desk_reachable_inv: "desk_reachable True c d \<Longrightarrow> desk_inv c d"
  by (induction rule: rtranclp_induct) (use empty_desk_inv desk_step_inv in blast)+

section \<open>The turn budget\<close>

lemma spawn_source_counts: "starts_with (to_ascii_lowercase (spawn_source t)) ''policy.spawn.''"
proof -
  have "starts_with (to_ascii_lowercase ''policy.spawn.fast'') ''policy.spawn.''"
    "starts_with (to_ascii_lowercase ''policy.spawn.standard'') ''policy.spawn.''"
    "starts_with (to_ascii_lowercase ''policy.spawn.strong'') ''policy.spawn.''"
    by code_simp+
  then show ?thesis by (cases t) simp_all
qed

lemma spawn_source_strong: "spawn_source t = ''policy.spawn.strong'' \<longleftrightarrow> t = Strong"
  by (cases t) simp_all

definition turn_spent :: "policy_config \<Rightarrow> usage_row list \<Rightarrow> bool" where
  "turn_spent c rows \<longleftrightarrow>
     length rows \<le> max_workers_per_turn c
     \<and> length (filter (\<lambda>r. ur_source r = ''policy.spawn.strong'') rows) \<le> max_strong_workers_per_turn c
     \<and> 0 \<le> sum_list (map ur_capability_units rows)
     \<and> sum_list (map ur_capability_units rows) \<le> max_capability_units_per_turn c"

definition sane_units :: "policy_config \<Rightarrow> bool" where
  "sane_units c \<longleftrightarrow> 0 \<le> max_capability_units_per_turn c \<and> max_capability_units_per_turn c \<le> 2 ^ 62"

lemma units_bounds: "1 \<le> capability_units t e r b \<and> capability_units t e r b \<le> 30"
  using capability_units_range .

lemma spawn_spends:
  assumes "sane_units c" and "turn_spent c (spawn_rows (ledger d) (pi_workspace_id inp) (pi_turn_id inp))"
    and "input_of d inp" and "accepted (decide k inp)" and within: "config_within c k"
  shows "turn_spent c (spawn_rows
    (record_spawn_usage (ledger d) (pi_workspace_id inp) sid (pi_turn_id inp) (decide k inp)
      (dr_capability_tier (pi_request inp))) w t) \<or>
    (w, t) \<noteq> (pi_workspace_id inp, pi_turn_id inp)"
proof -
  let ?rows = "spawn_rows (ledger d) (pi_workspace_id inp) (pi_turn_id inp)"
  let ?sum = "sum_list (map ur_capability_units ?rows)"
  have sum: "0 \<le> ?sum" "?sum \<le> max_capability_units_per_turn c" "max_capability_units_per_turn c \<le> 2 ^ 62"
    using assms(1,2) by (auto simp: turn_spent_def sane_units_def)
  have units: "1 \<le> route_units inp" "route_units inp \<le> 30"
    using units_bounds by (auto simp: route_units_def)
  from assms(3) have budget: "pi_budget inp =
      \<lparr>workers_used = length ?rows,
       strong_workers_used = length (filter (\<lambda>r. ur_source r = ''policy.spawn.strong'') ?rows),
       capability_units_used = ?sum\<rparr>"
    by (auto simp: input_of_def load_request_budget_def Let_def split: if_splits)
  note passed = decide_accepted(1) [OF assms(4)]
  have "i64_add ?sum (route_units inp) = ?sum + route_units inp"
    using sum units by (intro i64_add_exact) (simp add: in_i64_def i64_min_def i64_max_def)
  then have "?sum + route_units inp \<le> max_capability_units_per_turn c"
    using passed budget within by (simp add: hard_limits_passed_def config_within_def)
  moreover have "length ?rows < max_workers_per_turn c"
    "dr_capability_tier (pi_request inp) = Strong \<Longrightarrow>
       length (filter (\<lambda>r. ur_source r = ''policy.spawn.strong'') ?rows) < max_strong_workers_per_turn c"
    using passed budget within by (auto simp: hard_limits_passed_def config_within_def)
  ultimately show ?thesis
    using assms(2) sum units spawn_source_counts
    by (auto simp: turn_spent_def record_spawn_usage_def spawn_rows_def spawn_source_strong
        decide_accepted(6) [OF assms(4)])
qed

lemma desk_step_spends:
  assumes "sane_units c" and "desk_step serial c d d'"
    and "\<forall>w t. turn_spent c (spawn_rows (ledger d) w t)"
  shows "\<forall>w t. turn_spent c (spawn_rows (ledger d') w t)"
  using assms(2,3)
proof (induction rule: desk_step.induct)
  case (spawn d inp k spec sid)
  have "turn_spent c (spawn_rows (ledger (reserve_spawn d inp (decide k inp) sid)) w t)" for w t
  proof (cases "(w, t) = (pi_workspace_id inp, pi_turn_id inp)")
    case True
    then show ?thesis
      using spawn_spends [OF assms(1), of d inp k sid w t] spawn
      by (auto simp: accepted_def reserve_spawn_def)
  next
    case False
    then have "spawn_rows (ledger (reserve_spawn d inp (decide k inp) sid)) w t
        = spawn_rows (ledger d) w t"
      by (auto simp: spawn_rows_def reserve_spawn_def record_spawn_usage_def)
    with spawn show ?thesis by simp
  qed
  then show ?case by blast
qed (simp_all add: activate_reused_worker_def spawn_rows_def)

lemma desk_reachable_spends:
  assumes "sane_units c" and "desk_reachable serial c d"
  shows "turn_spent c (spawn_rows (ledger d) w t)"
proof -
  have "\<forall>w t. turn_spent c (spawn_rows (ledger d) w t)"
    using assms(2)
  proof (induction rule: rtranclp_induct)
    case base
    then show ?case using assms(1) by (simp add: turn_spent_def empty_desk_def spawn_rows_def sane_units_def)
  next
    case (step d d')
    then show ?case using desk_step_spends [OF assms(1)] by blast
  qed
  then show ?thesis by blast
qed

section \<open>Properties\<close>

text \<open>
  C1. When launches are decided one after the other, the overlap check finds no overlap between the
  leases of any two active writers of a workspace, and no path is covered by both where the
  wildcards of the two leases start a segment. A wildcard inside a segment escapes the check, as
  \<open>Owned_Paths\<close> shows.
\<close>
theorem active_writers_never_share_a_path:
  assumes "desk_reachable True c d"
    and "a \<in> set (leases d)" and "b \<in> set (leases d)" and "wle_session_id a \<noteq> wle_session_id b"
    and "wle_workspace_id a = wle_workspace_id b"
    and "wle_status a = ''active''" and "wle_status b = ''active''"
    and "lease_writes a" and "lease_writes b"
  shows "owned_path_sets_overlap (lease_paths a) (lease_paths b) = Inr False
    \<and> (segment_aligned (lease_paths a) \<and> segment_aligned (lease_paths b) \<longrightarrow>
         (\<forall>path. \<not> (owned_paths_cover_path (lease_paths a) path \<and> owned_paths_cover_path (lease_paths b) path)))"
proof -
  have "leases_apart (leases d)" using desk_reachable_inv [OF assms(1)] by (simp add: desk_inv_def)
  with assms have apart: "owned_path_sets_overlap (lease_paths a) (lease_paths b) = Inr False"
    unfolding leases_apart_def by blast
  then show ?thesis using apart_claims_share_no_path [OF apart] by blast
qed

text \<open>
  A workspace never runs more workers than its limit, when launches are decided one after
  the other, resumptions included.
\<close>
theorem active_workers_within_limit:
  assumes "desk_reachable True c d"
  shows "active_count d workspace \<le> max_concurrent_workers c"
  using desk_reachable_inv [OF assms] by (simp add: desk_inv_def)

text \<open>
  C7. A turn never spends more than its budget, whatever the interleaving: the budget the policy
  reads back for any turn loads, and is within the limits on workers, strong workers and
  capability units of any configuration, with a unit limit between 0 and 2^62, that no decision's
  settings exceeded.
\<close>
theorem turn_budget_never_exceeded:
  assumes "sane_units c" and "desk_reachable serial c d"
  shows "\<exists>b. load_request_budget (ledger d) workspace turn = Ok b
    \<and> workers_used b \<le> max_workers_per_turn c
    \<and> strong_workers_used b \<le> max_strong_workers_per_turn c
    \<and> 0 \<le> capability_units_used b \<and> capability_units_used b \<le> max_capability_units_per_turn c"
  using desk_reachable_spends [OF assms, of workspace turn] assms(1)
  by (auto simp: turn_spent_def load_request_budget_def Let_def sane_units_def in_i64_def
      i64_min_def i64_max_def)

section \<open>A concrete run\<close>

text \<open>
  A writer is spawned and goes warm; a second request resumes it, and before its activation a
  third one spawns a writer of the same files.
\<close>

definition auth_request :: "capability_tier \<Rightarrow> delegation_request" where
  "auth_request t = sample_request t Isolated [''src/auth/**'']"

definition auth_lease :: "string \<Rightarrow> capability_tier \<Rightarrow> string \<Rightarrow> worker_lease" where
  "auth_lease sid t status =
     \<lparr>wle_session_id = sid, wle_workspace_id = ''w'', wle_role = ''implementation'',
      wle_capability_tier = tier_name t, wle_task_family = ''implementation'',
      wle_owned_paths = Some [''src/auth/**''], wle_write_mode = ''isolated'', wle_status = status\<rparr>"

definition auth_worker :: "string \<Rightarrow> capability_tier \<Rightarrow> worker_snapshot" where
  "auth_worker sid t =
     \<lparr>ws_session_id = sid, ws_workspace_id = ''w'', ws_worktree_id = ''w'',
      ws_role = Implementation, ws_harness = ''codex'', ws_capability_tier = t,
      ws_task_family = ''implementation'', ws_owned_paths = [''src/auth/**''],
      ws_write_mode = Isolated\<rparr>"

definition auth_usage :: "string \<Rightarrow> capability_tier \<Rightarrow> int \<Rightarrow> usage_row" where
  "auth_usage sid t units =
     \<lparr>ur_workspace_id = ''w'', ur_session_id = sid, ur_turn_id = ''turn'',
      ur_source = spawn_source t, ur_capability_units = units\<rparr>"

definition one_spawn_budget :: request_budget where
  "one_spawn_budget = \<lparr>workers_used = 1, strong_workers_used = 0, capability_units_used = 4\<rparr>"

definition desk_spawned :: "string \<Rightarrow> string \<times> string \<Rightarrow> desk" where
  "desk_spawned status runtime =
     \<lparr>leases = [auth_lease ''A'' Standard status], sessions = [''A'' \<mapsto> ''codex''],
      runtimes = [''A'' \<mapsto> runtime], ledger = [auth_usage ''A'' Standard 4], pending = []\<rparr>"

definition resume_input :: policy_input where
  "resume_input = sample_input (auth_request Standard) [] [auth_worker ''A'' Standard] one_spawn_budget"

definition race_input :: policy_input where
  "race_input = sample_input (auth_request Fast) [] [auth_worker ''A'' Standard] one_spawn_budget"

lemmas run_simps = desk_spawned_def resume_input_def race_input_def sample_input_def
  sample_request_def auth_request_def auth_lease_def auth_worker_def auth_usage_def
  one_spawn_budget_def fresh_budget_def empty_desk_def policy_config_default_def

lemma auth_paths:
  "normalize_owned_paths [''src/auth/**''] = Ok [''src/auth/**'']"
  "owned_paths_are_provenanced [''src/auth/**''] [''src/**'']"
  "owned_path_sets_overlap [''src/auth/**''] [''src/auth/**''] = Ok True"
proof -
  show "normalize_owned_paths [''src/auth/**''] = Ok [''src/auth/**'']" by code_simp
  show "owned_paths_are_provenanced [''src/auth/**''] [''src/**'']" by code_simp
  show "owned_path_sets_overlap [''src/auth/**''] [''src/auth/**''] = Ok True" by code_simp
qed

lemma run_units:
  "capability_units Standard Medium Fresh False = 4" "capability_units Standard Medium Native False = 3"
  "capability_units Fast Medium Fresh False = 3"
proof -
  have "\<lceil>9 / 4 :: rat\<rceil> = 3" "\<lceil>5 / 2 :: rat\<rceil> = 3" by (rule ceiling_unique; simp)+
  then show "capability_units Standard Medium Fresh False = 4" "capability_units Standard Medium Native False = 3"
    "capability_units Fast Medium Fresh False = 3"
    by (simp_all add: capability_units_def ceiling_15_4)
qed

lemma lower_source: "to_ascii_lowercase ''policy.spawn.standard'' = ''policy.spawn.standard''"
  by code_simp

lemma run_first_spawn:
  "desk_step serial policy_config_default empty_desk (desk_spawned ''active'' (''starting'', ''pending''))"
proof -
  let ?inp = "sample_input (auth_request Standard) [] [] fresh_budget"
  have "input_of empty_desk ?inp"
    by (simp add: input_of_def load_workers_def load_request_budget_def spawn_rows_def run_simps
        in_i64_def i64_min_def i64_max_def)
  moreover note sample_spawns [folded auth_request_def]
  ultimately have "desk_step serial policy_config_default empty_desk
      (reserve_spawn empty_desk ?inp (decide policy_config_default ?inp) ''A'')"
    by (intro desk_step.spawn) (auto simp: empty_desk_def)
  moreover have "out_capability_units (decide policy_config_default ?inp) = 4"
    using decide_accepted(6) [of policy_config_default ?inp] sample_spawns [folded auth_request_def]
    by (simp add: accepted_def route_units_def warm_match_def run_simps run_units)
  moreover have "reserve_spawn empty_desk ?inp out ''A'' = desk_spawned ''active'' (''starting'', ''pending'')"
    if "out_capability_units out = 4" for out
    by (simp add: reserve_spawn_def spawned_lease_def record_spawn_usage_def run_simps
        runtime_harness_def Let_def that)
  ultimately show ?thesis by simp
qed

lemma run_goes_warm:
  "desk_step serial c (desk_spawned ''active'' r) (desk_spawned ''warm'' r)"
proof -
  have "desk_step serial c (desk_spawned ''active'' r)
      ((desk_spawned ''active'' r)\<lparr>leases := map (set_lease_status ''A'' ''warm'')
        (leases (desk_spawned ''active'' r))\<rparr>)"
    by (rule desk_step.end_lease) simp
  then show ?thesis by (simp add: run_simps set_lease_status_def)
qed

lemma run_reported:
  "desk_step serial c (desk_spawned ''warm'' r) (desk_spawned ''warm'' (''warm'', ''reported''))"
  using desk_step.runtime_changes [of serial c "desk_spawned ''warm'' r" "[''A'' \<mapsto> (''warm'', ''reported'')]"]
  by (simp add: desk_spawned_def)

abbreviation desk_warm :: desk where
  "desk_warm \<equiv> desk_spawned ''warm'' (''warm'', ''reported'')"

lemma run_warm_reachable: "desk_reachable serial policy_config_default desk_warm"
  using run_first_spawn run_goes_warm run_reported
  by (meson rtranclp.rtrancl_into_rtrancl rtranclp.rtrancl_refl)

lemma run_inputs:
  "input_of (desk_warm\<lparr>pending := p\<rparr>) (sample_input (auth_request t) [] [auth_worker ''A'' Standard] one_spawn_budget)"
  by (simp add: input_of_def load_workers_def load_request_budget_def spawn_rows_def run_simps
      lease_eligible_def worker_from_lease_def parse_role_def parse_tier_def parse_write_mode_def
      in_i64_def i64_min_def i64_max_def lower_source starts_with_def)

lemma run_resumes:
  "out_decision (decide policy_config_default resume_input) = ResumeWorker ''A''"
  using auth_paths
  by (simp add: decide_simps run_simps warm_match_def compatible_worker_def route_units_def run_units
      i64_add_def i64_wrap_def scope_explicitly_authorized_def writer_conflict_def active_writers_def)

lemma run_races:
  "\<exists>spec. out_decision (decide policy_config_default race_input) = SpawnWorker spec"
  "out_capability_units (decide policy_config_default race_input) = 3"
  using auth_paths
  by (simp_all add: decide_simps run_simps warm_match_def compatible_worker_def route_units_def
      run_units i64_add_def i64_wrap_def scope_explicitly_authorized_def writer_conflict_def
      active_writers_def)

text \<open>The desk after the resumption was activated with nothing in between.\<close>

definition desk_resumed :: desk where
  "desk_resumed = desk_spawned ''active'' (''warm'', ''pending'')"

lemma run_resumed_reachable: "desk_reachable True policy_config_default desk_resumed"
proof -
  have 1: "desk_step True policy_config_default desk_warm (desk_warm\<lparr>pending := [(''A'', resume_input)]\<rparr>)"
    using desk_step.resume [of True desk_warm resume_input policy_config_default policy_config_default "''A''"]
      run_inputs [of "[]" Standard] run_resumes
    by (simp add: desk_spawned_def resume_input_def)
  have "desk_step True policy_config_default (desk_warm\<lparr>pending := [(''A'', resume_input)]\<rparr>)
    ((activate_reused_worker (desk_warm\<lparr>pending := [(''A'', resume_input)]\<rparr>) ''A''
        (pi_request resume_input))\<lparr>pending := remove1 (''A'', resume_input) [(''A'', resume_input)]\<rparr>)"
    using desk_step.activate [of "''A''" resume_input "desk_warm\<lparr>pending := [(''A'', resume_input)]\<rparr>"]
    by simp
  then have 2: "desk_step True policy_config_default (desk_warm\<lparr>pending := [(''A'', resume_input)]\<rparr>) desk_resumed"
    by (simp add: activate_reused_worker_def activate_lease_def run_simps desk_resumed_def)
  from run_warm_reachable 1 2 show ?thesis by (meson rtranclp.rtrancl_into_rtrancl)
qed

definition desk_raced :: desk where
  "desk_raced =
     \<lparr>leases = [auth_lease ''A'' Standard ''active'', auth_lease ''B'' Fast ''active''],
      sessions = [''A'' \<mapsto> ''codex'', ''B'' \<mapsto> ''codex''],
      runtimes = [''A'' \<mapsto> (''warm'', ''pending''), ''B'' \<mapsto> (''starting'', ''pending'')],
      ledger = [auth_usage ''A'' Standard 4, auth_usage ''B'' Fast 3], pending = []\<rparr>"

lemma run_raced_reachable: "desk_reachable False policy_config_default desk_raced"
proof -
  let ?d1 = "desk_warm\<lparr>pending := [(''A'', resume_input)]\<rparr>"
  let ?d2 = "desk_raced\<lparr>leases := [auth_lease ''A'' Standard ''warm'', auth_lease ''B'' Fast ''active''],
    runtimes := [''A'' \<mapsto> (''warm'', ''reported''), ''B'' \<mapsto> (''starting'', ''pending'')],
    pending := [(''A'', resume_input)]\<rparr>"
  have 1: "desk_step False policy_config_default desk_warm ?d1"
    using desk_step.resume [of False desk_warm resume_input policy_config_default policy_config_default "''A''"]
      run_inputs [of "[]" Standard] run_resumes
    by (simp add: desk_spawned_def resume_input_def)
  obtain spec where spec: "out_decision (decide policy_config_default race_input) = SpawnWorker spec"
    using run_races by blast
  have "desk_step False policy_config_default ?d1
      (reserve_spawn ?d1 race_input (decide policy_config_default race_input) ''B'')"
    using run_inputs [of _ Fast] spec
    by (intro desk_step.spawn) (auto simp: race_input_def desk_spawned_def auth_lease_def)
  moreover have "reserve_spawn ?d1 race_input out ''B'' = ?d2" if "out_capability_units out = 3" for out
    by (simp add: reserve_spawn_def spawned_lease_def record_spawn_usage_def run_simps desk_raced_def
        runtime_harness_def Let_def that)
  note this [OF run_races(2)]
  ultimately have 2: "desk_step False policy_config_default ?d1 ?d2" by simp
  have "desk_step False policy_config_default ?d2
    ((activate_reused_worker ?d2 ''A'' (pi_request resume_input))\<lparr>pending :=
        remove1 (''A'', resume_input) [(''A'', resume_input)]\<rparr>)"
    using desk_step.activate [of "''A''" resume_input ?d2] by simp
  then have 3: "desk_step False policy_config_default ?d2 desk_raced"
    by (simp add: activate_reused_worker_def activate_lease_def run_simps desk_raced_def fun_upd_twist)
  from run_warm_reachable 1 2 3 show ?thesis
    by (meson rtranclp.rtrancl_into_rtrancl)
qed

text \<open>
  The serial schedule is needed: the database lock is free between the decision to resume a
  warm worker and its activation, and a writer spawned in between is decided against leases that
  do not hold the resumed one. In the interleaving the code allows, two writers of one workspace
  end up active on the same files.
\<close>
theorem resume_race_shares_a_path:
  "desk_reachable False policy_config_default desk_raced
   \<and> (\<exists>a b. {a, b} \<subseteq> set (leases desk_raced) \<and> wle_session_id a \<noteq> wle_session_id b
        \<and> active_in ''w'' a \<and> active_in ''w'' b \<and> lease_writes a \<and> lease_writes b
        \<and> owned_paths_cover_path (lease_paths a) ''src/auth/token.rs''
        \<and> owned_paths_cover_path (lease_paths b) ''src/auth/token.rs'')"
proof
  show "desk_reachable False policy_config_default desk_raced" by (rule run_raced_reachable)
  have "owned_paths_cover_path [''src/auth/**''] ''src/auth/token.rs''" by code_simp
  then show "\<exists>a b. {a, b} \<subseteq> set (leases desk_raced) \<and> wle_session_id a \<noteq> wle_session_id b
        \<and> active_in ''w'' a \<and> active_in ''w'' b \<and> lease_writes a \<and> lease_writes b
        \<and> owned_paths_cover_path (lease_paths a) ''src/auth/token.rs''
        \<and> owned_paths_cover_path (lease_paths b) ''src/auth/token.rs''"
    by (intro exI [of _ "auth_lease ''A'' Standard ''active''"] exI [of _ "auth_lease ''B'' Fast ''active''"])
      (simp add: desk_raced_def auth_lease_def lease_paths_def lease_writes_def parse_write_mode_def
        active_in_def)
qed

text \<open>A second writer beside the first, on other files.\<close>

definition desk_two :: desk where
  "desk_two =
     \<lparr>leases = [auth_lease ''A'' Standard ''active'',
        (auth_lease ''B'' Fast ''active'')\<lparr>wle_owned_paths := Some [''src/ui/**'']\<rparr>],
      sessions = [''A'' \<mapsto> ''codex'', ''B'' \<mapsto> ''codex''],
      runtimes = [''A'' \<mapsto> (''starting'', ''pending''), ''B'' \<mapsto> (''starting'', ''pending'')],
      ledger = [auth_usage ''A'' Standard 4, auth_usage ''B'' Fast 3], pending = []\<rparr>"

lemma ui_paths:
  "is_ok (normalize_owned_paths [''src/ui/**''])"
  "owned_paths_are_provenanced [''src/ui/**''] [''src/**'']"
  "owned_path_sets_overlap [''src/ui/**''] [''src/auth/**''] = Ok False"
proof -
  show "is_ok (normalize_owned_paths [''src/ui/**''])" by code_simp
  show "owned_paths_are_provenanced [''src/ui/**''] [''src/**'']" by code_simp
  show "owned_path_sets_overlap [''src/ui/**''] [''src/auth/**''] = Ok False" by code_simp
qed

lemma run_two_reachable: "desk_reachable True policy_config_default desk_two"
proof -
  let ?d = "desk_spawned ''active'' (''starting'', ''pending'')"
  let ?inp = "sample_input (sample_request Fast Isolated [''src/ui/**'']) [auth_worker ''A'' Standard] []
    one_spawn_budget"
  have inp: "input_of ?d ?inp"
    by (simp add: input_of_def load_workers_def load_request_budget_def spawn_rows_def run_simps
        lease_eligible_def worker_from_lease_def parse_role_def parse_tier_def parse_write_mode_def
        in_i64_def i64_min_def i64_max_def lower_source starts_with_def)
  have dec: "\<exists>spec. out_decision (decide policy_config_default ?inp) = SpawnWorker spec"
    "out_capability_units (decide policy_config_default ?inp) = 3"
    using ui_paths
    by (simp_all add: decide_simps run_simps warm_match_def compatible_worker_def route_units_def
        run_units i64_add_def i64_wrap_def scope_explicitly_authorized_def writer_conflict_def
        active_writers_def)
  then obtain spec where "out_decision (decide policy_config_default ?inp) = SpawnWorker spec" by blast
  with inp have "desk_step True policy_config_default ?d
      (reserve_spawn ?d ?inp (decide policy_config_default ?inp) ''B'')"
    by (intro desk_step.spawn) (auto simp: desk_spawned_def auth_lease_def)
  moreover have "reserve_spawn ?d ?inp out ''B'' = desk_two" if "out_capability_units out = 3" for out
    by (simp add: reserve_spawn_def spawned_lease_def record_spawn_usage_def run_simps desk_two_def
        runtime_harness_def Let_def that)
  note this [OF dec(2)]
  ultimately have "desk_step True policy_config_default ?d desk_two" by simp
  with run_first_spawn show ?thesis by (meson rtranclp.rtrancl_into_rtrancl rtranclp.rtrancl_refl)
qed

theorem active_writers_never_share_a_path_witness:
  "\<not> owned_paths_cover_path (lease_paths ((auth_lease ''B'' Fast ''active'')\<lparr>wle_owned_paths :=
      Some [''src/ui/**'']\<rparr>)) ''src/auth/token.rs''"
proof -
  let ?a = "auth_lease ''A'' Standard ''active''"
  let ?b = "(auth_lease ''B'' Fast ''active'')\<lparr>wle_owned_paths := Some [''src/ui/**'']\<rparr>"
  have aligned: "segment_aligned [''src/auth/**'']" "segment_aligned [''src/ui/**'']"
    and covers: "owned_paths_cover_path [''src/auth/**''] ''src/auth/token.rs''" by code_simp+
  have "?a \<in> set (leases desk_two)" "?b \<in> set (leases desk_two)" "wle_session_id ?a \<noteq> wle_session_id ?b"
    "wle_workspace_id ?a = wle_workspace_id ?b" "wle_status ?a = ''active''" "wle_status ?b = ''active''"
    "lease_writes ?a" "lease_writes ?b"
    by (simp_all add: desk_two_def auth_lease_def lease_writes_def parse_write_mode_def)
  from active_writers_never_share_a_path [OF run_two_reachable this] show ?thesis
    using aligned covers by (simp add: lease_paths_def auth_lease_def)
qed

theorem active_workers_within_limit_witness:
  "active_count desk_two ''w'' = 2
   \<and> active_count desk_two ''w'' \<le> max_concurrent_workers policy_config_default"
proof
  show "active_count desk_two ''w'' = 2"
    by (simp add: active_count_def active_in_def desk_two_def auth_lease_def)
  show "active_count desk_two ''w'' \<le> max_concurrent_workers policy_config_default"
    by (rule active_workers_within_limit [OF run_two_reachable])
qed

theorem turn_budget_never_exceeded_witness:
  "\<exists>b. load_request_budget (ledger desk_raced) ''w'' ''turn'' = Ok b
     \<and> workers_used b \<le> max_workers_per_turn policy_config_default
     \<and> strong_workers_used b \<le> max_strong_workers_per_turn policy_config_default
     \<and> 0 \<le> capability_units_used b
     \<and> capability_units_used b \<le> max_capability_units_per_turn policy_config_default"
proof (rule turn_budget_never_exceeded)
  show "sane_units policy_config_default" by (simp add: sane_units_def policy_config_default_def)
  show "desk_reachable False policy_config_default desk_raced" by (rule run_raced_reachable)
qed

section \<open>The isolation backstop\<close>

text \<open>
  \<open>prepare_isolated_worker\<close> collects the other active writers of the workspace, and
  \<open>authorize_disjoint_writer\<close> refuses a claim that overlaps one of them.
\<close>

definition isolation_writers :: "desk \<Rightarrow> string \<Rightarrow> string \<Rightarrow> (string \<times> string list) list" where
  "isolation_writers d workspace sid =
     map (\<lambda>l. (wle_session_id l, lease_paths l))
       (filter (\<lambda>l. wle_write_mode l \<noteq> ''read_only'')
         (filter (\<lambda>l. wle_session_id l \<noteq> sid \<and> wle_status l = ''active'')
           (filter (\<lambda>l. wle_workspace_id l = workspace) (leases d))))"

fun first_overlap :: "string list \<Rightarrow> (string \<times> string list) list \<Rightarrow> (string, unit) result" where
  "first_overlap requested [] = Ok ()"
| "first_overlap requested ((sid, paths) # ws) =
     (case owned_path_sets_overlap requested paths of
        Inl e \<Rightarrow> Err e
      | Inr b \<Rightarrow> if b then Err (''owned paths overlap active writer session '' @ sid)
                 else first_overlap requested ws)"

definition authorize_disjoint_writer ::
    "string list \<Rightarrow> (string \<times> string list) list \<Rightarrow> (string, unit) result" where
  "authorize_disjoint_writer requested writers =
     (case normalize_owned_paths requested of
        Inl e \<Rightarrow> Err e | Inr _ \<Rightarrow> first_overlap requested writers)"

lemma first_overlap_Ok:
  "first_overlap requested ws = Inr () \<Longrightarrow> (sid, paths) \<in> set ws \<Longrightarrow>
     owned_path_sets_overlap requested paths = Inr False"
  by (induction requested ws rule: first_overlap.induct) (auto split: sum.splits if_splits)

text \<open>
  The isolation backstop is at least as strict as the policy: a checkout it authorises
  overlaps no other active writer's lease.
\<close>
theorem isolation_backstop_is_sound:
  assumes "authorize_disjoint_writer requested (isolation_writers d workspace sid) = Ok ()"
    and "l \<in> set (leases d)" and "active_in workspace l" and "wle_session_id l \<noteq> sid"
    and "lease_writes l" and "wle_write_mode l \<in> range write_mode_name"
  shows "owned_path_sets_overlap requested (lease_paths l) = Ok False"
proof -
  have "wle_write_mode l \<noteq> ''read_only''"
  proof
    assume "wle_write_mode l = ''read_only''"
    with assms(6) obtain m where "write_mode_name m = ''read_only''" by auto
    then show False by (cases m) simp_all
  qed
  with assms(2-5) have "(wle_session_id l, lease_paths l) \<in> set (isolation_writers d workspace sid)"
    by (auto simp: isolation_writers_def active_in_def)
  with assms(1) show ?thesis
    by (auto simp: authorize_disjoint_writer_def dest: first_overlap_Ok split: sum.splits)
qed

theorem isolation_backstop_is_sound_witness:
  "owned_path_sets_overlap [''src/ui/**''] (lease_paths (auth_lease ''A'' Standard ''active'')) = Ok False"
proof (rule isolation_backstop_is_sound [of _ desk_two "''w''" "''B''"])
  show "authorize_disjoint_writer [''src/ui/**''] (isolation_writers desk_two ''w'' ''B'') = Ok ()"
    using ui_paths
    by (cases "normalize_owned_paths [''src/ui/**'']")
      (simp_all add: authorize_disjoint_writer_def isolation_writers_def desk_two_def auth_lease_def
        lease_paths_def)
  show "wle_write_mode (auth_lease ''A'' Standard ''active'') \<in> range write_mode_name"
    by (simp add: auth_lease_def) (metis rangeI write_mode_name.simps(3))
qed (simp_all add: desk_two_def auth_lease_def active_in_def lease_writes_def parse_write_mode_def)

text \<open>
  C36. The backstop is stricter than meant: the leases store \<open>readOnly\<close>, the filter looks for
  \<open>read_only\<close>, so an active reader counts as a writer, and a reader that owns no paths blocks
  every isolated writer of its workspace, whatever files it claims.
\<close>
theorem isolation_backstop_counts_readers:
  assumes "l \<in> set (leases d)" and "active_in workspace l" and "wle_session_id l \<noteq> sid"
    and "wle_write_mode l = write_mode_name ReadOnly" and "lease_paths l = []"
  shows "\<not> is_ok (authorize_disjoint_writer requested (isolation_writers d workspace sid))"
proof
  assume ok: "is_ok (authorize_disjoint_writer requested (isolation_writers d workspace sid))"
  then have "first_overlap requested (isolation_writers d workspace sid) = Inr ()"
    by (auto simp: authorize_disjoint_writer_def elim: is_ok.elims split: sum.splits)
  moreover have "(wle_session_id l, []) \<in> set (isolation_writers d workspace sid)"
    using assms by (auto simp: isolation_writers_def active_in_def image_iff intro!: bexI [of _ l])
  ultimately have "owned_path_sets_overlap requested [] = Inr False" by (rule first_overlap_Ok)
  then show False by (simp add: owned_path_sets_overlap_def)
qed

theorem isolation_backstop_counts_readers_witness:
  "\<not> is_ok (authorize_disjoint_writer [''src/ui/**'']
     (isolation_writers (desk_two\<lparr>leases := [(auth_lease ''A'' Standard ''active'')\<lparr>wle_owned_paths := Some [],
        wle_write_mode := write_mode_name ReadOnly\<rparr>]\<rparr>) ''w'' ''B''))"
  by (rule isolation_backstop_counts_readers [of "(auth_lease ''A'' Standard ''active'')\<lparr>wle_owned_paths := Some [],
        wle_write_mode := write_mode_name ReadOnly\<rparr>"])
    (simp_all add: auth_lease_def active_in_def lease_paths_def)

end
