(* ===== verification/Machine_Blocks.thy ===== *)
theory Machine_Blocks
  imports Rust_Prelude
begin

text \<open>
  The fenced machine blocks of a message (\<open>fenced_blocks\<close> and \<open>strip_machine_blocks\<close> of
  \<open>bridge-core/src/delegation.rs\<close>) and the two cuts of text that file makes: the worker's title
  and \<open>truncate_on_char_boundary\<close>. The properties say what stripping leaves of a message and
  bound both cuts.
\<close>

section \<open>Blocks\<close>

definition fence :: string where "fence = ''```''"

definition is_fence :: "string \<Rightarrow> bool" where
  "is_fence line \<longleftrightarrow> starts_with (trim_start line) fence"

definition fence_tag :: "string \<Rightarrow> string" where
  "fence_tag line = to_ascii_lowercase (trim (trim_start_chars [CHR ''`''] (trim_start line)))"

definition opens :: "(string \<Rightarrow> bool) \<Rightarrow> string \<Rightarrow> bool" where
  "opens matches_tag line \<longleftrightarrow> is_fence line \<and> matches_tag (fence_tag line)"

function block_bodies :: "(string \<Rightarrow> bool) \<Rightarrow> string list \<Rightarrow> string list" where
  "block_bodies matches_tag [] = []"
| "block_bodies matches_tag (line # rest) =
     (if opens matches_tag line
      then let body = takeWhile (\<lambda>l. \<not> is_fence l) rest in
        trim (concat (map (\<lambda>l. l @ [CHR 0x0A]) body))
        # block_bodies matches_tag (drop (Suc (length body)) rest)
      else block_bodies matches_tag rest)"
  by pat_completeness auto
termination
  by (relation "measure (\<lambda>(m, ls). length ls)") auto

definition fenced_blocks :: "string \<Rightarrow> (string \<Rightarrow> bool) \<Rightarrow> string list" where
  "fenced_blocks text matches_tag = block_bodies matches_tag (str_lines text)"

definition is_delegation_tag :: "string \<Rightarrow> bool" where
  "is_delegation_tag tag \<longleftrightarrow> str_contains tag ''bridge'' \<and> str_contains tag ''delegate''"

definition is_worker_result_tag :: "string \<Rightarrow> bool" where
  "is_worker_result_tag tag \<longleftrightarrow>
     str_contains tag ''bridge'' \<and> str_contains tag ''worker'' \<and> str_contains tag ''result''"

definition is_peek_tag :: "string \<Rightarrow> bool" where
  "is_peek_tag tag \<longleftrightarrow> str_contains tag ''bridge'' \<and> str_contains tag ''peek''"

definition is_steer_tag :: "string \<Rightarrow> bool" where
  "is_steer_tag tag \<longleftrightarrow> str_contains tag ''bridge'' \<and> str_contains tag ''steer''"

definition is_stop_tag :: "string \<Rightarrow> bool" where
  "is_stop_tag tag \<longleftrightarrow> str_contains tag ''bridge'' \<and> str_contains tag ''stop''"

definition contains_worker_result_block :: "string \<Rightarrow> bool" where
  "contains_worker_result_block text \<longleftrightarrow> fenced_blocks text is_worker_result_tag \<noteq> []"

text \<open>The loop of \<open>strip_machine_blocks\<close> over the lines of the message.\<close>

function strip_lines :: "(string \<Rightarrow> bool) \<Rightarrow> string list \<Rightarrow> string list" where
  "strip_lines matches_tag [] = []"
| "strip_lines matches_tag (line # rest) =
     (if opens matches_tag line
      then (case dropWhile (\<lambda>l. \<not> is_fence l) rest of
              [] \<Rightarrow> line # rest
            | closing # after \<Rightarrow> strip_lines matches_tag after)
      else line # strip_lines matches_tag rest)"
  by pat_completeness auto
termination
proof (relation "measure (\<lambda>(m, ls). length ls)", simp, goal_cases)
  case (1 matches_tag line rest closing after)
  then have "length (closing # after) \<le> length rest" by (metis length_dropWhile_le)
  then show ?case by simp
next
  case 2
  then show ?case by simp
qed

definition strip_machine_blocks :: "string \<Rightarrow> (string \<Rightarrow> bool) \<Rightarrow> string" where
  "strip_machine_blocks text matches_tag =
     trim (join [CHR 0x0A] (strip_lines matches_tag (str_lines text)))"

definition strip_directives :: "string \<Rightarrow> string" where
  "strip_directives text = strip_machine_blocks text is_delegation_tag"

definition strip_worker_result :: "string \<Rightarrow> string" where
  "strip_worker_result text = strip_machine_blocks text is_worker_result_tag"

definition strip_peek :: "string \<Rightarrow> string" where
  "strip_peek text = strip_machine_blocks text is_peek_tag"

definition strip_stop :: "string \<Rightarrow> string" where
  "strip_stop text = strip_machine_blocks text is_stop_tag"

definition strip_steer :: "string \<Rightarrow> string" where
  "strip_steer text = strip_machine_blocks text is_steer_tag"

section \<open>Cuts\<close>

text \<open>\<open>cut\<close> walks down to a boundary; the text is returned whole when it fits.\<close>

fun boundary_at_most :: "string \<Rightarrow> nat \<Rightarrow> nat" where
  "boundary_at_most value pos =
     (if is_char_boundary value pos then pos
      else (case pos of 0 \<Rightarrow> 0 | Suc n \<Rightarrow> boundary_at_most value n))"

declare boundary_at_most.simps [simp del]

definition truncate_on_char_boundary :: "string \<Rightarrow> nat \<Rightarrow> string" where
  "truncate_on_char_boundary value max_bytes =
     (if length value \<le> max_bytes then value
      else take (boundary_at_most value max_bytes) value @ ellipsis)"

definition worker_title_chars :: nat where "worker_title_chars = 60"

fun first_sentence :: "string \<Rightarrow> string" where
  "first_sentence [] = []"
| "first_sentence (c # cs) =
     (if c \<in> set ''.!?'' \<and> starts_with cs '' '' then [] else c # first_sentence cs)"

text \<open>The characters before the last white space that is not the first character.\<close>

definition cut_on_word :: "string list \<Rightarrow> string list" where
  "cut_on_word gs =
     (let r = dropWhile (\<lambda>g. \<not> is_ws g) (rev gs) in
      if length r \<le> 1 then gs else rev (tl r))"

definition worker_title :: "string \<Rightarrow> string option" where
  "worker_title objective =
     (case find (\<lambda>l. l \<noteq> []) (map trim (str_lines objective)) of
        None \<Rightarrow> None
      | Some line \<Rightarrow>
          let sentence = trim_end (trim_end_chars ''.!?:;,'' (first_sentence line)) in
          if sentence = [] then None
          else if length (chars sentence) \<le> worker_title_chars then Some sentence
          else let short = concat (cut_on_word (take worker_title_chars (chars sentence))) in
            Some (trim_end (trim_end_chars '',;:-'' short) @ ellipsis))"

section \<open>What stripping leaves\<close>

text \<open>A closed block: an opening fence with a matching tag and any later fence.\<close>

definition has_closed_block :: "(string \<Rightarrow> bool) \<Rightarrow> string list \<Rightarrow> bool" where
  "has_closed_block matches_tag ls \<longleftrightarrow>
     (\<exists>pre line rest. ls = pre @ line # rest \<and> opens matches_tag line \<and> list_ex is_fence rest)"

lemma has_closed_block_Cons:
  "has_closed_block m (l # ls) \<longleftrightarrow> (opens m l \<and> list_ex is_fence ls) \<or> has_closed_block m ls"
proof
  assume "has_closed_block m (l # ls)"
  then obtain pre line rest where p: "l # ls = pre @ line # rest" "opens m line" "list_ex is_fence rest"
    by (auto simp: has_closed_block_def)
  then show "(opens m l \<and> list_ex is_fence ls) \<or> has_closed_block m ls"
    by (cases pre) (auto simp: has_closed_block_def)
next
  assume a: "(opens m l \<and> list_ex is_fence ls) \<or> has_closed_block m ls"
  then show "has_closed_block m (l # ls)"
  proof
    assume o: "opens m l \<and> list_ex is_fence ls"
    have "l # ls = [] @ l # ls" by simp
    with o show ?thesis unfolding has_closed_block_def by blast
  next
    assume "has_closed_block m ls"
    then obtain pre line rest where "ls = pre @ line # rest" "opens m line" "list_ex is_fence rest"
      by (auto simp: has_closed_block_def)
    then have "l # ls = (l # pre) @ line # rest \<and> opens m line \<and> list_ex is_fence rest" by simp
    then show ?thesis unfolding has_closed_block_def by blast
  qed
qed

lemma no_fence_no_block: "\<not> list_ex is_fence ls \<Longrightarrow> \<not> has_closed_block m ls"
  by (auto simp: has_closed_block_def)

definition after_fence :: "string list \<Rightarrow> string list" where
  "after_fence ls = tl (dropWhile (\<lambda>l. \<not> is_fence l) ls)"

lemma strip_lines_Cons:
  "strip_lines m (line # rest) =
     (if \<not> opens m line then line # strip_lines m rest
      else if list_ex is_fence rest then strip_lines m (after_fence rest)
      else line # rest)"
proof (cases "list_ex is_fence rest")
  case True
  then obtain f where "f \<in> set rest" "is_fence f" by (auto simp: list_ex_iff)
  then have "dropWhile (\<lambda>l. \<not> is_fence l) rest \<noteq> []" by auto
  then obtain c a where "dropWhile (\<lambda>l. \<not> is_fence l) rest = c # a" by (meson neq_Nil_conv)
  with True show ?thesis by (simp add: after_fence_def)
next
  case False
  then have "dropWhile (\<lambda>l. \<not> is_fence l) rest = []" by (auto simp: list_ex_iff)
  with False show ?thesis by (simp del: dropWhile_eq_Nil_conv)
qed

lemma after_fence_suffix: "suffix (after_fence ls) ls"
  unfolding after_fence_def by (meson suffix_dropWhile suffix_order.order_trans suffix_tl)

lemma after_fence_shorter: "list_ex is_fence ls \<Longrightarrow> length (after_fence ls) < length ls"
  by (cases ls) (auto simp: after_fence_def list_ex_iff length_dropWhile_le le_imp_less_Suc
      intro: le_less_trans [OF diff_le_self] split: if_splits)

lemma strip_induct [case_names Nil keep closed rest]:
  assumes "P []"
    and "\<And>l ls. \<not> opens m l \<Longrightarrow> P ls \<Longrightarrow> P (l # ls)"
    and "\<And>l ls. opens m l \<Longrightarrow> list_ex is_fence ls \<Longrightarrow> P (after_fence ls) \<Longrightarrow> P (l # ls)"
    and "\<And>l ls. opens m l \<Longrightarrow> \<not> list_ex is_fence ls \<Longrightarrow> P (l # ls)"
  shows "P ls"
proof (induction ls rule: length_induct)
  case (1 ls)
  show ?case
  proof (cases ls)
    case (Cons a as)
    have "length (after_fence as) \<le> length as" using after_fence_suffix suffix_length_le by blast
    with 1 Cons assms(2-4) [of a as] show ?thesis by (cases "opens m a"; cases "list_ex is_fence as") auto
  qed (use assms(1) in simp)
qed

lemma strip_no_closed_block: "\<not> has_closed_block m (strip_lines m ls)"
  by (induction ls rule: strip_induct [of _ m])
    (auto simp: strip_lines_Cons has_closed_block_Cons no_fence_no_block has_closed_block_def [of m "[]"]
      simp del: strip_lines.simps(2))

lemma strip_fixed: "\<not> has_closed_block m ls \<Longrightarrow> strip_lines m ls = ls"
  by (induction ls rule: strip_induct [of _ m])
    (auto simp: strip_lines_Cons has_closed_block_Cons simp del: strip_lines.simps(2))

lemma strip_subseq: "subseq (strip_lines m ls) ls"
proof (induction ls rule: strip_induct [of _ m])
  case (closed l ls)
  have "subseq (after_fence ls) ls" using after_fence_suffix by (auto simp: suffix_def)
  with closed show ?case
    by (auto simp: strip_lines_Cons simp del: strip_lines.simps(2) intro: subseq_order.order_trans)
qed (simp_all add: strip_lines_Cons del: strip_lines.simps(2))

text \<open>
  Stripping a kind of machine block removes every closed one and nothing it need not: the
  lines that stay are lines of the message in their order, they hold no closed block of that
  kind, and a message without one is left as it is, an unclosed block included.
\<close>
theorem strip_removes_closed_blocks:
  "subseq (strip_lines m ls) ls \<and> \<not> has_closed_block m (strip_lines m ls)
   \<and> (strip_lines m ls = ls) = (\<not> has_closed_block m ls)"
  using strip_subseq strip_no_closed_block [of m ls] strip_fixed [of m ls] by auto

section \<open>Bounds of the cuts\<close>

lemma length_chars_Cons: "length (chars (c # cs)) = Suc (length (filter (\<lambda>c. \<not> is_cont c) cs))"
proof (induction "length cs" arbitrary: c cs rule: less_induct)
  case less
  show ?case
  proof (cases "dropWhile is_cont cs")
    case Nil
    then have "filter (\<lambda>c. \<not> is_cont c) cs = []" by (auto simp: filter_empty_conv)
    moreover have "chars (c # cs) = [c # takeWhile is_cont cs]"
      using Nil by (simp del: dropWhile_eq_Nil_conv)
    ultimately show ?thesis by simp
  next
    case (Cons d ds)
    have "length (dropWhile is_cont cs) \<le> length cs" by (rule length_dropWhile_le)
    with Cons have "length ds < length cs" by simp
    then have "length (chars (d # ds)) = Suc (length (filter (\<lambda>c. \<not> is_cont c) ds))" by (rule less)
    moreover have "filter (\<lambda>c. \<not> is_cont c) cs = d # filter (\<lambda>c. \<not> is_cont c) ds"
    proof -
      have "cs = takeWhile is_cont cs @ d # ds" using Cons by (metis takeWhile_dropWhile_id)
      moreover have "filter (\<lambda>c. \<not> is_cont c) (takeWhile is_cont cs) = []"
        by (auto simp: filter_empty_conv dest: set_takeWhileD)
      moreover have "\<not> is_cont d" using Cons by (metis hd_dropWhile list.distinct(1) list.sel(1))
      ultimately show ?thesis by (metis append_Nil filter.simps(2) filter_append)
    qed
    ultimately show ?thesis using Cons by simp
  qed
qed

lemma length_chars_prefix: "length (chars a) \<le> length (chars (a @ b))"
proof (cases a)
  case (Cons c cs)
  then show ?thesis by (simp only: append_Cons length_chars_Cons) simp
qed simp

lemma length_chars_append: "length (chars (a @ b)) \<le> length (chars a) + length (chars b)"
proof (cases a)
  case (Cons c cs)
  then show ?thesis
  proof (cases b)
    case (Cons d ds)
    with \<open>a = c # cs\<close> show ?thesis by (simp only: append_Cons length_chars_Cons) simp
  qed simp
qed simp

lemma length_chars_concat: "length (chars (concat (take n (chars s)))) \<le> n"
proof (induction n arbitrary: s)
  case (Suc n)
  show ?case
  proof (cases s)
    case (Cons c cs)
    have "length (chars (c # takeWhile is_cont cs)) = 1"
      unfolding length_chars_Cons by (auto simp: filter_empty_conv dest: set_takeWhileD)
    with Cons Suc [of "dropWhile is_cont cs"]
      length_chars_append [of "c # takeWhile is_cont cs" "concat (take n (chars (dropWhile is_cont cs)))"]
    show ?thesis by simp
  qed simp
qed simp

lemma trim_end_prefix: "prefix (trim_end s) s"
proof -
  have "chars s = rev (dropWhile is_ws (rev (chars s))) @ rev (takeWhile is_ws (rev (chars s)))"
    by (metis rev_append rev_rev_ident takeWhile_dropWhile_id)
  then have "s = trim_end s @ concat (rev (takeWhile is_ws (rev (chars s))))"
    unfolding trim_end_def by (metis concat_append concat_chars)
  then show ?thesis by (metis prefixI)
qed

lemma trim_end_chars_prefix: "prefix (trim_end_chars cs s) s"
proof -
  have "s = rev (dropWhile (\<lambda>c. c \<in> set cs) (rev s)) @ rev (takeWhile (\<lambda>c. c \<in> set cs) (rev s))"
    by (metis rev_append rev_rev_ident takeWhile_dropWhile_id)
  then show ?thesis unfolding trim_end_chars_def by (metis prefixI)
qed

lemma cut_on_word_prefix: "\<exists>k \<le> length gs. cut_on_word gs = take k gs"
proof -
  let ?r = "dropWhile (\<lambda>g. \<not> is_ws g) (rev gs)"
  have "suffix ?r (rev gs)" by (rule suffix_dropWhile)
  then have "prefix (rev ?r) gs" by (metis rev_rev_ident suffix_to_prefix)
  moreover have "prefix (rev (tl r)) (rev r)" for r :: "string list"
    by (cases r) auto
  ultimately have "prefix (cut_on_word gs) gs"
    unfolding cut_on_word_def Let_def by (simp only: split: if_splits)
      (blast intro: prefix_order.order_trans)
  then show ?thesis by (metis append_eq_conv_conj prefix_def prefix_length_le)
qed

lemma length_chars_mono: "prefix a b \<Longrightarrow> length (chars a) \<le> length (chars b)"
  using length_chars_prefix by (auto simp: prefix_def)

lemma length_chars_ellipsis: "length (chars ellipsis) = 1"
  by code_simp

text \<open>
  A worker's title fits its column: it is never empty and has at most 60 characters, plus
  the ellipsis when it was cut.
\<close>
theorem worker_title_bounded:
  assumes "worker_title objective = Some title"
  shows "title \<noteq> [] \<and> length (chars title) \<le> worker_title_chars + 1"
proof -
  obtain sentence where s: "sentence \<noteq> []"
    "title = sentence \<and> length (chars sentence) \<le> worker_title_chars
     \<or> title = trim_end (trim_end_chars '',;:-''
         (concat (cut_on_word (take worker_title_chars (chars sentence))))) @ ellipsis"
    using assms by (auto simp: worker_title_def Let_def split: option.splits if_splits)
  show ?thesis
  proof (cases "title = sentence \<and> length (chars sentence) \<le> worker_title_chars")
    case False
    let ?c = "concat (cut_on_word (take worker_title_chars (chars sentence)))"
    obtain k where k: "cut_on_word (take worker_title_chars (chars sentence)) = take k (chars sentence)"
      "k \<le> worker_title_chars"
      using cut_on_word_prefix [of "take worker_title_chars (chars sentence)"] by (auto simp: min_def)
    have "length (chars ?c) \<le> worker_title_chars"
      using length_chars_concat [of k sentence] k by simp
    moreover have "length (chars (trim_end (trim_end_chars '',;:-'' ?c))) \<le> length (chars ?c)"
      by (meson length_chars_mono order_trans trim_end_chars_prefix trim_end_prefix)
    ultimately show ?thesis
      using s False length_chars_append [of "trim_end (trim_end_chars '',;:-'' ?c)" ellipsis]
      by (auto simp: length_chars_ellipsis) (simp_all add: ellipsis_def)
  qed (use s in auto)
qed

theorem worker_title_bounded_witness:
  "worker_title ''Fix auth. Then docs.'' = Some ''Fix auth'' \<and> length (chars ''Fix auth'') \<le> 61"
proof -
  have t: "worker_title ''Fix auth. Then docs.'' = Some ''Fix auth''" by code_simp
  with worker_title_bounded [OF t] show ?thesis by (simp add: worker_title_chars_def)
qed

lemma boundary_at_most_le: "boundary_at_most v n \<le> n"
  by (induction n) (simp_all add: boundary_at_most.simps [of v 0] boundary_at_most.simps [of v "Suc _"] le_SucI)

lemma boundary_at_most_is: "is_char_boundary v (boundary_at_most v n)"
  by (induction n)
    (simp_all add: boundary_at_most.simps [of v 0] boundary_at_most.simps [of v "Suc _"] is_char_boundary_def)

lemma chars_boundary:
  assumes "is_char_boundary s i"
  shows "chars s = chars (take i s) @ chars (drop i s)"
proof -
  have "drop i s = [] \<or> \<not> is_cont (hd (drop i s)) \<or> i = 0"
    using assms by (auto simp: is_char_boundary_def hd_drop_conv_nth)
  then show ?thesis
    using chars_append [of "drop i s" "take i s"] by (cases "i = 0") auto
qed

text \<open>
  Cutting a text to a byte budget cannot panic and never splits a character: what is kept
  fits the budget, its characters are the first characters of the text, and a shortened text
  ends in the ellipsis.
\<close>
theorem truncation_keeps_characters:
  "\<exists>kept. prefix (chars kept) (chars value) \<and> length kept \<le> max_bytes
     \<and> truncate_on_char_boundary value max_bytes =
         (if length value \<le> max_bytes then kept else kept @ ellipsis)"
proof (cases "length value \<le> max_bytes")
  case True
  then show ?thesis by (intro exI [of _ "value"]) (simp add: truncate_on_char_boundary_def)
next
  case False
  let ?k = "take (boundary_at_most value max_bytes) value"
  have "prefix (chars ?k) (chars value)"
    using chars_boundary [OF boundary_at_most_is [of "value" max_bytes]] by (metis prefixI)
  moreover have "length ?k \<le> max_bytes" using boundary_at_most_le [of "value" max_bytes] by simp
  ultimately show ?thesis using False by (intro exI [of _ ?k]) (simp add: truncate_on_char_boundary_def)
qed

end
