(* ===== verification/Envelopes.thy ===== *)
theory Envelopes
  imports Delegation Machine_Blocks "HOL-Library.Monad_Syntax"
begin

text \<open>
  The JSON envelopes of \<open>bridge-core/src/delegation.rs\<close>: \<open>normalize_delegation\<close> and
  \<open>normalize_worker_result\<close>, the parsers that use them and the repair protocol for results.
  Parameters: \<open>parse\<close> reads JSON text (with its error text), \<open>de_err\<close> is the text of a \<open>serde\<close>
  error, \<open>dbg\<close> quotes a string as \<open>Debug\<close> does. How the derived \<open>Deserialize\<close> impls read a
  value is written out: missing defaulted fields, \<open>null\<close> options, and an enum as its name or as
  an object with that single key and a \<open>null\<close>.
\<close>

section \<open>Worker results\<close>

datatype worker_result_status =
  RCompleted | RFailed | RCancelled | RBlocked | RNeedsDelegation | RProtocolInvalid

fun status_as_str :: "worker_result_status \<Rightarrow> string" where
  "status_as_str RCompleted = ''completed''"
| "status_as_str RFailed = ''failed''"
| "status_as_str RCancelled = ''cancelled''"
| "status_as_str RBlocked = ''blocked''"
| "status_as_str RNeedsDelegation = ''needs_delegation''"
| "status_as_str RProtocolInvalid = ''protocol_invalid''"

definition status_parse :: "string \<Rightarrow> worker_result_status option" where
  "status_parse value =
     (let w = fold_word value in
      if w \<in> {''completed'', ''complete'', ''success'', ''succeeded'', ''done'', ''ok'', ''finished''}
      then Some RCompleted
      else if w \<in> {''failed'', ''failure'', ''fail'', ''error'', ''errored''} then Some RFailed
      else if w \<in> {''cancelled'', ''canceled'', ''aborted'', ''abandoned''} then Some RCancelled
      else if w \<in> {''blocked'', ''block'', ''stuck'', ''waiting'', ''needs_input'', ''needs_approval''}
      then Some RBlocked
      else if w \<in> {''needs_delegation'', ''needsdelegation'', ''escalate'', ''escalation'', ''delegate'',
            ''needs_specialist'', ''handoff''} then Some RNeedsDelegation
      else if w = ''protocol_invalid'' then Some RProtocolInvalid
      else None)"

datatype test_status = TPassed | TFailed | TSkipped

definition test_status_parse :: "string \<Rightarrow> test_status option" where
  "test_status_parse value =
     (let w = to_ascii_lowercase (trim value) in
      if w \<in> {''passed'', ''pass'', ''passing'', ''green'', ''ok'', ''success''} then Some TPassed
      else if w \<in> {''failed'', ''fail'', ''failing'', ''red'', ''error''} then Some TFailed
      else if w \<in> {''skipped'', ''skip'', ''not_run'', ''notrun'', ''n/a''} then Some TSkipped
      else None)"

fun test_status_wire_name :: "test_status \<Rightarrow> string" where
  "test_status_wire_name TPassed = ''passed''"
| "test_status_wire_name TFailed = ''failed''"
| "test_status_wire_name TSkipped = ''skipped''"

record worker_test_result =
  wtr_command :: string
  wtr_status :: test_status
  wtr_detail :: "string option"

datatype suggested_next_action = AFinish | ARetry | AFollowUp | ARequestApproval

fun action_as_str :: "suggested_next_action \<Rightarrow> string" where
  "action_as_str AFinish = ''finish''"
| "action_as_str ARetry = ''retry''"
| "action_as_str AFollowUp = ''follow_up''"
| "action_as_str ARequestApproval = ''request_approval''"

definition action_parse :: "string \<Rightarrow> suggested_next_action option" where
  "action_parse value =
     (let w = fold_word value in
      if w \<in> {''finish'', ''finished'', ''done'', ''complete'', ''completed'', ''none'', ''stop''}
      then Some AFinish
      else if w \<in> {''retry'', ''retry_once'', ''try_again''} then Some ARetry
      else if w \<in> {''follow_up'', ''followup'', ''continue'', ''next'', ''escalate'',
            ''delegate_implementation'', ''delegate'', ''delegation'', ''handoff''} then Some AFollowUp
      else if w \<in> {''request_approval'', ''approval'', ''ask'', ''ask_user'', ''needs_approval'',
            ''request_permission''} then Some ARequestApproval
      else None)"

fun action_for_status :: "worker_result_status \<Rightarrow> suggested_next_action" where
  "action_for_status RCompleted = AFinish"
| "action_for_status RCancelled = AFinish"
| "action_for_status RFailed = AFollowUp"
| "action_for_status RProtocolInvalid = AFollowUp"
| "action_for_status RBlocked = ARequestApproval"
| "action_for_status RNeedsDelegation = AFollowUp"

record worker_result =
  wr_schema_version :: nat
  wr_status :: worker_result_status
  wr_summary :: string
  wr_files_changed :: "string list"
  wr_tests :: "worker_test_result list"
  wr_decisions :: "string list"
  wr_risks :: "string list"
  wr_remaining_work :: "string list"
  wr_suggested_next_action :: suggested_next_action
  wr_suggested_role :: "worker_role option"
  wr_suggested_task :: "string option"

fun validate_test_commands :: "worker_test_result list \<Rightarrow> (string, unit) result" where
  "validate_test_commands [] = Ok ()"
| "validate_test_commands (t # ts) =
     and_then (require_non_empty ''tests.command'' (wtr_command t)) (validate_test_commands ts)"

definition result_validate :: "worker_result \<Rightarrow> (string, unit) result" where
  "result_validate r =
     and_then (check (wr_schema_version r = schema_version)
       (''unsupported worker-result schema version '' @ dec (wr_schema_version r)))
     (and_then (require_non_empty ''summary'' (wr_summary r))
     (and_then (validate_non_empty_items ''filesChanged'' (wr_files_changed r))
     (and_then (validate_non_empty_items ''decisions'' (wr_decisions r))
     (and_then (validate_non_empty_items ''risks'' (wr_risks r))
     (and_then (validate_non_empty_items ''remainingWork'' (wr_remaining_work r))
     (and_then (validate_test_commands (wr_tests r))
       (if wr_status r = RNeedsDelegation
        then require_non_empty ''suggestedTask''
          (case wr_suggested_task r of None \<Rightarrow> [] | Some t \<Rightarrow> t)
        else Ok ())))))))"

definition is_retryable :: "worker_result \<Rightarrow> bool" where
  "is_retryable r \<longleftrightarrow> wr_status r = RFailed"

definition is_protocol_invalid :: "worker_result \<Rightarrow> bool" where
  "is_protocol_invalid r \<longleftrightarrow> wr_status r = RProtocolInvalid"

definition is_terminal_cancellation :: "worker_result \<Rightarrow> bool" where
  "is_terminal_cancellation r \<longleftrightarrow> wr_status r = RCancelled"

section \<open>Normalising a delegation\<close>

text \<open>An edited object and the notes recorded so far.\<close>

type_synonym noted = "json_object \<times> string list"

definition set_schema_version :: "json_object \<Rightarrow> noted" where
  "set_schema_version ob =
     (case Option.bind (obj_get ob ''schemaVersion'') as_u64 of
        Some v \<Rightarrow>
          if v = schema_version then (ob, [])
          else (obj_insert ''schemaVersion'' (JPos schema_version) ob,
                [''schemaVersion '' @ dec v @ '' rewritten to '' @ dec schema_version])
      | None \<Rightarrow> (obj_insert ''schemaVersion'' (JPos schema_version) ob, []))"

definition delegation_role :: "(string \<Rightarrow> string) \<Rightarrow> json_object \<Rightarrow> worker_role \<times> string list" where
  "delegation_role dbg ob =
     (case get_str ob ''role'' of
        None \<Rightarrow> (Implementation, [''role missing or unreadable; defaulted to implementation''])
      | Some raw \<Rightarrow>
          (case role_parse raw of
             None \<Rightarrow> (Implementation, [''role missing or unreadable; defaulted to implementation''])
           | Some role \<Rightarrow>
               (role, if role_as_str role \<noteq> raw
                      then [''role '' @ dbg raw @ '' read as '' @ role_as_str role] else [])))"

definition objective_missing :: "json_object \<Rightarrow> bool" where
  "objective_missing ob \<longleftrightarrow>
     (case get_str ob ''objective'' of None \<Rightarrow> True | Some s \<Rightarrow> trim s = [])"

definition default_criterion :: string where
  "default_criterion = ''Complete the objective and report concrete verification evidence''"

definition criteria_present :: "json_object \<Rightarrow> bool" where
  "criteria_present ob \<longleftrightarrow>
     (case Option.bind (obj_get ob ''acceptanceCriteria'') as_array of
        None \<Rightarrow> False | Some xs \<Rightarrow> xs \<noteq> [])"

definition delegation_mode ::
    "(string \<Rightarrow> string) \<Rightarrow> worker_role \<Rightarrow> json_object \<Rightarrow> write_mode \<times> string list" where
  "delegation_mode dbg role ob =
     (let requested = get_str ob ''writeMode'';
          (mode, notes) =
            (case Option.bind requested write_mode_parse of
               Some mode \<Rightarrow> (mode, [])
             | None \<Rightarrow> (role_default_write_mode role,
                 case requested of
                   None \<Rightarrow> []
                 | Some raw \<Rightarrow> [''writeMode '' @ dbg raw @ '' unreadable; defaulted by role''])) in
      if role_is_read_only role \<and> mode \<noteq> ReadOnly
      then (ReadOnly, notes @ [''writeMode '' @ write_mode_wire_name mode
              @ '' clamped to readOnly for a '' @ role_as_str role @ '' worker''])
      else (mode, notes))"

definition delegation_tier :: "(string \<Rightarrow> string) \<Rightarrow> json_object \<Rightarrow> capability_tier \<times> string list" where
  "delegation_tier dbg ob =
     (case get_str ob ''capabilityTier'' of
        None \<Rightarrow> (Standard, [])
      | Some raw \<Rightarrow>
          (case capability_tier_parse raw of
             Some t \<Rightarrow> (t, [])
           | None \<Rightarrow> (Standard,
               [''capabilityTier '' @ dbg raw @ '' unreadable; defaulted to standard''])))"

definition delegation_effort :: "json_object \<Rightarrow> effort" where
  "delegation_effort ob =
     (case get_str ob ''effort'' of None \<Rightarrow> Medium | Some raw \<Rightarrow> effort_parse raw)"

definition delegation_semantic_fields :: "string list" where
  "delegation_semantic_fields =
     [''role'', ''objective'', ''acceptanceCriteria'', ''knownFacts'', ''decisions'', ''evidenceIds'',
      ''relevantFiles'', ''ownedPaths'', ''verification'', ''harness'', ''model'']"

definition delegation_known_key :: "string \<Rightarrow> bool" where
  "delegation_known_key k \<longleftrightarrow>
     k \<in> set delegation_semantic_fields
     \<or> k \<in> {''schemaVersion'', ''writeMode'', ''capabilityTier'', ''effort'', ''outputContract'',
             ''networkAccess'', ''writableOutputPaths''}"

definition drop_unknown :: "json_object \<Rightarrow> noted" where
  "drop_unknown ob =
     (let ignored = filter (\<lambda>k. \<not> delegation_known_key k) (obj_keys ob) in
      if ignored = [] then (ob, [])
      else (fold swap_remove ignored ob, [''ignored extra field(s): '' @ join '', '' ignored]))"

definition normalize_delegation :: "(string \<Rightarrow> string) \<Rightarrow> json \<Rightarrow> json \<times> string list" where
  "normalize_delegation dbg v =
     (case as_object v of
        None \<Rightarrow> (v, [])
      | Some ob0 \<Rightarrow>
          let (ob1, n1) = set_schema_version ob0;
              (role, n2) = delegation_role dbg ob1;
              ob2 = obj_insert ''role'' (JStr (role_as_str role)) ob1;
              n3 = (if objective_missing ob2 then [''objective missing''] else []);
              (ob3, n4) =
                (if criteria_present ob2 then (ob2, [])
                 else (obj_insert ''acceptanceCriteria'' (JArr [JStr default_criterion]) ob2,
                       [''acceptanceCriteria defaulted'']));
              (mode, n5) = delegation_mode dbg role ob3;
              ob4 = obj_insert ''writeMode'' (JStr (write_mode_wire_name mode)) ob3;
              (tier, n6) = delegation_tier dbg ob4;
              ob5 = obj_insert ''capabilityTier'' (JStr (tier_as_str tier)) ob4;
              ob6 = obj_insert ''effort'' (JStr (effort_as_str (delegation_effort ob5))) ob5;
              contract = output_contract_wire_name (role_output_contract role);
              n7 = (case get_str ob6 ''outputContract'' of
                      None \<Rightarrow> []
                    | Some raw \<Rightarrow> if raw \<noteq> contract
                        then [''outputContract derived from role as '' @ contract] else []);
              ob7 = obj_insert ''outputContract'' (JStr contract) ob6;
              (ob8, n8) = drop_unknown ob7 in
          (JObj ob8, n1 @ n2 @ n3 @ n4 @ n5 @ n6 @ n7 @ n8))"

section \<open>Normalising a worker result\<close>

definition result_status :: "(string \<Rightarrow> string) \<Rightarrow> json_object \<Rightarrow> worker_result_status option \<times> string list" where
  "result_status dbg ob =
     (case get_str ob ''status'' of
        None \<Rightarrow> (None, [])
      | Some raw \<Rightarrow>
          (case status_parse raw of
             None \<Rightarrow> (None, [])
           | Some st \<Rightarrow>
               (Some st, if status_as_str st \<noteq> raw
                         then [''status '' @ dbg raw @ '' read as '' @ status_as_str st] else [])))"

definition own_invalid_note :: string where
  "own_invalid_note = ''status \"protocol_invalid\" read as \"failed\": a worker cannot declare its own envelope unreadable''"

definition store_status :: "worker_result_status option \<Rightarrow> json_object \<Rightarrow> noted" where
  "store_status status ob =
     (case status of
        None \<Rightarrow> (ob, [])
      | Some st \<Rightarrow>
          if st = RProtocolInvalid
          then (obj_insert ''status'' (JStr (status_as_str RFailed)) ob, [own_invalid_note])
          else (obj_insert ''status'' (JStr (status_as_str st)) ob, []))"

definition non_blank :: "json_object \<Rightarrow> string \<Rightarrow> string option" where
  "non_blank ob k =
     (case get_str ob k of None \<Rightarrow> None | Some s \<Rightarrow> if trim s = [] then None else Some s)"

fun first_some :: "('a \<Rightarrow> 'b option) \<Rightarrow> 'a list \<Rightarrow> 'b option" where
  "first_some f [] = None"
| "first_some f (x # xs) = (case f x of Some y \<Rightarrow> Some y | None \<Rightarrow> first_some f xs)"

definition borrow_summary :: "json_object \<Rightarrow> noted" where
  "borrow_summary ob =
     (if non_blank ob ''summary'' \<noteq> None then (ob, [])
      else (case first_some (non_blank ob)
              [''result'', ''message'', ''details'', ''detail'', ''output'', ''text''] of
              None \<Rightarrow> (ob, [])
            | Some b \<Rightarrow> (obj_insert ''summary'' (JStr b) ob,
                [''summary taken from an equivalent field''])))"

definition result_action ::
    "(string \<Rightarrow> string) \<Rightarrow> worker_result_status option \<Rightarrow> json_object
      \<Rightarrow> suggested_next_action \<times> string list" where
  "result_action dbg status ob =
     (let derived = action_for_status (case status of None \<Rightarrow> RCompleted | Some st \<Rightarrow> st) in
      case get_str ob ''suggestedNextAction'' of
        None \<Rightarrow> (derived, [])
      | Some raw \<Rightarrow>
          (case action_parse raw of
             Some a \<Rightarrow> (a, [])
           | None \<Rightarrow> (derived,
               [''suggestedNextAction '' @ dbg raw @ '' read as '' @ action_as_str derived])))"

definition infer_role_from_task :: "string \<Rightarrow> worker_role" where
  "infer_role_from_task task =
     (let t = to_ascii_lowercase task in
      if list_ex (str_contains t) [''verify'', ''test'', ''review''] then Verification
      else if list_ex (str_contains t) [''research'', ''investigate'', ''find out''] then Research
      else if list_ex (str_contains t) [''document'', ''docs'', ''changelog''] then Documentation
      else if list_ex (str_contains t) [''plan'', ''design'', ''decide''] then Planning
      else Implementation)"

definition result_role ::
    "(string \<Rightarrow> string) \<Rightarrow> worker_result_status option \<Rightarrow> json_object \<Rightarrow> noted" where
  "result_role dbg status ob =
     (if status = Some RNeedsDelegation
      then (case Option.bind (get_str ob ''suggestedRole'') role_parse of
              Some r \<Rightarrow> (obj_insert ''suggestedRole'' (JStr (role_as_str r)) ob, [])
            | None \<Rightarrow>
                let task = (case get_str ob ''suggestedTask'' of None \<Rightarrow> [] | Some t \<Rightarrow> t);
                    r = (case role_parse task of Some r \<Rightarrow> r | None \<Rightarrow> infer_role_from_task task) in
                (obj_insert ''suggestedRole'' (JStr (role_as_str r)) ob,
                 [''suggestedRole derived as '' @ role_as_str r]))
      else (case get_str ob ''suggestedRole'' of
              None \<Rightarrow> (ob, [])
            | Some raw \<Rightarrow>
                (case role_parse raw of
                   Some r \<Rightarrow> (obj_insert ''suggestedRole'' (JStr (role_as_str r)) ob, [])
                 | None \<Rightarrow> (swap_remove ''suggestedRole'' ob,
                     [''ignored unreadable suggestedRole '' @ dbg raw]))))"

fun normalize_test :: "json \<Rightarrow> json" where
  "normalize_test (JObj t) =
     JObj (obj_insert ''status''
       (JStr (test_status_wire_name
         (case Option.bind (get_str t ''status'') test_status_parse of
            None \<Rightarrow> TSkipped | Some st \<Rightarrow> st))) t)"
| "normalize_test v = v"

definition normalize_tests :: "json_object \<Rightarrow> json_object" where
  "normalize_tests ob =
     (case Option.bind (obj_get ob ''tests'') as_array of
        None \<Rightarrow> ob
      | Some ts \<Rightarrow> obj_insert ''tests'' (JArr (map normalize_test ts)) ob)"

definition normalize_worker_result :: "(string \<Rightarrow> string) \<Rightarrow> json \<Rightarrow> json \<times> string list" where
  "normalize_worker_result dbg v =
     (case as_object v of
        None \<Rightarrow> (v, [])
      | Some ob0 \<Rightarrow>
          let (ob1, n1) = set_schema_version ob0;
              (status, n2) = result_status dbg ob1;
              (ob2, n3) = store_status status ob1;
              (ob3, n4) = borrow_summary ob2;
              (action, n5) = result_action dbg status ob3;
              ob4 = obj_insert ''suggestedNextAction'' (JStr (action_as_str action)) ob3;
              (ob5, n6) = result_role dbg status ob4 in
          (JObj (normalize_tests ob5), n1 @ n2 @ n3 @ n4 @ n5 @ n6))"

section \<open>Reading values\<close>

text \<open>
  A struct reads from an object, or from an array of its fields in order; trailing fields with a
  default may be missing from the array.
\<close>

definition struct_fields :: "string list \<Rightarrow> nat \<Rightarrow> json \<Rightarrow> json_object option" where
  "struct_fields names required v =
     (case v of
        JObj ob \<Rightarrow> Some ob
      | JArr xs \<Rightarrow>
          if required \<le> length xs \<and> length xs \<le> length names then Some (zip names xs) else None
      | _ \<Rightarrow> None)"

fun read_all :: "('a \<Rightarrow> 'b option) \<Rightarrow> 'a list \<Rightarrow> 'b list option" where
  "read_all f [] = Some []"
| "read_all f (x # xs) = do { y \<leftarrow> f x; ys \<leftarrow> read_all f xs; Some (y # ys) }"

definition read_strings :: "json_object \<Rightarrow> string \<Rightarrow> string list option" where
  "read_strings ob k = do { v \<leftarrow> obj_get ob k; xs \<leftarrow> as_array v; read_all as_str xs }"

definition read_strings_default :: "json_object \<Rightarrow> string \<Rightarrow> string list option" where
  "read_strings_default ob k = (if obj_get ob k = None then Some [] else read_strings ob k)"

definition read_option :: "(json \<Rightarrow> 'a option) \<Rightarrow> json_object \<Rightarrow> string \<Rightarrow> 'a option option" where
  "read_option f ob k =
     (case obj_get ob k of
        None \<Rightarrow> Some None
      | Some v \<Rightarrow> if v = JNull then Some None else map_option Some (f v))"

definition read_u32 :: "json_object \<Rightarrow> string \<Rightarrow> nat option" where
  "read_u32 ob k =
     do { v \<leftarrow> obj_get ob k; n \<leftarrow> as_u64 v; if n \<le> u32_max then Some n else None }"

definition read_bool_default :: "json_object \<Rightarrow> string \<Rightarrow> bool option" where
  "read_bool_default ob k = (case obj_get ob k of None \<Rightarrow> Some False | Some v \<Rightarrow> as_bool v)"

text \<open>A unit variant: its name, or an object with that one key holding \<open>null\<close>.\<close>

definition variant_name :: "json \<Rightarrow> string option" where
  "variant_name v =
     (case v of
        JStr s \<Rightarrow> Some s
      | JObj [(k, JNull)] \<Rightarrow> Some k
      | _ \<Rightarrow> None)"

definition read_variant :: "('a \<Rightarrow> string) \<Rightarrow> 'a list \<Rightarrow> json \<Rightarrow> 'a option" where
  "read_variant name all v = do { s \<leftarrow> variant_name v; find (\<lambda>x. name x = s) all }"

definition read_role :: "json \<Rightarrow> worker_role option" where
  "read_role =
     read_variant role_as_str [Research, Implementation, Verification, Planning, Documentation]"

definition read_request :: "json \<Rightarrow> delegation_request option" where
  "read_request v = do {
     ob \<leftarrow> struct_fields
       [''schemaVersion'', ''role'', ''objective'', ''acceptanceCriteria'', ''knownFacts'', ''decisions'',
        ''evidenceIds'', ''relevantFiles'', ''ownedPaths'', ''writeMode'', ''capabilityTier'', ''effort'',
        ''networkAccess'', ''writableOutputPaths'', ''verification'', ''outputContract'', ''harness'',
        ''model''] 16 v;
     version \<leftarrow> read_u32 ob ''schemaVersion'';
     role \<leftarrow> obj_get ob ''role'' \<bind> read_role;
     objective \<leftarrow> get_str ob ''objective'';
     criteria \<leftarrow> read_strings ob ''acceptanceCriteria'';
     facts \<leftarrow> read_strings_default ob ''knownFacts'';
     decisions \<leftarrow> read_strings_default ob ''decisions'';
     evidence \<leftarrow> read_strings_default ob ''evidenceIds'';
     files \<leftarrow> read_strings_default ob ''relevantFiles'';
     owned \<leftarrow> read_strings_default ob ''ownedPaths'';
     mode \<leftarrow> obj_get ob ''writeMode''
       \<bind> read_variant write_mode_wire_name [ReadOnly, Shared, Isolated, Full];
     tier \<leftarrow> obj_get ob ''capabilityTier'' \<bind> read_variant tier_as_str [Fast, Standard, Strong];
     eff \<leftarrow> obj_get ob ''effort'' \<bind> read_variant effort_as_str [Low, Medium, High, Xhigh];
     network \<leftarrow> read_bool_default ob ''networkAccess'';
     outputs \<leftarrow> read_strings_default ob ''writableOutputPaths'';
     verif \<leftarrow> read_strings_default ob ''verification'';
     contract \<leftarrow> obj_get ob ''outputContract''
       \<bind> read_variant output_contract_wire_name
         [ImplementationResult, ResearchResult, VerificationResult, DecisionResult, DocumentationResult];
     harness \<leftarrow> read_option as_str ob ''harness'';
     model \<leftarrow> read_option as_str ob ''model'';
     Some \<lparr>dr_schema_version = version, dr_role = role, dr_objective = objective,
       dr_acceptance_criteria = criteria, dr_known_facts = facts, dr_decisions = decisions,
       dr_evidence_ids = evidence, dr_relevant_files = files, dr_owned_paths = owned,
       dr_write_mode = mode, dr_capability_tier = tier, dr_effort = eff, dr_network_access = network,
       dr_writable_output_paths = outputs, dr_verification = verif, dr_output_contract = contract,
       dr_harness = harness, dr_model = model\<rparr> }"

definition read_test :: "json \<Rightarrow> worker_test_result option" where
  "read_test v = do {
     ob \<leftarrow> struct_fields [''command'', ''status'', ''detail''] 2 v;
     cmd \<leftarrow> get_str ob ''command'';
     status \<leftarrow> obj_get ob ''status''
       \<bind> read_variant test_status_wire_name [TPassed, TFailed, TSkipped];
     detail \<leftarrow> read_option as_str ob ''detail'';
     Some \<lparr>wtr_command = cmd, wtr_status = status, wtr_detail = detail\<rparr> }"

definition read_tests :: "json_object \<Rightarrow> worker_test_result list option" where
  "read_tests ob =
     (case obj_get ob ''tests'' of
        None \<Rightarrow> Some []
      | Some v \<Rightarrow> do { xs \<leftarrow> as_array v; read_all read_test xs })"

definition read_status :: "json \<Rightarrow> worker_result_status option" where
  "read_status = read_variant status_as_str
     [RCompleted, RFailed, RCancelled, RBlocked, RNeedsDelegation, RProtocolInvalid]"

definition read_result :: "json \<Rightarrow> worker_result option" where
  "read_result v = do {
     ob \<leftarrow> struct_fields
       [''schemaVersion'', ''status'', ''summary'', ''filesChanged'', ''tests'', ''decisions'', ''risks'',
        ''remainingWork'', ''suggestedNextAction'', ''suggestedRole'', ''suggestedTask''] 9 v;
     version \<leftarrow> read_u32 ob ''schemaVersion'';
     status \<leftarrow> obj_get ob ''status'' \<bind> read_status;
     summary \<leftarrow> get_str ob ''summary'';
     files \<leftarrow> read_strings_default ob ''filesChanged'';
     tests \<leftarrow> read_tests ob;
     decisions \<leftarrow> read_strings_default ob ''decisions'';
     risks \<leftarrow> read_strings_default ob ''risks'';
     remaining \<leftarrow> read_strings_default ob ''remainingWork'';
     action \<leftarrow> obj_get ob ''suggestedNextAction''
       \<bind> read_variant action_as_str [AFinish, ARetry, AFollowUp, ARequestApproval];
     role \<leftarrow> read_option read_role ob ''suggestedRole'';
     task \<leftarrow> read_option as_str ob ''suggestedTask'';
     Some \<lparr>wr_schema_version = version, wr_status = status, wr_summary = summary,
       wr_files_changed = files, wr_tests = tests, wr_decisions = decisions, wr_risks = risks,
       wr_remaining_work = remaining, wr_suggested_next_action = action, wr_suggested_role = role,
       wr_suggested_task = task\<rparr> }"

end
