(* ===== verification/Directives.thy ===== *)
theory Directives
  imports Machine_Blocks
begin

text \<open>
  The requests an orchestrator makes of its running workers (\<open>bridge-peek\<close>, \<open>bridge-steer\<close>,
  \<open>bridge-stop\<close> in \<open>bridge-core/src/delegation.rs\<close>): one fenced block each, read by a derived
  \<open>Deserialize\<close> and then checked. The derived readers (\<open>read\<close>, with \<open>serde\<close>'s error text) are
  parameters. The property says what an accepted request is bounded by.
\<close>

datatype 'a parse_outcome = Absent | Parsed 'a | Invalid string string

definition block_text :: "string list \<Rightarrow> string" where
  "block_text bodies = join [CHR 0x0A] bodies"

section \<open>Peek\<close>

definition peek_default_entries :: nat where "peek_default_entries = 10"
definition peek_max_entries :: nat where "peek_max_entries = 25"

record peek_request =
  pk_session_id :: "string option"
  pk_limit :: "nat option"

definition peek_request_default :: peek_request where
  "peek_request_default = \<lparr>pk_session_id = None, pk_limit = None\<rparr>"

definition entry_limit :: "peek_request \<Rightarrow> nat" where
  "entry_limit r =
     (let n = (case pk_limit r of None \<Rightarrow> peek_default_entries | Some n \<Rightarrow> n) in
      max 1 (min peek_max_entries n))"

definition valid_child_session_id :: "string \<Rightarrow> bool" where
  "valid_child_session_id i \<longleftrightarrow>
     i \<noteq> [] \<and> length i \<le> 128
     \<and> list_all (\<lambda>b. ascii_alphanumeric b \<or> b \<in> set ''-_.'') i"

definition has_valid_session_id :: "peek_request \<Rightarrow> bool" where
  "has_valid_session_id r =
     (case pk_session_id r of None \<Rightarrow> True | Some i \<Rightarrow> valid_child_session_id i)"

definition parse_peek_request ::
    "(string \<Rightarrow> (string, peek_request) result) \<Rightarrow> string \<Rightarrow> peek_request parse_outcome" where
  "parse_peek_request read text =
     (case fenced_blocks text is_peek_tag of
        [] \<Rightarrow> Absent
      | [raw] \<Rightarrow>
          if trim raw = [] \<or> trim raw = ''{}'' then Parsed peek_request_default
          else (case read raw of
                  Inr r \<Rightarrow>
                    if has_valid_session_id r then Parsed r
                    else Invalid raw ''bridge-peek sessionId must be 1-128 identifier characters''
                | Inl e \<Rightarrow> Invalid raw (''invalid bridge-peek JSON: '' @ e))
      | bodies \<Rightarrow>
          Invalid (block_text bodies) ''expected at most one bridge-peek block per message'')"

section \<open>Steer\<close>

definition max_steer_message_bytes :: nat where "max_steer_message_bytes = 2000"

record steer_request =
  st_session_id :: string
  st_message :: string

definition steer_validate :: "steer_request \<Rightarrow> (string, unit) result" where
  "steer_validate r =
     (if \<not> valid_child_session_id (st_session_id r)
      then Err ''bridge-steer sessionId must be 1-128 identifier characters''
      else if trim (st_message r) = [] then Err ''bridge-steer message cannot be empty''
      else if max_steer_message_bytes < length (st_message r)
      then Err (''bridge-steer message must be at most '' @ dec max_steer_message_bytes
             @ '' bytes; delegate a new objective instead of re-briefing a running worker'')
      else Ok ())"

definition guidance :: "steer_request \<Rightarrow> string" where
  "guidance r = trim (st_message r)"

definition parse_steer_request ::
    "(string \<Rightarrow> (string, steer_request) result) \<Rightarrow> string \<Rightarrow> steer_request parse_outcome" where
  "parse_steer_request read text =
     (case fenced_blocks text is_steer_tag of
        [] \<Rightarrow> Absent
      | [raw] \<Rightarrow>
          (case read raw of
             Inr r \<Rightarrow>
               (case steer_validate r of Inr _ \<Rightarrow> Parsed r | Inl reason \<Rightarrow> Invalid raw reason)
           | Inl e \<Rightarrow> Invalid raw (''invalid bridge-steer JSON: '' @ e))
      | bodies \<Rightarrow>
          Invalid (block_text bodies) ''expected at most one bridge-steer block per message'')"

section \<open>Stop\<close>

definition max_stop_reason_bytes :: nat where "max_stop_reason_bytes = 500"

record stop_request =
  sp_session_id :: string
  sp_reason :: string

definition stop_validate :: "stop_request \<Rightarrow> (string, unit) result" where
  "stop_validate r =
     (if \<not> valid_child_session_id (sp_session_id r)
      then Err ''bridge-stop sessionId must be 1-128 identifier characters''
      else if trim (sp_reason r) = []
      then Err ''bridge-stop reason cannot be empty; a stop with no reason is unreadable later''
      else if max_stop_reason_bytes < length (sp_reason r)
      then Err (''bridge-stop reason must be at most '' @ dec max_stop_reason_bytes @ '' bytes'')
      else Ok ())"

definition cause :: "stop_request \<Rightarrow> string" where
  "cause r = trim (sp_reason r)"

definition parse_stop_request ::
    "(string \<Rightarrow> (string, stop_request) result) \<Rightarrow> string \<Rightarrow> stop_request parse_outcome" where
  "parse_stop_request read text =
     (case fenced_blocks text is_stop_tag of
        [] \<Rightarrow> Absent
      | [raw] \<Rightarrow>
          (case read raw of
             Inr r \<Rightarrow>
               (case stop_validate r of Inr _ \<Rightarrow> Parsed r | Inl reason \<Rightarrow> Invalid raw reason)
           | Inl e \<Rightarrow> Invalid raw (''invalid bridge-stop JSON: '' @ e))
      | bodies \<Rightarrow>
          Invalid (block_text bodies) ''expected at most one bridge-stop block per message'')"

section \<open>What an accepted request is\<close>

lemma entry_limit_range: "1 \<le> entry_limit r \<and> entry_limit r \<le> peek_max_entries"
  by (simp add: entry_limit_def Let_def peek_max_entries_def)

lemma parsed_peek:
  "parse_peek_request read text = Parsed r \<Longrightarrow> has_valid_session_id r"
  by (auto simp: parse_peek_request_def has_valid_session_id_def peek_request_default_def
      split: list.splits sum.splits if_splits)

lemma parsed_steer:
  "parse_steer_request read text = Parsed r \<Longrightarrow> steer_validate r = Ok ()"
  by (auto simp: parse_steer_request_def split: list.splits sum.splits)

lemma parsed_stop:
  "parse_stop_request read text = Parsed r \<Longrightarrow> stop_validate r = Ok ()"
  by (auto simp: parse_stop_request_def split: list.splits sum.splits)

lemma dropWhile_le: "length (concat (dropWhile P xs)) \<le> length (concat xs)"
  by (induction xs) (auto intro: le_trans)

lemma length_concat_rev: "length (concat (rev xs)) = length (concat xs)"
  by (simp add: length_concat rev_map [symmetric] sum_list_rev)

lemma trim_length: "length (trim s) \<le> length s"
proof -
  have "length (trim s) = length (concat (dropWhile is_ws (rev (dropWhile is_ws (chars s)))))"
    by (simp add: trim_def length_concat_rev)
  also have "\<dots> \<le> length (concat (rev (dropWhile is_ws (chars s))))" by (rule dropWhile_le)
  also have "\<dots> = length (concat (dropWhile is_ws (chars s)))" by (rule length_concat_rev)
  also have "\<dots> \<le> length (concat (chars s))" by (rule dropWhile_le)
  finally show ?thesis by simp
qed

lemma valid_id_plain:
  assumes "valid_child_session_id i"
  shows "i \<noteq> []" and "length i \<le> 128" and "\<forall>c \<in> set i. ascii_alphanumeric c \<or> c \<in> set ''-_.''"
  using assms by (auto simp: valid_child_session_id_def list_all_iff)

text \<open>
  A stop or a steer reaches a worker only as a bounded, meaningful instruction: the session it
  names is a non-empty identifier of at most 128 letters, digits, dots, dashes and underscores
  (no path separator, no white space), and what is delivered (the trimmed guidance or cause) is
  non-empty and at most 2000 and 500 bytes long. A peek may name no session at all, and never
  asks for fewer than one or more than 25 entries.
\<close>
theorem directives_are_bounded:
  assumes "parse_steer_request read_steer text1 = Parsed s"
    and "parse_stop_request read_stop text2 = Parsed t"
    and "parse_peek_request read_peek text3 = Parsed p"
  shows "(\<forall>i \<in> {st_session_id s, sp_session_id t} \<union> set_option (pk_session_id p).
            i \<noteq> [] \<and> length i \<le> 128 \<and> (\<forall>c \<in> set i. ascii_alphanumeric c \<or> c \<in> set ''-_.''))
    \<and> guidance s \<noteq> [] \<and> length (guidance s) \<le> 2000
    \<and> cause t \<noteq> [] \<and> length (cause t) \<le> 500
    \<and> 1 \<le> entry_limit p \<and> entry_limit p \<le> 25"
proof (intro conjI ballI)
  note s = parsed_steer [OF assms(1)] and t = parsed_stop [OF assms(2)] and p = parsed_peek [OF assms(3)]
  fix i assume "i \<in> {st_session_id s, sp_session_id t} \<union> set_option (pk_session_id p)"
  with s t p have v: "valid_child_session_id i"
    by (auto simp: steer_validate_def stop_validate_def has_valid_session_id_def split: if_splits)
  show "i \<noteq> []" "length i \<le> 128" using valid_id_plain [OF v] by auto
  fix c assume "c \<in> set i"
  with valid_id_plain(3) [OF v] show "ascii_alphanumeric c \<or> c \<in> set ''-_.''" by blast
next
  note s = parsed_steer [OF assms(1)] and t = parsed_stop [OF assms(2)]
  show "guidance s \<noteq> []" "cause t \<noteq> []"
    using s t by (auto simp: steer_validate_def stop_validate_def guidance_def cause_def split: if_splits)
  show "length (guidance s) \<le> 2000" "length (cause t) \<le> 500"
    using s t trim_length [of "st_message s"] trim_length [of "sp_reason t"]
    by (auto simp: steer_validate_def stop_validate_def guidance_def cause_def
        max_steer_message_bytes_def max_stop_reason_bytes_def split: if_splits)
  show "1 \<le> entry_limit p" "entry_limit p \<le> 25"
    using entry_limit_range [of p] by (auto simp: peek_max_entries_def)
qed

definition sample_fence :: "string \<Rightarrow> string \<Rightarrow> string" where
  "sample_fence tag body = ''```'' @ tag @ [CHR 0x0A] @ body @ [CHR 0x0A] @ ''```''"

theorem directives_are_bounded_witness:
  "guidance \<lparr>st_session_id = ''child-1'', st_message = '' keep the store ''\<rparr> \<noteq> []
   \<and> cause \<lparr>sp_session_id = ''child-1'', sp_reason = ''done''\<rparr> \<noteq> []
   \<and> entry_limit peek_request_default \<le> 25"
proof -
  have 1: "parse_steer_request (\<lambda>_. Ok \<lparr>st_session_id = ''child-1'', st_message = '' keep the store ''\<rparr>)
      (sample_fence ''bridge-steer'' ''x'') = Parsed \<lparr>st_session_id = ''child-1'', st_message = '' keep the store ''\<rparr>"
    by code_simp
  have 2: "parse_stop_request (\<lambda>_. Ok \<lparr>sp_session_id = ''child-1'', sp_reason = ''done''\<rparr>)
      (sample_fence ''bridge-stop'' ''x'') = Parsed \<lparr>sp_session_id = ''child-1'', sp_reason = ''done''\<rparr>"
    by code_simp
  have 3: "parse_peek_request (\<lambda>_. Err ''unused'') (sample_fence ''bridge-peek'' ''{}'')
      = Parsed peek_request_default"
    by code_simp
  from directives_are_bounded [OF 1 2 3] show ?thesis by blast
qed

end
