(* ===== verification/Envelope_Parsing.thy ===== *)
theory Envelope_Parsing
  imports Envelopes Directives
begin

text \<open>
  Reading the typed envelopes out of a message (\<open>parse_delegation_requests\<close> and
  \<open>parse_worker_result\<close> of \<open>bridge-core/src/delegation.rs\<close>) and the repair protocol for a result
  that cannot be read (\<open>ResultRepairTracker\<close>). The lemmas follow a field through the
  normalisation; the properties say what an accepted request or result satisfies, that
  normalising is idempotent, and that the tracker refines one two-phase protocol per session.
\<close>

text \<open>The library functions a parser calls: JSON text to a value, \<open>Debug\<close> quoting, \<open>serde\<close> errors.\<close>

record reader =
  rd_json :: "string \<Rightarrow> (string, json) result"
  rd_debug :: "string \<Rightarrow> string"
  rd_error :: "json \<Rightarrow> string"

section \<open>Delegation requests\<close>

record legacy_directive =
  ld_harness :: string
  ld_model :: "string option"
  ld_effort :: "string option"
  ld_task :: string
  ld_context :: "string option"

definition read_legacy :: "json \<Rightarrow> legacy_directive option" where
  "read_legacy v = do {
     ob \<leftarrow> struct_fields [''harness'', ''model'', ''effort'', ''task'', ''context''] 4 v;
     harness \<leftarrow> get_str ob ''harness'';
     model \<leftarrow> read_option as_str ob ''model'';
     eff \<leftarrow> read_option as_str ob ''effort'';
     task \<leftarrow> get_str ob ''task'';
     ctx \<leftarrow> read_option as_str ob ''context'';
     Some \<lparr>ld_harness = harness, ld_model = model, ld_effort = eff, ld_task = task,
       ld_context = ctx\<rparr> }"

definition legacy_facts :: "legacy_directive \<Rightarrow> string list" where
  "legacy_facts d =
     (case ld_context d of None \<Rightarrow> [] | Some c \<Rightarrow> if trim c = [] then [] else [trim c])"

definition into_typed :: "legacy_directive \<Rightarrow> (string, delegation_request) result" where
  "into_typed d =
     (case normalize_harness (ld_harness d) of
        None \<Rightarrow> Err (''unsupported harness: '' @ ld_harness d)
      | Some harness \<Rightarrow>
          let objective = trim (ld_task d);
              request =
                \<lparr>dr_schema_version = schema_version, dr_role = Implementation, dr_objective = objective,
                 dr_acceptance_criteria = [default_criterion], dr_known_facts = legacy_facts d,
                 dr_decisions = [], dr_evidence_ids = [], dr_relevant_files = [], dr_owned_paths = [],
                 dr_write_mode = Shared, dr_capability_tier = Standard,
                 dr_effort = effort_parse (case ld_effort d of None \<Rightarrow> ''medium'' | Some e \<Rightarrow> e),
                 dr_network_access = False, dr_writable_output_paths = [], dr_verification = [],
                 dr_output_contract = ImplementationResult, dr_harness = Some harness,
                 dr_model = map_option (\<lambda>m. to_ascii_lowercase (trim m)) (ld_model d)\<rparr> in
          and_then (require_non_empty ''task'' objective)
            (and_then (request_validate request) (Ok request)))"

definition request_from_value ::
    "reader \<Rightarrow> json \<Rightarrow> (string, delegation_request \<times> string list) result" where
  "request_from_value rd v =
     (if json_get v ''objective'' \<noteq> None
      then let (v', notes) = normalize_delegation (rd_debug rd) v in
        (case read_request v' of
           None \<Rightarrow> Err (rd_error rd v')
         | Some r \<Rightarrow> and_then (request_validate r) (Ok (r, notes)))
      else (case read_legacy v of
              None \<Rightarrow> Err (rd_error rd v)
            | Some d \<Rightarrow> (case into_typed d of Inl e \<Rightarrow> Err e | Inr r \<Rightarrow> Ok (r, []))))"

fun requests_of_values ::
    "reader \<Rightarrow> json list \<Rightarrow> (string, delegation_request list \<times> string list) result" where
  "requests_of_values rd [] = Ok ([], [])"
| "requests_of_values rd (v # vs) =
     (case request_from_value rd v of
        Inl e \<Rightarrow> Err e
      | Inr (r, n) \<Rightarrow>
          (case requests_of_values rd vs of
             Inl e \<Rightarrow> Err e
           | Inr (rs, ns) \<Rightarrow> Ok (r # rs, n @ ns)))"

definition block_values :: "json \<Rightarrow> json list" where
  "block_values v = (case as_array v of Some vs \<Rightarrow> vs | None \<Rightarrow> [v])"

fun requests_of_blocks ::
    "reader \<Rightarrow> string list \<Rightarrow> (string, delegation_request list \<times> string list) result" where
  "requests_of_blocks rd [] = Ok ([], [])"
| "requests_of_blocks rd (body # bodies) =
     (case rd_json rd body of
        Inl e \<Rightarrow> Err (''invalid delegation JSON: '' @ e)
      | Inr v \<Rightarrow>
          (case requests_of_values rd (block_values v) of
             Inl e \<Rightarrow> Err e
           | Inr (rs, ns) \<Rightarrow>
               (case requests_of_blocks rd bodies of
                  Inl e \<Rightarrow> Err e
                | Inr (rs', ns') \<Rightarrow> Ok (rs @ rs', ns @ ns'))))"

record normalized_requests =
  nr_requests :: "delegation_request list"
  nr_notes :: "string list"

definition parse_delegation_requests :: "reader \<Rightarrow> string \<Rightarrow> normalized_requests parse_outcome" where
  "parse_delegation_requests rd text =
     (let bodies = fenced_blocks text is_delegation_tag in
      if bodies = [] then Absent
      else (case requests_of_blocks rd bodies of
              Inl e \<Rightarrow> Invalid (block_text bodies) e
            | Inr (rs, ns) \<Rightarrow>
                if rs = [] then Invalid (block_text bodies) ''delegation block contained no requests''
                else Parsed \<lparr>nr_requests = rs, nr_notes = ns\<rparr>))"

section \<open>Worker results\<close>

definition parse_worker_result :: "reader \<Rightarrow> string \<Rightarrow> worker_result parse_outcome" where
  "parse_worker_result rd text =
     (case fenced_blocks text is_worker_result_tag of
        [] \<Rightarrow> Absent
      | [raw] \<Rightarrow>
          (case rd_json rd raw of
             Inl e \<Rightarrow> Invalid raw (''invalid worker-result JSON: '' @ e)
           | Inr v \<Rightarrow>
               let v' = fst (normalize_worker_result (rd_debug rd) v) in
               (case read_result v' of
                  None \<Rightarrow> Invalid raw (''invalid worker-result JSON: '' @ rd_error rd v')
                | Some r \<Rightarrow>
                    (case result_validate r of Inr _ \<Rightarrow> Parsed r | Inl e \<Rightarrow> Invalid raw e)))
      | bodies \<Rightarrow>
          Invalid (block_text bodies) ''expected exactly one bridge-worker-result block'')"

definition max_preserved_prose_bytes :: nat where "max_preserved_prose_bytes = 1200"

definition protocol_invalid_result :: "string \<Rightarrow> string \<Rightarrow> worker_result" where
  "protocol_invalid_result raw reason =
     (let prose = trim (strip_worker_result raw) in
      \<lparr>wr_schema_version = schema_version, wr_status = RProtocolInvalid,
       wr_summary =
         (if prose \<noteq> []
          then ''The worker's result could not be read ('' @ reason
                 @ ''). Its own words, unverified:'' @ [CHR 0x0A, CHR 0x0A]
                 @ truncate_on_char_boundary prose max_preserved_prose_bytes
          else ''The worker's result could not be read ('' @ reason @ ''), and it left no prose.''),
       wr_files_changed = [], wr_tests = [], wr_decisions = [],
       wr_risks =
         [''This is a transport failure, not a task outcome: nothing here has been verified''],
       wr_remaining_work =
         [''Confirm what the worker actually did before treating this objective as done''],
       wr_suggested_next_action = AFollowUp, wr_suggested_role = None, wr_suggested_task = None\<rparr>)"

definition worker_result_repair_prompt :: "string \<Rightarrow> string" where
  "worker_result_repair_prompt reason =
     ''Your previous final output could not be parsed ('' @ reason
     @ ''). This is your one repair turn. Do not perform more work. Return exactly one fenced `bridge-worker-result` JSON object matching schemaVersion 1 with: status, summary, filesChanged, tests, decisions, risks, remainingWork, suggestedNextAction, and optional suggestedRole/suggestedTask. Do not add prose outside the fence.''"

section \<open>The repair tracker\<close>

datatype output_disposition =
  DStructured worker_result | DRequestRepair string string | DUnstructured string string

datatype output_action =
  AwaitingRepair string | Structured worker_result | Unstructured string string

type_synonym repair_tracker = "string \<rightharpoonup> string"

definition joined_outputs :: "string \<Rightarrow> string \<Rightarrow> string" where
  "joined_outputs first raw =
     ''Initial invalid output:'' @ [CHR 0x0A] @ first @ [CHR 0x0A, CHR 0x0A]
     @ ''Invalid repair output:'' @ [CHR 0x0A] @ raw"

definition tracker_invalid ::
    "repair_tracker \<Rightarrow> string \<Rightarrow> string \<Rightarrow> string \<Rightarrow> output_disposition \<times> repair_tracker" where
  "tracker_invalid t session raw reason =
     (case t session of
        Some first \<Rightarrow> (DUnstructured (joined_outputs first raw) reason, t(session := None))
      | None \<Rightarrow>
          (DRequestRepair (worker_result_repair_prompt reason) reason, t(session \<mapsto> raw)))"

definition evaluate ::
    "reader \<Rightarrow> repair_tracker \<Rightarrow> string \<Rightarrow> string \<Rightarrow> output_disposition \<times> repair_tracker" where
  "evaluate rd t session text =
     (case parse_worker_result rd text of
        Parsed r \<Rightarrow> (DStructured r, t(session := None))
      | Absent \<Rightarrow> tracker_invalid t session text ''missing bridge-worker-result block''
      | Invalid _ reason \<Rightarrow> tracker_invalid t session text reason)"

definition process ::
    "reader \<Rightarrow> repair_tracker \<Rightarrow> string \<Rightarrow> string \<Rightarrow> (string \<Rightarrow> bool)
      \<Rightarrow> output_action \<times> repair_tracker" where
  "process rd t session text send =
     (case evaluate rd t session text of
        (DStructured r, t') \<Rightarrow> (Structured r, t')
      | (DUnstructured raw reason, t') \<Rightarrow> (Unstructured raw reason, t')
      | (DRequestRepair prompt reason, t') \<Rightarrow>
          if send prompt then (AwaitingRepair reason, t')
          else (Unstructured text (reason @ ''; same-session repair could not be delivered''),
                t'(session := None)))"

section \<open>The repair protocol, per session\<close>

text \<open>
  What the tracker promises one session: after an unreadable output it asks once, and whatever
  comes next is final.
\<close>

datatype repair_phase = Fresh | Asked string

definition verdict :: "reader \<Rightarrow> string \<Rightarrow> (string, worker_result) result" where
  "verdict rd text =
     (case parse_worker_result rd text of
        Parsed r \<Rightarrow> Ok r
      | Absent \<Rightarrow> Err ''missing bridge-worker-result block''
      | Invalid _ reason \<Rightarrow> Err reason)"

fun repair_step ::
    "repair_phase \<Rightarrow> (string, worker_result) result \<Rightarrow> string \<Rightarrow> (string \<Rightarrow> bool)
      \<Rightarrow> output_action \<times> repair_phase" where
  "repair_step _ (Inr r) text send = (Structured r, Fresh)"
| "repair_step (Asked first) (Inl reason) text send =
     (Unstructured (joined_outputs first text) reason, Fresh)"
| "repair_step Fresh (Inl reason) text send =
     (if send (worker_result_repair_prompt reason) then (AwaitingRepair reason, Asked text)
      else (Unstructured text (reason @ ''; same-session repair could not be delivered''), Fresh))"

definition phase_of :: "string option \<Rightarrow> repair_phase" where
  "phase_of f = (case f of None \<Rightarrow> Fresh | Some first \<Rightarrow> Asked first)"

text \<open>Outputs arrive tagged with their session, in any interleaving.\<close>

type_synonym worker_output = "string \<times> string \<times> (string \<Rightarrow> bool)"

fun run_tracker ::
    "reader \<Rightarrow> repair_tracker \<Rightarrow> worker_output list \<Rightarrow> (string \<times> output_action) list" where
  "run_tracker rd t [] = []"
| "run_tracker rd t ((session, text, send) # outs) =
     (let (a, t') = process rd t session text send in (session, a) # run_tracker rd t' outs)"

fun run_protocol :: "reader \<Rightarrow> repair_phase \<Rightarrow> worker_output list \<Rightarrow> output_action list" where
  "run_protocol rd p [] = []"
| "run_protocol rd p ((session, text, send) # outs) =
     (let (a, p') = repair_step p (verdict rd text) text send in a # run_protocol rd p' outs)"

definition of_session :: "string \<Rightarrow> (string \<times> 'a) list \<Rightarrow> (string \<times> 'a) list" where
  "of_session s = filter (\<lambda>x. fst x = s)"

fun is_awaiting :: "output_action \<Rightarrow> bool" where
  "is_awaiting (AwaitingRepair _) = True"
| "is_awaiting _ = False"

lemma process_simulates:
  "process rd t s text send = (a, t') \<Longrightarrow>
     repair_step (phase_of (t s)) (verdict rd text) text send = (a, phase_of (t' s))"
  by (auto simp: process_def evaluate_def tracker_invalid_def verdict_def phase_of_def
      split: parse_outcome.splits option.splits if_splits)

lemma process_frame: "process rd t s text send = (a, t') \<Longrightarrow> s' \<noteq> s \<Longrightarrow> t' s' = t s'"
  by (auto simp: process_def evaluate_def tracker_invalid_def
      split: parse_outcome.splits option.splits if_splits)

lemma run_protocol_alternates:
  "successively (\<lambda>a b. \<not> (is_awaiting a \<and> is_awaiting b)) (run_protocol rd p outs)
   \<and> (p \<noteq> Fresh \<longrightarrow> run_protocol rd p outs = [] \<or> \<not> is_awaiting (hd (run_protocol rd p outs)))"
proof (induction outs arbitrary: p)
  case (Cons o1 outs)
  obtain session msg send where o: "o1 = (session, msg, send)" by (cases o1)
  obtain a p' where st: "repair_step p (verdict rd msg) msg send = (a, p')" by fastforce
  then have a: "is_awaiting a \<Longrightarrow> p = Fresh \<and> p' \<noteq> Fresh"
    by (cases p; cases "verdict rd msg") (auto split: if_splits)
  show ?case using Cons.IH [of p'] a by (cases "run_protocol rd p' outs") (auto simp: o st)
qed simp

text \<open>
  The repair tracker, one map shared by every session, is for each session its own two-phase
  protocol: whatever the interleaving, the actions it returns for a session are those of the
  protocol run on that session's outputs alone, so a readable output is always taken, an
  unreadable one is answered by one repair request or (when it cannot be delivered) by a
  fallback, and two repair requests to a session never follow each other.
\<close>
theorem repair_tracker_refines_protocol:
  "map snd (of_session s (run_tracker rd t outs)) = run_protocol rd (phase_of (t s)) (of_session s outs)
   \<and> successively (\<lambda>a b. \<not> (is_awaiting a \<and> is_awaiting b))
       (map snd (of_session s (run_tracker rd t outs)))"
proof -
  have "map snd (of_session s (run_tracker rd t outs))
      = run_protocol rd (phase_of (t s)) (of_session s outs)"
  proof (induction outs arbitrary: t)
    case (Cons o1 outs)
    obtain session msg send where o: "o1 = (session, msg, send)" by (cases o1)
    obtain a t' where st: "process rd t session msg send = (a, t')" by fastforce
    show ?case
    proof (cases "session = s")
      case True
      with st have st': "process rd t s msg send = (a, t')" by simp
      with True Cons.IH [of t'] process_simulates [OF st'] show ?thesis
        by (simp add: o of_session_def)
    next
      case False
      with Cons.IH [of t'] process_frame [OF st, of s] show ?thesis
        by (simp add: o st of_session_def)
    qed
  qed (simp add: of_session_def)
  then show ?thesis using run_protocol_alternates by metis
qed

section \<open>A field through the normalisation\<close>

fun distinct_keys :: "json \<Rightarrow> bool" where
  "distinct_keys (JObj ob) \<longleftrightarrow> distinct (map fst ob) \<and> list_all (\<lambda>e. distinct_keys (snd e)) ob"
| "distinct_keys (JArr xs) \<longleftrightarrow> list_all distinct_keys xs"
| "distinct_keys _ \<longleftrightarrow> True"

lemma fold_swap_remove:
  "distinct (obj_keys ob) \<Longrightarrow>
     distinct (obj_keys (fold swap_remove ks ob))
     \<and> obj_get (fold swap_remove ks ob) k = (if k \<in> set ks then None else obj_get ob k)"
  by (induction ks arbitrary: ob) (auto simp: swap_remove_distinct obj_get_swap_remove)

lemma obj_get_None: "obj_get ob k = None \<longleftrightarrow> k \<notin> set (obj_keys ob)"
  by (simp add: obj_get_def obj_keys_def map_of_eq_None_iff)

lemma drop_unknown_get:
  assumes "distinct (obj_keys ob)"
  shows "distinct (obj_keys (fst (drop_unknown ob)))"
    and "obj_get (fst (drop_unknown ob)) k = (if delegation_known_key k then obj_get ob k else None)"
proof -
  let ?ks = "filter (\<lambda>k. \<not> delegation_known_key k) (obj_keys ob)"
  have f: "fst (drop_unknown ob) = fold swap_remove ?ks ob"
    by (auto simp: drop_unknown_def Let_def)
  show "distinct (obj_keys (fst (drop_unknown ob)))"
    unfolding f using fold_swap_remove [OF assms] by blast
  have "k \<in> set ?ks \<longleftrightarrow> \<not> delegation_known_key k \<and> obj_get ob k \<noteq> None"
    by (auto simp: obj_get_None)
  then show "obj_get (fst (drop_unknown ob)) k = (if delegation_known_key k then obj_get ob k else None)"
    unfolding f using fold_swap_remove [OF assms, of ?ks k] by auto
qed

lemma set_schema_version_get:
  "obj_get (fst (set_schema_version ob)) k =
     (if k = ''schemaVersion'' then Some (JPos schema_version) else obj_get ob k)"
  "distinct (obj_keys ob) \<Longrightarrow> distinct (obj_keys (fst (set_schema_version ob)))"
  subgoal
    by (auto simp: set_schema_version_def distinct_obj_insert split: option.splits)
      (auto elim!: as_u64.elims simp: bind_eq_Some_conv)
  subgoal by (auto simp: set_schema_version_def distinct_obj_insert split: option.splits)
  done

lemma variant_name_str [simp]: "variant_name (JStr s) = Some s"
  by (simp add: variant_name_def)

lemma find_name: "find (\<lambda>x. name x = s) xs = Some y \<Longrightarrow> name y = s"
  by (induction xs) (auto split: if_splits)

lemma read_variant_str: "read_variant name xs (JStr s) = Some y \<Longrightarrow> name y = s"
  by (auto simp: read_variant_def dest: find_name)

lemma role_as_str_inj: "role_as_str a = role_as_str b \<longleftrightarrow> a = b"
  by (cases a; cases b) simp_all

lemma wire_name_inj: "write_mode_wire_name a = write_mode_wire_name b \<longleftrightarrow> a = b"
  by (cases a; cases b) simp_all

lemma contract_name_inj: "output_contract_wire_name a = output_contract_wire_name b \<longleftrightarrow> a = b"
  by (cases a; cases b) simp_all

lemma delegation_mode_clamped:
  "role_is_read_only role \<Longrightarrow> fst (delegation_mode dbg role ob) = ReadOnly"
  by (auto simp: delegation_mode_def Let_def split: prod.splits option.splits)

text \<open>The object \<open>normalize_delegation\<close> leaves, field by field.\<close>

definition normal_field ::
    "worker_role \<Rightarrow> write_mode \<Rightarrow> capability_tier \<Rightarrow> effort \<Rightarrow> json_object \<Rightarrow> string \<Rightarrow> json option" where
  "normal_field role mode tier eff ob k =
       (if \<not> delegation_known_key k then None
        else if k = ''outputContract''
          then Some (JStr (output_contract_wire_name (role_output_contract role)))
        else if k = ''effort'' then Some (JStr (effort_as_str eff))
        else if k = ''capabilityTier'' then Some (JStr (tier_as_str tier))
        else if k = ''writeMode'' then Some (JStr (write_mode_wire_name mode))
        else if k = ''acceptanceCriteria'' \<and> \<not> criteria_present ob
          then Some (JArr [JStr default_criterion])
        else if k = ''role'' then Some (JStr (role_as_str role))
        else if k = ''schemaVersion'' then Some (JPos schema_version)
        else obj_get ob k)"

lemma normalize_delegation_object:
  assumes d: "distinct (obj_keys ob)"
  obtains ob' role mode tier eff where
    "fst (normalize_delegation dbg (JObj ob)) = JObj ob'"
    "distinct (obj_keys ob')"
    "role_is_read_only role \<longrightarrow> mode = ReadOnly"
    "\<And>k. obj_get ob' k =
       normal_field role mode tier eff ob k"
proof -
  define ob1 where "ob1 = fst (set_schema_version ob)"
  define role where "role = fst (delegation_role dbg ob1)"
  define ob2 where "ob2 = obj_insert ''role'' (JStr (role_as_str role)) ob1"
  define ob3 where "ob3 = (if criteria_present ob2 then ob2
    else obj_insert ''acceptanceCriteria'' (JArr [JStr default_criterion]) ob2)"
  define mode where "mode = fst (delegation_mode dbg role ob3)"
  define ob4 where "ob4 = obj_insert ''writeMode'' (JStr (write_mode_wire_name mode)) ob3"
  define tier where "tier = fst (delegation_tier dbg ob4)"
  define ob5 where "ob5 = obj_insert ''capabilityTier'' (JStr (tier_as_str tier)) ob4"
  define eff where "eff = delegation_effort ob5"
  define ob6 where "ob6 = obj_insert ''effort'' (JStr (effort_as_str eff)) ob5"
  define ob7 where "ob7 = obj_insert ''outputContract''
    (JStr (output_contract_wire_name (role_output_contract role))) ob6"
  define ob8 where "ob8 = fst (drop_unknown ob7)"
  have e: "fst (normalize_delegation dbg (JObj ob)) = JObj ob8"
    unfolding ob8_def ob7_def ob6_def eff_def ob5_def tier_def ob4_def mode_def ob3_def ob2_def
      role_def ob1_def
    by (simp add: normalize_delegation_def Let_def case_prod_beta if_distrib [of fst])
  have cp: "criteria_present ob2 = criteria_present ob"
    by (simp add: criteria_present_def ob2_def ob1_def set_schema_version_get(1))
  have d7: "distinct (obj_keys ob7)"
    using d by (simp add: ob7_def ob6_def ob5_def ob4_def ob3_def ob2_def ob1_def
        distinct_obj_insert set_schema_version_get(2))
  have d8: "distinct (obj_keys ob8)" unfolding ob8_def by (rule drop_unknown_get(1) [OF d7])
  have m: "role_is_read_only role \<longrightarrow> mode = ReadOnly"
    by (simp add: mode_def delegation_mode_clamped)
  have g3: "obj_get ob3 k =
      (if k = ''acceptanceCriteria'' \<and> \<not> criteria_present ob
       then Some (JArr [JStr default_criterion]) else obj_get ob2 k)" for k
    by (simp add: ob3_def cp)
  have g8: "obj_get ob8 k =
       (if \<not> delegation_known_key k then None
        else if k = ''outputContract''
          then Some (JStr (output_contract_wire_name (role_output_contract role)))
        else if k = ''effort'' then Some (JStr (effort_as_str eff))
        else if k = ''capabilityTier'' then Some (JStr (tier_as_str tier))
        else if k = ''writeMode'' then Some (JStr (write_mode_wire_name mode))
        else if k = ''acceptanceCriteria'' \<and> \<not> criteria_present ob
          then Some (JArr [JStr default_criterion])
        else if k = ''role'' then Some (JStr (role_as_str role))
        else if k = ''schemaVersion'' then Some (JPos schema_version)
        else obj_get ob k)" for k
  proof -
    have "obj_get ob8 k = (if \<not> delegation_known_key k then None else obj_get ob7 k)"
      by (simp add: ob8_def drop_unknown_get(2) [OF d7])
    then show ?thesis
      unfolding ob7_def ob6_def ob5_def ob4_def obj_get_insert g3 unfolding ob2_def ob1_def
        obj_get_insert set_schema_version_get(1) .
  qed
  show thesis using that [OF e d8 m g8 [folded normal_field_def]] .
qed

lemma read_request_fields:
  assumes "read_request (JObj ob) = Some r"
  shows "read_u32 ob ''schemaVersion'' = Some (dr_schema_version r)"
    and "obj_get ob ''role'' \<bind> read_role = Some (dr_role r)"
    and "obj_get ob ''writeMode'' \<bind> read_variant write_mode_wire_name [ReadOnly, Shared, Isolated, Full]
           = Some (dr_write_mode r)"
    and "obj_get ob ''outputContract'' \<bind> read_variant output_contract_wire_name
           [ImplementationResult, ResearchResult, VerificationResult, DecisionResult, DocumentationResult]
           = Some (dr_output_contract r)"
  using assms by (auto simp: read_request_def struct_fields_def bind_eq_Some_conv)

definition request_within_role :: "delegation_request \<Rightarrow> bool" where
  "request_within_role r \<longleftrightarrow>
     request_validate r = Ok ()
     \<and> (dr_role r \<noteq> Implementation \<longrightarrow> dr_write_mode r = ReadOnly)
     \<and> dr_output_contract r = role_output_contract (dr_role r)"

lemma and_then_Ok: "and_then a b = Inr x \<longleftrightarrow> a = Inr () \<and> b = Inr x"
  by (auto simp: and_then_def split: sum.splits)

lemma typed_request_within_role:
  assumes "distinct (obj_keys ob)"
    and "read_request (fst (normalize_delegation dbg (JObj ob))) = Some r"
    and "request_validate r = Ok ()"
  shows "request_within_role r"
proof -
  obtain ob' role mode tier eff where o: "fst (normalize_delegation dbg (JObj ob)) = JObj ob'"
    and "distinct (obj_keys ob')" and ro: "role_is_read_only role \<longrightarrow> mode = ReadOnly"
    and g: "\<And>k. obj_get ob' k = normal_field role mode tier eff ob k"
    using normalize_delegation_object [OF assms(1), of dbg] by blast
  have k: "delegation_known_key ''role''" "delegation_known_key ''writeMode''"
    "delegation_known_key ''outputContract''"
    by (simp_all add: delegation_known_key_def delegation_semantic_fields_def)
  note f = read_request_fields [OF assms(2) [unfolded o]]
  from f(2) have "dr_role r = role"
    by (simp add: g normal_field_def k read_role_def) (metis read_variant_str role_as_str_inj)
  moreover from f(3) have "dr_write_mode r = mode"
    by (simp add: g normal_field_def k) (metis read_variant_str wire_name_inj)
  moreover from f(4) have "dr_output_contract r = role_output_contract role"
    by (simp add: g normal_field_def k) (metis read_variant_str contract_name_inj)
  ultimately show ?thesis
    using assms(3) ro by (auto simp: request_within_role_def role_is_read_only_def)
qed

lemma legacy_request_within_role: "into_typed d = Ok r \<Longrightarrow> request_within_role r"
  by (auto simp: into_typed_def Let_def and_then_Ok request_within_role_def split: option.splits)

lemma request_from_value_within_role:
  assumes "distinct_keys v" and "request_from_value rd v = Ok (r, n)"
  shows "request_within_role r"
proof (cases "json_get v ''objective''")
  case None
  with assms(2) show ?thesis
    by (auto simp: request_from_value_def dest: legacy_request_within_role split: option.splits sum.splits)
next
  case (Some x)
  then obtain ob where ob: "v = JObj ob" by (cases v) (auto simp: json_get_def)
  with assms(2) Some have "read_request (fst (normalize_delegation (rd_debug rd) (JObj ob))) = Some r"
    "request_validate r = Ok ()"
    by (auto simp: request_from_value_def Let_def and_then_Ok case_prod_beta split: option.splits)
  with assms(1) ob show ?thesis
    by (intro typed_request_within_role [of ob]) (auto simp: obj_keys_def)
qed

lemma requests_of_values_within_role:
  "list_all distinct_keys vs \<Longrightarrow> requests_of_values rd vs = Ok (rs, ns) \<Longrightarrow>
     \<forall>r \<in> set rs. request_within_role r"
proof (induction vs arbitrary: rs ns)
  case (Cons v vs)
  then obtain r n rs' ns' where "request_from_value rd v = Inr (r, n)"
    and "requests_of_values rd vs = Inr (rs', ns')" and "rs = r # rs'"
    by (auto split: sum.splits)
  with Cons request_from_value_within_role [of v rd r n] show ?case by auto
qed simp

lemma block_values_distinct: "distinct_keys v \<Longrightarrow> list_all distinct_keys (block_values v)"
  by (cases v) (auto simp: block_values_def)

lemma requests_of_blocks_within_role:
  assumes "\<forall>body v. rd_json rd body = Ok v \<longrightarrow> distinct_keys v"
  shows "requests_of_blocks rd bodies = Ok (rs, ns) \<Longrightarrow> \<forall>r \<in> set rs. request_within_role r"
proof (induction bodies arbitrary: rs ns)
  case (Cons body bodies)
  then obtain v rs1 ns1 rs2 ns2 where v: "rd_json rd body = Inr v"
    and 1: "requests_of_values rd (block_values v) = Inr (rs1, ns1)"
    and 2: "requests_of_blocks rd bodies = Inr (rs2, ns2)" and "rs = rs1 @ rs2"
    by (auto split: sum.splits)
  with requests_of_values_within_role [OF block_values_distinct [OF assms [rule_format, OF v]] 1] Cons.IH [OF 2]
  show ?case by auto
qed simp

text \<open>
  C28. A model cannot widen what a worker may write by how it fills in the envelope: whatever the
  message says, every request parsed out of it satisfies the schema's validation, has the output
  contract of its role, and is read-only unless its role is implementation. The parser of JSON
  text is assumed to give objects without repeated keys, as \<open>serde_json\<close>'s map does.
\<close>
theorem parsed_requests_stay_within_role:
  assumes "\<And>body v. rd_json rd body = Ok v \<Longrightarrow> distinct_keys v"
    and "parse_delegation_requests rd message = Parsed p"
  shows "nr_requests p \<noteq> []
    \<and> (\<forall>r \<in> set (nr_requests p).
         request_validate r = Ok ()
         \<and> (dr_role r \<noteq> Implementation \<longrightarrow> dr_write_mode r = ReadOnly)
         \<and> dr_output_contract r = role_output_contract (dr_role r))"
proof -
  from assms(2) obtain rs ns where
    "requests_of_blocks rd (fenced_blocks message is_delegation_tag) = Ok (rs, ns)"
    "rs \<noteq> []" "nr_requests p = rs"
    by (auto simp: parse_delegation_requests_def Let_def split: if_splits sum.splits)
  moreover from assms(1) have "\<forall>body v. rd_json rd body = Ok v \<longrightarrow> distinct_keys v" by blast
  ultimately show ?thesis using requests_of_blocks_within_role
    unfolding request_within_role_def by blast
qed

text \<open>A reader that knows one body, used by the witnesses.\<close>

definition one_body_reader :: "json \<Rightarrow> reader" where
  "one_body_reader v =
     \<lparr>rd_json = (\<lambda>body. if body = ''x'' then Ok v else Err ''expected value''),
      rd_debug = (\<lambda>s. s), rd_error = (\<lambda>_. ''error'')\<rparr>"

lemma one_body_distinct:
  "distinct_keys v \<Longrightarrow> rd_json (one_body_reader v) body = Ok w \<Longrightarrow> distinct_keys w"
  by (auto simp: one_body_reader_def split: if_splits)

definition research_object :: json_object where
  "research_object =
     [(''objective'', JStr ''map the store''), (''role'', JStr ''Researcher''),
      (''writeMode'', JStr ''full''), (''why'', JStr ''because'')]"

definition research_envelope :: json where
  "research_envelope = JObj
     [(''objective'', JStr ''map the store''), (''role'', JStr ''research''),
      (''writeMode'', JStr ''readOnly''), (''outputContract'', JStr ''research-result''),
      (''schemaVersion'', JPos 1), (''acceptanceCriteria'', JArr [JStr default_criterion]),
      (''capabilityTier'', JStr ''standard''), (''effort'', JStr ''medium'')]"

lemma research_normalized: "fst (normalize_delegation (\<lambda>s. s) (JObj research_object)) = research_envelope"
proof -
  let ?a = "[(''objective'', JStr ''map the store''), (''role'', JStr ''Researcher''),
      (''writeMode'', JStr ''full''), (''why'', JStr ''because''), (''schemaVersion'', JPos 1)]"
  let ?b = "[(''objective'', JStr ''map the store''), (''role'', JStr ''research''),
      (''writeMode'', JStr ''full''), (''why'', JStr ''because''), (''schemaVersion'', JPos 1)]"
  let ?c = "?b @ [(''acceptanceCriteria'', JArr [JStr default_criterion])]"
  let ?d = "[(''objective'', JStr ''map the store''), (''role'', JStr ''research''),
      (''writeMode'', JStr ''readOnly''), (''why'', JStr ''because''), (''schemaVersion'', JPos 1),
      (''acceptanceCriteria'', JArr [JStr default_criterion])]"
  let ?e = "?d @ [(''capabilityTier'', JStr ''standard''), (''effort'', JStr ''medium''),
      (''outputContract'', JStr ''research-result'')]"
  have 1: "set_schema_version research_object = (?a, [])" by code_simp
  have 2: "delegation_role (\<lambda>s. s) ?a = (Research, [''role Researcher read as research''])" by code_simp
  have 3: "obj_insert ''role'' (JStr (role_as_str Research)) ?a = ?b" by code_simp
  have 4: "criteria_present ?b = False" by code_simp
  have 5: "obj_insert ''acceptanceCriteria'' (JArr [JStr default_criterion]) ?b = ?c" by code_simp
  have 6: "fst (delegation_mode (\<lambda>s. s) Research ?c) = ReadOnly" by code_simp
  have 7: "obj_insert ''writeMode'' (JStr (write_mode_wire_name ReadOnly)) ?c = ?d" by code_simp
  have 8: "fst (delegation_tier (\<lambda>s. s) ?d) = Standard" by code_simp
  have 9: "obj_insert ''effort'' (JStr (effort_as_str (delegation_effort
      (obj_insert ''capabilityTier'' (JStr (tier_as_str Standard)) ?d))))
      (obj_insert ''capabilityTier'' (JStr (tier_as_str Standard)) ?d)
      = ?d @ [(''capabilityTier'', JStr ''standard''), (''effort'', JStr ''medium'')]" by code_simp
  have 10: "obj_insert ''outputContract'' (JStr (output_contract_wire_name (role_output_contract Research)))
      (?d @ [(''capabilityTier'', JStr ''standard''), (''effort'', JStr ''medium'')]) = ?e" by code_simp
  have 11: "JObj (fst (drop_unknown ?e)) = research_envelope" by code_simp
  show ?thesis
    by (simp only: normalize_delegation_def as_object.simps option.case Let_def case_prod_beta
        1 fst_conv snd_conv 2 3 4 if_False 5 6 7 8 9 10 11)
qed

definition research_request :: delegation_request where
  "research_request =
     \<lparr>dr_schema_version = 1, dr_role = Research, dr_objective = ''map the store'',
      dr_acceptance_criteria = [default_criterion], dr_known_facts = [], dr_decisions = [],
      dr_evidence_ids = [], dr_relevant_files = [], dr_owned_paths = [], dr_write_mode = ReadOnly,
      dr_capability_tier = Standard, dr_effort = Medium, dr_network_access = False,
      dr_writable_output_paths = [], dr_verification = [], dr_output_contract = ResearchResult,
      dr_harness = None, dr_model = None\<rparr>"

lemma read_variant_name: "read_variant name xs (JStr s) = find (\<lambda>x. name x = s) xs"
  by (simp add: read_variant_def)

lemma research_request_read: "read_request research_envelope = Some research_request"
  by (simp add: research_envelope_def research_request_def read_request_def struct_fields_def
      read_role_def read_variant_name obj_get_def get_str_def read_strings_def read_strings_default_def
      read_option_def read_u32_def read_bool_default_def u32_max_def)

theorem parsed_requests_stay_within_role_witness:
  "\<exists>p. parse_delegation_requests (one_body_reader (JObj research_object))
         (sample_fence ''bridge-delegate'' ''x'') = Parsed p
       \<and> nr_requests p = [research_request] \<and> dr_write_mode research_request = ReadOnly"
proof -
  let ?rd = "one_body_reader (JObj research_object)"
  have f: "fenced_blocks (sample_fence ''bridge-delegate'' ''x'') is_delegation_tag = [''x'']"
    by code_simp
  have o: "json_get (JObj research_object) ''objective'' = Some (JStr ''map the store'')" by code_simp
  have v: "request_validate research_request = Ok ()" by code_simp
  have n: "normalize_delegation (rd_debug ?rd) (JObj research_object)
      = (research_envelope, snd (normalize_delegation (\<lambda>s. s) (JObj research_object)))"
    using research_normalized by (simp add: one_body_reader_def prod_eq_iff)
  have r: "request_from_value ?rd (JObj research_object)
      = Ok (research_request, snd (normalize_delegation (\<lambda>s. s) (JObj research_object)))"
    by (simp add: request_from_value_def o n research_request_read v and_then_def)
  obtain p where p: "parse_delegation_requests ?rd (sample_fence ''bridge-delegate'' ''x'') = Parsed p"
    "nr_requests p = [research_request]"
    by (simp add: parse_delegation_requests_def f block_values_def r one_body_reader_def [of "JObj _"])
      (simp add: r [unfolded one_body_reader_def])
  have "distinct_keys (JObj research_object)" by (simp add: research_object_def)
  from parsed_requests_stay_within_role [OF one_body_distinct [OF this] p(1)] p show ?thesis
    by (auto simp: research_request_def)
qed

section \<open>Normalising twice\<close>

text \<open>An envelope the normalisation has nothing to change in.\<close>

definition normal_envelope :: "worker_role \<Rightarrow> write_mode \<Rightarrow> json_object \<Rightarrow> bool" where
  "normal_envelope role mode ob \<longleftrightarrow>
     distinct (obj_keys ob) \<and> list_all delegation_known_key (obj_keys ob)
     \<and> obj_get ob ''schemaVersion'' = Some (JPos schema_version)
     \<and> obj_get ob ''role'' = Some (JStr (role_as_str role))
     \<and> obj_get ob ''writeMode'' = Some (JStr (write_mode_wire_name mode))
     \<and> (role_is_read_only role \<longrightarrow> mode = ReadOnly)
     \<and> (\<exists>tier. obj_get ob ''capabilityTier'' = Some (JStr (tier_as_str tier)))
     \<and> (\<exists>eff. obj_get ob ''effort'' = Some (JStr (effort_as_str eff)))
     \<and> obj_get ob ''outputContract''
         = Some (JStr (output_contract_wire_name (role_output_contract role)))
     \<and> criteria_present ob"

lemma role_parse_name: "role_parse (role_as_str r) = Some r"
  by (cases r; hypsubst; code_simp)

lemma write_mode_parse_name: "write_mode_parse (write_mode_wire_name m) = Some m"
  by (cases m; hypsubst; code_simp)

lemma tier_parse_name: "capability_tier_parse (tier_as_str t) = Some t"
  by (cases t; hypsubst; code_simp)

lemma effort_parse_name: "effort_parse (effort_as_str e) = e"
  by (cases e; hypsubst; code_simp)

lemma drop_unknown_known: "list_all delegation_known_key (obj_keys ob) \<Longrightarrow> drop_unknown ob = (ob, [])"
  by (simp add: drop_unknown_def list_all_iff filter_empty_conv)

lemma normal_envelope_fixed:
  assumes n: "normal_envelope role mode ob"
  shows "normalize_delegation dbg (JObj ob)
    = (JObj ob, if objective_missing ob then [''objective missing''] else [])"
proof -
  obtain tier eff where d: "distinct (obj_keys ob)"
    and k: "list_all delegation_known_key (obj_keys ob)"
    and f: "obj_get ob ''schemaVersion'' = Some (JPos schema_version)"
      "obj_get ob ''role'' = Some (JStr (role_as_str role))"
      "obj_get ob ''writeMode'' = Some (JStr (write_mode_wire_name mode))"
      "obj_get ob ''capabilityTier'' = Some (JStr (tier_as_str tier))"
      "obj_get ob ''effort'' = Some (JStr (effort_as_str eff))"
      "obj_get ob ''outputContract'' = Some (JStr (output_contract_wire_name (role_output_contract role)))"
    and m: "role_is_read_only role \<longrightarrow> mode = ReadOnly" and c: "criteria_present ob"
    using n by (auto simp: normal_envelope_def)
  note same = f [THEN obj_insert_same, OF d]
  have 1: "set_schema_version ob = (ob, [])" using f(1) by (simp add: set_schema_version_def)
  have 2: "delegation_role dbg ob = (role, [])"
    using f(2) by (simp add: delegation_role_def get_str_def role_parse_name)
  have 3: "delegation_mode dbg role ob = (mode, [])"
    using f(3) m by (simp add: delegation_mode_def get_str_def write_mode_parse_name)
  have 4: "delegation_tier dbg ob = (tier, [])"
    using f(4) by (simp add: delegation_tier_def get_str_def tier_parse_name)
  have 5: "delegation_effort ob = eff"
    using f(5) by (simp add: delegation_effort_def get_str_def effort_parse_name)
  have 6: "get_str ob ''outputContract'' = Some (output_contract_wire_name (role_output_contract role))"
    using f(6) by (simp add: get_str_def)
  show ?thesis
    by (simp add: normalize_delegation_def Let_def 1 2 3 4 5 6 same c drop_unknown_known [OF k])
qed

lemma normalize_delegation_normal:
  assumes "distinct (obj_keys ob)"
  shows "\<exists>ob' role mode. fst (normalize_delegation dbg (JObj ob)) = JObj ob'
    \<and> normal_envelope role mode ob'
    \<and> obj_get ob' ''objective'' = obj_get ob ''objective''"
proof -
  obtain ob' role mode tier eff where o: "fst (normalize_delegation dbg (JObj ob)) = JObj ob'"
    and d: "distinct (obj_keys ob')" and ro: "role_is_read_only role \<longrightarrow> mode = ReadOnly"
    and g: "\<And>k. obj_get ob' k = normal_field role mode tier eff ob k"
    using normalize_delegation_object [OF assms, of dbg] by blast
  have known: "delegation_known_key k" if "k \<in> set [''schemaVersion'', ''role'', ''writeMode'',
      ''capabilityTier'', ''effort'', ''outputContract'', ''acceptanceCriteria'', ''objective'']" for k
    using that by (auto simp: delegation_known_key_def delegation_semantic_fields_def)
  have k: "list_all delegation_known_key (obj_keys ob')"
    unfolding list_all_iff
  proof
    fix k assume "k \<in> set (obj_keys ob')"
    then have "normal_field role mode tier eff ob k \<noteq> None" using g [of k] obj_get_None [of ob' k] by simp
    then show "delegation_known_key k" by (auto simp: normal_field_def split: if_splits)
  qed
  have c: "criteria_present ob'"
    by (cases "criteria_present ob") (simp_all add: criteria_present_def g normal_field_def known)
  have "normal_envelope role mode ob'"
    using d k ro c by (simp add: normal_envelope_def g normal_field_def known) blast
  moreover have "obj_get ob' ''objective'' = obj_get ob ''objective''"
    by (simp add: g normal_field_def known)
  ultimately show ?thesis using o by blast
qed

text \<open>
  Normalising a delegation envelope is idempotent and silent the second time: it returns the
  envelope unchanged, and its only remaining note is that the objective is missing, which is so
  exactly when it was missing in what the model wrote.
\<close>
theorem delegation_normalizes_once:
  assumes "distinct (obj_keys ob)"
  shows "normalize_delegation dbg (fst (normalize_delegation dbg (JObj ob)))
    = (fst (normalize_delegation dbg (JObj ob)),
       if objective_missing ob then [''objective missing''] else [])"
proof -
  from normalize_delegation_normal [OF assms] obtain ob' role mode where
    o: "fst (normalize_delegation dbg (JObj ob)) = JObj ob'" and n: "normal_envelope role mode ob'"
    and ob: "obj_get ob' ''objective'' = obj_get ob ''objective''" by blast
  from ob have "objective_missing ob' = objective_missing ob"
    by (simp add: objective_missing_def get_str_def)
  with normal_envelope_fixed [OF n] o show ?thesis by simp
qed

theorem delegation_normalizes_once_witness:
  "normalize_delegation (\<lambda>s. s) research_envelope = (research_envelope, [])"
proof -
  have d: "distinct (obj_keys research_object)" by (simp add: research_object_def obj_keys_def)
  have "\<not> objective_missing research_object" by code_simp
  with delegation_normalizes_once [OF d, of "\<lambda>s. s"] show ?thesis by (simp add: research_normalized)
qed

section \<open>What an accepted result is\<close>

lemma borrow_summary_get:
  "k \<noteq> ''summary'' \<Longrightarrow> obj_get (fst (borrow_summary ob)) k = obj_get ob k"
  "distinct (obj_keys ob) \<Longrightarrow> distinct (obj_keys (fst (borrow_summary ob)))"
  by (auto simp: borrow_summary_def distinct_obj_insert split: option.splits)

lemma store_status_get:
  "k \<noteq> ''status'' \<Longrightarrow> obj_get (fst (store_status st ob)) k = obj_get ob k"
  "distinct (obj_keys ob) \<Longrightarrow> distinct (obj_keys (fst (store_status st ob)))"
  by (auto simp: store_status_def distinct_obj_insert split: option.splits)

lemma result_role_get:
  assumes "distinct (obj_keys ob)"
  shows "k \<noteq> ''suggestedRole'' \<Longrightarrow> obj_get (fst (result_role dbg st ob)) k = obj_get ob k"
  using assms by (auto simp: result_role_def Let_def obj_get_swap_remove split: option.splits)

lemma result_role_needs:
  "\<exists>role. obj_get (fst (result_role dbg (Some RNeedsDelegation) ob)) ''suggestedRole''
     = Some (JStr (role_as_str role))"
  by (auto simp: result_role_def Let_def split: option.splits)

lemma normalize_tests_get:
  "k \<noteq> ''tests'' \<Longrightarrow> obj_get (normalize_tests ob) k = obj_get ob k"
  by (auto simp: normalize_tests_def split: option.splits)

lemma status_parse_name: "status_parse (status_as_str s) = Some s"
  by (cases s; hypsubst; code_simp)

lemma status_as_str_inj: "status_as_str a = status_as_str b \<longleftrightarrow> a = b"
  by (metis status_parse_name option.inject)

lemma normalize_worker_result_object:
  assumes d: "distinct (obj_keys ob)"
  obtains ob' status where
    "fst (normalize_worker_result dbg (JObj ob)) = JObj ob'"
    "status = Option.bind (get_str ob ''status'') status_parse"
    "obj_get ob' ''status'' =
       (case status of
          None \<Rightarrow> obj_get ob ''status''
        | Some st \<Rightarrow> Some (JStr (status_as_str (if st = RProtocolInvalid then RFailed else st))))"
    "status = Some RNeedsDelegation \<longrightarrow>
       (\<exists>role. obj_get ob' ''suggestedRole'' = Some (JStr (role_as_str role)))"
    "obj_get ob' ''suggestedTask'' = obj_get ob ''suggestedTask''"
proof -
  define ob1 where "ob1 = fst (set_schema_version ob)"
  define status where "status = fst (result_status dbg ob1)"
  define ob2 where "ob2 = fst (store_status status ob1)"
  define ob3 where "ob3 = fst (borrow_summary ob2)"
  define action where "action = fst (result_action dbg status ob3)"
  define ob4 where "ob4 = obj_insert ''suggestedNextAction'' (JStr (action_as_str action)) ob3"
  define ob5 where "ob5 = fst (result_role dbg status ob4)"
  have e: "fst (normalize_worker_result dbg (JObj ob)) = JObj (normalize_tests ob5)"
    unfolding ob5_def ob4_def action_def ob3_def ob2_def status_def ob1_def
    by (simp add: normalize_worker_result_def Let_def case_prod_beta)
  have d4: "distinct (obj_keys ob4)"
    using d by (simp add: ob4_def ob3_def ob2_def ob1_def distinct_obj_insert borrow_summary_get(2)
        store_status_get(2) set_schema_version_get(2))
  have 1: "obj_get ob1 k = obj_get ob k" if "k \<noteq> ''schemaVersion''" for k
    using that by (simp add: ob1_def set_schema_version_get(1))
  have st: "status = Option.bind (get_str ob ''status'') status_parse"
  proof -
    have "get_str ob1 ''status'' = get_str ob ''status''" by (simp add: get_str_def 1)
    then show ?thesis by (auto simp: status_def result_status_def split: option.splits)
  qed
  have 5: "obj_get (normalize_tests ob5) k = obj_get ob2 k"
    if "k \<notin> {''tests'', ''suggestedRole'', ''suggestedNextAction'', ''summary''}" for k
  proof -
    have "obj_get (normalize_tests ob5) k = obj_get ob4 k"
      using that by (simp add: normalize_tests_get ob5_def result_role_get [OF d4])
    also have "\<dots> = obj_get ob2 k" using that by (simp add: ob4_def ob3_def borrow_summary_get(1))
    finally show ?thesis .
  qed
  have s: "obj_get (normalize_tests ob5) ''status'' =
      (case status of None \<Rightarrow> obj_get ob ''status''
       | Some st \<Rightarrow> Some (JStr (status_as_str (if st = RProtocolInvalid then RFailed else st))))"
    by (simp add: 5 ob2_def store_status_def 1 split: option.splits)
  have r: "status = Some RNeedsDelegation \<longrightarrow>
      (\<exists>role. obj_get (normalize_tests ob5) ''suggestedRole'' = Some (JStr (role_as_str role)))"
    using result_role_needs [of dbg ob4] by (auto simp: normalize_tests_get ob5_def)
  have t: "obj_get (normalize_tests ob5) ''suggestedTask'' = obj_get ob ''suggestedTask''"
    by (simp add: 5 ob2_def store_status_get(1) 1)
  show thesis using that [OF e st s r t] .
qed

lemma read_result_fields:
  assumes "read_result (JObj ob) = Some r"
  shows "obj_get ob ''status'' \<bind> read_status = Some (wr_status r)"
    and "read_option read_role ob ''suggestedRole'' = Some (wr_suggested_role r)"
  using assms by (auto simp: read_result_def struct_fields_def bind_eq_Some_conv)

lemma parsed_result:
  assumes "parse_worker_result rd message = Parsed r"
  obtains raw v where "rd_json rd raw = Ok v"
    "read_result (fst (normalize_worker_result (rd_debug rd) v)) = Some r" "result_validate r = Ok ()"
  using assms that
  by (auto simp: parse_worker_result_def Let_def split: list.splits sum.splits option.splits)

lemma validated_needs_task:
  "result_validate r = Ok () \<Longrightarrow> wr_status r = RNeedsDelegation \<Longrightarrow>
     \<exists>t. wr_suggested_task r = Some t \<and> trim t \<noteq> []"
proof -
  assume v: "result_validate r = Ok ()" and s: "wr_status r = RNeedsDelegation"
  then have "require_non_empty ''suggestedTask''
      (case wr_suggested_task r of None \<Rightarrow> [] | Some t \<Rightarrow> t) = Ok ()"
    by (simp add: result_validate_def and_then_Ok)
  moreover have "trim [] = []" by (simp add: trim_def)
  ultimately show ?thesis
    by (cases "wr_suggested_task r") (auto simp: require_non_empty_def split: if_splits)
qed

lemma validated_result_schema:
  "result_validate r = Ok () \<Longrightarrow> wr_schema_version r = schema_version \<and> trim (wr_summary r) \<noteq> []"
  by (auto simp: result_validate_def and_then_Ok check_def require_non_empty_def split: if_splits)

text \<open>
  A result accepted from a worker that writes its status as a word is usable as it stands: it
  has the current schema version and a summary, a request for delegation names a task and a
  role, and its status is never \<open>protocol_invalid\<close>, the status Bridge keeps for envelopes it
  could not read.
\<close>
theorem accepted_result_is_usable:
  assumes "\<And>raw v. rd_json rd raw = Ok v \<Longrightarrow>
      \<exists>ob. v = JObj ob \<and> distinct (obj_keys ob) \<and> get_str ob ''status'' \<noteq> None"
    and "parse_worker_result rd message = Parsed r"
  shows "wr_schema_version r = 1 \<and> trim (wr_summary r) \<noteq> []
    \<and> (wr_status r = RNeedsDelegation \<longrightarrow>
         wr_suggested_role r \<noteq> None \<and> (\<exists>t. wr_suggested_task r = Some t \<and> trim t \<noteq> []))
    \<and> \<not> is_protocol_invalid r"
proof -
  obtain raw v where v: "rd_json rd raw = Ok v"
    and rr: "read_result (fst (normalize_worker_result (rd_debug rd) v)) = Some r"
    and va: "result_validate r = Ok ()"
    using parsed_result [OF assms(2)] by blast
  from assms(1) [OF v] obtain ob raw_status where ob: "v = JObj ob" and d: "distinct (obj_keys ob)"
    and gs: "get_str ob ''status'' = Some raw_status" by blast
  obtain ob' status where o: "fst (normalize_worker_result (rd_debug rd) (JObj ob)) = JObj ob'"
    and st: "status = Option.bind (get_str ob ''status'') status_parse"
    and s: "obj_get ob' ''status'' =
       (case status of
          None \<Rightarrow> obj_get ob ''status''
        | Some st \<Rightarrow> Some (JStr (status_as_str (if st = RProtocolInvalid then RFailed else st))))"
    and ro: "status = Some RNeedsDelegation \<longrightarrow>
       (\<exists>role. obj_get ob' ''suggestedRole'' = Some (JStr (role_as_str role)))"
    by (rule normalize_worker_result_object [OF d, where dbg = "rd_debug rd"]) (rule that, assumption+)
  note f = read_result_fields [OF rr [unfolded ob o]]
  from gs have js: "obj_get ob ''status'' = Some (JStr raw_status)"
    by (cases "obj_get ob ''status''") (auto simp: get_str_def elim!: as_str.elims)
  have name: "read_status (JStr x) = Some y \<Longrightarrow> status_as_str y = x" for x y
    unfolding read_status_def by (rule read_variant_str)
  have known: "\<exists>st'. status = Some st' \<and> wr_status r = (if st' = RProtocolInvalid then RFailed else st')"
  proof (cases status)
    case None
    with s js f(1) have "read_status (JStr raw_status) = Some (wr_status r)" by simp
    then have "status_as_str (wr_status r) = raw_status" by (rule name)
    with status_parse_name [of "wr_status r"] st gs None show ?thesis by simp
  next
    case (Some st')
    with s f(1) have "read_status (JStr (status_as_str (if st' = RProtocolInvalid then RFailed else st')))
        = Some (wr_status r)" by simp
    from name [OF this] have "wr_status r = (if st' = RProtocolInvalid then RFailed else st')"
      by (simp only: status_as_str_inj)
    with Some show ?thesis by blast
  qed
  then have "\<not> is_protocol_invalid r" by (auto simp: is_protocol_invalid_def split: if_splits)
  moreover have "wr_suggested_role r \<noteq> None" if n: "wr_status r = RNeedsDelegation"
  proof -
    from known n ro obtain role where "obj_get ob' ''suggestedRole'' = Some (JStr (role_as_str role))"
      by (auto split: if_splits)
    with f(2) show ?thesis by (cases "wr_suggested_role r") (auto simp: read_option_def)
  qed
  ultimately show ?thesis
    using validated_needs_task [OF va] validated_result_schema [OF va] by (simp add: schema_version_def)
qed

text \<open>Two results that differ only in how the status is written.\<close>

definition result_object :: "json \<Rightarrow> json_object" where
  "result_object sv = [(''status'', sv), (''summary'', JStr ''all green'')]"

lemmas result_steps = normalize_worker_result_def set_schema_version_def result_status_def
  store_status_def borrow_summary_def result_action_def result_role_def normalize_tests_def
  non_blank_def get_str_def obj_get_def Let_def

lemmas read_steps = read_result_def struct_fields_def read_status_def read_tests_def read_role_def
  read_option_def read_strings_default_def read_u32_def u32_max_def get_str_def obj_get_def

definition read_summary :: "worker_result_status \<Rightarrow> worker_result" where
  "read_summary st =
     \<lparr>wr_schema_version = 1, wr_status = st, wr_summary = ''all green'', wr_files_changed = [],
      wr_tests = [], wr_decisions = [], wr_risks = [], wr_remaining_work = [],
      wr_suggested_next_action = AFinish, wr_suggested_role = None, wr_suggested_task = None\<rparr>"

lemma summary_present: "trim ''all green'' = ''all green''" by code_simp

lemma word_result_read:
  "read_result (fst (normalize_worker_result d (JObj (result_object (JStr ''Done'')))))
     = Some (read_summary RCompleted)"
proof -
  have "status_parse ''Done'' = Some RCompleted" by code_simp
  then show ?thesis
    by (simp add: result_steps summary_present result_object_def schema_version_def)
      (simp add: read_steps read_variant_name read_summary_def)
qed

lemma object_result_read:
  "read_result (fst (normalize_worker_result d
       (JObj (result_object (JObj [(''protocol_invalid'', JNull)])))))
     = Some (read_summary RProtocolInvalid)"
  by (simp add: result_steps summary_present result_object_def schema_version_def)
    (simp add: read_steps read_variant_name read_variant_def variant_name_def read_summary_def)

lemma read_summary_valid: "st \<noteq> RNeedsDelegation \<Longrightarrow> result_validate (read_summary st) = Ok ()"
  by (simp add: result_validate_def read_summary_def and_then_def check_def require_non_empty_def
      summary_present validate_non_empty_items_def schema_version_def)

lemma one_block_result:
  assumes "read_result (fst (normalize_worker_result (\<lambda>s. s) (JObj ob))) = Some (read_summary st)"
    and "st \<noteq> RNeedsDelegation"
  shows "parse_worker_result (one_body_reader (JObj ob)) (sample_fence ''bridge-worker-result'' ''x'')
    = Parsed (read_summary st)"
proof -
  have "fenced_blocks (sample_fence ''bridge-worker-result'' ''x'') is_worker_result_tag = [''x'']"
    by code_simp
  then show ?thesis
    using assms by (simp add: parse_worker_result_def one_body_reader_def Let_def read_summary_valid)
qed

theorem accepted_result_is_usable_witness:
  "parse_worker_result (one_body_reader (JObj (result_object (JStr ''Done''))))
     (sample_fence ''bridge-worker-result'' ''x'') = Parsed (read_summary RCompleted)
   \<and> \<not> is_protocol_invalid (read_summary RCompleted)"
proof -
  have p: "parse_worker_result (one_body_reader (JObj (result_object (JStr ''Done''))))
     (sample_fence ''bridge-worker-result'' ''x'') = Parsed (read_summary RCompleted)"
    by (rule one_block_result [OF word_result_read]) simp
  have a: "\<exists>ob. v = JObj ob \<and> distinct (obj_keys ob) \<and> get_str ob ''status'' \<noteq> None"
    if "rd_json (one_body_reader (JObj (result_object (JStr ''Done'')))) raw = Ok v" for raw v
    using that by (auto simp: one_body_reader_def result_object_def obj_keys_def get_str_def obj_get_def
        split: if_splits)
  have "\<not> is_protocol_invalid (read_summary RCompleted)"
    using accepted_result_is_usable [OF _ p] a by presburger
  with p show ?thesis by blast
qed

text \<open>
  C37. The guard of that property has a hole: it looks at strings only, while the derived reader also
  takes a variant as an object. Whatever the message and the other fields of its one result block,
  a result accepted with its status written as the object \<open>{w: null}\<close> has the status named \<open>w\<close>, so
  it is \<open>protocol_invalid\<close> when the worker says so.
\<close>
theorem worker_declares_itself_invalid:
  assumes "fenced_blocks message is_worker_result_tag = [raw]" "rd_json rd raw = Ok (JObj ob)"
    and "distinct (obj_keys ob)" "obj_get ob ''status'' = Some (JObj [(w, JNull)])"
    and "parse_worker_result rd message = Parsed r"
  shows "status_as_str (wr_status r) = w \<and> is_protocol_invalid r = (w = ''protocol_invalid'')"
proof -
  from assms(1,2,5) have rr: "read_result (fst (normalize_worker_result (rd_debug rd) (JObj ob))) = Some r"
    by (auto simp: parse_worker_result_def Let_def split: option.splits sum.splits)
  obtain ob' status where o: "fst (normalize_worker_result (rd_debug rd) (JObj ob)) = JObj ob'"
    and st: "status = Option.bind (get_str ob ''status'') status_parse"
    and s: "obj_get ob' ''status'' =
       (case status of
          None \<Rightarrow> obj_get ob ''status''
        | Some st \<Rightarrow> Some (JStr (status_as_str (if st = RProtocolInvalid then RFailed else st))))"
    by (rule normalize_worker_result_object [OF assms(3), where dbg = "rd_debug rd"]) (rule that, assumption+)
  have "status = None" using st assms(4) by (simp add: get_str_def)
  with s assms(4) read_result_fields(1) [OF rr [unfolded o]]
  have "read_status (JObj [(w, JNull)]) = Some (wr_status r)" by simp
  then have "status_as_str (wr_status r) = w"
    by (auto simp: read_status_def read_variant_def variant_name_def find_Some_iff split: if_splits)
  then show ?thesis by (cases "wr_status r") (auto simp: is_protocol_invalid_def)
qed

theorem worker_declares_itself_invalid_witness:
  "parse_worker_result (one_body_reader (JObj (result_object (JObj [(''protocol_invalid'', JNull)]))))
     (sample_fence ''bridge-worker-result'' ''x'') = Parsed (read_summary RProtocolInvalid)
   \<and> is_protocol_invalid (read_summary RProtocolInvalid)"
proof -
  let ?ob = "result_object (JObj [(''protocol_invalid'', JNull)])"
  have p: "parse_worker_result (one_body_reader (JObj ?ob)) (sample_fence ''bridge-worker-result'' ''x'')
      = Parsed (read_summary RProtocolInvalid)"
    using one_block_result [OF object_result_read] by simp
  have f: "fenced_blocks (sample_fence ''bridge-worker-result'' ''x'') is_worker_result_tag = [''x'']"
    by code_simp
  have "rd_json (one_body_reader (JObj ?ob)) ''x'' = Ok (JObj ?ob)" "distinct (obj_keys ?ob)"
    "obj_get ?ob ''status'' = Some (JObj [(''protocol_invalid'', JNull)])"
    by (simp_all add: one_body_reader_def result_object_def obj_keys_def obj_get_def)
  from worker_declares_itself_invalid [OF f this p] p show ?thesis by simp
qed

end
