(* ===== verification/Agent_Lifecycle.thy ===== *)
theory Agent_Lifecycle
  imports Lifecycle
begin

text \<open>
  The agent lifecycle of \<open>bridge-core/src/agent_lifecycle.rs\<close>, first half: the states, their
  text and legal edges (a second instance of the lifecycle contract), the facts an observation
  gathers and the settled state they describe, and the budget of consecutive failures. The
  coordinator that drives operations is in \<open>Agent_Coordinator\<close>.
\<close>

section \<open>States and edges\<close>

datatype agent_state =
  NotInstalled | Installing | Installed | Ready | Running | Stopping | Uninstalling | External
  | Broken | Repairable

definition agent_all :: "agent_state list" where
  "agent_all = [NotInstalled, Installing, Installed, Ready, Running, Stopping, Uninstalling,
     External, Broken, Repairable]"

fun agent_as_str :: "agent_state \<Rightarrow> string" where
  "agent_as_str NotInstalled = ''not_installed''"
| "agent_as_str Installing = ''installing''"
| "agent_as_str Installed = ''installed''"
| "agent_as_str Ready = ''ready''"
| "agent_as_str Running = ''running''"
| "agent_as_str Stopping = ''stopping''"
| "agent_as_str Uninstalling = ''uninstalling''"
| "agent_as_str External = ''external''"
| "agent_as_str Broken = ''broken''"
| "agent_as_str Repairable = ''repairable''"

definition is_bridge_owned :: "agent_state \<Rightarrow> bool" where
  "is_bridge_owned s \<longleftrightarrow>
     s \<in> {Installed, Ready, Running, Stopping, Uninstalling, Repairable, Broken}"

definition may_have_process :: "agent_state \<Rightarrow> bool" where
  "may_have_process s \<longleftrightarrow> s = Running \<or> s = Stopping"

definition agent_legal :: "(agent_state \<times> agent_state) list" where
  "agent_legal =
     [(NotInstalled, Installing),
      (NotInstalled, External),
      (External, NotInstalled),
      (External, Installing),
      (Installing, Installed),
      (Installing, NotInstalled),
      (Installing, Repairable),
      (Installing, Broken),
      (Installed, Ready),
      (Installed, Repairable),
      (Installed, Broken),
      (Installed, Uninstalling),
      (Ready, Running),
      (Ready, Installed),
      (Ready, Repairable),
      (Ready, Broken),
      (Ready, Uninstalling),
      (Running, Stopping),
      (Running, Ready),
      (Running, Broken),
      (Stopping, Ready),
      (Stopping, Uninstalling),
      (Stopping, Broken),
      (Uninstalling, NotInstalled),
      (Uninstalling, Installed),
      (Uninstalling, Broken),
      (Repairable, Installing),
      (Repairable, Installed),
      (Repairable, Uninstalling),
      (Broken, Installing),
      (Broken, Uninstalling),
      (Broken, NotInstalled)]"

definition agent_can_transition_to :: "agent_state \<Rightarrow> agent_state \<Rightarrow> bool" where
  "agent_can_transition_to s next \<longleftrightarrow> (s, next) \<in> set agent_legal"

datatype parse_agent_state_error = ParseAgentLifecycleStateError string

fun parse_agent_state_error_display :: "parse_agent_state_error \<Rightarrow> string" where
  "parse_agent_state_error_display (ParseAgentLifecycleStateError v) =
     ''unknown agent lifecycle state: '' @ v"

definition agent_from_str :: "string \<Rightarrow> (parse_agent_state_error, agent_state) result" where
  "agent_from_str value =
     (case find (\<lambda>s. agent_as_str s = value) agent_all of
        Some s \<Rightarrow> Ok s
      | None \<Rightarrow> Err (ParseAgentLifecycleStateError value))"

record invalid_agent_transition =
  at_from :: agent_state
  at_to :: agent_state

definition invalid_agent_transition_display :: "invalid_agent_transition \<Rightarrow> string" where
  "invalid_agent_transition_display e =
     ''illegal agent lifecycle transition: '' @ agent_as_str (at_from e) @ '' -> ''
       @ agent_as_str (at_to e)"

definition agent_validate_transition ::
    "agent_state \<Rightarrow> agent_state \<Rightarrow> (invalid_agent_transition, unit) result" where
  "agent_validate_transition src dst =
     (if agent_can_transition_to src dst then Ok () else Err \<lparr>at_from = src, at_to = dst\<rparr>)"

record agent_lifecycle =
  al_state :: agent_state

definition agent_lifecycle_new :: "agent_state \<Rightarrow> agent_lifecycle" where
  "agent_lifecycle_new s = \<lparr>al_state = s\<rparr>"

definition agent_transition_to ::
    "agent_lifecycle \<Rightarrow> agent_state \<Rightarrow> (invalid_agent_transition, agent_lifecycle) result" where
  "agent_transition_to m next =
     (case agent_validate_transition (al_state m) next of
        Inl e \<Rightarrow> Err e
      | Inr _ \<Rightarrow> Ok (m\<lparr>al_state := next\<rparr>))"

lemmas agent_simps =
  agent_can_transition_to_def agent_validate_transition_def agent_transition_to_def

lemma agent_all_complete: "s \<in> set agent_all"
  by (cases s) (simp_all add: agent_all_def)

lemma agent_as_str_inj: "agent_as_str s = agent_as_str t \<Longrightarrow> s = t"
  by (cases s; cases t) simp_all

lemma agent_transition_to_Ok:
  "agent_transition_to m t = Inr m' \<longleftrightarrow>
     (al_state m, t) \<in> set agent_legal \<and> m' = m\<lparr>al_state := t\<rparr>"
  by (auto simp: agent_simps)

interpretation al: lifecycle agent_all agent_as_str agent_from_str agent_legal al_state
    agent_transition_to
  by unfold_locales
    (auto simp: agent_from_str_def agent_all_complete agent_as_str_inj agent_transition_to_Ok
      split: option.splits)

section \<open>What is observed\<close>

datatype repair_reason =
  CorruptActiveReceipt | ActiveReceiptMismatch | MissingInstallation | CorruptEmbeddedReceipt
  | ReceiptChainMismatch | MissingPayload | MissingEntrypoint | EntrypointNotExecutable
  | IntegrityDrift | UnsafeManagedPath

text \<open>What the payload engine answers; the receipt, which this module never reads, is left out.\<close>

datatype managed_payload_status =
  StatusNotInstalled | StatusInstalled string | StatusRepairable repair_reason

datatype payload_condition =
  PayloadAbsent | PayloadInstalled string | PayloadRepairable repair_reason

fun payload_from_status :: "managed_payload_status \<Rightarrow> payload_condition" where
  "payload_from_status StatusNotInstalled = PayloadAbsent"
| "payload_from_status (StatusInstalled entrypoint) = PayloadInstalled entrypoint"
| "payload_from_status (StatusRepairable reason) = PayloadRepairable reason"

datatype readiness_outcome =
  ReadinessReady "string option" | Unavailable string | VendorBlocked string | NotProbed

fun is_vendor_owned :: "readiness_outcome \<Rightarrow> bool" where
  "is_vendor_owned (VendorBlocked _) = True"
| "is_vendor_owned _ = False"

fun readiness_message :: "readiness_outcome \<Rightarrow> string option" where
  "readiness_message (ReadinessReady _) = None"
| "readiness_message NotProbed = None"
| "readiness_message (Unavailable reason) = Some reason"
| "readiness_message (VendorBlocked m) = Some m"

datatype process_condition = ProcessNone | ProcessRunning nat

record observation =
  ob_payload :: payload_condition
  ob_external :: "string option"
  ob_readiness :: readiness_outcome
  ob_process :: process_condition

definition observation_absent :: observation where
  "observation_absent =
     \<lparr>ob_payload = PayloadAbsent, ob_external = None, ob_readiness = NotProbed,
      ob_process = ProcessNone\<rparr>"

definition settled_state :: "observation \<Rightarrow> agent_state" where
  "settled_state ob =
     (if ob_process ob \<noteq> ProcessNone then Running
      else (case ob_payload ob of
              PayloadRepairable _ \<Rightarrow> Repairable
            | PayloadAbsent \<Rightarrow> if ob_external ob \<noteq> None then External else NotInstalled
            | PayloadInstalled _ \<Rightarrow>
                (case ob_readiness ob of
                   ReadinessReady _ \<Rightarrow> Ready
                 | Unavailable _ \<Rightarrow> Broken
                 | VendorBlocked _ \<Rightarrow> Installed
                 | NotProbed \<Rightarrow> Installed)))"

section \<open>The failure budget\<close>

definition default_max_consecutive_failures :: nat where "default_max_consecutive_failures = 3"
definition failure_context_max_bytes :: nat where "failure_context_max_bytes = 2000"

record redacted_failure =
  rf_context :: string
  rf_attempt :: nat

record failure_budget =
  fb_max_consecutive :: nat
  fb_consecutive :: nat
  fb_last :: "redacted_failure option"

definition failure_budget_new :: "nat \<Rightarrow> failure_budget" where
  "failure_budget_new n = \<lparr>fb_max_consecutive = n, fb_consecutive = 0, fb_last = None\<rparr>"

definition failure_budget_default :: failure_budget where
  "failure_budget_default = failure_budget_new default_max_consecutive_failures"

definition is_exhausted :: "failure_budget \<Rightarrow> bool" where
  "is_exhausted b \<longleftrightarrow> fb_consecutive b \<ge> fb_max_consecutive b"

definition may_retry :: "failure_budget \<Rightarrow> bool" where
  "may_retry b \<longleftrightarrow> \<not> is_exhausted b"

fun boundary_below :: "string \<Rightarrow> nat \<Rightarrow> nat" where
  "boundary_below s 0 = 0"
| "boundary_below s (Suc n) = (if is_char_boundary s (Suc n) then Suc n else boundary_below s n)"

text \<open>\<open>sanitize\<close> is the text \<open>secret_interception::sanitize\<close> returns; \<open>truncate\<close> panics off a boundary.\<close>

definition redact_failure_context :: "(string \<Rightarrow> string) \<Rightarrow> string \<Rightarrow> string option" where
  "redact_failure_context sanitize raw =
     (let redacted = sanitize raw in
      if failure_context_max_bytes < length redacted
      then map_option (\<lambda>t. t @ ellipsis)
             (str_truncate redacted (boundary_below redacted failure_context_max_bytes))
      else Some redacted)"

lemma boundary_below_le: "boundary_below s n \<le> n"
  by (induction n) auto

lemma boundary_below_boundary: "is_char_boundary s (boundary_below s n)"
  by (induction n) (auto simp: is_char_boundary_def)

lemma str_truncate_boundary:
  "is_char_boundary s n \<Longrightarrow> str_truncate s n = Some (take n s)"
  by (simp add: str_truncate_def)

lemma redact_never_panics:
  "redact_failure_context f raw =
     Some (if failure_context_max_bytes < length (f raw)
           then take (boundary_below (f raw) failure_context_max_bytes) (f raw) @ ellipsis else f raw)"
  by (simp add: redact_failure_context_def Let_def str_truncate_boundary boundary_below_boundary)

definition redacted_context :: "(string \<Rightarrow> string) \<Rightarrow> string \<Rightarrow> string" where
  "redacted_context sanitize raw =
     (case redact_failure_context sanitize raw of None \<Rightarrow> [] | Some t \<Rightarrow> t)"

definition record_failure :: "(string \<Rightarrow> string) \<Rightarrow> string option \<Rightarrow> failure_budget \<Rightarrow> failure_budget" where
  "record_failure sanitize ctx b =
     (let n = u32_saturating_add (fb_consecutive b) 1 in
      b\<lparr>fb_consecutive := n,
        fb_last := Some \<lparr>rf_context = redacted_context sanitize
                           (case ctx of None \<Rightarrow> ''no failure context reported'' | Some c \<Rightarrow> c),
                         rf_attempt = n\<rparr>\<rparr>)"

definition record_success :: "failure_budget \<Rightarrow> failure_budget" where
  "record_success b = b\<lparr>fb_consecutive := 0\<rparr>"

definition budget_reset :: "failure_budget \<Rightarrow> failure_budget" where
  "budget_reset b = b\<lparr>fb_consecutive := 0, fb_last := None\<rparr>"

end
