(* ===== verification/Agent_Coordinator.thy ===== *)
theory Agent_Coordinator
  imports Agent_Lifecycle "HOL-Library.State_Monad"
begin

text \<open>
  \<open>AgentLifecycleCoordinator\<close> of \<open>bridge-core/src/agent_lifecycle.rs\<close>: observation, install,
  spawn-on-use, stop, uninstall, shutdown and the idle sweep, each over the coordinator's records.
  What the coordinator calls (the payload store, the readiness probe, the process supervisor,
  the clock, the cancellation flag) is a record of functions on a world of any type, threaded
  through every call, so answers may change between two calls. Operations on one agent are
  serialised by its lock, so each is one function. \<open>co_trace\<close> is not in the code: it logs the
  calls that touch processes and payloads, for the properties to speak about.
\<close>

section \<open>Parts\<close>

datatype shutdown_reason =
  UserStopped | UserCancelled | Replaced | ReasonCompleted | ReasonFailed | AppShutdown

record payload_recipe =
  pr_agent_id :: string
  pr_body :: string

record inspection =
  in_candidate :: string
  in_available :: bool

record 'w environment =
  env_status :: "string \<Rightarrow> 'w \<Rightarrow> (string, managed_payload_status) result \<times> 'w"
  env_install :: "payload_recipe \<Rightarrow> 'w \<Rightarrow> (string, unit) result \<times> 'w"
  env_repair :: "payload_recipe \<Rightarrow> 'w \<Rightarrow> (string, unit) result \<times> 'w"
  env_uninstall :: "string \<Rightarrow> 'w \<Rightarrow> (string, unit) result \<times> 'w"
  env_inspect :: "string \<Rightarrow> 'w \<Rightarrow> inspection \<times> 'w"
  env_probe :: "string \<Rightarrow> string \<Rightarrow> 'w \<Rightarrow> readiness_outcome \<times> 'w"
  env_launch :: "string \<Rightarrow> string \<Rightarrow> 'w \<Rightarrow> (string, nat) result \<times> 'w"
  env_is_running :: "nat \<Rightarrow> 'w \<Rightarrow> bool \<times> 'w"
  env_stop :: "nat \<Rightarrow> shutdown_reason \<Rightarrow> 'w \<Rightarrow> bool \<times> 'w"
  env_force_stop :: "nat \<Rightarrow> shutdown_reason \<Rightarrow> 'w \<Rightarrow> bool \<times> 'w"
  env_now :: "'w \<Rightarrow> nat \<times> 'w"
  env_cancelled :: "'w \<Rightarrow> bool \<times> 'w"
  env_sanitize :: "string \<Rightarrow> string"

record agent_record =
  ar_in_flight :: "agent_state option"
  ar_budget :: failure_budget
  ar_process :: "nat option"
  ar_last_activity :: nat

datatype agent_event =
    EvRunning nat bool
  | EvLaunch string string
  | EvStop nat shutdown_reason
  | EvForceStop nat shutdown_reason
  | EvUninstall string

record 'w coordinator =
  co_records :: "string \<rightharpoonup> agent_record"
  co_world :: 'w
  co_trace :: "agent_event list"

record agent_status =
  as_agent_id :: string
  as_state :: agent_state
  as_readiness :: readiness_outcome
  as_external :: "string option"
  as_process_id :: "nat option"
  as_consecutive_failures :: nat
  as_last_failure :: "redacted_failure option"

definition vendor_message :: "agent_status \<Rightarrow> string option" where
  "vendor_message st =
     (if is_vendor_owned (as_readiness st) then readiness_message (as_readiness st) else None)"

datatype lifecycle_error =
    PayloadError string
  | TransitionError invalid_agent_transition
  | ExternalRuntimeNotRemovable string string
  | NotReadyToLaunch string agent_state
  | RetryBudgetExhausted string nat
  | LaunchFailed string string
  | StopFailed string nat

fun lifecycle_error_display :: "lifecycle_error \<Rightarrow> string" where
  "lifecycle_error_display (PayloadError e) = e"
| "lifecycle_error_display (TransitionError e) = invalid_agent_transition_display e"
| "lifecycle_error_display (ExternalRuntimeNotRemovable a c) =
     a @ '' is a user-managed runtime at '' @ c @ '' '' @ [CHR 0xE2, CHR 0x80, CHR 0x94]
     @ '' Bridge holds no receipt for it and will not remove it''"
| "lifecycle_error_display (NotReadyToLaunch a s) =
     a @ '' cannot be launched from '' @ agent_as_str s @ ''; only a ready agent can be launched''"
| "lifecycle_error_display (RetryBudgetExhausted a n) =
     a @ '' failed '' @ dec n @ '' times in a row; retry must be requested explicitly''"
| "lifecycle_error_display (LaunchFailed a c) = a @ '' failed to launch: '' @ c"
| "lifecycle_error_display (StopFailed a p) = a @ '' process '' @ dec p @ '' did not stop''"

section \<open>Computations\<close>

type_synonym ('w, 'a) run = "('w coordinator, 'a) state"
type_synonym ('w, 'a) tried = "('w coordinator, (lifecycle_error, 'a) result) state"

definition answer :: "('w \<Rightarrow> 'a \<times> 'w) \<Rightarrow> ('w, 'a) run" where
  "answer f = State (\<lambda>s. let (a, w) = f (co_world s) in (a, s\<lparr>co_world := w\<rparr>))"

definition log_event :: "agent_event \<Rightarrow> ('w, unit) run" where
  "log_event e = State (\<lambda>s. ((), s\<lparr>co_trace := co_trace s @ [e]\<rparr>))"

definition get_record :: "string \<Rightarrow> ('w, agent_record option) run" where
  "get_record a = State (\<lambda>s. (co_records s a, s))"

definition put_record :: "string \<Rightarrow> agent_record option \<Rightarrow> ('w, unit) run" where
  "put_record a r = State (\<lambda>s. ((), s\<lparr>co_records := (co_records s)(a := r)\<rparr>))"

text \<open>\<open>m?\<close>, then the rest.\<close>

definition attempt :: "('w, 'a) tried \<Rightarrow> ('a \<Rightarrow> ('w, 'b) tried) \<Rightarrow> ('w, 'b) tried" where
  "attempt m k = do { r \<leftarrow> m; case r of Inl e \<Rightarrow> State_Monad.return (Err e) | Inr x \<Rightarrow> k x }"

definition or_default :: "'w environment \<Rightarrow> string \<Rightarrow> ('w, agent_record) run" where
  "or_default env a = do {
     r \<leftarrow> get_record a;
     case r of
       Some r \<Rightarrow> State_Monad.return r
     | None \<Rightarrow> do {
         now \<leftarrow> answer (env_now env);
         State_Monad.return
           \<lparr>ar_in_flight = None, ar_budget = failure_budget_default, ar_process = None,
            ar_last_activity = now\<rparr> } }"

definition is_running :: "'w environment \<Rightarrow> nat \<Rightarrow> ('w, bool) run" where
  "is_running env pid = do {
     b \<leftarrow> answer (env_is_running env pid);
     log_event (EvRunning pid b);
     State_Monad.return b }"

section \<open>Observing\<close>

fun find_external :: "'w environment \<Rightarrow> string list \<Rightarrow> ('w, string option) run" where
  "find_external env [] = State_Monad.return None"
| "find_external env (c # cs) = do {
     i \<leftarrow> answer (env_inspect env c);
     if in_available i then State_Monad.return (Some (in_candidate i)) else find_external env cs }"

definition live_process :: "'w environment \<Rightarrow> string \<Rightarrow> ('w, process_condition) run" where
  "live_process env a = do {
     r \<leftarrow> get_record a;
     case r of
       None \<Rightarrow> State_Monad.return ProcessNone
     | Some r \<Rightarrow>
         (case ar_process r of
            None \<Rightarrow> State_Monad.return ProcessNone
          | Some pid \<Rightarrow> do {
              alive \<leftarrow> is_running env pid;
              if alive then State_Monad.return (ProcessRunning pid)
              else do {
                put_record a (Some (r\<lparr>ar_process := None\<rparr>));
                State_Monad.return ProcessNone } }) }"

definition probe_payload ::
    "'w environment \<Rightarrow> string \<Rightarrow> payload_condition \<Rightarrow> ('w, readiness_outcome) run" where
  "probe_payload env a p =
     (case p of
        PayloadInstalled entrypoint \<Rightarrow> answer (env_probe env a entrypoint)
      | PayloadAbsent \<Rightarrow> State_Monad.return NotProbed
      | PayloadRepairable _ \<Rightarrow> State_Monad.return NotProbed)"

definition payload_call :: "('w \<Rightarrow> (string, 'a) result \<times> 'w) \<Rightarrow> ('w, 'a) tried" where
  "payload_call f = do {
     r \<leftarrow> answer f;
     State_Monad.return (case r of Inl e \<Rightarrow> Err (PayloadError e) | Inr x \<Rightarrow> Ok x) }"

definition observe :: "'w environment \<Rightarrow> string \<Rightarrow> string list \<Rightarrow> ('w, observation) tried" where
  "observe env a candidates =
     attempt (payload_call (env_status env a)) (\<lambda>st. do {
       ext \<leftarrow> find_external env candidates;
       readiness \<leftarrow> probe_payload env a (payload_from_status st);
       process \<leftarrow> live_process env a;
       State_Monad.return (Ok
         \<lparr>ob_payload = payload_from_status st, ob_external = ext, ob_readiness = readiness,
          ob_process = process\<rparr>) })"

definition reported_state :: "agent_record option \<Rightarrow> observation \<Rightarrow> agent_state" where
  "reported_state record ob =
     (case Option.bind record ar_in_flight of
        Some s \<Rightarrow> s
      | None \<Rightarrow>
          if (case record of None \<Rightarrow> False | Some r \<Rightarrow> is_exhausted (ar_budget r))
             \<and> settled_state ob = Ready
          then Broken else settled_state ob)"

definition status_from :: "string \<Rightarrow> observation \<Rightarrow> ('w, agent_status) run" where
  "status_from a ob = do {
     record \<leftarrow> get_record a;
     State_Monad.return
       \<lparr>as_agent_id = a, as_state = reported_state record ob, as_readiness = ob_readiness ob,
        as_external = ob_external ob,
        as_process_id = (case ob_process ob of ProcessRunning pid \<Rightarrow> Some pid | ProcessNone \<Rightarrow> None),
        as_consecutive_failures =
          (case record of None \<Rightarrow> 0 | Some r \<Rightarrow> fb_consecutive (ar_budget r)),
        as_last_failure = Option.bind record (\<lambda>r. fb_last (ar_budget r))\<rparr> }"

definition status :: "'w environment \<Rightarrow> string \<Rightarrow> string list \<Rightarrow> ('w, agent_status) tried" where
  "status env a candidates =
     attempt (observe env a candidates) (\<lambda>ob. do {
       st \<leftarrow> status_from a ob;
       State_Monad.return (Ok st) })"

definition current_state :: "'w environment \<Rightarrow> string \<Rightarrow> string list \<Rightarrow> ('w, agent_state) tried" where
  "current_state env a candidates =
     attempt (status env a candidates) (\<lambda>st. State_Monad.return (Ok (as_state st)))"

section \<open>Operations\<close>

definition transition_allowed :: "agent_state \<Rightarrow> agent_state \<Rightarrow> ('w, unit) tried" where
  "transition_allowed src dst =
     State_Monad.return
       (case agent_validate_transition src dst of Inl e \<Rightarrow> Err (TransitionError e) | Inr _ \<Rightarrow> Ok ())"

definition begin_op ::
    "'w environment \<Rightarrow> string \<Rightarrow> agent_state \<Rightarrow> agent_state \<Rightarrow> ('w, unit) tried" where
  "begin_op env a src dst =
     attempt (transition_allowed src dst) (\<lambda>_. do {
       r \<leftarrow> or_default env a;
       put_record a (Some (r\<lparr>ar_in_flight := Some dst\<rparr>));
       State_Monad.return (Ok ()) })"

definition finish_op :: "string \<Rightarrow> agent_state \<Rightarrow> agent_state \<Rightarrow> ('w, unit) tried" where
  "finish_op a src dst =
     attempt (transition_allowed src dst) (\<lambda>_. do {
       r \<leftarrow> get_record a;
       (case r of
          None \<Rightarrow> State_Monad.return ()
        | Some r \<Rightarrow> put_record a (Some (r\<lparr>ar_in_flight := None\<rparr>)));
       State_Monad.return (Ok ()) })"

fun failed_install_target :: "(string, managed_payload_status) result \<Rightarrow> agent_state" where
  "failed_install_target (Inr StatusNotInstalled) = NotInstalled"
| "failed_install_target (Inr (StatusInstalled _)) = Installed"
| "failed_install_target (Inr (StatusRepairable _)) = Repairable"
| "failed_install_target (Inl _) = Broken"

definition finish_failed_install :: "'w environment \<Rightarrow> string \<Rightarrow> ('w, unit) tried" where
  "finish_failed_install env a = do {
     st \<leftarrow> answer (env_status env a);
     finish_op a Installing (failed_install_target st) }"

definition uninstall_payload :: "'w environment \<Rightarrow> string \<Rightarrow> ('w, unit) tried" where
  "uninstall_payload env a = do {
     log_event (EvUninstall a);
     payload_call (env_uninstall env a) }"

text \<open>The end of an install that failed with \<open>e\<close>.\<close>

definition abort_install :: "'w environment \<Rightarrow> string \<Rightarrow> lifecycle_error \<Rightarrow> ('w, 'a) tried" where
  "abort_install env a e =
     attempt (finish_failed_install env a) (\<lambda>_. State_Monad.return (Err e))"

definition installed_target :: "observation \<Rightarrow> agent_state" where
  "installed_target ob = (if settled_state ob = Repairable then Repairable else Installed)"

definition cancelled_install ::
    "'w environment \<Rightarrow> string \<Rightarrow> string list \<Rightarrow> ('w, agent_status) tried" where
  "cancelled_install env a candidates =
     attempt (finish_op a Installing NotInstalled) (\<lambda>_. status env a candidates)"

definition finish_install ::
    "'w environment \<Rightarrow> string \<Rightarrow> string list \<Rightarrow> ('w, agent_status) tried" where
  "finish_install env a candidates = do {
     seen \<leftarrow> observe env a candidates;
     case seen of
       Inl e \<Rightarrow> abort_install env a e
     | Inr ob \<Rightarrow>
         attempt (finish_op a Installing (installed_target ob)) (\<lambda>_. status env a candidates) }"

definition install_locked ::
    "'w environment \<Rightarrow> payload_recipe \<Rightarrow> string list \<Rightarrow> ('w, agent_status) tried" where
  "install_locked env recipe candidates =
     (let a = pr_agent_id recipe in
      attempt (current_state env a candidates) (\<lambda>from.
      attempt (begin_op env a from Installing) (\<lambda>_. do {
        early \<leftarrow> answer (env_cancelled env);
        if early then cancelled_install env a candidates
        else do {
          installed \<leftarrow> payload_call
            (if from = Repairable then env_repair env recipe else env_install env recipe);
          case installed of
            Inl e \<Rightarrow> abort_install env a e
          | Inr _ \<Rightarrow> do {
              late \<leftarrow> answer (env_cancelled env);
              if late then do {
                removed \<leftarrow> uninstall_payload env a;
                case removed of
                  Inl e \<Rightarrow> abort_install env a e
                | Inr _ \<Rightarrow> cancelled_install env a candidates }
              else finish_install env a candidates } } })))"

definition touch :: "'w environment \<Rightarrow> string \<Rightarrow> ('w, unit) run" where
  "touch env a = do {
     r \<leftarrow> or_default env a;
     now \<leftarrow> answer (env_now env);
     put_record a (Some (r\<lparr>ar_last_activity := now\<rparr>)) }"

definition budget_spent :: "agent_record option \<Rightarrow> nat option" where
  "budget_spent record =
     (case record of
        None \<Rightarrow> None
      | Some r \<Rightarrow>
          if may_retry (ar_budget r) then None else Some (fb_consecutive (ar_budget r)))"

definition launch_payload ::
    "'w environment \<Rightarrow> string \<Rightarrow> string \<Rightarrow> string list \<Rightarrow> ('w, agent_status) tried" where
  "launch_payload env a entrypoint candidates = do {
     log_event (EvLaunch a entrypoint);
     launched \<leftarrow> answer (env_launch env a entrypoint);
     case launched of
       Inr pid \<Rightarrow> do {
         r \<leftarrow> or_default env a;
         now \<leftarrow> answer (env_now env);
         put_record a (Some (r\<lparr>ar_process := Some pid, ar_last_activity := now,
                               ar_budget := record_success (ar_budget r)\<rparr>));
         status env a candidates }
     | Inl context \<Rightarrow> do {
         r \<leftarrow> or_default env a;
         let b = record_failure (env_sanitize env) (Some context) (ar_budget r);
         put_record a (Some (r\<lparr>ar_budget := b\<rparr>));
         State_Monad.return (Err (LaunchFailed a
           (case fb_last b of None \<Rightarrow> [] | Some f \<Rightarrow> rf_context f))) } }"

definition ensure_running ::
    "'w environment \<Rightarrow> string \<Rightarrow> string list \<Rightarrow> ('w, agent_status) tried" where
  "ensure_running env a candidates =
     attempt (observe env a candidates) (\<lambda>ob. do {
       st \<leftarrow> status_from a ob;
       if as_state st = Running then do {
         touch env a;
         st' \<leftarrow> status_from a ob;
         State_Monad.return (Ok st') }
       else do {
         record \<leftarrow> get_record a;
         case budget_spent record of
           Some n \<Rightarrow> State_Monad.return (Err (RetryBudgetExhausted a n))
         | None \<Rightarrow>
             if as_state st \<noteq> Ready
             then State_Monad.return (Err (NotReadyToLaunch a (as_state st)))
             else (case ob_payload ob of
                     PayloadInstalled entrypoint \<Rightarrow>
                       attempt (transition_allowed Ready Running)
                         (\<lambda>_. launch_payload env a entrypoint candidates)
                   | PayloadAbsent \<Rightarrow> State_Monad.return (Err (NotReadyToLaunch a (as_state st)))
                   | PayloadRepairable _ \<Rightarrow>
                       State_Monad.return (Err (NotReadyToLaunch a (as_state st)))) } })"

definition note_process_exit ::
    "'w environment \<Rightarrow> string \<Rightarrow> nat \<Rightarrow> string option \<Rightarrow> ('w, unit) tried" where
  "note_process_exit env a pid failure = do {
     record \<leftarrow> get_record a;
     case record of
       None \<Rightarrow> State_Monad.return (Ok ())
     | Some r \<Rightarrow>
         if ar_process r \<noteq> Some pid then State_Monad.return (Ok ())
         else do {
           put_record a (Some (r\<lparr>ar_process := None,
             ar_budget := (case failure of
                             Some c \<Rightarrow> record_failure (env_sanitize env) (Some c) (ar_budget r)
                           | None \<Rightarrow> record_success (ar_budget r))\<rparr>));
           State_Monad.return (Ok ()) } }"

definition reset_retry_budget :: "'w environment \<Rightarrow> string \<Rightarrow> ('w, unit) run" where
  "reset_retry_budget env a = do {
     r \<leftarrow> or_default env a;
     put_record a (Some (r\<lparr>ar_budget := budget_reset (ar_budget r)\<rparr>)) }"

definition stop_process ::
    "'w environment \<Rightarrow> string \<Rightarrow> nat \<Rightarrow> shutdown_reason \<Rightarrow> ('w, bool) run" where
  "stop_process env a pid reason = do {
     log_event (EvStop pid reason);
     _ \<leftarrow> answer (env_stop env pid reason);
     still \<leftarrow> is_running env pid;
     record \<leftarrow> get_record a;
     (case record of
        None \<Rightarrow> State_Monad.return ()
      | Some r \<Rightarrow>
          if still then State_Monad.return ()
          else put_record a (Some (r\<lparr>ar_process := None\<rparr>)));
     State_Monad.return still }"

text \<open>\<open>stop_locked\<close> after it found the live process \<open>pid\<close>.\<close>

definition stop_tracked ::
    "'w environment \<Rightarrow> string \<Rightarrow> nat \<Rightarrow> shutdown_reason \<Rightarrow> string list \<Rightarrow> ('w, agent_status) tried" where
  "stop_tracked env a pid reason candidates =
     attempt (status env a candidates) (\<lambda>st.
       if as_state st \<noteq> Running
       then State_Monad.return (Err (TransitionError \<lparr>at_from = as_state st, at_to = Stopping\<rparr>))
       else attempt (begin_op env a (as_state st) Stopping) (\<lambda>_. do {
         still \<leftarrow> stop_process env a pid reason;
         if still then
           attempt (finish_op a Stopping Broken) (\<lambda>_. State_Monad.return (Err (StopFailed a pid)))
         else attempt (finish_op a Stopping Ready) (\<lambda>_. status env a candidates) }))"

definition stop_locked ::
    "'w environment \<Rightarrow> string \<Rightarrow> shutdown_reason \<Rightarrow> string list \<Rightarrow> ('w, agent_status) tried" where
  "stop_locked env a reason candidates = do {
     live \<leftarrow> live_process env a;
     case live of
       ProcessNone \<Rightarrow> status env a candidates
     | ProcessRunning pid \<Rightarrow> stop_tracked env a pid reason candidates }"

definition remove_payload ::
    "'w environment \<Rightarrow> string \<Rightarrow> agent_state \<Rightarrow> string list \<Rightarrow> ('w, agent_status) tried" where
  "remove_payload env a src candidates =
     attempt (begin_op env a src Uninstalling) (\<lambda>_. do {
       removed \<leftarrow> uninstall_payload env a;
       case removed of
         Inr _ \<Rightarrow>
           attempt (finish_op a Uninstalling NotInstalled) (\<lambda>_. do {
             put_record a None;
             status env a candidates })
       | Inl e \<Rightarrow>
           attempt (finish_op a Uninstalling Installed) (\<lambda>_. State_Monad.return (Err e)) })"

text \<open>Stopping first, and the second look at the process before removing.\<close>

definition stop_first ::
    "'w environment \<Rightarrow> string \<Rightarrow> string list \<Rightarrow> agent_state \<Rightarrow> ('w, agent_state) tried" where
  "stop_first env a candidates st =
     (if st = Running
      then attempt (stop_locked env a Replaced candidates) (\<lambda>st'. State_Monad.return (Ok (as_state st')))
      else State_Monad.return (Ok st))"

definition remove_unless_running ::
    "'w environment \<Rightarrow> string \<Rightarrow> string list \<Rightarrow> agent_state \<Rightarrow> ('w, agent_status) tried" where
  "remove_unless_running env a candidates src = do {
     live \<leftarrow> live_process env a;
     case live of
       ProcessRunning pid \<Rightarrow> State_Monad.return (Err (StopFailed a pid))
     | ProcessNone \<Rightarrow> remove_payload env a src candidates }"

definition uninstall_locked ::
    "'w environment \<Rightarrow> string \<Rightarrow> string list \<Rightarrow> ('w, agent_status) tried" where
  "uninstall_locked env a candidates =
     attempt (observe env a candidates) (\<lambda>ob. do {
       st \<leftarrow> status_from a ob;
       if as_state st = External then
         State_Monad.return (Err (ExternalRuntimeNotRemovable a
           (case ob_external ob of None \<Rightarrow> [] | Some c \<Rightarrow> c)))
       else if as_state st = NotInstalled then status env a candidates
       else attempt (stop_first env a candidates (as_state st))
              (remove_unless_running env a candidates) })"

definition force_stop ::
    "'w environment \<Rightarrow> string \<Rightarrow> nat \<Rightarrow> ('w, agent_status) tried" where
  "force_stop env a pid = do {
     log_event (EvForceStop pid AppShutdown);
     _ \<leftarrow> answer (env_force_stop env pid AppShutdown);
     still \<leftarrow> is_running env pid;
     if still then State_Monad.return (Err (StopFailed a pid))
     else do {
       record \<leftarrow> get_record a;
       (case record of
          None \<Rightarrow> State_Monad.return ()
        | Some r \<Rightarrow>
            if ar_process r = Some pid then put_record a (Some (r\<lparr>ar_process := None\<rparr>))
            else State_Monad.return ());
       status env a [] } }"

definition shutdown_agent :: "'w environment \<Rightarrow> string \<Rightarrow> ('w, agent_status) tried" where
  "shutdown_agent env a = do {
     r \<leftarrow> stop_locked env a AppShutdown [];
     case r of
       Inl (StopFailed _ pid) \<Rightarrow> force_stop env a pid
     | r \<Rightarrow> State_Monad.return r }"

text \<open>\<open>agents\<close> are the keys of the records, in the order the hash map yields them.\<close>

fun shutdown :: "'w environment \<Rightarrow> string list \<Rightarrow> ('w, lifecycle_error list) run" where
  "shutdown env [] = State_Monad.return []"
| "shutdown env (a # agents) = do {
     r \<leftarrow> shutdown_agent env a;
     errors \<leftarrow> shutdown env agents;
     State_Monad.return (case r of Inl e \<Rightarrow> e # errors | Inr _ \<Rightarrow> errors) }"

fun idle_agents :: "'w environment \<Rightarrow> nat \<Rightarrow> string list \<Rightarrow> ('w, string list) run" where
  "idle_agents env timeout [] = State_Monad.return []"
| "idle_agents env timeout (a # agents) = do {
     record \<leftarrow> get_record a;
     idle \<leftarrow> (case record of
        None \<Rightarrow> State_Monad.return False
      | Some r \<Rightarrow>
          if ar_process r = None then State_Monad.return False
          else do {
            now \<leftarrow> answer (env_now env);
            State_Monad.return (timeout \<le> now - ar_last_activity r) });
     rest \<leftarrow> idle_agents env timeout agents;
     State_Monad.return (if idle then a # rest else rest) }"

fun stop_all :: "'w environment \<Rightarrow> string list \<Rightarrow> ('w, lifecycle_error list) run" where
  "stop_all env [] = State_Monad.return []"
| "stop_all env (a # agents) = do {
     r \<leftarrow> stop_locked env a UserStopped [];
     errors \<leftarrow> stop_all env agents;
     State_Monad.return (case r of Inl e \<Rightarrow> e # errors | Inr _ \<Rightarrow> errors) }"

definition sweep_idle ::
    "'w environment \<Rightarrow> nat option \<Rightarrow> string list \<Rightarrow> ('w, lifecycle_error list) run" where
  "sweep_idle env idle_timeout agents =
     (case idle_timeout of
        None \<Rightarrow> State_Monad.return []
      | Some timeout \<Rightarrow> do {
          idle \<leftarrow> idle_agents env timeout agents;
          stop_all env idle })"

end
