(* ===== verification/Agent_Operations.thy ===== *)
theory Agent_Operations
  imports Agent_Coordinator
begin

text \<open>
  What the operations of the agent coordinator keep, whatever the environment answers. A locale
  carries relations between the state before and after through a whole computation; it is
  interpreted for the relations the properties need: nothing launched, removed or forgotten
  without an answer (\<open>steady\<close>), operations in flight unchanged, and only liveness asked
  (\<open>asks\<close>).
\<close>

section \<open>Relations every step of a computation respects\<close>

text \<open>
  A relation between the state before and after that is reflexive, transitive and blind to the
  world holds of a whole computation when it holds of its updates.
\<close>

locale step_relation =
  fixes R :: "'w coordinator \<Rightarrow> 'w coordinator \<Rightarrow> bool"
  assumes refl: "R s s"
    and trans: "R s t \<Longrightarrow> R t u \<Longrightarrow> R s u"
    and world: "R s (s\<lparr>co_world := w\<rparr>)"
begin

definition moves :: "('w, 'a) run \<Rightarrow> bool" where
  "moves m \<longleftrightarrow> (\<forall>s. R s (snd (run_state m s)))"

lemma moves_return [intro]: "moves (State_Monad.return x)"
  by (simp add: moves_def refl)

lemma moves_bind [intro]: "moves m \<Longrightarrow> (\<And>x. moves (f x)) \<Longrightarrow> moves (State_Monad.bind m f)"
  by (auto simp: moves_def split: prod.splits intro: trans)

lemma moves_attempt [intro]: "moves m \<Longrightarrow> (\<And>x. moves (k x)) \<Longrightarrow> moves (attempt m k)"
  unfolding attempt_def by (rule moves_bind) (auto split: sum.split)

lemma moves_answer [intro]: "moves (answer f)"
  by (simp add: moves_def answer_def world split: prod.splits)

lemma moves_get [intro]: "moves (get_record a)"
  by (simp add: moves_def get_record_def refl)

lemma moves_or_default [intro]: "moves (or_default env a)"
  unfolding or_default_def by (rule moves_bind) (auto split: option.split)

lemma moves_external [intro]: "moves (find_external env cs)"
  by (induction cs) (auto intro!: moves_bind)

lemma moves_probe [intro]: "moves (probe_payload env a p)"
  by (auto simp: probe_payload_def split: payload_condition.split)

lemma moves_payload_call [intro]: "moves (payload_call f)"
  unfolding payload_call_def by (rule moves_bind) auto

lemma moves_status_from [intro]: "moves (status_from a ob)"
  unfolding status_from_def by (rule moves_bind) auto

lemma moves_allowed [intro]: "moves (transition_allowed src dst)"
  by (auto simp: transition_allowed_def)

lemma moves_run: "moves m \<Longrightarrow> run_state m s = (x, s') \<Longrightarrow> R s s'"
  by (metis moves_def snd_conv)

end

section \<open>What a step does to operations in flight, processes and budgets\<close>

definition flight :: "'w coordinator \<Rightarrow> string \<Rightarrow> agent_state option" where
  "flight s a = Option.bind (co_records s a) ar_in_flight"

definition tracked :: "'w coordinator \<Rightarrow> string \<Rightarrow> nat option" where
  "tracked s a = Option.bind (co_records s a) ar_process"

definition budget :: "'w coordinator \<Rightarrow> string \<Rightarrow> failure_budget" where
  "budget s a = (case co_records s a of None \<Rightarrow> failure_budget_default | Some r \<Rightarrow> ar_budget r)"

definition events_since :: "'w coordinator \<Rightarrow> 'w coordinator \<Rightarrow> agent_event list" where
  "events_since s t = drop (length (co_trace s)) (co_trace t)"

fun is_quiet :: "agent_event \<Rightarrow> bool" where
  "is_quiet (EvLaunch _ _) = False"
| "is_quiet (EvUninstall _) = False"
| "is_quiet _ = True"

text \<open>
  Steady: nothing launched or removed, no budget touched, and a process is forgotten only after
  the supervisor answered that it is not running.
\<close>

definition steady :: "'w coordinator \<Rightarrow> 'w coordinator \<Rightarrow> bool" where
  "steady s t \<longleftrightarrow>
     (\<exists>ev. co_trace t = co_trace s @ ev \<and> list_all is_quiet ev
        \<and> (\<forall>b. tracked t b = tracked s b
             \<or> tracked t b = None \<and> (\<exists>pid. tracked s b = Some pid \<and> EvRunning pid False \<in> set ev)))
     \<and> budget t = budget s"

lemma steady_refl: "steady s s"
  by (auto simp: steady_def)

lemma steady_trans:
  assumes "steady s t" "steady t u"
  shows "steady s u"
proof -
  obtain e where e: "co_trace t = co_trace s @ e" "list_all is_quiet e" "budget t = budget s"
    and te: "\<And>b. tracked t b = tracked s b
      \<or> tracked t b = None \<and> (\<exists>pid. tracked s b = Some pid \<and> EvRunning pid False \<in> set e)"
    using assms(1) by (auto simp: steady_def)
  obtain f where f: "co_trace u = co_trace t @ f" "list_all is_quiet f" "budget u = budget t"
    and uf: "\<And>b. tracked u b = tracked t b
      \<or> tracked u b = None \<and> (\<exists>pid. tracked t b = Some pid \<and> EvRunning pid False \<in> set f)"
    using assms(2) by (auto simp: steady_def)
  have "tracked u b = tracked s b
      \<or> tracked u b = None \<and> (\<exists>pid. tracked s b = Some pid \<and> EvRunning pid False \<in> set (e @ f))" for b
    using te [of b] uf [of b] by (elim disjE conjE exE) fastforce+
  with e f show ?thesis unfolding steady_def by (intro conjI exI [of _ "e @ f"]) auto
qed

lemma steady_world: "steady s (s\<lparr>co_world := w\<rparr>)"
  by (auto simp: steady_def tracked_def budget_def)

interpretation st: step_relation steady
  by unfold_locales (fact steady_refl, fact steady_trans, fact steady_world)

interpretation fl: step_relation "\<lambda>s t. flight t = flight s"
  by unfold_locales (auto simp: flight_def fun_eq_iff)

lemma run_put [simp]: "run_state (put_record a r) s = ((), s\<lparr>co_records := (co_records s)(a := r)\<rparr>)"
  by (simp add: put_record_def)

lemma run_get [simp]: "run_state (get_record a) s = (co_records s a, s)"
  by (simp add: get_record_def)

lemma run_log [simp]: "run_state (log_event e) s = ((), s\<lparr>co_trace := co_trace s @ [e]\<rparr>)"
  by (simp add: log_event_def)

lemma steady_log: "is_quiet e \<Longrightarrow> st.moves (log_event e)"
  by (auto simp: st.moves_def steady_def tracked_def budget_def fun_eq_iff)

lemma flight_log: "fl.moves (log_event e)"
  unfolding fl.moves_def by (simp add: flight_def fun_eq_iff)

lemma steady_running [intro]: "st.moves (is_running env pid)"
  unfolding is_running_def by (intro st.moves_bind st.moves_answer steady_log) auto

lemma flight_running [intro]: "fl.moves (is_running env pid)"
  unfolding is_running_def by (intro fl.moves_bind fl.moves_answer flight_log) auto

text \<open>What \<open>is_running\<close> leaves: the records as they were and its answer in the trace.\<close>

lemma run_is_running:
  "run_state (is_running env pid) s = (b, t) \<Longrightarrow>
     co_records t = co_records s \<and> co_trace t = co_trace s @ [EvRunning pid b]"
  by (auto simp: is_running_def answer_def split: prod.splits)

lemma steady_forget:
  assumes "co_records t = (co_records s)(a := Some (r\<lparr>ar_process := None\<rparr>))" "co_records s a = Some r"
    "co_trace t = co_trace s @ ev" "list_all is_quiet ev"
    "\<And>pid. ar_process r = Some pid \<Longrightarrow> EvRunning pid False \<in> set ev"
  shows "steady s t" and "flight t = flight s" and "tracked t a = None"
proof -
  have "tracked t b = tracked s b
    \<or> tracked t b = None \<and> (\<exists>pid. tracked s b = Some pid \<and> EvRunning pid False \<in> set ev)" for b
    using assms by (cases "ar_process r") (auto simp: tracked_def)
  moreover have "budget t = budget s" using assms by (auto simp: budget_def fun_eq_iff)
  ultimately show "steady s t" using assms(3,4) unfolding steady_def by blast
qed (use assms in \<open>auto simp: flight_def tracked_def fun_eq_iff\<close>)

lemma run_live_process:
  assumes "run_state (live_process env a) s = (c, t)"
  shows "steady s t" and "flight t = flight s"
    and "case c of ProcessNone \<Rightarrow> tracked t a = None
         | ProcessRunning pid \<Rightarrow> tracked s a = Some pid \<and> co_records t = co_records s"
proof -
  have "steady s t \<and> flight t = flight s \<and>
    (case c of ProcessNone \<Rightarrow> tracked t a = None
     | ProcessRunning pid \<Rightarrow> tracked s a = Some pid \<and> co_records t = co_records s)"
  proof (cases "tracked s a")
    case None
    with assms show ?thesis
      by (auto simp: live_process_def tracked_def steady_refl bind_eq_None_conv split: option.splits)
  next
    case (Some pid)
    then obtain r where r: "co_records s a = Some r" "ar_process r = Some pid"
      by (auto simp: tracked_def bind_eq_Some_conv)
    obtain b u where u: "run_state (is_running env pid) s = (b, u)" by fastforce
    note ru = run_is_running [OF u]
    show ?thesis
    proof (cases b)
      case True
      with assms r u ru Some show ?thesis
        using st.moves_run [OF steady_running u] fl.moves_run [OF flight_running u]
        by (auto simp: live_process_def)
    next
      case False
      with assms r u have t: "t = u\<lparr>co_records := (co_records u)(a := Some (r\<lparr>ar_process := None\<rparr>))\<rparr>"
        and c: "c = ProcessNone"
        by (auto simp: live_process_def)
      have "co_records t = (co_records s)(a := Some (r\<lparr>ar_process := None\<rparr>))"
        "co_trace t = co_trace s @ [EvRunning pid False]"
        using t ru False by auto
      from steady_forget [OF this(1) r(1) this(2)] r(2) c show ?thesis by simp
    qed
  qed
  then show "steady s t" and "flight t = flight s"
    and "case c of ProcessNone \<Rightarrow> tracked t a = None
         | ProcessRunning pid \<Rightarrow> tracked s a = Some pid \<and> co_records t = co_records s" by auto
qed

lemma steady_live [intro]: "st.moves (live_process env a)"
  unfolding st.moves_def by (metis prod.collapse run_live_process(1))

lemma flight_live [intro]: "fl.moves (live_process env a)"
  unfolding fl.moves_def by (metis prod.collapse run_live_process(2))

lemma steady_observe [intro]: "st.moves (observe env a cs)"
  unfolding observe_def by (intro st.moves_attempt st.moves_bind) auto

lemma flight_observe [intro]: "fl.moves (observe env a cs)"
  unfolding observe_def by (intro fl.moves_attempt fl.moves_bind) auto

lemma steady_status [intro]: "st.moves (status env a cs)"
  unfolding status_def by (intro st.moves_attempt st.moves_bind) auto

lemma flight_status [intro]: "fl.moves (status env a cs)"
  unfolding status_def by (intro fl.moves_attempt fl.moves_bind) auto

lemma steady_current [intro]: "st.moves (current_state env a cs)"
  unfolding current_state_def by (intro st.moves_attempt) auto

lemma flight_current [intro]: "fl.moves (current_state env a cs)"
  unfolding current_state_def by (intro fl.moves_attempt) auto

section \<open>Begin and finish\<close>

lemma run_or_default:
  "run_state (or_default env a) s = (r, t) \<Longrightarrow>
     co_records t = co_records s \<and> co_trace t = co_trace s
     \<and> ar_budget r = budget s a \<and> ar_process r = tracked s a \<and> ar_in_flight r = flight s a"
  by (auto simp: or_default_def budget_def tracked_def flight_def answer_def
      split: option.splits prod.splits)

lemma put_known:
  assumes "co_records t = co_records s" "co_trace t = co_trace s"
    and "ar_budget r = budget s a" "ar_process r = tracked s a"
  shows "steady s (t\<lparr>co_records := (co_records t)(a := Some r)\<rparr>)"
    and "flight (t\<lparr>co_records := (co_records t)(a := Some r)\<rparr>) = (flight s)(a := ar_in_flight r)"
  using assms by (auto simp: steady_def tracked_def budget_def flight_def fun_eq_iff)

lemma run_begin:
  assumes "run_state (begin_op env a src dst) s = (x, t)"
  shows "steady s t"
    and "flight t = (if (src, dst) \<in> set agent_legal then (flight s)(a \<mapsto> dst) else flight s)"
    and "is_ok x \<longleftrightarrow> (src, dst) \<in> set agent_legal"
proof -
  have "steady s t
    \<and> flight t = (if (src, dst) \<in> set agent_legal then (flight s)(a \<mapsto> dst) else flight s)
    \<and> (is_ok x \<longleftrightarrow> (src, dst) \<in> set agent_legal)"
  proof (cases "(src, dst) \<in> set agent_legal")
    case True
    obtain r u where u: "run_state (or_default env a) s = (r, u)" by fastforce
    note k = run_or_default [OF u]
    from assms True u have "t = u\<lparr>co_records := (co_records u)(a := Some (r\<lparr>ar_in_flight := Some dst\<rparr>))\<rparr>"
      and "x = Ok ()"
      by (auto simp: begin_op_def attempt_def transition_allowed_def agent_simps)
    moreover note put_known [of u s "r\<lparr>ar_in_flight := Some dst\<rparr>" a]
    ultimately show ?thesis using k True by simp
  next
    case False
    with assms show ?thesis
      by (auto simp: begin_op_def attempt_def transition_allowed_def agent_simps steady_refl)
  qed
  then show "steady s t"
    and "flight t = (if (src, dst) \<in> set agent_legal then (flight s)(a \<mapsto> dst) else flight s)"
    and "is_ok x \<longleftrightarrow> (src, dst) \<in> set agent_legal" by auto
qed

lemma run_finish:
  assumes "run_state (finish_op a src dst) s = (x, t)"
  shows "steady s t"
    and "(src, dst) \<in> set agent_legal \<Longrightarrow> flight t = (flight s)(a := None) \<and> is_ok x"
    and "tracked t = tracked s"
proof -
  have "steady s t \<and> ((src, dst) \<in> set agent_legal \<longrightarrow> flight t = (flight s)(a := None) \<and> is_ok x)
    \<and> tracked t = tracked s"
  proof (cases "co_records s a")
    case None
    with assms show ?thesis
      by (auto simp: finish_op_def attempt_def transition_allowed_def agent_simps steady_refl
          flight_def fun_eq_iff split: if_splits)
  next
    case (Some r)
    note put_known [of s s "r\<lparr>ar_in_flight := None\<rparr>" a]
    with assms Some show ?thesis
      by (auto simp: finish_op_def attempt_def transition_allowed_def agent_simps steady_refl
          budget_def tracked_def fun_eq_iff split: if_splits)
  qed
  then show "steady s t" and "tracked t = tracked s"
    and "(src, dst) \<in> set agent_legal \<Longrightarrow> flight t = (flight s)(a := None) \<and> is_ok x" by auto
qed

lemma steady_begin [intro]: "st.moves (begin_op env a src dst)"
  unfolding st.moves_def by (metis prod.collapse run_begin(1))

lemma steady_finish [intro]: "st.moves (finish_op a src dst)"
  unfolding st.moves_def by (metis prod.collapse run_finish(1))

section \<open>Operations end with nothing in flight\<close>

text \<open>Landing: the operation on \<open>a\<close> is over, whatever was in flight; the others are untouched.\<close>

definition lands :: "string \<Rightarrow> ('w, 'a) run \<Rightarrow> bool" where
  "lands a m \<longleftrightarrow> (\<forall>s. flight (snd (run_state m s)) = (flight s)(a := None))"

lemma lands_before: "fl.moves m \<Longrightarrow> (\<And>x. lands a (f x)) \<Longrightarrow> lands a (State_Monad.bind m f)"
  by (auto simp: lands_def fl.moves_def split: prod.splits) (metis snd_conv)

lemma lands_after:
  "lands a m \<Longrightarrow> (\<And>x. fl.moves (f x) \<or> lands a (f x)) \<Longrightarrow> lands a (State_Monad.bind m f)"
  by (auto simp: lands_def fl.moves_def split: prod.splits) (metis fun_upd_upd snd_conv)

lemma lands_attempt:
  "lands a m \<Longrightarrow> (\<And>x. fl.moves (k x) \<or> lands a (k x)) \<Longrightarrow> lands a (attempt m k)"
  unfolding attempt_def by (rule lands_after) (auto split: sum.split)

lemma lands_finish: "(src, dst) \<in> set agent_legal \<Longrightarrow> lands a (finish_op a src dst)"
  unfolding lands_def by (metis prod.collapse run_finish(2))

lemma lands_remove: "lands a (put_record a None)"
  by (auto simp: lands_def flight_def fun_eq_iff)

interpretation re: step_relation "\<lambda>s t. flight s a = None \<longrightarrow> flight t = flight s" for a
  by unfold_locales (auto simp: flight_def fun_eq_iff)

lemma restores_moves: "fl.moves m \<Longrightarrow> re.moves a m"
  by (simp add: fl.moves_def re.moves_def)

text \<open>What is begun and lands leaves nothing behind.\<close>

lemma restores_begin:
  assumes "\<And>x. lands a (k x)"
  shows "re.moves a (attempt (begin_op env a src dst) k)"
  unfolding re.moves_def
proof (intro allI impI)
  fix s :: "'a coordinator"
  assume n: "flight s a = None"
  obtain x t where t: "run_state (begin_op env a src dst) s = (x, t)" by fastforce
  note b = run_begin [OF t]
  show "flight (snd (run_state (attempt (begin_op env a src dst) k) s)) = flight s"
  proof (cases x)
    case (Inl e)
    with t b show ?thesis by (simp add: attempt_def)
  next
    case (Inr y)
    with b have "flight t = (flight s)(a \<mapsto> dst)" by auto
    moreover have "flight (snd (run_state (k y) t)) = (flight t)(a := None)"
      using assms by (auto simp: lands_def)
    moreover have "(flight s)(a := None) = flight s" using n by (auto simp: fun_eq_iff)
    ultimately show ?thesis using t Inr by (simp add: attempt_def)
  qed
qed

lemma legal_installing:
  "dst \<in> {Installed, NotInstalled, Repairable, Broken} \<Longrightarrow> (Installing, dst) \<in> set agent_legal"
  by (auto simp: agent_legal_def)

lemma failed_install_target_legal: "(Installing, failed_install_target st) \<in> set agent_legal"
  by (cases st rule: failed_install_target.cases) (simp_all add: agent_legal_def)

lemma flight_uninstall_payload [intro]: "fl.moves (uninstall_payload env a)"
  unfolding uninstall_payload_def by (intro fl.moves_bind flight_log) auto

lemma lands_abort: "lands a (abort_install env a e)"
  unfolding abort_install_def finish_failed_install_def
  by (intro lands_attempt lands_before lands_finish failed_install_target_legal) auto

lemma lands_cancelled: "lands a (cancelled_install env a cs)"
  unfolding cancelled_install_def by (intro lands_attempt lands_finish legal_installing) auto

lemma lands_finish_install: "lands a (finish_install env a cs)"
  unfolding finish_install_def
  by (intro lands_before flight_observe)
    (auto intro!: lands_abort lands_attempt lands_finish legal_installing simp: installed_target_def
      split: sum.split)

lemma lands_if: "lands a m \<Longrightarrow> lands a n \<Longrightarrow> lands a (if b then m else n)"
  by simp

lemma lands_case: "(\<And>e. lands a (f e)) \<Longrightarrow> (\<And>x. lands a (g x)) \<Longrightarrow>
    lands a (case r of Inl e \<Rightarrow> f e | Inr x \<Rightarrow> g x)"
  by (cases r) auto

lemma install_restores: "re.moves (pr_agent_id recipe) (install_locked env recipe cs)"
  unfolding install_locked_def Let_def
  by (intro re.moves_attempt restores_moves [OF flight_current] restores_begin lands_before
      fl.moves_answer lands_if lands_cancelled fl.moves_payload_call lands_case lands_abort
      flight_uninstall_payload lands_finish_install)

lemma run_touch:
  "run_state (touch env a) s = (x, t) \<Longrightarrow> steady s t \<and> flight t = flight s"
proof -
  assume t: "run_state (touch env a) s = (x, t)"
  obtain r u where u: "run_state (or_default env a) s = (r, u)" by fastforce
  note k = run_or_default [OF u]
  obtain n w where "env_now env (co_world u) = (n, w)" by fastforce
  with t u have t': "t = u\<lparr>co_world := w,
      co_records := (co_records u)(a := Some (r\<lparr>ar_last_activity := n\<rparr>))\<rparr>"
    by (auto simp: touch_def answer_def)
  note put_known [of "u\<lparr>co_world := w\<rparr>" s "r\<lparr>ar_last_activity := n\<rparr>" a]
  with k t' show ?thesis by (auto simp: flight_def fun_eq_iff)
qed

lemma steady_touch [intro]: "st.moves (touch env a)"
  unfolding st.moves_def by (metis prod.collapse run_touch)

lemma flight_touch [intro]: "fl.moves (touch env a)"
  unfolding fl.moves_def by (metis prod.collapse run_touch)

lemma run_launch_records:
  assumes "run_state (or_default env a) s = (r, u)"
  shows "flight (u\<lparr>co_world := w, co_records := (co_records u)(a := Some (r\<lparr>ar_process := p,
      ar_last_activity := n, ar_budget := b\<rparr>))\<rparr>) = flight s"
    and "flight (u\<lparr>co_records := (co_records u)(a := Some (r\<lparr>ar_budget := b\<rparr>))\<rparr>) = flight s"
  using run_or_default [OF assms] by (auto simp: flight_def fun_eq_iff)

lemma flight_launched:
  "fl.moves (do { r \<leftarrow> or_default env a; now \<leftarrow> answer (env_now env);
       put_record a (Some (r\<lparr>ar_process := p, ar_last_activity := now, ar_budget := g r\<rparr>)) })"
  unfolding fl.moves_def
  by (auto simp: answer_def run_launch_records split: prod.splits)

lemma flight_launch_failed:
  "fl.moves (do { r \<leftarrow> or_default env a; put_record a (Some (r\<lparr>ar_budget := g r\<rparr>)) })"
  unfolding fl.moves_def
  by (auto simp: run_launch_records split: prod.splits)

lemma flight_launch [intro]: "fl.moves (launch_payload env a entry cs)"
proof -
  have ok: "fl.moves (do { r \<leftarrow> or_default env a; now \<leftarrow> answer (env_now env);
       put_record a (Some (r\<lparr>ar_process := Some pid, ar_last_activity := now,
         ar_budget := record_success (ar_budget r)\<rparr>)); status env a cs })" for pid
    using fl.moves_bind [OF flight_launched [where p = "Some pid" and g = "\<lambda>r. record_success (ar_budget r)"]
        flight_status] by simp
  have bad: "fl.moves (do { r \<leftarrow> or_default env a;
       put_record a (Some (r\<lparr>ar_budget := f r\<rparr>)); State_Monad.return (h r) })" for f h
  proof -
    have "fl.moves (do { r \<leftarrow> or_default env a; put_record a (Some (r\<lparr>ar_budget := f r\<rparr>)) })"
      by (rule flight_launch_failed)
    then show ?thesis unfolding fl.moves_def by (auto split: prod.splits)
  qed
  show ?thesis unfolding launch_payload_def Let_def
    by (intro fl.moves_bind flight_log fl.moves_answer) (auto intro: ok bad split: sum.split)
qed

lemma flight_ensure [intro]: "fl.moves (ensure_running env a cs)"
  unfolding ensure_running_def
  by (intro fl.moves_attempt fl.moves_bind)
    (auto intro!: fl.moves_bind fl.moves_attempt split: option.split payload_condition.split)

lemma flight_exit [intro]: "fl.moves (note_process_exit env a pid failure)"
  unfolding note_process_exit_def fl.moves_def by (auto simp: flight_def fun_eq_iff split: option.split)

section \<open>Stopping\<close>

text \<open>Steady, provided \<open>a\<close> tracks no process other than \<open>pid\<close>.\<close>

definition under :: "string \<Rightarrow> nat \<Rightarrow> 'w coordinator \<Rightarrow> 'w coordinator \<Rightarrow> bool" where
  "under a pid s t \<longleftrightarrow> (tracked s a \<in> {None, Some pid} \<longrightarrow> steady s t)"

lemma under_trans: "under a pid s t \<Longrightarrow> under a pid t u \<Longrightarrow> under a pid s u"
proof -
  assume a: "under a pid s t" "under a pid t u"
  have "steady s u" if s: "tracked s a \<in> {None, Some pid}"
  proof -
    from a(1) s have st: "steady s t" unfolding under_def by blast
    then have "tracked t a = tracked s a \<or> tracked t a = None" unfolding steady_def by metis
    with s have "tracked t a \<in> {None, Some pid}" by auto
    with a(2) st show ?thesis by (auto simp: under_def intro: steady_trans)
  qed
  then show ?thesis by (simp add: under_def)
qed

interpretation un: step_relation "under a pid" for a pid
  by unfold_locales (simp add: under_def steady_refl, fact under_trans, simp add: under_def steady_world)

lemma under_moves: "st.moves m \<Longrightarrow> un.moves a pid m"
  by (simp add: st.moves_def un.moves_def under_def)

lemma run_stop:
  assumes "run_state (stop_process env a pid reason) s = (still, t)"
  shows "flight t = flight s"
    and "tracked s a \<in> {None, Some pid} \<Longrightarrow> steady s t"
    and "\<not> still \<Longrightarrow> tracked t a = None"
proof -
  obtain b w where w: "env_stop env pid reason (co_world s) = (b, w)" by fastforce
  let ?s1 = "s\<lparr>co_trace := co_trace s @ [EvStop pid reason], co_world := w\<rparr>"
  obtain c u where u: "run_state (is_running env pid) ?s1 = (c, u)" by fastforce
  note ru = run_is_running [OF u]
  have tr: "co_trace u = co_trace s @ [EvStop pid reason, EvRunning pid c]"
    and re: "co_records u = co_records s" using ru by auto
  have "flight t = flight s \<and> (tracked s a \<in> {None, Some pid} \<longrightarrow> steady s t)
    \<and> (\<not> still \<longrightarrow> tracked t a = None)"
  proof (cases "co_records s a")
    case None
    with assms w u re have t: "t = u" by (auto simp: stop_process_def answer_def)
    have "steady s u" using tr re by (auto simp: steady_def tracked_def budget_def fun_eq_iff)
    with None t re show ?thesis by (auto simp: flight_def tracked_def fun_eq_iff)
  next
    case (Some r)
    show ?thesis
    proof (cases c)
      case True
      with assms w u re Some have t: "t = u" "still = c" by (auto simp: stop_process_def answer_def)
      have "steady s u" using tr re by (auto simp: steady_def tracked_def budget_def fun_eq_iff)
      with t True re show ?thesis by (auto simp: flight_def fun_eq_iff)
    next
      case False
      with assms w u re Some have t: "t = u\<lparr>co_records := (co_records u)(a := Some (r\<lparr>ar_process := None\<rparr>))\<rparr>"
        by (auto simp: stop_process_def answer_def)
      have 1: "co_records t = (co_records s)(a := Some (r\<lparr>ar_process := None\<rparr>))"
        and 2: "co_trace t = co_trace s @ [EvStop pid reason, EvRunning pid False]"
        using t re tr False by auto
      have 3: "flight t = flight s" "tracked t a = None"
        using 1 Some by (auto simp: flight_def tracked_def fun_eq_iff)
      have "steady s t" if "tracked s a \<in> {None, Some pid}"
        by (rule steady_forget(1) [OF 1 Some 2]) (use that Some in \<open>auto simp: tracked_def\<close>)
      with 3 show ?thesis by blast
    qed
  qed
  then show "flight t = flight s" and "tracked s a \<in> {None, Some pid} \<Longrightarrow> steady s t"
    and "\<not> still \<Longrightarrow> tracked t a = None" by auto
qed

lemma flight_stop_process [intro]: "fl.moves (stop_process env a pid reason)"
  unfolding fl.moves_def by (metis prod.collapse run_stop(1))

lemma under_stop_process [intro]: "un.moves a pid (stop_process env a pid reason)"
  unfolding un.moves_def under_def by (metis prod.collapse run_stop(2))

lemma under_stop_tracked: "un.moves a pid (stop_tracked env a pid reason cs)"
  unfolding stop_tracked_def
  by (intro un.moves_attempt under_moves [OF steady_status])
    (auto intro!: un.moves_attempt un.moves_bind under_moves [OF steady_begin]
      under_moves [OF steady_finish] under_moves [OF steady_status])

lemma steady_stop [intro]: "st.moves (stop_locked env a reason cs)"
  unfolding st.moves_def
proof
  fix s :: "'a coordinator"
  obtain c u where u: "run_state (live_process env a) s = (c, u)" by fastforce
  note l = run_live_process [OF u]
  show "steady s (snd (run_state (stop_locked env a reason cs) s))"
  proof (cases c)
    case ProcessNone
    then show ?thesis using l(1) steady_status [of env a cs]
      by (simp add: stop_locked_def u st.moves_def) (metis steady_trans)
  next
    case (ProcessRunning pid)
    with l(3) have "tracked u a = Some pid" by (simp add: tracked_def)
    then have "steady u (snd (run_state (stop_tracked env a pid reason cs) u))"
      using under_stop_tracked [of a pid env reason cs] by (simp add: un.moves_def under_def)
    with l(1) ProcessRunning show ?thesis
      by (simp add: stop_locked_def u) (metis steady_trans)
  qed
qed

lemma stop_restores: "re.moves a (stop_locked env a reason cs)"
  unfolding stop_locked_def stop_tracked_def
  by (intro re.moves_bind restores_moves [OF flight_live])
    (auto intro!: re.moves_attempt restores_moves [OF flight_status] restores_begin lands_before
      lands_attempt lands_finish lands_if simp: agent_legal_def split: process_condition.split)

section \<open>Uninstalling\<close>

lemma events_append: "co_trace t = co_trace s @ ev \<Longrightarrow> events_since s t = ev"
  by (simp add: events_since_def)

lemma run_attempt:
  "run_state (attempt m k) s =
     (case run_state m s of (Inl e, t) \<Rightarrow> (Inl e, t) | (Inr x, t) \<Rightarrow> run_state (k x) t)"
  by (auto simp: attempt_def split: prod.split sum.split)

lemma uninstall_restores: "re.moves a (uninstall_locked env a cs)"
proof -
  have l: "lands a (do { put_record a None; status env a cs })"
    by (rule lands_after [OF lands_remove]) (blast intro: flight_status)
  have r: "re.moves a (remove_payload env a src cs)" for src
    unfolding remove_payload_def
    by (intro restores_begin lands_before flight_uninstall_payload)
      (auto intro!: lands_attempt lands_finish l simp: agent_legal_def split: sum.split)
  show ?thesis
    unfolding uninstall_locked_def stop_first_def remove_unless_running_def
    by (intro re.moves_attempt restores_moves [OF flight_observe] re.moves_bind)
      (auto intro!: re.moves_attempt re.moves_bind stop_restores restores_moves [OF flight_status]
        restores_moves [OF flight_live] r split: process_condition.split)
qed

text \<open>An uninstall is steady, or ends with a removal begun while nothing was tracked.\<close>

lemma run_uninstall:
  assumes "run_state (uninstall_locked env a cs) s = (x, t)"
  shows "steady s t \<or> (\<exists>u src. steady s u \<and> tracked u a = None
    \<and> run_state (remove_payload env a src cs) u = (x, t))"
proof -
  obtain ob1 s1 where s1: "run_state (observe env a cs) s = (ob1, s1)" by fastforce
  have m1: "steady s s1" by (rule st.moves_run [OF steady_observe s1])
  show ?thesis
  proof (cases ob1)
    case (Inl e)
    with assms s1 m1 show ?thesis by (simp add: uninstall_locked_def run_attempt)
  next
    case (Inr ob)
    define st where "st = reported_state (co_records s1 a) ob"
    show ?thesis
    proof (cases "st = External \<or> st = NotInstalled")
      case True
      have ms: "steady s1 (snd (run_state (status env a cs) s1))"
        using steady_status [of env a cs] by (simp add: st.moves_def)
      from True assms s1 Inr have "t = s1 \<or> t = snd (run_state (status env a cs) s1)"
        by (auto simp: uninstall_locked_def run_attempt status_from_def st_def)
      with m1 ms show ?thesis by (auto intro: steady_trans)
    next
      case False
      obtain r s2 where s2: "run_state (stop_first env a cs st) s1 = (r, s2)" by fastforce
      have "st.moves (stop_first env a cs st)" unfolding stop_first_def by (auto intro!: st.moves_attempt)
      from steady_trans [OF m1 st.moves_run [OF this s2]] have m2: "steady s s2" .
      from False assms s1 Inr s2 have run: "(case r of Inl e \<Rightarrow> (Inl e, s2)
          | Inr src \<Rightarrow> run_state (remove_unless_running env a cs src) s2) = (x, t)"
        by (simp add: uninstall_locked_def run_attempt status_from_def st_def [symmetric])
      show ?thesis
      proof (cases r)
        case (Inl e)
        with run m2 show ?thesis by simp
      next
        case (Inr src)
        obtain c s3 where s3: "run_state (live_process env a) s2 = (c, s3)" by fastforce
        note l = run_live_process [OF s3]
        from steady_trans [OF m2 l(1)] have m3: "steady s s3" .
        from run s3 Inr l(3) m3 show ?thesis
          by (cases c) (auto simp: remove_unless_running_def)
      qed
    qed
  qed
qed

text \<open>What a removal logs: itself, among quiet events.\<close>

lemma run_remove:
  assumes "run_state (remove_payload env a src cs) u = (x, t)"
  shows "\<exists>pre post. events_since u t = pre @ post \<and> co_trace t = co_trace u @ pre @ post
    \<and> list_all is_quiet pre \<and> (post = [] \<or> (\<exists>q. post = EvUninstall a # q \<and> list_all is_quiet q))"
proof -
  have ev: "\<exists>ev. co_trace s' = co_trace s @ ev \<and> list_all is_quiet ev" if "steady s s'" for s s' :: "'a coordinator"
    using that by (auto simp: steady_def)
  obtain b s1 where s1: "run_state (begin_op env a src Uninstalling) u = (b, s1)" by fastforce
  obtain e1 where e1: "co_trace s1 = co_trace u @ e1" "list_all is_quiet e1"
    using ev [OF run_begin(1) [OF s1]] by blast
  show ?thesis
  proof (cases b)
    case (Inl e)
    with assms s1 e1 show ?thesis
      by (intro exI [of _ e1] exI [of _ "[]"]) (auto simp: remove_payload_def run_attempt events_since_def)
  next
    case (Inr y)
    obtain r w where w: "env_uninstall env a (co_world s1) = (r, w)" by fastforce
    define s2 where "s2 = s1\<lparr>co_trace := co_trace s1 @ [EvUninstall a], co_world := w\<rparr>"
    have s2: "run_state (uninstall_payload env a) s1
        = (case r of Inl e \<Rightarrow> Err (PayloadError e) | Inr x \<Rightarrow> Ok x, s2)"
      by (simp add: uninstall_payload_def payload_call_def answer_def w s2_def)
    have "\<exists>q. co_trace t = co_trace s2 @ q \<and> list_all is_quiet q"
    proof (cases r)
      case (Inl e)
      obtain f s3 where s3: "run_state (finish_op a Uninstalling Installed) s2 = (f, s3)" by fastforce
      with assms s1 Inr s2 Inl have "t = s3"
        by (auto simp: remove_payload_def run_attempt split: sum.splits)
      with ev [OF run_finish(1) [OF s3]] show ?thesis by simp
    next
      case r: (Inr z)
      obtain f s3 where s3: "run_state (finish_op a Uninstalling NotInstalled) s2 = (f, s3)" by fastforce
      have "is_ok f" using run_finish(2) [OF s3] by (simp add: agent_legal_def)
      then obtain f' where "f = Inr f'" by (cases f) auto
      with assms s1 Inr s2 r s3 have "t = snd (run_state (status env a cs)
          (s3\<lparr>co_records := (co_records s3)(a := None)\<rparr>))"
        by (simp add: remove_payload_def run_attempt)
      moreover have "st.moves (status env a cs)" by blast
      ultimately have "steady (s3\<lparr>co_records := (co_records s3)(a := None)\<rparr>) t"
        by (simp add: st.moves_def)
      from ev [OF this] ev [OF run_finish(1) [OF s3]] show ?thesis by auto
    qed
    then obtain q where "co_trace t = co_trace s2 @ q" "list_all is_quiet q" by blast
    with e1 show ?thesis
      by (intro exI [of _ e1] exI [of _ "EvUninstall a # q"]) (auto simp: s2_def events_since_def)
  qed
qed

lemma quiet_no_uninstall: "list_all is_quiet ev \<Longrightarrow> EvUninstall b \<notin> set ev \<and> EvLaunch c d \<notin> set ev"
  by (auto simp: list_all_iff)

text \<open>
  C30. A payload is never removed beneath a live process: in everything an uninstall does, a removal
  comes only after the supervisor answered, during that same uninstall, that the process
  tracked for the agent is not running; and an uninstall launches nothing and removes no other
  agent's payload.
\<close>
theorem removal_follows_exit:
  assumes "run_state (uninstall_locked env a cs) s = (x, t)" and "tracked s a = Some pid"
    and "events_since s t = pre @ EvUninstall b # post"
  shows "b = a \<and> EvRunning pid False \<in> set pre
    \<and> (\<forall>c entry. EvLaunch c entry \<notin> set (events_since s t))"
proof -
  have not_steady: "\<not> steady s t"
  proof
    assume "steady s t"
    then have "list_all is_quiet (events_since s t)" by (auto simp: steady_def events_append)
    with assms(3) show False by simp
  qed
  with run_uninstall [OF assms(1)] obtain u src where u: "steady s u" "tracked u a = None"
    and r: "run_state (remove_payload env a src cs) u = (x, t)" by blast
  from u(1) obtain ev where e: "co_trace u = co_trace s @ ev" "list_all is_quiet ev"
    and p: "tracked u a = tracked s a
      \<or> tracked u a = None \<and> (\<exists>pid. tracked s a = Some pid \<and> EvRunning pid False \<in> set ev)"
    unfolding steady_def by blast
  from p u(2) assms(2) have dead: "EvRunning pid False \<in> set ev" by auto
  obtain e1 e2 where r1: "co_trace t = co_trace u @ e1 @ e2" "list_all is_quiet e1"
    "e2 = [] \<or> (\<exists>q. e2 = EvUninstall a # q \<and> list_all is_quiet q)"
    using run_remove [OF r] by blast
  then have all: "events_since s t = ev @ e1 @ e2" using e by (simp add: events_since_def)
  have "e2 \<noteq> []"
  proof
    assume "e2 = []"
    with all assms(3) have "EvUninstall b \<in> set ev \<union> set e1"
      by (metis Un_iff append_Nil2 in_set_conv_decomp set_append)
    with quiet_no_uninstall [OF e(2)] quiet_no_uninstall [OF r1(2)] show False by blast
  qed
  with r1(3) obtain q where q: "e2 = EvUninstall a # q" "list_all is_quiet q" by blast
  have all': "events_since s t = (ev @ e1) @ EvUninstall a # q" using all q by simp
  have n: "EvUninstall c \<notin> set (ev @ e1)" "EvUninstall c \<notin> set q" for c
    using quiet_no_uninstall [OF e(2)] quiet_no_uninstall [OF r1(2)] quiet_no_uninstall [OF q(2)] by auto
  have "EvUninstall b \<in> set ((ev @ e1) @ EvUninstall a # q)"
    using all' assms(3) by (metis in_set_conv_decomp)
  with n have b: "b = a" by auto
  have "pre = ev @ e1"
    using append_Cons_eq_iff [OF n] all' assms(3) b by metis
  with b have "pre = ev @ e1 \<and> b = a" by simp
  moreover have "EvLaunch c entry \<notin> set (events_since s t)" for c entry
    using all' quiet_no_uninstall [OF e(2)] quiet_no_uninstall [OF r1(2)] quiet_no_uninstall [OF q(2)]
    by auto
  ultimately show ?thesis using dead by auto
qed

text \<open>A world with one process and one payload, for the witnesses: alive, installed.\<close>

definition small_env :: "(bool \<times> bool) environment" where
  "small_env =
     \<lparr>env_status = (\<lambda>a w. (Ok (if snd w then StatusInstalled ''/opt/a'' else StatusNotInstalled), w)),
      env_install = (\<lambda>r w. (Ok (), (fst w, True))),
      env_repair = (\<lambda>r w. (Ok (), (fst w, True))),
      env_uninstall = (\<lambda>a w. (Ok (), (fst w, False))),
      env_inspect = (\<lambda>c w. (\<lparr>in_candidate = c, in_available = False\<rparr>, w)),
      env_probe = (\<lambda>a e w. (ReadinessReady None, w)),
      env_launch = (\<lambda>a e w. (Ok 7, (True, snd w))),
      env_is_running = (\<lambda>pid w. (fst w, w)),
      env_stop = (\<lambda>pid r w. (True, (False, snd w))),
      env_force_stop = (\<lambda>pid r w. (True, (False, snd w))),
      env_now = (\<lambda>w. (0, w)),
      env_cancelled = (\<lambda>w. (False, w)),
      env_sanitize = (\<lambda>s. s)\<rparr>"

definition running_agent :: "(bool \<times> bool) coordinator" where
  "running_agent =
     \<lparr>co_records = [''a'' \<mapsto> \<lparr>ar_in_flight = None, ar_budget = failure_budget_default,
                             ar_process = Some 7, ar_last_activity = 0\<rparr>],
      co_world = (True, True), co_trace = []\<rparr>"

lemmas run_steps = attempt_def answer_def log_event_def get_record_def put_record_def or_default_def
  is_running_def live_process_def probe_payload_def payload_call_def observe_def reported_state_def
  status_from_def status_def current_state_def transition_allowed_def begin_op_def finish_op_def
  uninstall_payload_def stop_process_def stop_tracked_def stop_locked_def remove_payload_def
  stop_first_def remove_unless_running_def uninstall_locked_def touch_def budget_spent_def
  launch_payload_def ensure_running_def settled_state_def may_retry_def is_exhausted_def

lemma small_uninstall:
  "events_since running_agent (snd (run_state (uninstall_locked small_env ''a'' []) running_agent))
     = [EvRunning 7 True, EvRunning 7 True, EvRunning 7 True, EvStop 7 Replaced, EvRunning 7 False]
       @ EvUninstall ''a'' # []"
  by code_simp

theorem removal_follows_exit_witness:
  "events_since running_agent (snd (run_state (uninstall_locked small_env ''a'' []) running_agent))
     = [EvRunning 7 True, EvRunning 7 True, EvRunning 7 True, EvStop 7 Replaced, EvRunning 7 False]
       @ EvUninstall ''a'' # []
   \<and> EvRunning 7 False
       \<in> set [EvRunning 7 True, EvRunning 7 True, EvRunning 7 True, EvStop 7 Replaced, EvRunning 7 False]"
proof -
  obtain x t where t: "run_state (uninstall_locked small_env ''a'' []) running_agent = (x, t)" by fastforce
  have tr: "tracked running_agent ''a'' = Some 7" by (simp add: tracked_def running_agent_def)
  from removal_follows_exit [OF t tr] small_uninstall t show ?thesis by (metis snd_conv)
qed

text \<open>
  Every operation of the coordinator ends: an agent with no operation in flight before an
  install, a stop, an uninstall, a launch or an exit notification has none in flight after it,
  whatever the store, the probe, the supervisor and the clock answer, and no other agent's
  operation is disturbed.
\<close>
theorem operations_leave_nothing_in_flight:
  assumes "flight s a = None" and "pr_agent_id recipe = a"
  shows "flight (snd (run_state (install_locked env recipe cs) s)) = flight s
    \<and> flight (snd (run_state (stop_locked env a reason cs) s)) = flight s
    \<and> flight (snd (run_state (uninstall_locked env a cs) s)) = flight s
    \<and> flight (snd (run_state (ensure_running env a cs) s)) = flight s
    \<and> flight (snd (run_state (note_process_exit env a pid failure) s)) = flight s"
  using assms install_restores [of recipe env cs] stop_restores [of a env reason cs]
    uninstall_restores [of a env cs] flight_ensure [of env a cs] flight_exit [of env a pid failure]
  by (simp add: re.moves_def fl.moves_def)

theorem operations_leave_nothing_in_flight_witness:
  "flight (snd (run_state (stop_locked small_env ''a'' UserStopped []) running_agent))
     = flight running_agent"
  using operations_leave_nothing_in_flight
    [of running_agent "''a''" "\<lparr>pr_agent_id = ''a'', pr_body = []\<rparr>" small_env "[]" UserStopped 0 None]
  by (simp add: flight_def running_agent_def)

section \<open>Launching\<close>

lemma run_observe:
  assumes "run_state (observe env a cs) s = (Inr ob, t)"
  shows "ob_process ob = ProcessNone \<Longrightarrow> tracked t a = None"
proof -
  assume n: "ob_process ob = ProcessNone"
  from assms obtain u c where "run_state (live_process env a) u = (c, t)" "ob_process ob = c"
    by (auto simp: observe_def run_attempt split: prod.splits sum.splits)
  with run_live_process(3) n show "tracked t a = None" by fastforce
qed

lemma budget_spent_None: "budget_spent (co_records s a) = None \<longleftrightarrow> may_retry (budget s a)"
  by (auto simp: budget_spent_def budget_def may_retry_def is_exhausted_def failure_budget_default_def
      failure_budget_new_def default_max_consecutive_failures_def split: option.splits)

text \<open>Ensuring an agent runs is steady, or ends with a launch begun under these conditions.\<close>

lemma run_ensure:
  assumes "run_state (ensure_running env a cs) s = (x, t)" and "flight s a = None"
  shows "steady s t \<or> (\<exists>u entry. steady s u \<and> tracked u a = None \<and> may_retry (budget s a)
    \<and> run_state (launch_payload env a entry cs) u = (x, t))"
proof -
  obtain ob1 s1 where s1: "run_state (observe env a cs) s = (ob1, s1)" by fastforce
  have m1: "steady s s1" by (rule st.moves_run [OF steady_observe s1])
  have f1: "flight s1 a = None" using fl.moves_run [OF flight_observe s1] assms(2) by simp
  have b1: "budget s1 = budget s" using m1 by (simp add: steady_def)
  show ?thesis
  proof (cases ob1)
    case (Inl e)
    with assms s1 m1 show ?thesis by (simp add: ensure_running_def run_attempt)
  next
    case (Inr ob)
    define st where "st = reported_state (co_records s1 a) ob"
    show ?thesis
    proof (cases "st = Running")
      case True
      obtain y s2 where s2: "run_state (touch env a) s1 = (y, s2)" by (cases "run_state (touch env a) s1")
      from True assms(1) s1 Inr s2 have "t = s2"
        by (auto simp: ensure_running_def run_attempt status_from_def st_def)
      with m1 st.moves_run [OF steady_touch s2] show ?thesis by (auto intro: steady_trans)
    next
      case False
      show ?thesis
      proof (cases "budget_spent (co_records s1 a) = None \<and> st = Ready
          \<and> (\<exists>entry. ob_payload ob = PayloadInstalled entry)")
        case ready: True
        then obtain entry where "ob_payload ob = PayloadInstalled entry" by blast
        with ready False assms(1) s1 Inr have "run_state (launch_payload env a entry cs) s1 = (x, t)"
          by (simp add: ensure_running_def run_attempt status_from_def st_def [symmetric]
              transition_allowed_def agent_simps agent_legal_def)
        moreover have "may_retry (budget s a)"
          using ready b1 budget_spent_None [of s1 a] by simp
        moreover have "tracked s1 a = None"
        proof -
          have "settled_state ob = Ready"
            using ready f1 by (auto simp: st_def reported_state_def flight_def split: option.splits if_splits)
          then have "ob_process ob = ProcessNone" by (auto simp: settled_state_def split: if_splits)
          with run_observe s1 Inr show ?thesis by blast
        qed
        ultimately show ?thesis using m1 by blast
      next
        case refused: False
        with False assms(1) s1 Inr have "t = s1"
          by (auto simp: ensure_running_def run_attempt status_from_def st_def
              split: option.splits payload_condition.splits)
        with m1 show ?thesis by simp
      qed
    qed
  qed
qed

lemma launch_first:
  "run_state (launch_payload env a entry cs) u = (x, t) \<Longrightarrow>
     \<exists>post. co_trace t = co_trace u @ EvLaunch a entry # post \<and> list_all is_quiet post"
proof -
  assume r: "run_state (launch_payload env a entry cs) u = (x, t)"
  obtain l w where w: "env_launch env a entry (co_world u) = (l, w)" by fastforce
  define u1 where "u1 = u\<lparr>co_trace := co_trace u @ [EvLaunch a entry], co_world := w\<rparr>"
  obtain rc u2 where u2: "run_state (or_default env a) u1 = (rc, u2)" by fastforce
  have c2: "co_trace u2 = co_trace u @ [EvLaunch a entry]"
    using run_or_default [OF u2] by (simp add: u1_def)
  show ?thesis
  proof (cases l)
    case (Inl e)
    with r w u2 c2 show ?thesis
      by (auto simp: launch_payload_def answer_def u1_def Let_def)
  next
    case (Inr pid)
    obtain n w' where n: "env_now env (co_world u2) = (n, w')" by fastforce
    define u3 where "u3 = u2\<lparr>co_world := w', co_records := (co_records u2)(a := Some
        (rc\<lparr>ar_process := Some pid, ar_last_activity := n, ar_budget := record_success (ar_budget rc)\<rparr>))\<rparr>"
    from r w u2 n Inr have "run_state (status env a cs) u3 = (x, t)"
      by (simp add: launch_payload_def answer_def u1_def u3_def)
    from st.moves_run [OF steady_status this] c2 show ?thesis
      by (auto simp: steady_def u3_def)
  qed
qed

text \<open>
  A launch is spawn-on-use and bounded: ensuring an agent runs launches at most once, and only
  an agent whose budget of consecutive failures is not spent and whose tracked process, when it
  has one, the supervisor has just reported dead. So an agent that failed as often as its budget
  allows is never launched again before the budget is reset.
\<close>
theorem launch_needs_budget_and_no_process:
  assumes "run_state (ensure_running env a cs) s = (x, t)" and "flight s a = None"
    and "events_since s t = pre @ EvLaunch b entry # post"
  shows "b = a \<and> may_retry (budget s a)
    \<and> (\<forall>pid. tracked s a = Some pid \<longrightarrow> EvRunning pid False \<in> set pre)
    \<and> list_all is_quiet (pre @ post)"
proof -
  have not_steady: "\<not> steady s t"
  proof
    assume "steady s t"
    then have "list_all is_quiet (events_since s t)" by (auto simp: steady_def events_append)
    with assms(3) show False by simp
  qed
  with run_ensure [OF assms(1,2)] obtain u e where u: "steady s u" "tracked u a = None"
    and b: "may_retry (budget s a)" and r: "run_state (launch_payload env a e cs) u = (x, t)" by blast
  from u(1) obtain ev where ev: "co_trace u = co_trace s @ ev" "list_all is_quiet ev"
    and p: "tracked u a = tracked s a
      \<or> tracked u a = None \<and> (\<exists>pid. tracked s a = Some pid \<and> EvRunning pid False \<in> set ev)"
    unfolding steady_def by blast
  obtain q where q: "co_trace t = co_trace u @ EvLaunch a e # q" "list_all is_quiet q"
    using launch_first [OF r] by blast
  have all: "events_since s t = ev @ EvLaunch a e # q" using ev q by (simp add: events_since_def)
  have n: "EvLaunch c d \<notin> set ev" "EvLaunch c d \<notin> set q" for c d
    using quiet_no_uninstall [OF ev(2)] quiet_no_uninstall [OF q(2)] by auto
  have "EvLaunch b entry \<in> set (ev @ EvLaunch a e # q)"
    using all assms(3) by (metis in_set_conv_decomp)
  with n have same: "b = a" "entry = e" by auto
  have "pre = ev \<and> post = q"
    using append_Cons_eq_iff [OF n] all assms(3) same by metis
  with same b p u(2) ev(2) q(2) show ?thesis by auto
qed

definition idle_agent :: "(bool \<times> bool) coordinator" where
  "idle_agent = running_agent\<lparr>co_world := (False, True)\<rparr>"

lemma small_launch:
  "events_since idle_agent (snd (run_state (ensure_running small_env ''a'' []) idle_agent))
     = [EvRunning 7 False] @ EvLaunch ''a'' ''/opt/a'' # [EvRunning 7 True]"
  by (simp add: run_steps small_env_def idle_agent_def running_agent_def events_since_def
      failure_budget_default_def failure_budget_new_def default_max_consecutive_failures_def
      agent_can_transition_to_def agent_validate_transition_def agent_legal_def record_success_def)

theorem launch_needs_budget_and_no_process_witness:
  "may_retry (budget idle_agent ''a'') \<and> EvRunning 7 False \<in> set [EvRunning 7 False]"
proof -
  obtain x t where t: "run_state (ensure_running small_env ''a'' []) idle_agent = (x, t)" by fastforce
  have f: "flight idle_agent ''a'' = None" by (simp add: flight_def idle_agent_def running_agent_def)
  have e: "events_since idle_agent t = [EvRunning 7 False] @ EvLaunch ''a'' ''/opt/a'' # [EvRunning 7 True]"
    using small_launch t by simp
  have "tracked idle_agent ''a'' = Some 7" by (simp add: tracked_def idle_agent_def running_agent_def)
  with launch_needs_budget_and_no_process [OF t f e] show ?thesis by auto
qed

section \<open>Shutting down\<close>

lemma steady_untracked: "steady s t \<Longrightarrow> tracked s b = None \<Longrightarrow> tracked t b = None"
  by (auto simp: steady_def) (metis option.distinct(1))

lemma steady_tracked: "steady s t \<Longrightarrow> tracked t b = tracked s b \<or> tracked t b = None"
  unfolding steady_def by metis

lemma run_status: "run_state (status env a cs) s = (x, t) \<Longrightarrow> steady s t"
  by (rule st.moves_run [OF steady_status])

lemma run_stop_tracked:
  assumes "run_state (stop_tracked env a pid reason cs) s = (Inr x, t)"
  shows "tracked t a = None"
proof -
  obtain r1 s1 where s1: "run_state (status env a cs) s = (r1, s1)" by (cases "run_state (status env a cs) s")
  with assms obtain st where st: "r1 = Inr st" "as_state st = Running"
    by (auto simp: stop_tracked_def run_attempt split: sum.splits if_splits)
  obtain b s2 where s2: "run_state (begin_op env a Running Stopping) s1 = (b, s2)"
    by (cases "run_state (begin_op env a Running Stopping) s1")
  have "is_ok b" using run_begin(3) [OF s2] by (simp add: agent_legal_def)
  then obtain y where y: "b = Inr y" by (cases b) auto
  obtain still s3 where s3: "run_state (stop_process env a pid reason) s2 = (still, s3)"
    by (cases "run_state (stop_process env a pid reason) s2")
  have not: "\<not> still"
  proof
    assume still
    with assms s1 st s2 y s3 show False
      by (auto simp: stop_tracked_def run_attempt split: prod.splits sum.splits)
  qed
  obtain f s4 where s4: "run_state (finish_op a Stopping Ready) s3 = (f, s4)"
    by (cases "run_state (finish_op a Stopping Ready) s3")
  with assms s1 st s2 y s3 not have "steady s4 t"
    by (cases f) (auto simp: stop_tracked_def run_attempt intro: run_status)
  moreover have "tracked s4 a = None" using run_stop(3) [OF s3 not] run_finish(3) [OF s4] by simp
  ultimately show ?thesis by (rule steady_untracked)
qed

lemma run_stop_locked:
  assumes "run_state (stop_locked env a reason cs) s = (Inr x, t)"
  shows "tracked t a = None"
proof -
  obtain c u where u: "run_state (live_process env a) s = (c, u)" by (cases "run_state (live_process env a) s")
  note l = run_live_process [OF u]
  show ?thesis
  proof (cases c)
    case ProcessNone
    with assms u have "steady u t" by (simp add: stop_locked_def run_status)
    moreover have "tracked u a = None" using l(3) ProcessNone by simp
    ultimately show ?thesis by (rule steady_untracked)
  next
    case (ProcessRunning pid)
    with assms u show ?thesis by (simp add: stop_locked_def) (rule run_stop_tracked)
  qed
qed

lemma run_force_stop:
  assumes "run_state (force_stop env a pid) s = (x, t)"
  shows "steady s t" and "is_ok x \<Longrightarrow> tracked s a \<in> {None, Some pid} \<Longrightarrow> tracked t a = None"
proof -
  obtain b w where w: "env_force_stop env pid AppShutdown (co_world s) = (b, w)" by fastforce
  let ?s1 = "s\<lparr>co_trace := co_trace s @ [EvForceStop pid AppShutdown], co_world := w\<rparr>"
  obtain c u where u: "run_state (is_running env pid) ?s1 = (c, u)" by fastforce
  note ru = run_is_running [OF u]
  have tr: "co_trace u = co_trace s @ [EvForceStop pid AppShutdown, EvRunning pid c]"
    and re: "co_records u = co_records s" using ru by auto
  have su: "steady s u" using tr re by (auto simp: steady_def tracked_def budget_def fun_eq_iff)
  have "steady s t \<and> (is_ok x \<longrightarrow> tracked s a \<in> {None, Some pid} \<longrightarrow> tracked t a = None)"
  proof (cases "\<not> c \<and> (\<exists>r. co_records s a = Some r \<and> ar_process r = Some pid)")
    case True
    then obtain r where r: "co_records s a = Some r" "ar_process r = Some pid" by blast
    define v where "v = u\<lparr>co_records := (co_records u)(a := Some (r\<lparr>ar_process := None\<rparr>))\<rparr>"
    have 1: "co_records v = (co_records s)(a := Some (r\<lparr>ar_process := None\<rparr>))"
      and 2: "co_trace v = co_trace s @ [EvForceStop pid AppShutdown, EvRunning pid False]"
      using re tr True by (auto simp: v_def)
    have "steady s v" "tracked v a = None"
      by (rule steady_forget [OF 1 r(1) 2]; use r in simp)+
    moreover from assms w u True r re have "run_state (status env a []) v = (x, t)"
      by (simp add: force_stop_def answer_def v_def)
    ultimately show ?thesis using run_status steady_trans steady_untracked by blast
  next
    case False
    show ?thesis
    proof (cases c)
      case True
      with assms w u su show ?thesis by (auto simp: force_stop_def answer_def)
    next
      case alive: False
      with False assms w u re have "run_state (status env a []) u = (x, t)"
        by (auto simp: force_stop_def answer_def split: option.splits if_splits)
      moreover have "tracked u a = None" if "tracked s a \<in> {None, Some pid}"
        using that alive False re by (auto simp: tracked_def bind_eq_Some_conv bind_eq_None_conv)
      ultimately show ?thesis using run_status su steady_trans steady_untracked by blast
    qed
  qed
  then show "steady s t" and "is_ok x \<Longrightarrow> tracked s a \<in> {None, Some pid} \<Longrightarrow> tracked t a = None" by auto
qed


lemma status_error: "run_state (status env a cs) s = (Inl e, t) \<Longrightarrow> \<exists>m. e = PayloadError m"
  by (auto simp: status_def observe_def payload_call_def run_attempt answer_def
      split: prod.splits sum.splits)

lemma stop_failed_pid:
  assumes "run_state (stop_tracked env a pid reason cs) s = (Inl (StopFailed b q), t)"
  shows "q = pid"
proof -
  obtain r1 s1 where s1: "run_state (status env a cs) s = (r1, s1)" by (cases "run_state (status env a cs) s")
  have "\<exists>st. r1 = Inr st \<and> as_state st = Running"
  proof (cases r1)
    case (Inl e)
    with s1 status_error obtain m where "e = PayloadError m" by blast
    with assms s1 Inl show ?thesis by (simp add: stop_tracked_def run_attempt)
  next
    case (Inr st)
    with assms s1 show ?thesis by (auto simp: stop_tracked_def run_attempt split: if_splits)
  qed
  then obtain st where st: "r1 = Inr st" "as_state st = Running" by blast
  obtain b' s2 where s2: "run_state (begin_op env a Running Stopping) s1 = (b', s2)"
    by (cases "run_state (begin_op env a Running Stopping) s1")
  have "is_ok b'" using run_begin(3) [OF s2] by (simp add: agent_legal_def)
  then obtain y where y: "b' = Inr y" by (cases b') auto
  obtain still s3 where s3: "run_state (stop_process env a pid reason) s2 = (still, s3)"
    by (cases "run_state (stop_process env a pid reason) s2")
  let ?dst = "if still then Broken else Ready"
  obtain f s4 where s4: "run_state (finish_op a Stopping ?dst) s3 = (f, s4)"
    by (cases "run_state (finish_op a Stopping ?dst) s3")
  have "is_ok f" using run_finish(2) [OF s4] by (simp add: agent_legal_def)
  then obtain z where z: "f = Inr z" by (cases f) auto
  show ?thesis
  proof (cases still)
    case True
    with assms s1 st s2 y s3 s4 z show ?thesis by (simp add: stop_tracked_def run_attempt)
  next
    case False
    with assms s1 st s2 y s3 s4 z have "run_state (status env a cs) s4 = (Inl (StopFailed b q), t)"
      by (simp add: stop_tracked_def run_attempt)
    with status_error show ?thesis by blast
  qed
qed

lemma run_shutdown_agent:
  assumes "run_state (shutdown_agent env a) s = (x, t)"
  shows "steady s t" and "is_ok x \<Longrightarrow> tracked t a = None"
proof -
  obtain r u where u: "run_state (stop_locked env a AppShutdown []) s = (r, u)"
    by (cases "run_state (stop_locked env a AppShutdown []) s")
  have su: "steady s u" by (rule st.moves_run [OF steady_stop u])
  have "steady s t \<and> (is_ok x \<longrightarrow> tracked t a = None)"
  proof (cases "\<exists>b pid. r = Inl (StopFailed b pid)")
    case True
    then obtain b pid where r: "r = Inl (StopFailed b pid)" by blast
    with assms u have f: "run_state (force_stop env a pid) u = (x, t)" by (simp add: shutdown_agent_def)
    obtain c v where v: "run_state (live_process env a) s = (c, v)" by (cases "run_state (live_process env a) s")
    note l = run_live_process [OF v]
    have "tracked u a \<in> {None, Some pid}"
    proof (cases c)
      case ProcessNone
      with u v r have "run_state (status env a []) v = (Inl (StopFailed b pid), u)"
        by (simp add: stop_locked_def)
      with status_error show ?thesis by blast
    next
      case (ProcessRunning q)
      with u v r have "run_state (stop_tracked env a q AppShutdown []) v = (Inl (StopFailed b pid), u)"
        by (simp add: stop_locked_def)
      from stop_failed_pid [OF this] have "q = pid" by simp
      with l(3) ProcessRunning have "tracked s a = Some pid" by simp
      moreover have "tracked u a = tracked s a \<or> tracked u a = None"
        using su by (rule steady_tracked)
      ultimately show ?thesis by auto
    qed
    with run_force_stop(2) [OF f] steady_trans [OF su run_force_stop(1) [OF f]] show ?thesis by blast
  next
    case False
    have xt: "x = r \<and> t = u"
    proof (cases r)
      case (Inl e)
      with assms u False show ?thesis by (cases e) (simp_all add: shutdown_agent_def)
    next
      case (Inr y)
      with assms u show ?thesis by (simp add: shutdown_agent_def)
    qed
    show ?thesis
    proof (cases r)
      case (Inl e)
      with xt su show ?thesis by simp
    next
      case (Inr y)
      with xt su u show ?thesis using run_stop_locked by simp
    qed
  qed
  then show "steady s t" and "is_ok x \<Longrightarrow> tracked t a = None" by auto
qed

lemma run_shutdown:
  assumes "run_state (shutdown env agents) s = (errors, t)"
  shows "steady s t \<and> card {a \<in> set agents. tracked t a \<noteq> None} \<le> length errors"
  using assms
proof (induction agents arbitrary: s errors)
  case Nil
  then show ?case by (simp add: steady_refl)
next
  case (Cons a agents)
  obtain x u where u: "run_state (shutdown_agent env a) s = (x, u)" by (cases "run_state (shutdown_agent env a) s")
  obtain es v where v: "run_state (shutdown env agents) u = (es, v)" by (cases "run_state (shutdown env agents) u")
  from Cons.prems u v have t: "t = v" and es: "errors = (case x of Inl e \<Rightarrow> e # es | Inr _ \<Rightarrow> es)" by auto
  note su = run_shutdown_agent [OF u]
  from Cons.IH v t have IH: "steady u t" "card {a \<in> set agents. tracked t a \<noteq> None} \<le> length es" by auto
  show ?case
  proof (cases x)
    case (Inl e)
    have "{b \<in> set (a # agents). tracked t b \<noteq> None} \<subseteq> insert a {b \<in> set agents. tracked t b \<noteq> None}" by auto
    then have "card {b \<in> set (a # agents). tracked t b \<noteq> None} \<le> Suc (card {b \<in> set agents. tracked t b \<noteq> None})"
      using card_mono [of "insert a {b \<in> set agents. tracked t b \<noteq> None}"
          "{b \<in> set (a # agents). tracked t b \<noteq> None}"]
        card_insert_le_m1 [of "Suc (card {b \<in> set agents. tracked t b \<noteq> None})"
          "{b \<in> set agents. tracked t b \<noteq> None}" a]
      by simp
    with IH su steady_trans es Inl show ?thesis by auto
  next
    case (Inr y)
    with su have "tracked u a = None" by simp
    with IH(1) have "tracked t a = None" by (rule steady_untracked)
    then have "{b \<in> set (a # agents). tracked t b \<noteq> None} = {b \<in> set agents. tracked t b \<noteq> None}" by auto
    with IH su steady_trans es Inr show ?thesis by auto
  qed
qed

text \<open>
  Shutting down accounts for every process: after it, each agent either has no process tracked
  any more or contributed an error to the list, so an empty list means nothing is left running;
  and on the way nothing was launched, no payload was removed, and a process was forgotten only
  after the supervisor answered that it is not running.
\<close>
theorem shutdown_accounts_for_every_process:
  assumes "run_state (shutdown env agents) s = (errors, t)"
  shows "card {a \<in> set agents. tracked t a \<noteq> None} \<le> length errors
    \<and> (errors = [] \<longrightarrow> (\<forall>a \<in> set agents. tracked t a = None))
    \<and> list_all is_quiet (events_since s t)
    \<and> (\<forall>a pid. tracked s a = Some pid \<longrightarrow> tracked t a \<noteq> Some pid
         \<longrightarrow> EvRunning pid False \<in> set (events_since s t))"
proof -
  from run_shutdown [OF assms] have st: "steady s t"
    and c: "card {a \<in> set agents. tracked t a \<noteq> None} \<le> length errors" by auto
  have "finite {a \<in> set agents. tracked t a \<noteq> None}" by simp
  with c have "errors = [] \<longrightarrow> (\<forall>a \<in> set agents. tracked t a = None)" by auto
  moreover from st obtain ev where e: "co_trace t = co_trace s @ ev" "list_all is_quiet ev"
    and f: "\<And>b. tracked t b = tracked s b
      \<or> tracked t b = None \<and> (\<exists>pid. tracked s b = Some pid \<and> EvRunning pid False \<in> set ev)"
    unfolding steady_def by blast
  moreover have "EvRunning pid False \<in> set ev" if "tracked s a = Some pid" "tracked t a \<noteq> Some pid" for a pid
    using f [of a] that by auto
  ultimately show ?thesis using c by (simp add: events_since_def)
qed

lemma small_shutdown:
  "fst (run_state (shutdown small_env [''a'']) running_agent) = []"
  by code_simp

theorem shutdown_accounts_for_every_process_witness:
  "tracked (snd (run_state (shutdown small_env [''a'']) running_agent)) ''a'' = None
   \<and> tracked running_agent ''a'' = Some 7"
proof -
  obtain errors t where t: "run_state (shutdown small_env [''a'']) running_agent = (errors, t)"
    by (cases "run_state (shutdown small_env [''a'']) running_agent")
  with small_shutdown have "errors = []" by simp
  with shutdown_accounts_for_every_process [OF t] t show ?thesis
    by (simp add: tracked_def running_agent_def)
qed

text \<open>Steps that only ask whether a process is running.\<close>

definition asks :: "'w coordinator \<Rightarrow> 'w coordinator \<Rightarrow> bool" where
  "asks s t \<longleftrightarrow>
     (\<exists>ev. co_trace t = co_trace s @ ev \<and> (\<forall>e \<in> set ev. \<exists>pid b. e = EvRunning pid b))"

lemma asks_trans: "asks s t \<Longrightarrow> asks t u \<Longrightarrow> asks s u"
  by (auto simp: asks_def)

interpretation ak: step_relation asks
  by unfold_locales (simp add: asks_def, fact asks_trans, simp add: asks_def)

lemma asks_live: "ak.moves (live_process env a)"
proof -
  have "ak.moves (log_event (EvRunning pid b))" for pid b by (simp add: ak.moves_def asks_def)
  then have r: "ak.moves (is_running env pid)" for pid
    unfolding is_running_def by (intro ak.moves_bind) auto
  have "ak.moves (put_record a r)" for r by (simp add: ak.moves_def asks_def)
  with r show ?thesis unfolding live_process_def
    by (intro ak.moves_bind ak.moves_get) (auto intro!: ak.moves_bind ak.moves_return split: option.split)
qed

lemma asks_status: "ak.moves (status env a cs)"
  unfolding status_def observe_def by (intro ak.moves_attempt ak.moves_bind asks_live) auto

lemma unreadable_status:
  assumes "\<And>a w. \<exists>e w'. env_status env a w = (Err e, w')"
  shows "\<exists>e t. run_state (status env a cs) s = (Err (PayloadError e), t)"
proof -
  obtain e w where "env_status env a (co_world s) = (Err e, w)" using assms by blast
  then show ?thesis by (simp add: status_def observe_def payload_call_def answer_def run_attempt)
qed

lemma unreadable_stop:
  assumes u: "\<And>a w. \<exists>e w'. env_status env a w = (Err e, w')"
  shows "\<exists>e t. run_state (stop_locked env a reason cs) s = (Err (PayloadError e), t) \<and> asks s t"
proof -
  obtain c s1 where s1: "run_state (live_process env a) s = (c, s1)"
    by (cases "run_state (live_process env a) s")
  obtain e t where t: "run_state (status env a cs) s1 = (Err (PayloadError e), t)"
    using unreadable_status [OF u] by blast
  have "asks s t" using ak.moves_run [OF asks_live s1] ak.moves_run [OF asks_status t] asks_trans by blast
  with s1 t show ?thesis by (cases c) (auto simp: stop_locked_def stop_tracked_def run_attempt)
qed

lemma unreadable_shutdown:
  assumes u: "\<And>a w. \<exists>e w'. env_status env a w = (Err e, w')"
  shows "asks s (snd (run_state (shutdown env agents) s))"
proof (induction agents arbitrary: s)
  case Nil
  then show ?case by (simp add: asks_def)
next
  case (Cons a agents)
  obtain e t where t: "run_state (stop_locked env a AppShutdown []) s = (Err (PayloadError e), t)"
    and st: "asks s t" using unreadable_stop [OF u] by blast
  then have "run_state (shutdown_agent env a) s = (Err (PayloadError e), t)"
    by (simp add: shutdown_agent_def)
  then show ?case using asks_trans [OF st Cons.IH [of t]] by (auto split: prod.splits)
qed

text \<open>
  C38. A payload store that cannot be read keeps shutdown from stopping anything: when every status
  query of the store fails, shutdown asks no process to stop, gently or by force; it only asks
  whether the tracked processes are running, and leaves them so.
\<close>
theorem unreadable_store_blocks_shutdown:
  assumes "\<And>a w. \<exists>e w'. env_status env a w = (Err e, w')"
  shows "\<forall>e \<in> set (events_since s (snd (run_state (shutdown env agents) s))).
           \<exists>pid b. e = EvRunning pid b"
  using unreadable_shutdown [OF assms, of s agents] by (auto simp: asks_def events_since_def)

definition unreadable_env :: "(bool \<times> bool) environment" where
  "unreadable_env = small_env\<lparr>env_status := (\<lambda>a w. (Err ''permission denied'', w))\<rparr>"

lemma unreadable_events:
  "events_since running_agent (snd (run_state (shutdown unreadable_env [''a'']) running_agent))
     = [EvRunning 7 True]"
  by code_simp

theorem unreadable_store_blocks_shutdown_witness:
  "events_since running_agent (snd (run_state (shutdown unreadable_env [''a'']) running_agent))
     = [EvRunning 7 True] \<and> (\<exists>pid b. EvRunning 7 True = EvRunning pid b)"
proof -
  have "\<exists>e w'. env_status unreadable_env a w = (Err e, w')" for a w by (simp add: unreadable_env_def)
  from unreadable_store_blocks_shutdown [OF this, of running_agent "[''a'']"]
  have "\<exists>pid b. EvRunning 7 True = EvRunning pid b" unfolding unreadable_events by simp
  with unreadable_events show ?thesis by blast
qed

end
