(* ===== verification/Secret_Interception.thy ===== *)
theory Secret_Interception
  imports Rust_Prelude
begin

text \<open>
  Credential redaction (\<open>bridge-core/src/secret_interception.rs\<close>): the matches of all detectors
  are sorted, overlapping ones are dropped, and every kept span is replaced by an opaque
  reference. Parameters: \<open>find_secrets p text\<close>, the spans the regular expression \<open>p\<close> captures as
  \<open>secret\<close> in \<open>text\<close>, in order, and \<open>uuid n\<close>, the \<open>n\<close>-th random identifier drawn.
\<close>

text \<open>Backslash, and the two quotation marks.\<close>

definition bs :: string where "bs = [CHR 0x5C]"
definition quote_marks :: string where "quote_marks = [CHR 0x22, CHR 0x27]"

definition detectors :: "(string \<times> string) list" where
  "detectors =
     [(''private_key'', ''(?s)(?P<secret>-----BEGIN (?:RSA |EC |OPENSSH |DSA )?PRIVATE KEY-----.*?-----END (?:RSA |EC |OPENSSH |DSA )?PRIVATE KEY-----)''),
      (''github'', ''(?:^|[^A-Za-z0-9])(?P<secret>(?:github_pat_[A-Za-z0-9_]{20,255}|gh[pousr]_[A-Za-z0-9]{36,255}))''),
      (''slack'', ''(?:^|[^A-Za-z0-9])(?P<secret>xox[baprs]-[A-Za-z0-9-]{10,255})''),
      (''anthropic'', ''(?:^|[^A-Za-z0-9])(?P<secret>sk-ant-[A-Za-z0-9_-]{20,255})''),
      (''openai'', ''(?:^|[^A-Za-z0-9])(?P<secret>sk-(?:proj-)?[A-Za-z0-9_-]{20,255})''),
      (''notion'', ''(?:^|[^A-Za-z0-9])(?P<secret>secret_[A-Za-z0-9]{20,255})''),
      (''aws_access_key'', ''(?:^|[^A-Z0-9])(?P<secret>(?:AKIA|ASIA)[A-Z0-9]{16})(?:$|[^A-Z0-9])''),
      (''bearer'', ''(?i)'' @ bs @ ''bbearer[ '' @ bs @ ''t]+(?P<secret>[A-Za-z0-9._~+/=-]{16,2048})''),
      (''jwt'', ''(?:^|[^A-Za-z0-9_-])(?P<secret>[A-Za-z0-9_-]{10,}'' @ bs @ ''.[A-Za-z0-9_-]{10,}'' @ bs @ ''.[A-Za-z0-9_-]{10,})(?:$|[^A-Za-z0-9_-])''),
      (''credential_assignment'', ''(?x)'' @ bs @ ''b(?:(?:[A-Z0-9_]*(?:API[_-]?KEY|TOKEN|SECRET|PASSWORD|CREDENTIAL)[A-Z0-9_]*)|(?:[a-z0-9_]*(?:api[_-]?key|access[_-]?token|auth[_-]?token|client[_-]?secret|password|credential))|(?:[a-z0-9_]+(?:token|secret)))'' @ bs @ ''s*[:=]'' @ bs @ ''s*['' @ quote_marks @ '']?(?P<secret>[A-Za-z0-9._~+/=-]{12,2048})['' @ quote_marks @ '']?'')]"

record secret_match =
  sm_start :: nat
  sm_end :: nat
  sm_detector :: string

type_synonym matcher = "string \<Rightarrow> string \<Rightarrow> (nat \<times> nat) list"

definition all_matches :: "matcher \<Rightarrow> string \<Rightarrow> secret_match list" where
  "all_matches find_secrets msg =
     concat (map (\<lambda>(d, pattern).
         map (\<lambda>(a, b). \<lparr>sm_start = a, sm_end = b, sm_detector = d\<rparr>) (find_secrets pattern msg))
       detectors)"

text \<open>A stable sort by start, the later end first among equal starts.\<close>

definition sort_matches :: "secret_match list \<Rightarrow> secret_match list" where
  "sort_matches ms = sort_key sm_start (sort_key (\<lambda>m. - int (sm_end m)) ms)"

text \<open>\<open>last_end\<close> is where the last kept match ends.\<close>

fun select_matches :: "nat option \<Rightarrow> secret_match list \<Rightarrow> secret_match list" where
  "select_matches last_end [] = []"
| "select_matches last_end (m # ms) =
     (if (case last_end of None \<Rightarrow> False | Some e \<Rightarrow> sm_start m < e)
      then select_matches last_end ms
      else m # select_matches (Some (sm_end m)) ms)"

type_synonym secret_references = "(string \<times> (string \<times> string)) list"

definition slice :: "nat \<Rightarrow> nat \<Rightarrow> string \<Rightarrow> string" where
  "slice a b s = take (b - a) (drop a s)"

definition secret_entry ::
    "(nat \<Rightarrow> string) \<Rightarrow> secret_references \<Rightarrow> string \<Rightarrow> string \<Rightarrow> secret_references" where
  "secret_entry uuid refs val detector =
     (if map_of refs val = None
      then refs @ [(val, (''sec_'' @ uuid (length refs), detector))] else refs)"

definition reference_of :: "secret_references \<Rightarrow> string \<Rightarrow> string" where
  "reference_of refs val = (case map_of refs val of None \<Rightarrow> [] | Some (r, _) \<Rightarrow> r)"

definition placeholder :: "string \<Rightarrow> string" where
  "placeholder reference = ''[secret:'' @ reference @ '']''"

fun replace_matches ::
    "(nat \<Rightarrow> string) \<Rightarrow> string \<Rightarrow> nat \<Rightarrow> secret_references \<Rightarrow> secret_match list
      \<Rightarrow> string \<times> secret_references" where
  "replace_matches uuid msg cursor refs [] = (drop cursor msg, refs)"
| "replace_matches uuid msg cursor refs (m # ms) =
     (let val = slice (sm_start m) (sm_end m) msg;
          refs' = secret_entry uuid refs val (sm_detector m);
          (rest, refs'') = replace_matches uuid msg (sm_end m) refs' ms in
      (slice cursor (sm_start m) msg @ placeholder (reference_of refs' val) @ rest, refs''))"

record secret_interception =
  si_reference :: string
  si_detector :: string

record sanitized_turn =
  sn_text :: string
  sn_interceptions :: "secret_interception list"

record captured_secret =
  cs_reference :: string
  cs_detector :: string
  cs_value :: string

record intercepted_turn =
  it_sanitized :: sanitized_turn
  it_captured :: "captured_secret list"

definition selected_matches :: "matcher \<Rightarrow> string \<Rightarrow> secret_match list" where
  "selected_matches find_secrets msg = select_matches None (sort_matches (all_matches find_secrets msg))"

text \<open>The captures come in the order of a hash map; here it is the order of insertion.\<close>

definition intercept :: "matcher \<Rightarrow> (nat \<Rightarrow> string) \<Rightarrow> string \<Rightarrow> intercepted_turn" where
  "intercept find_secrets uuid msg =
     (if all_matches find_secrets msg = []
      then \<lparr>it_sanitized = \<lparr>sn_text = msg, sn_interceptions = []\<rparr>, it_captured = []\<rparr>
      else let (out, refs) = replace_matches uuid msg 0 [] (selected_matches find_secrets msg) in
        \<lparr>it_sanitized =
           \<lparr>sn_text = out,
            sn_interceptions = sort_key si_reference
              (map (\<lambda>(v, r, d). \<lparr>si_reference = r, si_detector = d\<rparr>) refs)\<rparr>,
         it_captured = map (\<lambda>(v, r, d). \<lparr>cs_reference = r, cs_detector = d, cs_value = v\<rparr>) refs\<rparr>)"

definition sanitize :: "matcher \<Rightarrow> (nat \<Rightarrow> string) \<Rightarrow> string \<Rightarrow> sanitized_turn" where
  "sanitize find_secrets uuid msg = it_sanitized (intercept find_secrets uuid msg)"

section \<open>Which spans are replaced\<close>

text \<open>Sorted matches, chosen left to right.\<close>

fun apart :: "secret_match list \<Rightarrow> bool" where
  "apart [] = True"
| "apart [m] = True"
| "apart (m # n # ms) \<longleftrightarrow> sm_end m \<le> sm_start n \<and> apart (n # ms)"

definition from_end :: "nat option \<Rightarrow> nat" where
  "from_end e = (case e of None \<Rightarrow> 0 | Some n \<Rightarrow> n)"

lemma select_matches_apart:
  "apart (select_matches e ms) \<and>
     (select_matches e ms \<noteq> [] \<longrightarrow> from_end e \<le> sm_start (hd (select_matches e ms)))"
proof (induction e ms rule: select_matches.induct)
  case (2 e m ms)
  show ?case
  proof (cases "case e of None \<Rightarrow> False | Some n \<Rightarrow> sm_start m < n")
    case True
    with 2(1) show ?thesis by simp
  next
    case False
    have "from_end e \<le> sm_start m" using False by (cases e) (auto simp: from_end_def)
    with False 2(2) show ?thesis
      by (cases "select_matches (Some (sm_end m)) ms") (auto simp: from_end_def)
  qed
qed simp

lemma select_matches_subset: "set (select_matches e ms) \<subseteq> set ms"
  by (induction e ms rule: select_matches.induct) auto

text \<open>Every match starts inside a kept span, or before the last span already kept ends.\<close>

lemma select_matches_start:
  assumes "sorted (map sm_start ms)" and "\<forall>m \<in> set ms. sm_start m < sm_end m" and "m \<in> set ms"
  shows "sm_start m < from_end e
    \<or> (\<exists>k \<in> set (select_matches e ms). sm_start k \<le> sm_start m \<and> sm_start m < sm_end k)"
  using assms
proof (induction e ms rule: select_matches.induct)
  case (2 e k ms)
  show ?case
  proof (cases "case e of None \<Rightarrow> False | Some n \<Rightarrow> sm_start k < n")
    case True
    then have "sm_start k < from_end e" by (cases e) (auto simp: from_end_def)
    with True 2 show ?thesis by (cases "m = k") auto
  next
    case False
    show ?thesis
    proof (cases "m = k")
      case True
      with False 2(4) show ?thesis by auto
    next
      case neq: False
      with 2(5) have m: "m \<in> set ms" by simp
      with 2(3) have le: "sm_start k \<le> sm_start m" by auto
      from 2(2) [OF False] 2(3,4) m have "sm_start m < sm_end k
        \<or> (\<exists>k \<in> set (select_matches (Some (sm_end k)) ms). sm_start k \<le> sm_start m \<and> sm_start m < sm_end k)"
        by (auto simp: from_end_def)
      with le False show ?thesis by auto
    qed
  qed
qed simp

lemma sort_matches_sorted: "sorted (map sm_start (sort_matches ms))"
  by (simp add: sort_matches_def)

lemma set_sort_matches [simp]: "set (sort_matches ms) = set ms"
  by (simp add: sort_matches_def)

section \<open>What the redacted text is\<close>

text \<open>A redacted message in pieces: text kept, and secrets with the reference that stands for them.\<close>

datatype piece = Kept string | Hidden string string

fun shown :: "piece \<Rightarrow> string" where
  "shown (Kept t) = t"
| "shown (Hidden val reference) = placeholder reference"

fun original :: "piece \<Rightarrow> string" where
  "original (Kept t) = t"
| "original (Hidden val reference) = val"

definition well_numbered :: "(nat \<Rightarrow> string) \<Rightarrow> secret_references \<Rightarrow> bool" where
  "well_numbered uuid refs \<longleftrightarrow> distinct (map fst refs)
     \<and> map (\<lambda>x. fst (snd x)) refs = map (\<lambda>n. ''sec_'' @ uuid n) [0..<length refs]"

lemma secret_entry_numbered: "well_numbered uuid refs \<Longrightarrow> well_numbered uuid (secret_entry uuid refs v d)"
  by (auto simp: well_numbered_def secret_entry_def map_of_eq_None_iff image_iff)

lemma secret_entry_extends: "\<exists>added. secret_entry uuid refs v d = refs @ added"
  by (auto simp: secret_entry_def)

lemma secret_entry_has: "\<exists>r d'. map_of (secret_entry uuid refs v d) v = Some (r, d')"
  by (cases "map_of refs v") (auto simp: secret_entry_def map_add_def)

lemma map_of_extends: "map_of refs v = Some x \<Longrightarrow> map_of (refs @ added) v = Some x"
  by (simp add: map_add_def split: option.splits)

lemma replace_matches_refs:
  "replace_matches uuid msg cursor refs ms = (out, refs') \<Longrightarrow>
     (\<exists>added. refs' = refs @ added) \<and> (well_numbered uuid refs \<longrightarrow> well_numbered uuid refs')"
proof (induction ms arbitrary: cursor refs out refs')
  case (Cons m ms)
  let ?v = "slice (sm_start m) (sm_end m) msg"
  let ?r1 = "secret_entry uuid refs ?v (sm_detector m)"
  obtain rest where r: "replace_matches uuid msg (sm_end m) ?r1 ms = (rest, refs')"
    using Cons.prems by (auto simp: Let_def split: prod.splits)
  from Cons.IH [OF r] secret_entry_extends [of uuid refs ?v "sm_detector m"]
    secret_entry_numbered [of uuid refs ?v "sm_detector m"]
  show ?case by auto
qed auto

fun in_bounds :: "nat \<Rightarrow> nat \<Rightarrow> secret_match list \<Rightarrow> bool" where
  "in_bounds n cursor [] \<longleftrightarrow> cursor \<le> n"
| "in_bounds n cursor (m # ms) \<longleftrightarrow>
     cursor \<le> sm_start m \<and> sm_start m < sm_end m \<and> sm_end m \<le> n \<and> in_bounds n (sm_end m) ms"

lemma slice_append: "a \<le> b \<Longrightarrow> slice a b s @ drop b s = drop a s"
  by (simp add: slice_def) (metis add.commute append_take_drop_id drop_drop le_add_diff_inverse2)

lemma replace_matches_pieces:
  assumes "replace_matches uuid msg cursor refs ms = (out, refs')"
    and "in_bounds (length msg) cursor ms"
  shows "\<exists>ps. out = concat (map shown ps) \<and> drop cursor msg = concat (map original ps)
    \<and> (\<forall>v r. Hidden v r \<in> set ps \<longrightarrow> (\<exists>d. map_of refs' v = Some (r, d)))
    \<and> map original (filter (\<lambda>p. \<exists>v r. p = Hidden v r) ps)
        = map (\<lambda>m. slice (sm_start m) (sm_end m) msg) ms"
  using assms
proof (induction ms arbitrary: cursor refs out)
  case Nil
  then show ?case by (intro exI [of _ "[Kept (drop cursor msg)]"]) auto
next
  case (Cons m ms)
  let ?v = "slice (sm_start m) (sm_end m) msg"
  let ?r1 = "secret_entry uuid refs ?v (sm_detector m)"
  obtain rest where r: "replace_matches uuid msg (sm_end m) ?r1 ms = (rest, refs')"
    and out: "out = slice cursor (sm_start m) msg @ placeholder (reference_of ?r1 ?v) @ rest"
    using Cons.prems by (auto simp: Let_def split: prod.splits)
  from Cons.IH [OF r] Cons.prems(2) obtain ps where ps: "rest = concat (map shown ps)"
    "drop (sm_end m) msg = concat (map original ps)"
    "\<forall>v r. Hidden v r \<in> set ps \<longrightarrow> (\<exists>d. map_of refs' v = Some (r, d))"
    "map original (filter (\<lambda>p. \<exists>v r. p = Hidden v r) ps) = map (\<lambda>m. slice (sm_start m) (sm_end m) msg) ms"
    by auto
  obtain ref d where ref: "map_of ?r1 ?v = Some (ref, d)" using secret_entry_has by blast
  obtain added where "refs' = ?r1 @ added" using replace_matches_refs [OF r] by blast
  with map_of_extends [OF ref] have ref': "map_of refs' ?v = Some (ref, d)" by simp
  have "drop cursor msg = slice cursor (sm_start m) msg @ ?v @ drop (sm_end m) msg"
    using Cons.prems(2) slice_append [of cursor "sm_start m" msg] slice_append [of "sm_start m" "sm_end m" msg]
    by simp
  with ps out ref ref' show ?case
    by (intro exI [of _ "Kept (slice cursor (sm_start m) msg) # Hidden ?v ref # ps"])
      (auto simp: reference_of_def)
qed

definition spans_valid :: "matcher \<Rightarrow> string \<Rightarrow> bool" where
  "spans_valid find_secrets msg \<longleftrightarrow>
     (\<forall>(d, pattern) \<in> set detectors. \<forall>(a, b) \<in> set (find_secrets pattern msg).
        a < b \<and> b \<le> length msg)"

lemma all_matches_valid:
  "spans_valid find_secrets msg \<Longrightarrow> m \<in> set (all_matches find_secrets msg) \<Longrightarrow>
     sm_start m < sm_end m \<and> sm_end m \<le> length msg"
  by (fastforce simp: spans_valid_def all_matches_def)

lemma apart_in_bounds:
  "apart ms \<Longrightarrow> (ms \<noteq> [] \<longrightarrow> cursor \<le> sm_start (hd ms)) \<Longrightarrow> cursor \<le> n \<Longrightarrow>
     \<forall>m \<in> set ms. sm_start m < sm_end m \<and> sm_end m \<le> n \<Longrightarrow> in_bounds n cursor ms"
proof (induction ms arbitrary: cursor rule: apart.induct)
  case (3 m k ms)
  then show ?case by auto
qed auto

lemma selected_in_bounds:
  assumes "spans_valid find_secrets msg"
  shows "in_bounds (length msg) 0 (selected_matches find_secrets msg)"
proof -
  have "set (selected_matches find_secrets msg) \<subseteq> set (all_matches find_secrets msg)"
    unfolding selected_matches_def using select_matches_subset set_sort_matches by blast
  with all_matches_valid [OF assms] have v: "\<forall>m \<in> set (selected_matches find_secrets msg).
      sm_start m < sm_end m \<and> sm_end m \<le> length msg" by blast
  have "apart (selected_matches find_secrets msg)"
    unfolding selected_matches_def using select_matches_apart by blast
  then show ?thesis by (rule apart_in_bounds) (use v in auto)
qed

lemma numbered_injective:
  assumes "well_numbered uuid refs" and "inj uuid"
  shows "distinct (map (\<lambda>x. fst (snd x)) refs)"
  using assms by (auto simp: well_numbered_def distinct_map inj_on_def)

lemma intercept_cases:
  assumes "replace_matches uuid msg 0 [] (selected_matches find_secrets msg) = (out, refs)"
  shows "sn_text (sanitize find_secrets uuid msg) = out"
    and "it_captured (intercept find_secrets uuid msg)
      = map (\<lambda>(v, r, d). \<lparr>cs_reference = r, cs_detector = d, cs_value = v\<rparr>) refs"
proof -
  have "all_matches find_secrets msg = [] \<Longrightarrow> out = msg \<and> refs = []"
    using assms by (auto simp: selected_matches_def sort_matches_def)
  with assms show "sn_text (sanitize find_secrets uuid msg) = out"
    and "it_captured (intercept find_secrets uuid msg)
      = map (\<lambda>(v, r, d). \<lparr>cs_reference = r, cs_detector = d, cs_value = v\<rparr>) refs"
    by (auto simp: sanitize_def intercept_def split: prod.splits)
qed

text \<open>
  Redaction can be undone by the holder of the captures and by nobody else: the redacted text
  is the message with some secrets replaced by placeholders, substituting the captured values for
  the placeholders gives the message back, the references of different secrets differ, and every
  secret any detector matched begins inside a replaced stretch.
\<close>
theorem redaction_round_trip:
  assumes "spans_valid find_secrets msg" and "inj uuid"
  shows "\<exists>ps. sn_text (sanitize find_secrets uuid msg) = concat (map shown ps)
    \<and> msg = concat (map original ps)
    \<and> (\<forall>v r. Hidden v r \<in> set ps \<longrightarrow>
         (\<exists>c \<in> set (it_captured (intercept find_secrets uuid msg)). cs_value c = v \<and> cs_reference c = r))
    \<and> map original (filter (\<lambda>p. \<exists>v r. p = Hidden v r) ps)
        = map (\<lambda>m. slice (sm_start m) (sm_end m) msg) (selected_matches find_secrets msg)
    \<and> distinct (map cs_reference (it_captured (intercept find_secrets uuid msg)))
    \<and> (\<forall>m \<in> set (all_matches find_secrets msg). \<exists>k \<in> set (selected_matches find_secrets msg).
         sm_start k \<le> sm_start m \<and> sm_start m < sm_end k)"
proof -
  obtain out refs where r: "replace_matches uuid msg 0 [] (selected_matches find_secrets msg) = (out, refs)"
    by fastforce
  note i = intercept_cases [OF r]
  obtain ps where ps: "out = concat (map shown ps)" "drop 0 msg = concat (map original ps)"
    "\<forall>v r. Hidden v r \<in> set ps \<longrightarrow> (\<exists>d. map_of refs v = Some (r, d))"
    "map original (filter (\<lambda>p. \<exists>v r. p = Hidden v r) ps)
      = map (\<lambda>m. slice (sm_start m) (sm_end m) msg) (selected_matches find_secrets msg)"
    using replace_matches_pieces [OF r selected_in_bounds [OF assms(1)]] by blast
  have "well_numbered uuid refs"
    using replace_matches_refs [OF r] by (simp add: well_numbered_def)
  then have d: "distinct (map cs_reference (it_captured (intercept find_secrets uuid msg)))"
    using numbered_injective [OF _ assms(2)] unfolding i(2) by (simp add: comp_def case_prod_beta)
  have c: "\<exists>c \<in> set (it_captured (intercept find_secrets uuid msg)). cs_value c = v \<and> cs_reference c = r"
    if "Hidden v r \<in> set ps" for v r
  proof -
    from that ps(3) obtain d where "map_of refs v = Some (r, d)" by blast
    then have "(v, r, d) \<in> set refs" by (rule map_of_SomeD)
    then show ?thesis unfolding i(2) by force
  qed
  have s: "\<exists>k \<in> set (selected_matches find_secrets msg). sm_start k \<le> sm_start m \<and> sm_start m < sm_end k"
    if "m \<in> set (all_matches find_secrets msg)" for m
    using select_matches_start [OF sort_matches_sorted, of "all_matches find_secrets msg" m None]
      all_matches_valid [OF assms(1)] that
    by (auto simp: selected_matches_def from_end_def)
  from ps i(1) d c s show ?thesis by (intro exI [of _ ps]) auto
qed

text \<open>
  A token followed by a key: \<open>find_two\<close> is what the \<open>github\<close> and \<open>openai\<close> expressions match in
  \<open>leaky_message\<close>.
\<close>

definition leaky_message :: string where
  "leaky_message = ''github_pat_aaaaaaaaaaaaaaaaaaaa_sk-bbbbbbbbbbbbbbbbbbbbbbbb''"

definition pattern_of :: "string \<Rightarrow> string" where
  "pattern_of d = (case map_of detectors d of None \<Rightarrow> [] | Some pattern \<Rightarrow> pattern)"

definition find_two :: matcher where
  "find_two pattern msg =
     (if msg \<noteq> leaky_message then []
      else if pattern = pattern_of ''github'' then [(0, 34)]
      else if pattern = pattern_of ''openai'' then [(32, 59)] else [])"

definition tally :: "nat \<Rightarrow> string" where "tally n = replicate n (CHR ''x'')"

lemma leaky_text: "sn_text (sanitize find_two tally leaky_message) = ''[secret:sec_]-bbbbbbbbbbbbbbbbbbbbbbbb''"
  by code_simp

lemma tally_inj: "inj tally"
  by (auto simp: inj_def tally_def)

lemma find_two_valid: "spans_valid find_two leaky_message"
  by code_simp

theorem redaction_round_trip_witness:
  "\<exists>ps. ''[secret:sec_]-bbbbbbbbbbbbbbbbbbbbbbbb'' = concat (map shown ps)
     \<and> leaky_message = concat (map original ps)"
  using redaction_round_trip [OF find_two_valid tally_inj] unfolding leaky_text by blast

text \<open>What follows a replaced match stands in clear up to the next one.\<close>

lemma slice_split: "a \<le> b \<Longrightarrow> b \<le> c \<Longrightarrow> slice a c s = slice a b s @ slice b c s"
proof -
  assume "a \<le> b" "b \<le> c"
  then have "c - a = (b - a) + (c - b)" "b - a + a = b" by simp_all
  then show ?thesis by (simp only: slice_def take_add drop_drop)
qed

lemma replace_matches_clear:
  assumes "replace_matches uuid msg cursor refs ms = (out, refs')" "in_bounds (length msg) cursor ms"
    and "k \<in> set ms" "sm_end k \<le> e" "\<forall>n \<in> set ms. sm_end k \<le> sm_start n \<longrightarrow> e \<le> sm_start n"
  shows "\<exists>before r after. out = before @ placeholder r @ slice (sm_end k) e msg @ after"
  using assms
proof (induction ms arbitrary: cursor refs out)
  case (Cons m ms)
  let ?v = "slice (sm_start m) (sm_end m) msg"
  let ?r1 = "secret_entry uuid refs ?v (sm_detector m)"
  obtain rest where r: "replace_matches uuid msg (sm_end m) ?r1 ms = (rest, refs')"
    and out: "out = slice cursor (sm_start m) msg @ placeholder (reference_of ?r1 ?v) @ rest"
    using Cons.prems by (auto simp: Let_def split: prod.splits)
  show ?case
  proof (cases "k = m")
    case True
    have "\<exists>after. rest = slice (sm_end k) e msg @ after"
    proof (cases ms)
      case Nil
      then show ?thesis using r True slice_append [OF Cons.prems(4), of msg] by (metis replace_matches.simps(1) prod.inject)
    next
      case (Cons n ns)
      with Cons.prems(2,5) True have "e \<le> sm_start n" by simp
      with r Cons True slice_split [OF Cons.prems(4) this, of msg] show ?thesis
        by (auto simp: Let_def split: prod.splits)
    qed
    with out show ?thesis by blast
  next
    case False
    with Cons.IH [OF r] Cons.prems obtain before q after
      where "rest = before @ placeholder q @ slice (sm_end k) e msg @ after" by auto
    then have "out = (slice cursor (sm_start m) msg @ placeholder (reference_of ?r1 ?v) @ before)
        @ placeholder q @ slice (sm_end k) e msg @ after" using out by simp
    then show ?thesis by blast
  qed
qed simp

text \<open>
  C39. Overlapping detections leak: of a detected secret that starts in a replaced one and ends after
  it, the redacted text shows, right after the placeholder, the characters from the end of the replaced
  one to any \<open>e\<close> up to the secret's end before which no other replaced match starts.
\<close>
theorem overlapping_secret_leaks:
  assumes "spans_valid find_secrets msg" "k \<in> set (selected_matches find_secrets msg)"
    and "m \<in> set (all_matches find_secrets msg)"
    and "sm_start k \<le> sm_start m" "sm_start m < sm_end k" "sm_end k \<le> e" "e \<le> sm_end m"
    and "\<forall>n \<in> set (selected_matches find_secrets msg). sm_end k \<le> sm_start n \<longrightarrow> e \<le> sm_start n"
  shows "\<exists>before r after head tail.
      sn_text (sanitize find_secrets uuid msg) = before @ placeholder r @ slice (sm_end k) e msg @ after
      \<and> slice (sm_start m) (sm_end m) msg = head @ slice (sm_end k) e msg @ tail"
proof -
  obtain out refs where r: "replace_matches uuid msg 0 [] (selected_matches find_secrets msg) = (out, refs)"
    by fastforce
  obtain before q after where "out = before @ placeholder q @ slice (sm_end k) e msg @ after"
    using replace_matches_clear [OF r selected_in_bounds [OF assms(1)] assms(2,6,8)] by blast
  moreover have "slice (sm_start m) (sm_end m) msg
      = slice (sm_start m) (sm_end k) msg @ slice (sm_end k) e msg @ slice e (sm_end m) msg"
    using assms(5-7) slice_split [of "sm_start m" "sm_end k" "sm_end m" msg] slice_split [of "sm_end k" e "sm_end m" msg]
    by simp
  ultimately show ?thesis unfolding intercept_cases(1) [OF r] by blast
qed

text \<open>All but two characters of the key of the message above are left.\<close>

theorem overlapping_secret_leaks_witness:
  "slice 32 59 leaky_message = ''sk-bbbbbbbbbbbbbbbbbbbbbbbb''
   \<and> (\<exists>before r after. sn_text (sanitize find_two tally leaky_message)
        = before @ placeholder r @ ''-bbbbbbbbbbbbbbbbbbbbbbbb'' @ after)"
proof -
  let ?k = "\<lparr>sm_start = 0, sm_end = 34, sm_detector = ''github''\<rparr>"
  let ?m = "\<lparr>sm_start = 32, sm_end = 59, sm_detector = ''openai''\<rparr>"
  have k: "selected_matches find_two leaky_message = [?k]" by code_simp
  have m: "list_ex (\<lambda>m. m = ?m) (all_matches find_two leaky_message)" by code_simp
  have s: "slice 34 59 leaky_message = ''-bbbbbbbbbbbbbbbbbbbbbbbb''"
    "slice 32 59 leaky_message = ''sk-bbbbbbbbbbbbbbbbbbbbbbbb''" by code_simp+
  have "?k \<in> set (selected_matches find_two leaky_message)" "?m \<in> set (all_matches find_two leaky_message)"
    using k m by (auto simp: list_ex_iff)
  from overlapping_secret_leaks [OF find_two_valid this, of 59 tally] k s show ?thesis by auto
qed

end
