(* ===== verification/Briefing_Policy.thy ===== *)
theory Briefing_Policy
  imports Delegation "HOL-Library.Product_Lexorder"
begin

text \<open>
  What a briefing run may touch (\<open>bridge-core/src/briefing_policy.rs\<close>): the three ways to compile
  an authority and the decision on one tool call, the certification of an adapter, and the guard
  that counts a run's turns, calls and output. \<open>u\<close> is the Unicode half of \<open>to_lowercase\<close>.
\<close>

section \<open>Numbers in messages\<close>

definition dec_int :: "int \<Rightarrow> string" where
  "dec_int n = (if n < 0 then ''-'' @ dec (nat (- n)) else dec (nat n))"

definition quoted :: "string \<Rightarrow> string" where "quoted s = ''`'' @ s @ ''`''"

section \<open>Vocabulary\<close>

record denied_family =
  df_family :: string
  df_identities :: "string list"
  df_aliases :: "string list"

definition denied_builtin_families :: "denied_family list" where
  "denied_builtin_families =
     [\<lparr>df_family = ''filesystem'',
       df_identities = [''Read'', ''Write'', ''Edit'', ''MultiEdit'', ''NotebookEdit'', ''Glob'', ''LS''],
       df_aliases = []\<rparr>,
      \<lparr>df_family = ''search'', df_identities = [''Grep''], df_aliases = [''rg'', ''ripgrep'']\<rparr>,
      \<lparr>df_family = ''shell'', df_identities = [''Bash'', ''BashOutput'', ''KillShell''],
       df_aliases = [''sh'', ''zsh'', ''shell'', ''exec'', ''execute'', ''run'']\<rparr>,
      \<lparr>df_family = ''web'', df_identities = [''WebFetch'', ''WebSearch''],
       df_aliases = [''fetch'', ''browse'', ''browser'']\<rparr>,
      \<lparr>df_family = ''skill'', df_identities = [''Skill'', ''SlashCommand''], df_aliases = []\<rparr>,
      \<lparr>df_family = ''subagent'', df_identities = [''Task''],
       df_aliases = [''agent'', ''spawn'', ''delegate'']\<rparr>,
      \<lparr>df_family = ''computer_use'', df_identities = [],
       df_aliases = [''computer'', ''screenshot'', ''mouse'', ''keyboard'']\<rparr>]"

record tool_identity =
  ti_server :: string
  ti_tool :: string

definition wire_name :: "tool_identity \<Rightarrow> string" where
  "wire_name i = ''mcp__'' @ ti_server i @ ''__'' @ ti_tool i"

record brief_limits =
  bl_max_wall_seconds :: int
  bl_max_turns :: int
  bl_max_tool_calls :: int
  bl_max_output_tokens :: "int option"
  bl_cost_ceiling_microusd :: "int option"

datatype briefing_unsupported =
    UnknownAdapter string
  | AdapterCannotEnforce string string
  | UncertifiedProviderVersion string string string
  | UnrecognizedPermissionRepresentation string string
  | AmbiguousToolNames string
  | ToolListDrift string string
  | MalformedPolicy string
  | WritableWorkspaceRequested string

fun unsupported_reason :: "briefing_unsupported \<Rightarrow> string" where
  "unsupported_reason (UnknownAdapter a) =
     quoted a @ '' has no built-in briefing contract, so it cannot be trusted with one''"
| "unsupported_reason (AdapterCannotEnforce a r) =
     quoted a @ '' cannot enforce briefing authority: '' @ r"
| "unsupported_reason (UncertifiedProviderVersion a f c) =
     quoted a @ '' reports version '' @ quoted f @ '', but the conformance suite certified '' @ quoted c"
| "unsupported_reason (UnrecognizedPermissionRepresentation a d) =
     quoted a @ '' described its permissions in a shape Bridge does not recognize: '' @ d"
| "unsupported_reason (AmbiguousToolNames n) =
     ''two reviewed tools both present as '' @ quoted n @ '', so neither can be matched exactly''"
| "unsupported_reason (ToolListDrift e p) =
     ''the provider presented a different tool list than the policy was compiled against (expected ''
     @ e @ '', got '' @ p @ '')''"
| "unsupported_reason (MalformedPolicy d) = ''the briefing policy is not usable: '' @ d"
| "unsupported_reason (WritableWorkspaceRequested m) =
     ''briefing was requested alongside write mode '' @ quoted m
     @ '', which would give it a writable tree''"

datatype briefing_denial =
    BuiltInFamily string string
  | NotReviewed string
  | ArgumentsTooLarge string nat nat

fun denial_reason :: "briefing_denial \<Rightarrow> string" where
  "denial_reason (BuiltInFamily f t) =
     quoted t @ '' is a '' @ f @ '' tool, which a briefing run never gets''"
| "denial_reason (NotReviewed t) =
     quoted t @ '' is not one of the reviewed connector reads for this run''"
| "denial_reason (ArgumentsTooLarge t b l) =
     ''the arguments for '' @ quoted t @ '' are '' @ dec b @ '' bytes, over the '' @ dec l
     @ ''-byte limit''"

datatype tool_decision = Allow | Deny briefing_denial

definition is_allowed :: "tool_decision \<Rightarrow> bool" where "is_allowed d \<longleftrightarrow> d = Allow"

datatype action_intent = Reply | React

fun permitted_words :: "action_intent \<Rightarrow> string list" where
  "permitted_words Reply = [''send'', ''post'', ''reply'']"
| "permitted_words React = [''add'', ''react'']"

record action_scope =
  as_server :: string
  as_intent :: action_intent

record briefing_policy =
  bp_allowed :: "tool_identity list"
  bp_limits :: brief_limits
  bp_max_argument_bytes :: nat
  bp_compiled_against :: "string list"
  bp_action_scope :: "action_scope option"
  bp_read_scope_servers :: "string list"
  bp_toolless :: bool

definition action_forbidden_words :: "string list" where
  "action_forbidden_words =
     [''approve'', ''delete'', ''destroy'', ''edit'', ''merge'', ''patch'', ''publish'', ''put'', ''reject'',
      ''remove'', ''set'', ''update'', ''write'']"

definition read_tool_verbs :: "string list" where
  "read_tool_verbs = [''search'', ''read'', ''list'', ''get'', ''query'', ''fetch'', ''find'']"

definition mutation_tool_words :: "string list" where
  "mutation_tool_words =
     [''add'', ''approve'', ''archive'', ''ban'', ''create'', ''delete'', ''destroy'', ''edit'', ''invite'',
      ''kick'', ''merge'', ''patch'', ''post'', ''publish'', ''put'', ''reject'', ''remove'', ''rename'',
      ''schedule'', ''send'', ''set'', ''update'', ''upload'', ''write'']"

text \<open>\<open>lowered.split(['_', '-'])\<close>\<close>

abbreviation name_words :: "string \<Rightarrow> string list" where
  "name_words \<equiv> split_by (\<lambda>c. c = CHR ''_'' \<or> c = CHR ''-'')"

definition is_read_verb_tool :: "(string \<Rightarrow> string) \<Rightarrow> string \<Rightarrow> bool" where
  "is_read_verb_tool u tool =
     (if to_lowercase u tool \<noteq> tool then False
      else (let ws = name_words tool in
            if list_ex (\<lambda>w. w \<in> set mutation_tool_words) ws then False
            else list_ex (\<lambda>w. w \<in> set read_tool_verbs) ws))"

definition permits_action :: "(string \<Rightarrow> string) \<Rightarrow> string \<Rightarrow> action_intent \<Rightarrow> bool" where
  "permits_action u tool intent =
     (if to_lowercase u tool \<noteq> tool then False
      else (let ws = name_words tool in
            if list_ex (\<lambda>w. w \<in> set action_forbidden_words) ws then False
            else list_ex (\<lambda>w. w \<in> set (permitted_words intent)) ws))"

definition split_wire_name :: "string \<Rightarrow> (string \<times> string) option" where
  "split_wire_name tool =
     (case strip_prefix tool ''mcp__'' of
        None \<Rightarrow> None
      | Some rest \<Rightarrow>
          (case split_once rest ''__'' of
             None \<Rightarrow> None
           | Some (server, bare) \<Rightarrow> if server \<noteq> [] \<and> bare \<noteq> [] then Some (server, bare) else None))"

section \<open>Compiling an authority\<close>

definition default_max_argument_bytes :: nat where "default_max_argument_bytes = 8 * 1024"

definition check_limits :: "brief_limits \<Rightarrow> (briefing_unsupported, unit) result" where
  "check_limits l =
     (if bl_max_wall_seconds l \<le> 0 \<or> bl_max_turns l \<le> 0 \<or> bl_max_tool_calls l \<le> 0
      then Err (MalformedPolicy (''limits must all be positive (wall '' @ dec_int (bl_max_wall_seconds l)
             @ ''s, turns '' @ dec_int (bl_max_turns l) @ '', tool calls ''
             @ dec_int (bl_max_tool_calls l) @ '')''))
      else Ok ())"

fun first_duplicate :: "string list \<Rightarrow> string option" where
  "first_duplicate (a # b # xs) = (if a = b then Some a else first_duplicate (b # xs))"
| "first_duplicate _ = None"

definition sorted_identities :: "tool_identity list \<Rightarrow> tool_identity list" where
  "sorted_identities allowed = remdups_adj (sort_key (\<lambda>i. (ti_server i, ti_tool i)) allowed)"

definition compile ::
    "tool_identity list \<Rightarrow> brief_limits \<Rightarrow> string list
      \<Rightarrow> (briefing_unsupported, briefing_policy) result" where
  "compile allowed limits presented =
     (case check_limits limits of
        Inl e \<Rightarrow> Err e
      | Inr _ \<Rightarrow>
          let sorted = sorted_identities allowed in
          if list_ex (\<lambda>i. trim (ti_server i) = [] \<or> trim (ti_tool i) = []) sorted
          then Err (MalformedPolicy ''a reviewed identity has an empty server or tool name'')
          else (let names = sort (map wire_name sorted) in
            case first_duplicate names of
              Some n \<Rightarrow> Err (AmbiguousToolNames n)
            | None \<Rightarrow>
                (case find (\<lambda>n. n \<notin> set presented) names of
                   Some missing \<Rightarrow>
                     Err (ToolListDrift missing
                       (''a list of '' @ dec (length presented) @ '' that does not contain it''))
                 | None \<Rightarrow>
                     Ok \<lparr>bp_allowed = sorted, bp_limits = limits,
                         bp_max_argument_bytes = default_max_argument_bytes,
                         bp_compiled_against = sort presented, bp_action_scope = None,
                         bp_read_scope_servers = [], bp_toolless = False\<rparr>)))"

definition compile_scoped ::
    "string list \<Rightarrow> brief_limits \<Rightarrow> (briefing_unsupported, briefing_policy) result" where
  "compile_scoped servers limits =
     (case check_limits limits of
        Inl e \<Rightarrow> Err e
      | Inr _ \<Rightarrow>
          if list_ex (\<lambda>s. trim s = []) servers
          then Err (MalformedPolicy ''a scoped server has an empty name'')
          else Ok \<lparr>bp_allowed = [], bp_limits = limits,
                   bp_max_argument_bytes = default_max_argument_bytes,
                   bp_compiled_against = [], bp_action_scope = None,
                   bp_read_scope_servers = remdups_adj (sort servers), bp_toolless = False\<rparr>)"

definition compile_toolless :: "brief_limits \<Rightarrow> (briefing_unsupported, briefing_policy) result" where
  "compile_toolless limits =
     (case compile_scoped [] limits of Inl e \<Rightarrow> Err e | Inr p \<Rightarrow> Ok (p\<lparr>bp_toolless := True\<rparr>))"

definition compile_action ::
    "string \<Rightarrow> action_intent \<Rightarrow> brief_limits \<Rightarrow> (briefing_unsupported, briefing_policy) result" where
  "compile_action server intent limits =
     (case compile_scoped [server] limits of
        Inl e \<Rightarrow> Err e
      | Inr p \<Rightarrow> Ok (p\<lparr>bp_action_scope := Some \<lparr>as_server = server, as_intent = intent\<rparr>\<rparr>))"

text \<open>\<open>Debug\<close> prints the variant's name.\<close>

fun write_mode_debug :: "write_mode \<Rightarrow> string" where
  "write_mode_debug ReadOnly = ''ReadOnly''"
| "write_mode_debug Shared = ''Shared''"
| "write_mode_debug Isolated = ''Isolated''"
| "write_mode_debug Full = ''Full''"

definition check_write_mode :: "write_mode option \<Rightarrow> (briefing_unsupported, unit) result" where
  "check_write_mode m =
     (case m of
        None \<Rightarrow> Ok ()
      | Some ReadOnly \<Rightarrow> Ok ()
      | Some w \<Rightarrow> Err (WritableWorkspaceRequested (write_mode_debug w)))"

definition check_for_drift ::
    "briefing_policy \<Rightarrow> string list \<Rightarrow> (briefing_unsupported, unit) result" where
  "check_for_drift p presented =
     (if sort presented = bp_compiled_against p then Ok ()
      else Err (ToolListDrift (dec (length (bp_compiled_against p)) @ '' tools'')
                              (dec (length presented) @ '' tools'')))"

section \<open>Deciding a call\<close>

definition builtin_family :: "(string \<Rightarrow> string) \<Rightarrow> string \<Rightarrow> string option" where
  "builtin_family u tool =
     (let bare = to_lowercase u (trim (rsplit_next tool ''__'')) in
      map_option df_family
        (find (\<lambda>f. list_ex (\<lambda>i. to_lowercase u i = bare) (df_identities f)
                   \<or> bare \<in> set (df_aliases f)) denied_builtin_families))"

definition within_arguments :: "briefing_policy \<Rightarrow> string \<Rightarrow> nat \<Rightarrow> tool_decision" where
  "within_arguments p tool bytes =
     (if bp_max_argument_bytes p < bytes
      then Deny (ArgumentsTooLarge tool bytes (bp_max_argument_bytes p))
      else Allow)"

definition refuse_tool :: "(string \<Rightarrow> string) \<Rightarrow> string \<Rightarrow> tool_decision" where
  "refuse_tool u tool =
     (case builtin_family u tool of
        Some family \<Rightarrow> Deny (BuiltInFamily family tool)
      | None \<Rightarrow> Deny (NotReviewed tool))"

definition scope_admits :: "(string \<Rightarrow> string) \<Rightarrow> briefing_policy \<Rightarrow> string \<Rightarrow> string \<Rightarrow> bool" where
  "scope_admits u p server bare \<longleftrightarrow>
     (server \<in> set (bp_read_scope_servers p) \<and> is_read_verb_tool u bare)
     \<or> (case bp_action_scope p of
          None \<Rightarrow> False
        | Some sc \<Rightarrow> as_server sc = server \<and> permits_action u bare (as_intent sc))"

definition decide_tool ::
    "(string \<Rightarrow> string) \<Rightarrow> briefing_policy \<Rightarrow> string \<Rightarrow> nat \<Rightarrow> tool_decision" where
  "decide_tool u p tool argument_bytes =
     (if list_ex (\<lambda>i. wire_name i = tool) (bp_allowed p) then within_arguments p tool argument_bytes
      else (case split_wire_name tool of
              None \<Rightarrow> refuse_tool u tool
            | Some (server, bare) \<Rightarrow>
                if scope_admits u p server bare then within_arguments p tool argument_bytes
                else refuse_tool u tool))"

fun intent_name :: "action_intent \<Rightarrow> string" where
  "intent_name Reply = ''reply''"
| "intent_name React = ''react''"

definition action_scope_config :: "briefing_policy \<Rightarrow> (string \<times> string \<times> string list) option" where
  "action_scope_config p =
     map_option (\<lambda>sc. (as_server sc, intent_name (as_intent sc), permitted_words (as_intent sc)))
       (bp_action_scope p)"

definition allowed_wire_names :: "briefing_policy \<Rightarrow> string list" where
  "allowed_wire_names p = map wire_name (bp_allowed p)"

definition allowed_servers :: "briefing_policy \<Rightarrow> string list" where
  "allowed_servers p = remdups_adj (sort (map ti_server (bp_allowed p) @ bp_read_scope_servers p))"

definition denied_builtin_names :: "string list" where
  "denied_builtin_names = concat (map df_identities denied_builtin_families)"

section \<open>Which adapters may hold it\<close>

datatype permission_representation =
  ClaudeAgentSdk | OpenCodeRuleList | CodexSandboxPolicy | Unrecognized

definition can_enforce_exact_identities :: "permission_representation \<Rightarrow> bool" where
  "can_enforce_exact_identities r \<longleftrightarrow> r = ClaudeAgentSdk"

fun why_not :: "permission_representation \<Rightarrow> string" where
  "why_not ClaudeAgentSdk = []"
| "why_not OpenCodeRuleList =
     ''its permission rules cover coarse families like edit and bash, with no vocabulary for one connector tool's exact identity''"
| "why_not CodexSandboxPolicy =
     ''its sandbox policy governs writable roots and network access, not which tools exist''"
| "why_not Unrecognized = ''Bridge does not recognize how it represents tool permissions''"

datatype briefing_support = Supported string | Unsupported string

record briefing_capability =
  bc_adapter :: string
  bc_permissions :: permission_representation
  bc_support :: briefing_support

definition claude_certified_sdk_version :: string where "claude_certified_sdk_version = ''0.3''"

definition briefing_capabilities :: "briefing_capability list" where
  "briefing_capabilities =
     [\<lparr>bc_adapter = ''claude'', bc_permissions = ClaudeAgentSdk,
       bc_support = Supported claude_certified_sdk_version\<rparr>,
      \<lparr>bc_adapter = ''codex'', bc_permissions = CodexSandboxPolicy,
       bc_support = Unsupported ''the app-server protocol has no per-tool authority, so an exact connector read cannot be isolated from a mutation''\<rparr>,
      \<lparr>bc_adapter = ''opencode'', bc_permissions = OpenCodeRuleList,
       bc_support = Unsupported ''its permission rules are coarse families, so one reviewed connector tool cannot be admitted without admitting its neighbours''\<rparr>]"

definition capability_of :: "string \<Rightarrow> briefing_capability option" where
  "capability_of adapter = find (\<lambda>c. bc_adapter c = adapter) briefing_capabilities"

definition adapter_may_brief :: "string \<Rightarrow> (briefing_unsupported, briefing_capability) result" where
  "adapter_may_brief adapter =
     (case capability_of adapter of
        None \<Rightarrow> Err (UnknownAdapter adapter)
      | Some c \<Rightarrow>
          if \<not> can_enforce_exact_identities (bc_permissions c)
          then (if bc_permissions c = Unrecognized
                then Err (UnrecognizedPermissionRepresentation adapter (why_not (bc_permissions c)))
                else Err (AdapterCannotEnforce adapter
                       (case bc_support c of
                          Unsupported r \<Rightarrow> r
                        | Supported _ \<Rightarrow> why_not (bc_permissions c))))
          else (case bc_support c of
                  Supported _ \<Rightarrow> Ok c
                | Unsupported r \<Rightarrow> Err (AdapterCannotEnforce adapter r)))"

text \<open>Each component of the certified line is the next component of the reported version.\<close>

fun version_components_match :: "string list \<Rightarrow> string list \<Rightarrow> bool" where
  "version_components_match reported [] = True"
| "version_components_match [] (c # cs) = False"
| "version_components_match (r # rs) (c # cs) = (r = c \<and> version_components_match rs cs)"

definition version_line_matches :: "string \<Rightarrow> string \<Rightarrow> bool" where
  "version_line_matches reported certified =
     version_components_match (split_char (CHR ''.'') reported) (split_char (CHR ''.'') certified)"

text \<open>The \<open>let .. else unreachable!\<close> is the \<open>None\<close> of the outer option: a panic.\<close>

definition certify_briefing ::
    "string \<Rightarrow> string option \<Rightarrow> (briefing_unsupported, briefing_capability) result option" where
  "certify_briefing adapter reported_provider_version =
     (case adapter_may_brief adapter of
        Inl e \<Rightarrow> Some (Err e)
      | Inr c \<Rightarrow>
          (case bc_support c of
             Unsupported _ \<Rightarrow> None
           | Supported certified \<Rightarrow>
               (case map_option trim reported_provider_version of
                  None \<Rightarrow> Some (Err (UncertifiedProviderVersion adapter ''unreported'' certified))
                | Some reported \<Rightarrow>
                    if reported = []
                    then Some (Err (UncertifiedProviderVersion adapter ''unreported'' certified))
                    else if \<not> version_line_matches reported certified
                    then Some (Err (UncertifiedProviderVersion adapter reported certified))
                    else Some (Ok c))))"

section \<open>The guard of a run\<close>

datatype briefing_termination =
    Completed
  | WallTimeExceeded int int
  | TurnLimitExceeded int
  | ToolCallLimitExceeded int
  | OutputLimitExceeded nat nat
  | Cancelled
  | ProviderCrashed string
  | PolicyViolation briefing_denial

fun is_limit_breach :: "briefing_termination \<Rightarrow> bool" where
  "is_limit_breach (WallTimeExceeded _ _) = True"
| "is_limit_breach (TurnLimitExceeded _) = True"
| "is_limit_breach (ToolCallLimitExceeded _) = True"
| "is_limit_breach (OutputLimitExceeded _ _) = True"
| "is_limit_breach _ = False"

fun termination_reason :: "briefing_termination \<Rightarrow> string" where
  "termination_reason Completed = ''the briefing finished''"
| "termination_reason (WallTimeExceeded l e) =
     ''the briefing ran for '' @ dec_int e @ ''s, past its '' @ dec_int l @ ''s ceiling''"
| "termination_reason (TurnLimitExceeded l) =
     ''the briefing used all '' @ dec_int l @ '' of its turns''"
| "termination_reason (ToolCallLimitExceeded l) =
     ''the briefing used all '' @ dec_int l @ '' of its tool calls''"
| "termination_reason (OutputLimitExceeded l b) =
     ''the briefing produced '' @ dec b @ '' bytes of output, past its '' @ dec l @ ''-byte ceiling''"
| "termination_reason Cancelled = ''the briefing was cancelled''"
| "termination_reason (ProviderCrashed d) = ''the provider stopped: '' @ d"
| "termination_reason (PolicyViolation d) = denial_reason d"

datatype prompt_disposition = ApprovalDenied | EscalationDenied | ElicitationDenied

definition for_request ::
    "(string \<Rightarrow> string) \<Rightarrow> string option \<Rightarrow> string option \<Rightarrow> prompt_disposition" where
  "for_request u title_text method_name =
     (let haystack = to_lowercase u (case title_text of None \<Rightarrow> [] | Some t \<Rightarrow> t) @ '' ''
                     @ to_lowercase u (case method_name of None \<Rightarrow> [] | Some t \<Rightarrow> t) in
      if str_contains haystack ''elicitation'' \<or> str_contains haystack ''input'' then ElicitationDenied
      else if str_contains haystack ''permission'' \<or> str_contains haystack ''escalat''
      then EscalationDenied
      else ApprovalDenied)"

definition disposition_decision :: "prompt_disposition \<Rightarrow> string" where
  "disposition_decision d = ''denied''"

fun disposition_reason :: "prompt_disposition \<Rightarrow> string" where
  "disposition_reason ApprovalDenied =
     ''a briefing run cannot approve anything: no human is attached to ask''"
| "disposition_reason EscalationDenied =
     ''a briefing run holds the authority it was given and cannot be granted more''"
| "disposition_reason ElicitationDenied =
     ''a briefing run has nobody to answer an input request, so it is refused rather than parked''"

record briefing_guard =
  bg_limits :: brief_limits
  bg_max_output_bytes :: nat
  bg_turns :: int
  bg_tool_calls :: int
  bg_output_bytes :: nat
  bg_prompts_denied :: "prompt_disposition list"

definition default_max_output_bytes :: nat where "default_max_output_bytes = 256 * 1024"
definition bytes_per_output_token :: nat where "bytes_per_output_token = 4"

definition guard_new :: "briefing_policy \<Rightarrow> briefing_guard" where
  "guard_new p =
     \<lparr>bg_limits = bp_limits p,
      bg_max_output_bytes =
        (case bl_max_output_tokens (bp_limits p) of
           None \<Rightarrow> default_max_output_bytes
         | Some tokens \<Rightarrow>
             if 0 < tokens then usize_saturating_mul (nat tokens) bytes_per_output_token
             else default_max_output_bytes),
      bg_turns = 0, bg_tool_calls = 0, bg_output_bytes = 0, bg_prompts_denied = []\<rparr>"

definition begin_turn :: "briefing_guard \<Rightarrow> (briefing_termination, unit) result \<times> briefing_guard" where
  "begin_turn g =
     (if bl_max_turns (bg_limits g) \<le> bg_turns g
      then (Err (TurnLimitExceeded (bl_max_turns (bg_limits g))), g)
      else (Ok (), g\<lparr>bg_turns := i64_add (bg_turns g) 1\<rparr>))"

definition begin_tool_call ::
    "briefing_guard \<Rightarrow> (briefing_termination, unit) result \<times> briefing_guard" where
  "begin_tool_call g =
     (if bl_max_tool_calls (bg_limits g) \<le> bg_tool_calls g
      then (Err (ToolCallLimitExceeded (bl_max_tool_calls (bg_limits g))), g)
      else (Ok (), g\<lparr>bg_tool_calls := i64_add (bg_tool_calls g) 1\<rparr>))"

definition record_output ::
    "briefing_guard \<Rightarrow> nat \<Rightarrow> (briefing_termination, unit) result \<times> briefing_guard" where
  "record_output g bytes =
     (let n = usize_saturating_add (bg_output_bytes g) bytes in
      (if bg_max_output_bytes g < n then Err (OutputLimitExceeded (bg_max_output_bytes g) n) else Ok (),
       g\<lparr>bg_output_bytes := n\<rparr>))"

definition check_wall_time :: "briefing_guard \<Rightarrow> int \<Rightarrow> (briefing_termination, unit) result" where
  "check_wall_time g elapsed =
     (if bl_max_wall_seconds (bg_limits g) \<le> elapsed
      then Err (WallTimeExceeded (bl_max_wall_seconds (bg_limits g)) elapsed)
      else Ok ())"

definition deny_prompt ::
    "(string \<Rightarrow> string) \<Rightarrow> briefing_guard \<Rightarrow> string option \<Rightarrow> string option
      \<Rightarrow> prompt_disposition \<times> briefing_guard" where
  "deny_prompt u g title_text method_name =
     (let d = for_request u title_text method_name in
      (d, g\<lparr>bg_prompts_denied := bg_prompts_denied g @ [d]\<rparr>))"

record briefing_tool_event =
  be_call_id :: string
  be_tool :: string
  be_status :: string
  be_detail :: "string option"

definition event_succeeded :: "string \<Rightarrow> string \<Rightarrow> briefing_tool_event" where
  "event_succeeded call_id tool =
     \<lparr>be_call_id = call_id, be_tool = tool, be_status = ''success'', be_detail = None\<rparr>"

definition event_denied :: "string \<Rightarrow> string \<Rightarrow> briefing_denial \<Rightarrow> briefing_tool_event" where
  "event_denied call_id tool denial =
     \<lparr>be_call_id = call_id, be_tool = tool, be_status = ''failure'',
      be_detail = Some (denial_reason denial)\<rparr>"

definition event_is_terminal :: "briefing_tool_event \<Rightarrow> bool" where
  "event_is_terminal e \<longleftrightarrow> be_status e = ''success'' \<or> be_status e = ''failure''"

section \<open>Laws\<close>

lemma sorted_identities_set [simp]: "set (sorted_identities xs) = set xs"
  by (simp add: sorted_identities_def)

lemma first_duplicate_distinct: "sorted xs \<Longrightarrow> first_duplicate xs = None \<longleftrightarrow> distinct xs"
proof (induction xs rule: first_duplicate.induct)
  case (1 a b xs)
  then show ?case by (auto dest: order.antisym)
qed auto

lemma check_limits_Ok [simp]:
  "check_limits l = Inr x \<longleftrightarrow>
     0 < bl_max_wall_seconds l \<and> 0 < bl_max_turns l \<and> 0 < bl_max_tool_calls l"
  by (auto simp: check_limits_def)

lemma find_None_all: "find P xs = None \<longleftrightarrow> (\<forall>x \<in> set xs. \<not> P x)"
  by (induction xs) auto

lemma compile_Ok:
  assumes "compile allowed limits presented = Inr p"
  shows "p = \<lparr>bp_allowed = sorted_identities allowed, bp_limits = limits,
              bp_max_argument_bytes = default_max_argument_bytes,
              bp_compiled_against = sort presented, bp_action_scope = None,
              bp_read_scope_servers = [], bp_toolless = False\<rparr>"
    and "set (map wire_name allowed) \<subseteq> set presented"
    and "distinct (map wire_name (sorted_identities allowed))"
    and "check_limits limits = Inr ()"
proof -
  let ?s = "sorted_identities allowed" let ?n = "sort (map wire_name ?s)"
  from assms have *: "check_limits limits = Inr ()" "first_duplicate ?n = None"
    "find (\<lambda>n. n \<notin> set presented) ?n = None"
    "p = \<lparr>bp_allowed = ?s, bp_limits = limits,
              bp_max_argument_bytes = default_max_argument_bytes,
              bp_compiled_against = sort presented, bp_action_scope = None,
              bp_read_scope_servers = [], bp_toolless = False\<rparr>"
    by (auto simp: compile_def Let_def split: sum.splits if_splits option.splits)
  show "p = \<lparr>bp_allowed = ?s, bp_limits = limits,
              bp_max_argument_bytes = default_max_argument_bytes,
              bp_compiled_against = sort presented, bp_action_scope = None,
              bp_read_scope_servers = [], bp_toolless = False\<rparr>" by (rule *(4))
  show "check_limits limits = Inr ()" by (rule *(1))
  from *(2) show "distinct (map wire_name ?s)"
    by (simp add: first_duplicate_distinct)
  from *(3) show "set (map wire_name allowed) \<subseteq> set presented"
    by (auto simp: find_None_all)
qed

lemma compile_scoped_Ok:
  "compile_scoped servers limits = Inr p \<Longrightarrow>
     bp_allowed p = [] \<and> set (bp_read_scope_servers p) = set servers \<and> bp_action_scope p = None
     \<and> bp_max_argument_bytes p = default_max_argument_bytes \<and> bp_limits p = limits"
  by (auto simp: compile_scoped_def split: sum.splits if_splits)

lemma within_arguments_Allow [simp]:
  "within_arguments p t n = Allow \<longleftrightarrow> n \<le> bp_max_argument_bytes p"
  by (simp add: within_arguments_def not_less)

lemma refuse_tool_not_Allow [simp]: "refuse_tool u t \<noteq> Allow"
  by (simp add: refuse_tool_def split: option.splits)

lemma decide_Allow:
  "decide_tool u p t n = Allow \<longleftrightarrow>
     n \<le> bp_max_argument_bytes p \<and>
     ((\<exists>i \<in> set (bp_allowed p). wire_name i = t) \<or>
      (\<exists>server bare. split_wire_name t = Some (server, bare) \<and> scope_admits u p server bare))"
  by (auto simp: decide_tool_def list_ex_iff split: option.splits if_splits)

lemma split_once_some:
  "split_once s sep = Some (l, r) \<Longrightarrow> s = l @ sep @ r"
  by (induction s sep arbitrary: l rule: split_once.induct)
     (auto simp: strip_prefix_Some split: option.splits if_splits)

lemma split_wire_name_some:
  "split_wire_name t = Some (server, bare) \<Longrightarrow> t = wire_name \<lparr>ti_server = server, ti_tool = bare\<rparr>"
  by (auto simp: split_wire_name_def wire_name_def strip_prefix_Some dest!: split_once_some
      split: option.splits prod.splits if_splits)

lemma read_verb_words:
  "is_read_verb_tool u bare \<longleftrightarrow>
     to_lowercase u bare = bare \<and> set (name_words bare) \<inter> set mutation_tool_words = {}
     \<and> set (name_words bare) \<inter> set read_tool_verbs \<noteq> {}"
  by (auto simp: is_read_verb_tool_def list_ex_iff Let_def)

lemma permits_words:
  "permits_action u bare i \<longleftrightarrow>
     to_lowercase u bare = bare \<and> set (name_words bare) \<inter> set action_forbidden_words = {}
     \<and> set (name_words bare) \<inter> set (permitted_words i) \<noteq> {}"
  by (auto simp: permits_action_def list_ex_iff Let_def)

section \<open>Properties of the authority\<close>

text \<open>
  C10. Under a compiled policy a call is allowed exactly if its name is the wire name of a
  reviewed tool and its arguments fit in 8 KiB; every reviewed tool is one the provider
  presented, and no two of them share a wire name.
\<close>
theorem compiled_policy_allows_reviewed_tools:
  assumes "compile allowed limits presented = Inr p"
  shows "(decide_tool u p t n = Allow \<longleftrightarrow> t \<in> wire_name ` set allowed \<and> n \<le> 8192)
    \<and> wire_name ` set allowed \<subseteq> set presented \<and> inj_on wire_name (set allowed)"
proof (intro conjI)
  note c = compile_Ok [OF assms]
  have "scope_admits u p s b \<longleftrightarrow> False" for s b by (simp add: scope_admits_def c(1))
  then show "decide_tool u p t n = Allow \<longleftrightarrow> t \<in> wire_name ` set allowed \<and> n \<le> 8192"
    by (auto simp: decide_Allow c(1) default_max_argument_bytes_def)
  show "wire_name ` set allowed \<subseteq> set presented" using c(2) by simp
  show "inj_on wire_name (set allowed)" using c(3) by (simp add: distinct_map)
qed

theorem compiled_policy_allows_reviewed_tools_witness:
  "let i = \<lparr>ti_server = ''slack'', ti_tool = ''search''\<rparr>;
       l = \<lparr>bl_max_wall_seconds = 60, bl_max_turns = 4, bl_max_tool_calls = 8,
            bl_max_output_tokens = None, bl_cost_ceiling_microusd = None\<rparr> in
     (\<forall>p. compile [i] l [wire_name i] = Inr p \<longrightarrow> decide_tool (\<lambda>s. s) p ''Bash'' 0 \<noteq> Allow)
     \<and> is_ok (compile [i] l [wire_name i])"
proof -
  define i where "i = \<lparr>ti_server = ''slack'', ti_tool = ''search''\<rparr>"
  define l where "l = \<lparr>bl_max_wall_seconds = 60, bl_max_turns = 4, bl_max_tool_calls = 8,
            bl_max_output_tokens = None, bl_cost_ceiling_microusd = None\<rparr>"
  have "decide_tool (\<lambda>s. s) p ''Bash'' 0 \<noteq> Allow" if "compile [i] l [wire_name i] = Inr p" for p
    using compiled_policy_allows_reviewed_tools [OF that, of "\<lambda>s. s" "''Bash''" 0]
    by (simp add: i_def wire_name_def)
  moreover have "is_ok (compile [i] l [wire_name i])"
  proof -
    have "trim ''slack'' \<noteq> []" "trim ''search'' \<noteq> []" by code_simp+
    then show ?thesis
      by (simp add: compile_def sorted_identities_def i_def l_def check_limits_def Let_def)
  qed
  ultimately show ?thesis by (simp add: i_def l_def)
qed

text \<open>A server whose name cannot be cut by the double underscore of a wire name.\<close>

definition plain_server :: "string \<Rightarrow> bool" where
  "plain_server s \<longleftrightarrow> \<not> sublist ''__'' s \<and> (s = [] \<or> last s \<noteq> CHR ''_'')"

lemma plain_server_tail: "plain_server (c # s) \<Longrightarrow> plain_server s"
  by (auto simp: plain_server_def sublist_Cons_right split: if_splits)

lemma split_once_plain: "plain_server s \<Longrightarrow> split_once (s @ ''__'' @ rest) ''__'' = Some (s, rest)"
proof (induction s)
  case Nil
  then show ?case by simp
next
  case (Cons c s)
  have "strip_prefix (c # s @ ''__'' @ rest) ''__'' = None"
    using Cons.prems
    by (cases s) (auto simp: plain_server_def sublist_Cons_right split: if_splits)
  then show ?case using Cons.IH [OF plain_server_tail [OF Cons.prems]] by simp
qed

text \<open>
  C20. A policy compiled for one approved action allows a call only if its name begins with the wire
  prefix of that server, its arguments are within the limit, and the rest of its name is in lower
  case and either reads and carries no mutating word, or carries a word of the approved intent and
  none of the forbidden ones. So the call is on that server, unless on one whose own name has a
  double underscore or ends in an underscore.
\<close>
theorem action_policy_is_narrow:
  assumes "compile_action server intent limits = Inr p" and "decide_tool u p t n = Allow"
  shows "(\<exists>bare. t = wire_name \<lparr>ti_server = server, ti_tool = bare\<rparr> \<and> n \<le> 8192
    \<and> to_lowercase u bare = bare
    \<and> (set (name_words bare) \<inter> set read_tool_verbs \<noteq> {}
         \<and> set (name_words bare) \<inter> set mutation_tool_words = {}
       \<or> set (name_words bare) \<inter> set (permitted_words intent) \<noteq> {}
         \<and> set (name_words bare) \<inter> set action_forbidden_words = {}))
    \<and> (\<forall>i. wire_name i = t \<and> plain_server (ti_server i) \<longrightarrow> ti_server i = server)"
proof -
  from assms(1) obtain q where q: "compile_scoped [server] limits = Inr q"
    and p: "p = q\<lparr>bp_action_scope := Some \<lparr>as_server = server, as_intent = intent\<rparr>\<rparr>"
    by (auto simp: compile_action_def split: sum.splits)
  note k = compile_scoped_Ok [OF q]
  from assms(2) k p obtain s bare where sp: "split_wire_name t = Some (s, bare)"
    and ad: "scope_admits u p s bare" and n: "n \<le> 8192"
    by (auto simp: decide_Allow default_max_argument_bytes_def)
  from ad k p have s: "s = server"
    and b: "is_read_verb_tool u bare \<or> permits_action u bare intent"
    by (auto simp: scope_admits_def)
  have "ti_server i = server" if "wire_name i = t" "plain_server (ti_server i)" for i
    using sp s that split_once_plain [OF that(2), of "ti_tool i"]
    by (auto simp: split_wire_name_def wire_name_def split: if_splits)
  then have on: "\<forall>i. wire_name i = t \<and> plain_server (ti_server i) \<longrightarrow> ti_server i = server" by blast
  have "t = wire_name \<lparr>ti_server = server, ti_tool = bare\<rparr>" using split_wire_name_some [OF sp] s by simp
  with n b on show ?thesis unfolding read_verb_words permits_words by blast
qed

text \<open>
  The server of a call is read up to the first double underscore of its name, so a scope
  that names \<open>slack\<close> also admits the reads of another server called \<open>slack__eu\<close>, and a scope that
  names \<open>slack__eu\<close> does not admit its own.
\<close>
theorem scope_admits_another_server:
  "let l = \<lparr>bl_max_wall_seconds = 60, bl_max_turns = 4, bl_max_tool_calls = 8,
            bl_max_output_tokens = None, bl_cost_ceiling_microusd = None\<rparr>;
       t = wire_name \<lparr>ti_server = ''slack__eu'', ti_tool = ''read_thread''\<rparr> in
     map_option (\<lambda>p. decide_tool u p t 0) (ok (compile_scoped [''slack''] l)) = Some Allow
     \<and> map_option (\<lambda>p. decide_tool u p t 0) (ok (compile_scoped [''slack__eu''] l))
         = Some (Deny (NotReviewed t))"
proof -
  have tr: "trim ''slack'' \<noteq> []" "trim ''slack__eu'' \<noteq> []" by code_simp+
  have sp: "split_wire_name (wire_name \<lparr>ti_server = ''slack__eu'', ti_tool = ''read_thread''\<rparr>)
      = Some (''slack'', ''eu__read_thread'')" by code_simp
  have rd: "is_read_verb_tool u ''eu__read_thread''"
  proof -
    have "to_lowercase u ''eu__read_thread'' = ''eu__read_thread''"
      by (simp add: to_lowercase_def is_ascii_def) code_simp
    moreover have "name_words ''eu__read_thread'' = [''eu'', '''', ''read'', ''thread'']" by code_simp
    ultimately show ?thesis
      by (simp add: read_verb_words mutation_tool_words_def read_tool_verbs_def)
  qed
  have bf: "builtin_family u (wire_name \<lparr>ti_server = ''slack__eu'', ti_tool = ''read_thread''\<rparr>) = None"
  proof -
    have low: "to_lowercase u s = to_ascii_lowercase s" if "is_ascii s" for s
      using that by (simp add: to_lowercase_def)
    have "trim (rsplit_next (wire_name \<lparr>ti_server = ''slack__eu'', ti_tool = ''read_thread''\<rparr>) ''__'')
        = ''read_thread''" by code_simp
    moreover have "\<forall>f \<in> set denied_builtin_families. \<forall>i \<in> set (df_identities f). is_ascii i
        \<and> to_ascii_lowercase i \<noteq> ''read_thread''"
      by code_simp
    moreover have "\<forall>f \<in> set denied_builtin_families. ''read_thread'' \<notin> set (df_aliases f)"
      by code_simp
    moreover have "is_ascii ''read_thread'' \<and> to_ascii_lowercase ''read_thread'' = ''read_thread''"
      by code_simp
    ultimately show ?thesis
      by (auto simp: builtin_family_def Let_def low find_None_all list_ex_iff)
  qed
  show ?thesis
    using tr sp rd bf
    by (simp add: compile_scoped_def check_limits_def decide_tool_def scope_admits_def
        within_arguments_def refuse_tool_def Let_def)
qed

lemma version_components_match_prefix:
  "version_components_match rs cs \<longleftrightarrow> prefix cs rs"
  by (induction rs cs rule: version_components_match.induct) auto

lemma may_brief_claude: "adapter_may_brief ''claude'' = Inr (briefing_capabilities ! 0)"
  by (simp add: adapter_may_brief_def capability_of_def briefing_capabilities_def
      can_enforce_exact_identities_def)

lemma may_brief_only_claude: "a \<noteq> ''claude'' \<Longrightarrow> \<exists>e. adapter_may_brief a = Inl e"
  by (auto simp: adapter_may_brief_def capability_of_def briefing_capabilities_def
      can_enforce_exact_identities_def)

lemma certified_line: "version_line_matches v ''0.3'' \<longleftrightarrow> prefix [''0'', ''3''] (split_char (CHR ''.'') v)"
proof -
  have "split_char (CHR ''.'') ''0.3'' = [''0'', ''3'']" by code_simp
  then show ?thesis by (simp add: version_line_matches_def version_components_match_prefix)
qed

lemma claude_support: "bc_support (briefing_capabilities ! 0) = Supported ''0.3''"
  by (simp add: briefing_capabilities_def claude_certified_sdk_version_def)

text \<open>
  An adapter is certified for a briefing exactly if it is \<open>claude\<close> and reports a version
  on the certified line: \<open>0.3\<close> itself or \<open>0.3\<close> followed by further components. The branch the
  code marks unreachable is.
\<close>
theorem certified_is_claude_on_the_line:
  "(case certify_briefing adapter version of
      None \<Rightarrow> False
    | Some res \<Rightarrow>
        is_ok res = (adapter = ''claude'' \<and>
          (\<exists>v. version = Some v \<and> trim v \<noteq> []
             \<and> prefix [''0'', ''3''] (split_char (CHR ''.'') (trim v)))))"
proof (cases "adapter = ''claude''")
  case True
  show ?thesis
    unfolding True certify_briefing_def may_brief_claude
    by (cases version) (simp_all add: claude_support certified_line)
next
  case False
  then show ?thesis using may_brief_only_claude [of adapter] by (auto simp: certify_briefing_def)
qed

section \<open>The guard over a run\<close>

datatype guard_op = OpTurn | OpCall | OpOutput nat

text \<open>A run's calls of the guard in order, with what each was told.\<close>

fun guard_step :: "guard_op \<Rightarrow> briefing_guard \<Rightarrow> (briefing_termination, unit) result \<times> briefing_guard" where
  "guard_step OpTurn g = begin_turn g"
| "guard_step OpCall g = begin_tool_call g"
| "guard_step (OpOutput n) g = record_output g n"

fun guard_run :: "guard_op list \<Rightarrow> briefing_guard
    \<Rightarrow> (guard_op \<times> (briefing_termination, unit) result) list \<times> briefing_guard" where
  "guard_run [] g = ([], g)"
| "guard_run (x # xs) g =
     (let (r, g') = guard_step x g; (rs, g'') = guard_run xs g' in ((x, r) # rs, g''))"

definition granted :: "guard_op \<Rightarrow> (guard_op \<times> (briefing_termination, unit) result) list \<Rightarrow> nat" where
  "granted x rs = length (filter (\<lambda>(y, r). y = x \<and> is_ok r) rs)"

definition asked :: "guard_op \<Rightarrow> guard_op list \<Rightarrow> nat" where
  "asked x xs = length (filter (\<lambda>y. y = x) xs)"

lemma granted_simps [simp]:
  "granted x [] = 0"
  "granted x ((y, r) # rs) = (if y = x \<and> is_ok r then 1 else 0) + granted x rs"
  "asked x [] = 0"
  "asked x (y # ys) = (if y = x then 1 else 0) + asked x ys"
  by (simp_all add: granted_def asked_def)

lemma guard_limits: "snd (guard_step x g) = g' \<Longrightarrow> bg_limits g' = bg_limits g"
  by (cases x) (auto simp: begin_turn_def begin_tool_call_def record_output_def Let_def)

lemma i64_succ: "0 \<le> n \<Longrightarrow> n < m \<Longrightarrow> m \<le> i64_max \<Longrightarrow> i64_add n 1 = n + 1"
  by (intro i64_add_exact) (simp add: in_i64_def i64_min_def i64_max_def)

lemma guard_run_turns:
  assumes "0 \<le> bg_turns g" "bg_turns g \<le> bl_max_turns (bg_limits g)" "bl_max_turns (bg_limits g) \<le> i64_max"
  shows "int (granted OpTurn (fst (guard_run xs g)))
    = min (int (asked OpTurn xs)) (bl_max_turns (bg_limits g) - bg_turns g)"
  using assms
proof (induction xs arbitrary: g)
  case (Cons x xs)
  obtain r g' where s: "guard_step x g = (r, g')" by (cases "guard_step x g") auto
  have l: "bg_limits g' = bg_limits g" using guard_limits [of x g g'] s by simp
  have t: "is_ok r = (bg_turns g < bl_max_turns (bg_limits g))
      \<and> bg_turns g' = (if bg_turns g < bl_max_turns (bg_limits g) then bg_turns g + 1 else bg_turns g)"
    if "x = OpTurn"
    using s that Cons.prems i64_succ [of "bg_turns g" "bl_max_turns (bg_limits g)"]
    by (auto simp: begin_turn_def split: if_splits)
  have o: "bg_turns g' = bg_turns g" if "x \<noteq> OpTurn"
    using s that by (cases x) (auto simp: begin_tool_call_def record_output_def Let_def split: if_splits)
  have IH: "int (granted OpTurn (fst (guard_run xs g')))
    = min (int (asked OpTurn xs)) (bl_max_turns (bg_limits g') - bg_turns g')"
    using Cons.prems t o l by (intro Cons.IH) (cases "x = OpTurn"; auto)+
  show ?case
    using IH t o l s Cons.prems by (cases "x = OpTurn") (auto simp: case_prod_beta Let_def)
qed simp

lemma guard_run_calls:
  assumes "0 \<le> bg_tool_calls g" "bg_tool_calls g \<le> bl_max_tool_calls (bg_limits g)"
    "bl_max_tool_calls (bg_limits g) \<le> i64_max"
  shows "int (granted OpCall (fst (guard_run xs g)))
    = min (int (asked OpCall xs)) (bl_max_tool_calls (bg_limits g) - bg_tool_calls g)"
  using assms
proof (induction xs arbitrary: g)
  case (Cons x xs)
  obtain r g' where s: "guard_step x g = (r, g')" by (cases "guard_step x g") auto
  have l: "bg_limits g' = bg_limits g" using guard_limits [of x g g'] s by simp
  have t: "is_ok r = (bg_tool_calls g < bl_max_tool_calls (bg_limits g))
      \<and> bg_tool_calls g' = (if bg_tool_calls g < bl_max_tool_calls (bg_limits g)
          then bg_tool_calls g + 1 else bg_tool_calls g)"
    if "x = OpCall"
    using s that Cons.prems i64_succ [of "bg_tool_calls g" "bl_max_tool_calls (bg_limits g)"]
    by (auto simp: begin_tool_call_def split: if_splits)
  have o: "bg_tool_calls g' = bg_tool_calls g" if "x \<noteq> OpCall"
    using s that by (cases x) (auto simp: begin_turn_def record_output_def Let_def split: if_splits)
  have IH: "int (granted OpCall (fst (guard_run xs g')))
    = min (int (asked OpCall xs)) (bl_max_tool_calls (bg_limits g') - bg_tool_calls g')"
    using Cons.prems t o l by (intro Cons.IH) (cases "x = OpCall"; auto)+
  show ?case
    using IH t o l s Cons.prems by (cases "x = OpCall") (auto simp: case_prod_beta Let_def)
qed simp

text \<open>
  A guard made for a policy grants exactly the budget: of the turns and of the tool calls a
  run asks for, in whatever order it asks, the first \<open>max_turns\<close> and \<open>max_tool_calls\<close> are granted
  and every later one is refused.
\<close>
theorem guard_grants_exactly_the_budget:
  assumes "compile_scoped servers limits = Inr p"
    and "bl_max_turns limits \<le> i64_max" "bl_max_tool_calls limits \<le> i64_max"
  shows "int (granted OpTurn (fst (guard_run xs (guard_new p)))) = min (int (asked OpTurn xs)) (bl_max_turns limits)
    \<and> int (granted OpCall (fst (guard_run xs (guard_new p))))
        = min (int (asked OpCall xs)) (bl_max_tool_calls limits)"
proof -
  have "0 < bl_max_turns limits \<and> 0 < bl_max_tool_calls limits"
    using assms(1) by (auto simp: compile_scoped_def check_limits_def split: if_splits)
  moreover have "bp_limits p = limits" using compile_scoped_Ok [OF assms(1)] by simp
  ultimately show ?thesis
    using assms(2,3) guard_run_turns [of "guard_new p" xs] guard_run_calls [of "guard_new p" xs]
    by (simp add: guard_new_def)
qed

theorem guard_grants_exactly_the_budget_witness:
  "let l = \<lparr>bl_max_wall_seconds = 60, bl_max_turns = 1, bl_max_tool_calls = 2,
            bl_max_output_tokens = None, bl_cost_ceiling_microusd = None\<rparr> in
     \<exists>p. compile_scoped [] l = Inr p
       \<and> granted OpCall (fst (guard_run [OpTurn, OpCall, OpCall, OpCall] (guard_new p))) = 2"
proof -
  define l where "l = \<lparr>bl_max_wall_seconds = 60, bl_max_turns = 1, bl_max_tool_calls = 2,
            bl_max_output_tokens = None, bl_cost_ceiling_microusd = None\<rparr>"
  obtain p where p: "compile_scoped [] l = Inr p"
    by (simp add: compile_scoped_def check_limits_def l_def)
  have "bl_max_turns l \<le> i64_max" "bl_max_tool_calls l \<le> i64_max"
    by (simp_all add: l_def i64_max_def)
  from guard_grants_exactly_the_budget [OF p this, of "[OpTurn, OpCall, OpCall, OpCall]"] p
  show ?thesis by (auto simp: l_def Let_def)
qed

theorem action_policy_is_narrow_witness:
  "let l = \<lparr>bl_max_wall_seconds = 60, bl_max_turns = 1, bl_max_tool_calls = 2,
            bl_max_output_tokens = None, bl_cost_ceiling_microusd = None\<rparr>;
       t = wire_name \<lparr>ti_server = ''slack'', ti_tool = ''send_message''\<rparr> in
     \<exists>p. compile_action ''slack'' Reply l = Inr p \<and> decide_tool (\<lambda>s. s) p t 10 = Allow
       \<and> (\<exists>bare. t = wire_name \<lparr>ti_server = ''slack'', ti_tool = bare\<rparr>)"
proof -
  define l where "l = \<lparr>bl_max_wall_seconds = 60, bl_max_turns = 1, bl_max_tool_calls = 2,
            bl_max_output_tokens = None, bl_cost_ceiling_microusd = None\<rparr>"
  define t where "t = wire_name \<lparr>ti_server = ''slack'', ti_tool = ''send_message''\<rparr>"
  have tr: "trim ''slack'' \<noteq> []" by code_simp
  obtain p where p: "compile_action ''slack'' Reply l = Inr p"
    using tr by (simp add: compile_action_def compile_scoped_def check_limits_def l_def)
  have sp: "split_wire_name t = Some (''slack'', ''send_message'')"
    unfolding t_def by code_simp
  have "permits_action (\<lambda>s. s) ''send_message'' Reply"
  proof -
    have "to_lowercase (\<lambda>s. s) ''send_message'' = ''send_message''"
      by (simp add: to_lowercase_def is_ascii_def) code_simp
    moreover have "name_words ''send_message'' = [''send'', ''message'']" by code_simp
    ultimately show ?thesis by (simp add: permits_words action_forbidden_words_def)
  qed
  moreover have "bp_action_scope p = Some \<lparr>as_server = ''slack'', as_intent = Reply\<rparr>
      \<and> bp_max_argument_bytes p = 8192"
    using p tr by (auto simp: compile_action_def compile_scoped_def check_limits_def l_def
        default_max_argument_bytes_def)
  ultimately have a: "decide_tool (\<lambda>s. s) p t 10 = Allow"
    using sp by (simp add: decide_Allow scope_admits_def)
  from action_policy_is_narrow [OF p a] p a show ?thesis
    by (auto simp: l_def t_def Let_def)
qed

end
