(* ===== verification/Work_Tasks.thy ===== *)
theory Work_Tasks
  imports Rust_Prelude
begin

text \<open>
  What happens to a suggested task between briefings (\<open>bridge-core/src/work_task_state.rs\<close>) and
  how a task keeps its identity from one briefing to the next (\<open>work_fingerprint.rs\<close>). A task is
  moved by two hands: a human's action (\<open>apply_action\<close>) and a reconciliation, which either found
  the task in the new brief (\<open>reconcile_present\<close>) or did not (\<open>reconcile_absent\<close>).
\<close>

section \<open>Identity\<close>

definition fingerprint_version :: string where "fingerprint_version = ''v1''"

text \<open>\<open>(len as u64).to_le_bytes()\<close>\<close>

definition u64_le_bytes :: "nat \<Rightarrow> string" where
  "u64_le_bytes n = map (\<lambda>i. char_of (n div 256 ^ i mod 256)) [0 ..< 8]"

definition write_component :: "string \<Rightarrow> string" where
  "write_component component = u64_le_bytes (length component) @ component"

text \<open>SHA-256 in hexadecimal is a library's: the parameter \<open>sha\<close>.\<close>

definition fingerprint_input :: "string \<Rightarrow> string \<Rightarrow> string" where
  "fingerprint_input connector_instance_id canonical_resource_id =
     write_component fingerprint_version @ write_component connector_instance_id
     @ write_component canonical_resource_id"

definition fingerprint :: "(string \<Rightarrow> string) \<Rightarrow> string \<Rightarrow> string \<Rightarrow> string" where
  "fingerprint sha connector_instance_id canonical_resource_id =
     fingerprint_version @ '':''
     @ sha (fingerprint_input connector_instance_id canonical_resource_id)"

definition fingerprint_for ::
    "(string \<Rightarrow> string) \<Rightarrow> string \<Rightarrow> string option \<Rightarrow> string option" where
  "fingerprint_for sha connector_instance_id canonical_resource_id =
     (case map_option trim canonical_resource_id of
        None \<Rightarrow> None
      | Some r \<Rightarrow> if r = [] then None else Some (fingerprint sha connector_instance_id r))"

definition version_of :: "string \<Rightarrow> string option" where
  "version_of stored = map_option fst (split_once stored '':'')"

definition is_current :: "string \<Rightarrow> bool" where
  "is_current stored \<longleftrightarrow> version_of stored = Some fingerprint_version"

section \<open>States, actions and what a run learned about a source\<close>

datatype work_source_status =
  WsIneligible | WsEligible | WsConsulted | WsSucceeded | WsFailed | WsAuthRequired

definition misses_before_stale :: int where "misses_before_stale = 2"

datatype source_outcome = SourceRead | SourceNotRead

fun from_coverage :: "work_source_status \<Rightarrow> source_outcome" where
  "from_coverage WsSucceeded = SourceRead"
| "from_coverage WsConsulted = SourceNotRead"
| "from_coverage WsFailed = SourceNotRead"
| "from_coverage WsAuthRequired = SourceNotRead"
| "from_coverage WsEligible = SourceNotRead"
| "from_coverage WsIneligible = SourceNotRead"

definition read_successfully :: "source_outcome \<Rightarrow> bool" where
  "read_successfully oc \<longleftrightarrow> oc = SourceRead"

datatype task_state = Active | Snoozed | Done | Dismissed | Stale

fun task_state_as_str :: "task_state \<Rightarrow> string" where
  "task_state_as_str Active = ''active''"
| "task_state_as_str Snoozed = ''snoozed''"
| "task_state_as_str Done = ''done''"
| "task_state_as_str Dismissed = ''dismissed''"
| "task_state_as_str Stale = ''stale''"

definition task_state_parse :: "string \<Rightarrow> task_state" where
  "task_state_parse s =
     (if s = ''active'' then Active
      else if s = ''snoozed'' then Snoozed
      else if s = ''done'' then Done
      else if s = ''stale'' then Stale
      else Dismissed)"

definition reconciles :: "task_state \<Rightarrow> bool" where
  "reconciles st \<longleftrightarrow> st \<noteq> Dismissed"

fun visible :: "task_state \<Rightarrow> bool \<Rightarrow> bool" where
  "visible Active pinned = True"
| "visible Stale pinned = pinned"
| "visible Snoozed pinned = False"
| "visible Done pinned = False"
| "visible Dismissed pinned = False"

datatype task_action = Complete | Snooze | Dismiss | Restore | Pin | Unpin

record illegal_transition =
  it_from :: string
  it_action :: string

definition illegal_reason :: "illegal_transition \<Rightarrow> string" where
  "illegal_reason e = ''a '' @ it_from e @ '' task cannot be '' @ it_action e"

fun action_name :: "task_action \<Rightarrow> string" where
  "action_name Complete = ''completed''"
| "action_name Snooze = ''snoozed''"
| "action_name Dismiss = ''dismissed''"
| "action_name Restore = ''restored''"
| "action_name Pin = ''pinned''"
| "action_name Unpin = ''unpinned''"

record task_snapshot =
  ts_state :: task_state
  ts_pinned :: bool
  ts_miss_count :: int
  ts_ephemeral :: bool
  ts_resolved_at :: "string option"
  ts_evidence_digest :: "string option"
  ts_resolved_evidence_digest :: "string option"

definition task_snapshot_active :: task_snapshot where
  "task_snapshot_active =
     \<lparr>ts_state = Active, ts_pinned = False, ts_miss_count = 0, ts_ephemeral = False,
      ts_resolved_at = None, ts_evidence_digest = None, ts_resolved_evidence_digest = None\<rparr>"

section \<open>A human's action\<close>

definition illegal :: "task_snapshot \<Rightarrow> task_action \<Rightarrow> illegal_transition" where
  "illegal t a = \<lparr>it_from = task_state_as_str (ts_state t), it_action = action_name a\<rparr>"

fun apply_action ::
    "task_snapshot \<Rightarrow> task_action \<Rightarrow> string \<Rightarrow> (illegal_transition, task_snapshot) result" where
  "apply_action t Pin at_time = Ok (t\<lparr>ts_pinned := True\<rparr>)"
| "apply_action t Unpin at_time = Ok (t\<lparr>ts_pinned := False\<rparr>)"
| "apply_action t Restore at_time =
     (if ts_state t = Dismissed \<or> ts_state t = Snoozed
      then Ok (t\<lparr>ts_state := (if misses_before_stale \<le> ts_miss_count t then Stale else Active),
                 ts_resolved_at := None, ts_resolved_evidence_digest := None\<rparr>)
      else Err (illegal t Restore))"
| "apply_action t Complete at_time =
     (if ts_state t = Active \<or> ts_state t = Snoozed \<or> ts_state t = Stale
      then Ok (t\<lparr>ts_state := Done, ts_resolved_at := Some at_time,
                 ts_resolved_evidence_digest := ts_evidence_digest t\<rparr>)
      else Err (illegal t Complete))"
| "apply_action t Dismiss at_time =
     (if ts_state t = Active \<or> ts_state t = Snoozed \<or> ts_state t = Stale
      then Ok (t\<lparr>ts_state := Dismissed, ts_resolved_at := Some at_time\<rparr>)
      else Err (illegal t Dismiss))"
| "apply_action t Snooze at_time =
     (if ts_state t = Active \<or> ts_state t = Stale
      then Ok (t\<lparr>ts_state := Snoozed, ts_resolved_at := Some at_time\<rparr>)
      else Err (illegal t Snooze))"

section \<open>A reconciliation\<close>

definition reconcile_absent :: "task_snapshot \<Rightarrow> source_outcome \<Rightarrow> task_snapshot" where
  "reconcile_absent t oc =
     (if \<not> reconciles (ts_state t) then t
      else if \<not> read_successfully oc then t
      else if misses_before_stale \<le> ts_miss_count t then t
      else (let n = i64_saturating_add (ts_miss_count t) 1;
                t' = t\<lparr>ts_miss_count := n\<rparr> in
            if misses_before_stale \<le> n \<and> ts_state t = Active then t'\<lparr>ts_state := Stale\<rparr> else t'))"

definition evidence_changed :: "string option \<Rightarrow> string option \<Rightarrow> bool" where
  "evidence_changed resolved current =
     (case resolved of
        None \<Rightarrow> False
      | Some r \<Rightarrow> (case current of None \<Rightarrow> False | Some c \<Rightarrow> c \<noteq> r))"

definition reconcile_present :: "task_snapshot \<Rightarrow> string option \<Rightarrow> task_snapshot" where
  "reconcile_present t evidence_digest =
     (if \<not> reconciles (ts_state t) then t
      else (let t' = t\<lparr>ts_miss_count := 0\<rparr> in
        (case ts_state t of
           Stale \<Rightarrow> t'\<lparr>ts_state := Active\<rparr>
         | Done \<Rightarrow>
             if evidence_changed (ts_resolved_evidence_digest t) evidence_digest
             then t'\<lparr>ts_state := Active, ts_resolved_at := None, ts_resolved_evidence_digest := None\<rparr>
             else t'
         | _ \<Rightarrow> t')))"

text \<open>RFC 3339 text and instants are \<open>chrono\<close>'s: \<open>parse\<close> reads one, as nanoseconds.\<close>

definition snooze_expired ::
    "(string \<Rightarrow> int option) \<Rightarrow> string option \<Rightarrow> string \<Rightarrow> bool" where
  "snooze_expired parse_instant snoozed_until now =
     (case Option.bind snoozed_until parse_instant of
        None \<Rightarrow> False
      | Some until \<Rightarrow>
          (case parse_instant now of None \<Rightarrow> False | Some n \<Rightarrow> until \<le> n))"

section \<open>Laws\<close>

lemma task_state_round_trip [simp]: "task_state_parse (task_state_as_str st) = st"
  by (cases st) (simp_all add: task_state_parse_def)

text \<open>What neither a mention nor a silence touches.\<close>

lemma reconcile_keeps [simp]:
  "ts_pinned (reconcile_present t d) = ts_pinned t"
  "ts_pinned (reconcile_absent t oc) = ts_pinned t"
  "ts_ephemeral (reconcile_present t d) = ts_ephemeral t"
  "ts_ephemeral (reconcile_absent t oc) = ts_ephemeral t"
  "ts_evidence_digest (reconcile_present t d) = ts_evidence_digest t"
  "ts_evidence_digest (reconcile_absent t oc) = ts_evidence_digest t"
  by (auto simp: reconcile_present_def reconcile_absent_def Let_def split: task_state.splits)

lemma reconcile_dismissed [simp]:
  "ts_state t = Dismissed \<Longrightarrow> reconcile_present t d = t"
  "ts_state t = Dismissed \<Longrightarrow> reconcile_absent t oc = t"
  by (simp_all add: reconcile_present_def reconcile_absent_def reconciles_def)

lemma reconcile_snoozed:
  "ts_state t = Snoozed \<Longrightarrow> ts_state (reconcile_present t d) = Snoozed"
  "ts_state t = Snoozed \<Longrightarrow> ts_state (reconcile_absent t oc) = Snoozed"
  by (auto simp: reconcile_present_def reconcile_absent_def Let_def reconciles_def)

lemma reconcile_present_state:
  "ts_state (reconcile_present t d) =
     (case ts_state t of
        Stale \<Rightarrow> Active
      | Done \<Rightarrow> if evidence_changed (ts_resolved_evidence_digest t) d then Active else Done
      | st \<Rightarrow> st)"
  by (auto simp: reconcile_present_def Let_def reconciles_def split: task_state.splits)

lemma reconcile_absent_state:
  "ts_state (reconcile_absent t oc) \<noteq> ts_state t \<Longrightarrow>
     ts_state t = Active \<and> oc = SourceRead \<and> ts_state (reconcile_absent t oc) = Stale"
  by (auto simp: reconcile_absent_def Let_def read_successfully_def split: if_splits)

lemma reconcile_resolution:
  "ts_state (reconcile_present t d) = ts_state t \<Longrightarrow>
     ts_resolved_at (reconcile_present t d) = ts_resolved_at t \<and>
     ts_resolved_evidence_digest (reconcile_present t d) = ts_resolved_evidence_digest t"
  "ts_resolved_at (reconcile_absent t oc) = ts_resolved_at t"
  "ts_resolved_evidence_digest (reconcile_absent t oc) = ts_resolved_evidence_digest t"
  by (auto simp: reconcile_present_def reconcile_absent_def Let_def split: task_state.splits if_splits)

section \<open>The count an active task carries\<close>

text \<open>
  The stored count is bounded by its threshold, an active task is below it and a stale one at it.
\<close>

definition snapshot_ok :: "task_snapshot \<Rightarrow> bool" where
  "snapshot_ok t \<longleftrightarrow>
     0 \<le> ts_miss_count t \<and> ts_miss_count t \<le> misses_before_stale
     \<and> (ts_state t = Active \<longrightarrow> ts_miss_count t < misses_before_stale)
     \<and> (ts_state t = Stale \<longrightarrow> ts_miss_count t = misses_before_stale)"

lemma misses_simps [simp]:
  "0 \<le> n \<Longrightarrow> n < misses_before_stale \<Longrightarrow> i64_saturating_add n 1 = n + 1"
  by (simp add: misses_before_stale_def i64_saturating_add_def i64_min_def i64_max_def)

lemma snapshot_ok_active [invI]: "snapshot_ok task_snapshot_active"
  by (simp add: snapshot_ok_def task_snapshot_active_def misses_before_stale_def)

lemma snapshot_ok_present [invI]: "snapshot_ok t \<Longrightarrow> snapshot_ok (reconcile_present t d)"
  by (auto simp: snapshot_ok_def reconcile_present_def Let_def misses_before_stale_def
      split: task_state.splits)

lemma snapshot_ok_absent [invI]: "snapshot_ok t \<Longrightarrow> snapshot_ok (reconcile_absent t oc)"
  by (auto simp: snapshot_ok_def reconcile_absent_def Let_def)

lemma snapshot_ok_action [invI]:
  "snapshot_ok t \<Longrightarrow> apply_action t a w = Inr t' \<Longrightarrow> snapshot_ok t'"
  by (cases a) (auto simp: snapshot_ok_def split: if_splits)

section \<open>A task's history\<close>

datatype task_event = Mentioned "string option" | Silent source_outcome

fun react :: "task_event \<Rightarrow> task_snapshot \<Rightarrow> task_snapshot" where
  "react (Mentioned d) t = reconcile_present t d"
| "react (Silent oc) t = reconcile_absent t oc"

text \<open>The reads that did not mention the task, since the last brief that did.\<close>

definition silent_reads :: "task_event list \<Rightarrow> nat" where
  "silent_reads evs =
     length (filter (\<lambda>e. e = Silent SourceRead) (takeWhile (\<lambda>e. \<exists>oc. e = Silent oc) (rev evs)))"

lemma silent_reads_simps [simp]:
  "silent_reads [] = 0"
  "silent_reads (evs @ [Mentioned d]) = 0"
  "silent_reads (evs @ [Silent oc]) = (if oc = SourceRead then 1 else 0) + silent_reads evs"
  by (auto simp: silent_reads_def)

lemma history_of_active:
  "ts_state (fold react evs task_snapshot_active) = (if 2 \<le> silent_reads evs then Stale else Active)
   \<and> ts_miss_count (fold react evs task_snapshot_active) = min 2 (int (silent_reads evs))"
proof (induction evs rule: rev_induct)
  case (snoc e evs)
  let ?t = "fold react evs task_snapshot_active"
  show ?case
  proof (cases e)
    case (Mentioned d)
    with snoc show ?thesis
      by (auto simp: reconcile_present_def Let_def reconciles_def split: task_state.splits if_splits)
  next
    case (Silent oc)
    have "0 \<le> ts_miss_count ?t" using snoc by simp
    with Silent snoc show ?thesis
      by (cases oc) (auto simp: reconcile_absent_def Let_def reconciles_def read_successfully_def
          misses_before_stale_def i64_saturating_add_def i64_min_def i64_max_def split: if_splits)
  qed
qed (simp add: task_snapshot_active_def)

section \<open>Properties\<close>

text \<open>
  A task goes stale exactly when its own source was read successfully at least twice since
  the last brief that mentioned it, whatever else happened in between: runs in which the source
  failed, needed signing in or was not reached count for nothing, and the stored counter is
  that number, capped at two.
\<close>
theorem stale_means_two_silent_reads:
  "let t = fold react evs task_snapshot_active in
     ts_state t = (if 2 \<le> silent_reads evs then Stale else Active)
     \<and> ts_miss_count t = min misses_before_stale (int (silent_reads evs))"
  using history_of_active [of evs] by (simp add: misses_before_stale_def Let_def)

section \<open>The encoding of an identity\<close>

lemma u64_le_bytes_length [simp]: "length (u64_le_bytes n) = 8"
  by (simp add: u64_le_bytes_def)

lemma u64_le_bytes_inj:
  assumes "n < 2 ^ 64" "m < 2 ^ 64" "u64_le_bytes n = u64_le_bytes m"
  shows "n = m"
proof -
  have digit: "n div 256 ^ i mod 256 = m div 256 ^ i mod 256" if "i < 8" for i
  proof -
    have "u64_le_bytes n ! i = u64_le_bytes m ! i" by (simp add: assms(3))
    with that have "(char_of (n div 256 ^ i mod 256) :: char) = char_of (m div 256 ^ i mod 256)"
      by (simp add: u64_le_bytes_def)
    then have "of_char (char_of (n div 256 ^ i mod 256) :: char)
        = (of_char (char_of (m div 256 ^ i mod 256) :: char) :: nat)" by simp
    then show ?thesis by simp
  qed
  have low: "n mod 256 ^ i = m mod 256 ^ i" if "i \<le> 8" for i
    using that
  proof (induction i)
    case (Suc i)
    have "k mod 256 ^ Suc i = 256 ^ i * (k div 256 ^ i mod 256) + k mod 256 ^ i" for k :: nat
      using mod_mult2_eq [of k "256 ^ i" 256] by (simp add: mult.commute)
    with Suc digit [of i] show ?case by simp
  qed simp
  from low [of 8] assms(1,2) show ?thesis by simp
qed

lemma write_component_inj:
  assumes "length a < 2 ^ 64" "length b < 2 ^ 64"
    and "write_component a @ x = write_component b @ y"
  shows "a = b \<and> x = y"
proof -
  have "u64_le_bytes (length a) = u64_le_bytes (length b) \<and> a @ x = b @ y"
    using assms(3) by (simp add: write_component_def)
  with u64_le_bytes_inj [OF assms(1,2)] show ?thesis by auto
qed

lemma fingerprint_input_inj:
  assumes "length i < 2 ^ 64" "length i' < 2 ^ 64" "length r < 2 ^ 64" "length r' < 2 ^ 64"
    and "fingerprint_input i r = fingerprint_input i' r'"
  shows "i = i' \<and> r = r'"
proof -
  from assms(5) have e: "write_component i @ write_component r = write_component i' @ write_component r'"
    by (simp add: fingerprint_input_def)
  from write_component_inj [OF assms(1,2) e] have "i = i'"
    and "write_component r @ [] = write_component r' @ []" by simp_all
  with write_component_inj [OF assms(3,4)] show ?thesis by blast
qed

text \<open>
  Two tasks share a fingerprint exactly if they point at the same resource of the same
  connector instance, as long as the hash does not collide on their two encodings: the length
  prefixes leave no arrangement of separators in an instance or a resource that makes two
  identities one.
\<close>
theorem fingerprint_is_identity:
  assumes "length i < 2 ^ 64" "length i' < 2 ^ 64" "length r < 2 ^ 64" "length r' < 2 ^ 64"
    and "inj_on sha {fingerprint_input i r, fingerprint_input i' r'}"
  shows "fingerprint sha i r = fingerprint sha i' r' \<longleftrightarrow> i = i' \<and> r = r'"
proof
  assume "fingerprint sha i r = fingerprint sha i' r'"
  then have "sha (fingerprint_input i r) = sha (fingerprint_input i' r')"
    by (simp add: fingerprint_def)
  then have "fingerprint_input i r = fingerprint_input i' r'"
    by (rule inj_onD [OF assms(5)]) simp_all
  from fingerprint_input_inj [OF assms(1-4) this] show "i = i' \<and> r = r'" .
qed simp

theorem fingerprint_is_identity_witness:
  "fingerprint (\<lambda>x. x) ''a'' ''b:c'' \<noteq> fingerprint (\<lambda>x. x) ''a:b'' ''c''"
proof -
  have "fingerprint (\<lambda>x. x) ''a'' ''b:c'' = fingerprint (\<lambda>x. x) ''a:b'' ''c''
      \<longleftrightarrow> ''a'' = ''a:b'' \<and> ''b:c'' = ''c''"
    by (rule fingerprint_is_identity) (simp_all add: inj_on_def)
  then show ?thesis by simp
qed

lemma fingerprint_current: "is_current (fingerprint sha i r)"
  by (simp add: is_current_def version_of_def fingerprint_def fingerprint_version_def)

end
