(* ===== verification/Work_Evidence.thy ===== *)
theory Work_Evidence
  imports Json Briefing_Policy Work_Tasks "HOL-Library.Monad_Syntax"
begin

text \<open>
  Which connectors a briefing may read and how a result becomes evidence
  (\<open>bridge-core/src/work_connectors.rs\<close>), and the ledger of one run: the references its
  successful calls earned and how far each source got (\<open>work_evidence.rs\<close>).

  Reading and printing JSON text, the hash and the calendar are libraries': the record \<open>lib\<close>
  holds them, instants counted in nanoseconds. \<open>lib_parse_json\<close> reads a \<open>Value\<close>, \<open>lib_entries\<close> the
  entries a derived reader sees (duplicate keys kept), \<open>lib_julianday\<close> is SQLite's \<open>julianday\<close>.
\<close>

record lib =
  lib_parse_json :: "string \<Rightarrow> json option"
  lib_render_json :: "json \<Rightarrow> string"
  lib_sha :: "string \<Rightarrow> string"
  lib_from_timestamp :: "int \<Rightarrow> nat \<Rightarrow> int option"
  lib_from_timestamp_millis :: "int \<Rightarrow> int option"
  lib_parse_rfc3339 :: "string \<Rightarrow> int option"
  lib_to_rfc3339 :: "int \<Rightarrow> string"
  lib_entries :: "string \<Rightarrow> json option"
  lib_julianday :: "string \<Rightarrow> rat option"

section \<open>Iterators, ordered maps and numbers in text\<close>

fun find_map :: "('a \<Rightarrow> 'b option) \<Rightarrow> 'a list \<Rightarrow> 'b option" where
  "find_map f [] = None"
| "find_map f (x # xs) = (case f x of Some y \<Rightarrow> Some y | None \<Rightarrow> find_map f xs)"

text \<open>A \<open>BTreeMap\<close> is its entries in the order of their keys.\<close>

fun bt_insert :: "'k::linorder \<Rightarrow> 'v \<Rightarrow> ('k \<times> 'v) list \<Rightarrow> ('k \<times> 'v) list" where
  "bt_insert k v [] = [(k, v)]"
| "bt_insert k v ((k', v') # m) =
     (if k < k' then (k, v) # (k', v') # m
      else if k = k' then (k, v) # m
      else (k', v') # bt_insert k v m)"

definition strip_suffix :: "string \<Rightarrow> string \<Rightarrow> string option" where
  "strip_suffix s p = (if suffix p s then Some (take (length s - length p) s) else None)"

fun digits_value :: "nat \<Rightarrow> string \<Rightarrow> nat option" where
  "digits_value n [] = Some n"
| "digits_value n (c # cs) =
     (if ascii_digit c then digits_value (10 * n + (of_char c - 48)) cs else None)"

definition parse_digits :: "string \<Rightarrow> nat option" where
  "parse_digits s = (if s = [] then None else digits_value 0 s)"

text \<open>\<open>str::parse::<i64>\<close> and, on digits, \<open>str::parse::<u32>\<close>.\<close>

definition parse_i64 :: "string \<Rightarrow> int option" where
  "parse_i64 s =
     (if s \<noteq> [] \<and> hd s = CHR ''-'' then
        (case parse_digits (tl s) of
           None \<Rightarrow> None | Some n \<Rightarrow> if i64_min \<le> - int n then Some (- int n) else None)
      else
        (case parse_digits (if s \<noteq> [] \<and> hd s = CHR ''+'' then tl s else s) of
           None \<Rightarrow> None | Some n \<Rightarrow> if int n \<le> i64_max then Some (int n) else None))"

definition parse_u32 :: "string \<Rightarrow> nat option" where
  "parse_u32 s =
     (case parse_digits s of None \<Rightarrow> None | Some n \<Rightarrow> if n \<le> u32_max then Some n else None)"

section \<open>Connector families\<close>

datatype connector_family = Slack | Gmail | GitHub | Linear | Notion

definition family_all :: "connector_family list" where
  "family_all = [Slack, Gmail, GitHub, Linear, Notion]"

fun family_as_str :: "connector_family \<Rightarrow> string" where
  "family_as_str Slack = ''slack''"
| "family_as_str Gmail = ''gmail''"
| "family_as_str GitHub = ''github''"
| "family_as_str Linear = ''linear''"
| "family_as_str Notion = ''notion''"

fun allowed_hosts :: "connector_family \<Rightarrow> string list" where
  "allowed_hosts Slack = [''slack.com'', ''app.slack.com'']"
| "allowed_hosts Gmail = [''mail.google.com'']"
| "allowed_hosts GitHub = [''github.com'']"
| "allowed_hosts Linear = [''linear.app'']"
| "allowed_hosts Notion = [''notion.so'', ''www.notion.so'']"

definition family_parse :: "string \<Rightarrow> connector_family option" where
  "family_parse s = find (\<lambda>f. family_as_str f = s) family_all"

datatype evidence_target =
    ExternalLink string string
  | SessionTarget string
  | NoTarget

section \<open>Eligibility\<close>

datatype ineligible_reason =
    NoResolver string
  | NoReviewedTools
  | ToolDefinitionChanged string
  | AuthRequired

fun ineligible_text :: "ineligible_reason \<Rightarrow> string" where
  "ineligible_text (NoResolver f) =
     ''Bridge cannot derive provenance for '' @ quoted f
     @ '' results, so it will not offer them to a model''"
| "ineligible_text NoReviewedTools = ''no tool on this connector has been reviewed for briefing''"
| "ineligible_text (ToolDefinitionChanged t) =
     quoted t @ '' changed since it was reviewed, so it is not a reviewed tool any more''"
| "ineligible_text AuthRequired = ''this connector needs to be signed in again''"

record reviewed_tool =
  rt_identity :: tool_identity
  rt_definition_digest :: string

text \<open>
  \<open>canonical_json\<close>: an object with its keys sorted, anything else as \<open>serde_json\<close> prints it.
\<close>

function canonical_json :: "(json \<Rightarrow> string) \<Rightarrow> json \<Rightarrow> string" where
  "canonical_json render (JObj ob) =
     ''{'' @ join '','' (map (\<lambda>(k, v). render (JStr k) @ '':'' @ canonical_json render v)
                      (sort_key fst ob)) @ ''}''"
| "canonical_json render (JArr xs) = ''['' @ join '','' (map (canonical_json render) xs) @ '']''"
| "canonical_json render JNull = render JNull"
| "canonical_json render (JBool b) = render (JBool b)"
| "canonical_json render (JPos n) = render (JPos n)"
| "canonical_json render (JNeg i) = render (JNeg i)"
| "canonical_json render (JFloat r) = render (JFloat r)"
| "canonical_json render (JStr s) = render (JStr s)"
  by pat_completeness auto
termination
proof (relation "measure (\<lambda>(render, v). size v)", goal_cases)
  case (2 render ob e k v)
  then have "(k, v) \<in> set ob" by (metis set_sort)
  then have "size v < size_list (size_prod (\<lambda>x. 0) size) ob + 1"
    by (induction ob) (auto simp: less_Suc_eq_le)
  then show ?case by simp
next
  case (3 render xs x)
  then show ?case by (simp add: size_list_estimation' less_Suc_eq_le)
qed simp

definition tool_definition_digest :: "lib \<Rightarrow> json \<Rightarrow> string" where
  "tool_definition_digest l def =
     lib_sha l (''bridge-tool-definition-v1'' @ [CHR 0x00] @ canonical_json (lib_render_json l) def)"

record connector_instance =
  ci_instance_id :: string
  ci_family :: "connector_family option"
  ci_account_identity :: "string option"
  ci_authenticated :: bool
  ci_reviewed_tools :: "reviewed_tool list"
  ci_presented_digests :: "(string \<times> string) list"

datatype connector_eligibility =
    Eligible connector_family "tool_identity list"
  | Ineligible ineligible_reason

definition is_eligible :: "connector_eligibility \<Rightarrow> bool" where
  "is_eligible e \<longleftrightarrow> (\<exists>f ts. e = Eligible f ts)"

fun reviewed_identities ::
    "(string \<times> string) list \<Rightarrow> reviewed_tool list \<Rightarrow> (ineligible_reason, tool_identity list) result" where
  "reviewed_identities presented [] = Ok []"
| "reviewed_identities presented (r # rs) =
     (let wire = wire_name (rt_identity r) in
      case map_of presented wire of
        None \<Rightarrow> Err (ToolDefinitionChanged wire)
      | Some current \<Rightarrow>
          if current = rt_definition_digest r
          then (case reviewed_identities presented rs of
                  Inl e \<Rightarrow> Err e
                | Inr ts \<Rightarrow> Ok (rt_identity r # ts))
          else Err (ToolDefinitionChanged wire))"

definition eligibility :: "connector_instance \<Rightarrow> connector_eligibility" where
  "eligibility i =
     (case ci_family i of
        None \<Rightarrow> Ineligible (NoResolver ''unknown'')
      | Some family \<Rightarrow>
          if \<not> ci_authenticated i then Ineligible AuthRequired
          else if ci_reviewed_tools i = [] then Ineligible NoReviewedTools
          else (case reviewed_identities (ci_presented_digests i) (ci_reviewed_tools i) of
                  Inl e \<Rightarrow> Ineligible e
                | Inr tools \<Rightarrow> Eligible family tools))"

section \<open>Reading a result\<close>

record resolved_evidence =
  re_canonical_resource_id :: "string option"
  re_source_kind :: string
  re_target :: evidence_target

definition wrapper_keys :: "string list" where
  "wrapper_keys =
     [''structuredContent'', ''content'', ''data'', ''result'', ''message'', ''issue'', ''page'',
      ''messages'', ''items'', ''nodes'', ''matches'']"

definition is_container :: "json \<Rightarrow> bool" where
  "is_container v \<longleftrightarrow> as_object v \<noteq> None \<or> as_array v \<noteq> None"

definition wrapper_of :: "json_object \<Rightarrow> json option" where
  "wrapper_of ob =
     find_map (\<lambda>k. case obj_get ob k of
                     Some v \<Rightarrow> if is_container v then Some v else None
                   | None \<Rightarrow> None) wrapper_keys"

fun unwrap_item :: "(string \<Rightarrow> json option) \<Rightarrow> nat \<Rightarrow> json \<Rightarrow> json option" where
  "unwrap_item parse 0 item = None"
| "unwrap_item parse (Suc n) (JStr s) =
     (case parse s of None \<Rightarrow> None | Some v \<Rightarrow> unwrap_item parse n v)"
| "unwrap_item parse (Suc n) (JArr xs) =
     (case xs of [x] \<Rightarrow> unwrap_item parse n x | _ \<Rightarrow> None)"
| "unwrap_item parse (Suc n) (JObj ob) =
     (case wrapper_of ob of
        Some inner \<Rightarrow> unwrap_item parse n inner
      | None \<Rightarrow>
          if get_str ob ''type'' = Some ''text''
          then (case Option.bind (get_str ob ''text'') parse of
                  None \<Rightarrow> None | Some v \<Rightarrow> unwrap_item parse n v)
          else Some (JObj ob))"
| "unwrap_item parse (Suc n) JNull = None"
| "unwrap_item parse (Suc n) (JBool b) = None"
| "unwrap_item parse (Suc n) (JPos k) = None"
| "unwrap_item parse (Suc n) (JNeg k) = None"
| "unwrap_item parse (Suc n) (JFloat k) = None"

definition source_item :: "lib \<Rightarrow> json \<Rightarrow> json option" where
  "source_item l result = unwrap_item (lib_parse_json l) 8 result"

fun activity_keys :: "connector_family \<Rightarrow> string list" where
  "activity_keys Slack = [''ts'']"
| "activity_keys Gmail = [''internalDate'']"
| "activity_keys GitHub = [''updated_at'', ''updatedAt'', ''created_at'', ''createdAt'']"
| "activity_keys Linear = [''updatedAt'', ''createdAt'']"
| "activity_keys Notion = [''last_edited_time'', ''created_time'']"

definition activity_value :: "connector_family \<Rightarrow> json \<Rightarrow> json option" where
  "activity_value family item =
     (if family = Slack
      then (case Option.bind (json_get item ''edited'') (\<lambda>e. json_get e ''ts'') of
              Some v \<Rightarrow> Some v
            | None \<Rightarrow> json_get item ''ts'')
      else find_map (json_get item) (activity_keys family))"

definition activity_text :: "json \<Rightarrow> string option" where
  "activity_text v =
     (case as_str v of Some s \<Rightarrow> Some s | None \<Rightarrow> map_option dec_int (as_i64 v))"

definition slack_instant :: "lib \<Rightarrow> string \<Rightarrow> int option" where
  "slack_instant l raw =
     (let (seconds, fraction) = (case split_once raw ''.'' of Some p \<Rightarrow> p | None \<Rightarrow> (raw, [])) in
      if 9 < length fraction \<or> \<not> list_all ascii_digit fraction then None
      else (case (if fraction = [] then Some 0
                  else map_option (\<lambda>n. n * 10 ^ (9 - length fraction)) (parse_u32 fraction)) of
              None \<Rightarrow> None
            | Some nanos \<Rightarrow>
                (case parse_i64 seconds of
                   None \<Rightarrow> None | Some s \<Rightarrow> lib_from_timestamp l s nanos)))"

definition activity_instant :: "lib \<Rightarrow> connector_family \<Rightarrow> string \<Rightarrow> int option" where
  "activity_instant l family raw =
     (case family of
        Slack \<Rightarrow> slack_instant l raw
      | Gmail \<Rightarrow> Option.bind (parse_i64 raw) (lib_from_timestamp_millis l)
      | _ \<Rightarrow> lib_parse_rfc3339 l raw)"

definition source_activity_at :: "lib \<Rightarrow> connector_family \<Rightarrow> json \<Rightarrow> string option" where
  "source_activity_at l family result = do {
     item \<leftarrow> source_item l result;
     v \<leftarrow> activity_value family item;
     raw \<leftarrow> activity_text v;
     t \<leftarrow> activity_instant l family raw;
     Some (lib_to_rfc3339 l t) }"

text \<open>\<open>safe_external_link\<close>: https, no credentials, and a host the family publishes.\<close>

definition slack_workspace :: "connector_family \<Rightarrow> string \<Rightarrow> bool" where
  "slack_workspace family host \<longleftrightarrow>
     family = Slack \<and>
     (case strip_suffix host ''.slack.com'' of
        None \<Rightarrow> False
      | Some label \<Rightarrow>
          label \<noteq> [] \<and> length label \<le> 63 \<and> hd label \<noteq> CHR ''-'' \<and> last label \<noteq> CHR ''-''
          \<and> list_all (\<lambda>b. ascii_alphanumeric b \<or> b = CHR ''-'') label)"

definition url_authority :: "string \<Rightarrow> string" where
  "url_authority rest = hd (split_by (\<lambda>c. c \<in> set ''/?#'') rest)"

definition url_host :: "string \<Rightarrow> string" where
  "url_host authority = to_ascii_lowercase (hd (split_char (CHR '':'') authority))"

definition safe_external_link :: "connector_family \<Rightarrow> string \<Rightarrow> evidence_target option" where
  "safe_external_link family url =
     (case strip_prefix url ''https://'' of
        None \<Rightarrow> None
      | Some rest \<Rightarrow>
          let authority = url_authority rest in
          if CHR ''@'' \<in> set authority \<or> authority = [] then None
          else (let host = url_host authority in
            if \<not> slack_workspace family host \<and> host \<notin> set (allowed_hosts family) then None
            else Some (ExternalLink url host)))"

definition link_keys :: "string list" where
  "link_keys = [''permalink'', ''html_url'', ''htmlUrl'', ''webUrl'', ''url'']"

definition resolve_target :: "connector_family \<Rightarrow> json \<Rightarrow> evidence_target" where
  "resolve_target family result =
     (case map_option trim (find_map (\<lambda>k. Option.bind (json_get result k) as_str) link_keys) of
        None \<Rightarrow> NoTarget
      | Some url \<Rightarrow>
          if url = [] then NoTarget
          else (case safe_external_link family url of Some t \<Rightarrow> t | None \<Rightarrow> NoTarget))"

definition item_text :: "json \<Rightarrow> string \<Rightarrow> string option" where
  "item_text result k =
     (case map_option trim (Option.bind (json_get result k) as_str) of
        Some s \<Rightarrow> if s = [] then None else Some s
      | None \<Rightarrow> None)"

fun source_kind_of :: "connector_family \<Rightarrow> string" where
  "source_kind_of Slack = ''slack.message''"
| "source_kind_of Gmail = ''gmail.thread''"
| "source_kind_of GitHub = ''github.item''"
| "source_kind_of Linear = ''linear.issue''"
| "source_kind_of Notion = ''notion.page''"

fun native_id :: "connector_family \<Rightarrow> json \<Rightarrow> string option" where
  "native_id Slack r = item_text r ''ts''"
| "native_id Gmail r = item_text r ''threadId''"
| "native_id GitHub r =
     (case item_text r ''nodeId'' of Some n \<Rightarrow> Some n | None \<Rightarrow> item_text r ''node_id'')"
| "native_id Linear r = item_text r ''identifier''"
| "native_id Notion r = item_text r ''pageId''"

definition resolve_evidence :: "lib \<Rightarrow> connector_family \<Rightarrow> string \<Rightarrow> json \<Rightarrow> resolved_evidence" where
  "resolve_evidence l family instance_id result =
     (let item = (case source_item l result of Some v \<Rightarrow> v | None \<Rightarrow> JNull) in
      \<lparr>re_canonical_resource_id =
         map_option (\<lambda>n. family_as_str family @ '':'' @ instance_id @ '':'' @ n) (native_id family item),
       re_source_kind = source_kind_of family,
       re_target = resolve_target family item\<rparr>)"

section \<open>The ledger of a run\<close>

record evidence_entry =
  ee_evidence_ref :: string
  ee_tool_call_id :: string
  ee_connector_instance_id :: string
  ee_account_identity :: "string option"
  ee_canonical_resource_id :: "string option"
  ee_source_kind :: string
  ee_tool_definition_digest :: string
  ee_result_digest :: string
  ee_target :: evidence_target
  ee_observed_at :: string
  ee_source_activity_at :: "string option"

definition result_digest :: "lib \<Rightarrow> json \<Rightarrow> string" where
  "result_digest l result =
     lib_sha l (''bridge-connector-result-v1'' @ [CHR 0x00] @ lib_render_json l result)"

record source_coverage =
  sc_connector_instance_id :: string
  sc_connector_family :: string
  sc_status :: work_source_status
  sc_detail :: "string option"
  sc_observed_at :: "string option"

fun progress :: "work_source_status \<Rightarrow> nat" where
  "progress WsIneligible = 0"
| "progress WsAuthRequired = 1"
| "progress WsEligible = 2"
| "progress WsConsulted = 3"
| "progress WsFailed = 4"
| "progress WsSucceeded = 5"

record run_ledger =
  rl_run_id :: string
  rl_entries :: "evidence_entry list"
  rl_refs :: "string set"
  rl_resources :: "string set"
  rl_coverage :: "(string \<times> source_coverage) list"
  rl_next_index :: nat

definition ledger_new :: "string \<Rightarrow> run_ledger" where
  "ledger_new run_id =
     \<lparr>rl_run_id = run_id, rl_entries = [], rl_refs = {}, rl_resources = {}, rl_coverage = [],
      rl_next_index = 1\<rparr>"

definition advance_source ::
    "work_source_status \<Rightarrow> string option \<Rightarrow> string option \<Rightarrow> source_coverage \<Rightarrow> source_coverage" where
  "advance_source status detail observed_at c =
     (if progress (sc_status c) \<le> progress status
      then c\<lparr>sc_status := status, sc_detail := detail,
             sc_observed_at := (if observed_at \<noteq> None then observed_at else sc_observed_at c)\<rparr>
      else c)"

definition record_source ::
    "string \<Rightarrow> string \<Rightarrow> work_source_status \<Rightarrow> string option \<Rightarrow> string option \<Rightarrow> run_ledger \<Rightarrow> run_ledger" where
  "record_source instance_id family status detail observed_at g =
     (let c = (case map_of (rl_coverage g) instance_id of
                 Some c \<Rightarrow> c
               | None \<Rightarrow> \<lparr>sc_connector_instance_id = instance_id, sc_connector_family = family,
                          sc_status = status, sc_detail = detail, sc_observed_at = observed_at\<rparr>) in
      g\<lparr>rl_coverage := bt_insert instance_id (advance_source status detail observed_at c) (rl_coverage g)\<rparr>)"

definition record_consulted :: "string \<Rightarrow> string \<Rightarrow> run_ledger \<Rightarrow> run_ledger" where
  "record_consulted instance_id family = record_source instance_id family WsConsulted None None"

definition record_failed :: "string \<Rightarrow> string \<Rightarrow> string \<Rightarrow> run_ledger \<Rightarrow> run_ledger" where
  "record_failed instance_id family detail =
     record_source instance_id family WsFailed (Some detail) None"

record tool_result =
  tr_family :: connector_family
  tr_instance_id :: string
  tr_account_identity :: "string option"
  tr_tool_call_id :: string
  tr_tool_definition_digest :: string
  tr_result :: json
  tr_observed_at :: string

fun update_first :: "('a \<Rightarrow> bool) \<Rightarrow> ('a \<Rightarrow> 'a) \<Rightarrow> 'a list \<Rightarrow> 'a list" where
  "update_first P f [] = []"
| "update_first P f (x # xs) = (if P x then f x # xs else x # update_first P f xs)"

definition same_resource :: "string option \<Rightarrow> evidence_entry \<Rightarrow> bool" where
  "same_resource canonical e \<longleftrightarrow> canonical \<noteq> None \<and> ee_canonical_resource_id e = canonical"

definition refresh_entry :: "lib \<Rightarrow> tool_result \<Rightarrow> evidence_target \<Rightarrow> evidence_entry \<Rightarrow> evidence_entry" where
  "refresh_entry l r target e =
     e\<lparr>ee_target := (if target \<noteq> NoTarget then target else ee_target e),
       ee_source_activity_at :=
         (case source_activity_at l (tr_family r) (tr_result r) of
            Some t \<Rightarrow> Some t | None \<Rightarrow> ee_source_activity_at e),
       ee_result_digest := result_digest l (tr_result r),
       ee_observed_at := tr_observed_at r,
       ee_tool_call_id := tr_tool_call_id r,
       ee_tool_definition_digest := tr_tool_definition_digest r,
       ee_account_identity :=
         (case tr_account_identity r of Some a \<Rightarrow> Some a | None \<Rightarrow> ee_account_identity e)\<rparr>"

definition earned_entry :: "lib \<Rightarrow> tool_result \<Rightarrow> resolved_evidence \<Rightarrow> string \<Rightarrow> evidence_entry" where
  "earned_entry l r v evidence_ref =
     \<lparr>ee_evidence_ref = evidence_ref, ee_tool_call_id = tr_tool_call_id r,
      ee_connector_instance_id = tr_instance_id r, ee_account_identity = tr_account_identity r,
      ee_canonical_resource_id = re_canonical_resource_id v, ee_source_kind = re_source_kind v,
      ee_tool_definition_digest = tr_tool_definition_digest r,
      ee_result_digest = result_digest l (tr_result r), ee_target = re_target v,
      ee_observed_at = tr_observed_at r,
      ee_source_activity_at = source_activity_at l (tr_family r) (tr_result r)\<rparr>"

definition evidence_ref_of :: "run_ledger \<Rightarrow> string" where
  "evidence_ref_of g = rl_run_id g @ '':ev-'' @ dec (rl_next_index g)"

definition record_succeeded :: "lib \<Rightarrow> tool_result \<Rightarrow> run_ledger \<Rightarrow> string \<times> run_ledger" where
  "record_succeeded l r g =
     (let v = resolve_evidence l (tr_family r) (tr_instance_id r) (tr_result r);
          canonical = re_canonical_resource_id v;
          seen = (\<lambda>g. record_source (tr_instance_id r) (family_as_str (tr_family r)) WsSucceeded None
                        (Some (tr_observed_at r)) g) in
      case find (same_resource canonical) (rl_entries g) of
        Some e \<Rightarrow>
          (ee_evidence_ref e,
           seen (g\<lparr>rl_entries :=
             update_first (same_resource canonical) (refresh_entry l r (re_target v)) (rl_entries g)\<rparr>))
      | None \<Rightarrow>
          let evidence_ref = evidence_ref_of g in
          (evidence_ref,
           seen (g\<lparr>rl_next_index := rl_next_index g + 1,
                   rl_refs := insert evidence_ref (rl_refs g),
                   rl_resources := (case canonical of Some c \<Rightarrow> insert c (rl_resources g)
                                    | None \<Rightarrow> rl_resources g),
                   rl_entries := rl_entries g @ [earned_entry l r v evidence_ref]\<rparr>)))"

definition ledger_entry :: "run_ledger \<Rightarrow> string \<Rightarrow> evidence_entry option" where
  "ledger_entry g evidence_ref = find (\<lambda>e. ee_evidence_ref e = evidence_ref) (rl_entries g)"

definition coverage :: "run_ledger \<Rightarrow> source_coverage list" where
  "coverage g = map snd (rl_coverage g)"

definition count_at_least :: "run_ledger \<Rightarrow> work_source_status \<Rightarrow> nat" where
  "count_at_least g status =
     length (filter (\<lambda>c. progress status \<le> progress (sc_status c)) (coverage g))"

definition count_exactly :: "run_ledger \<Rightarrow> work_source_status \<Rightarrow> nat" where
  "count_exactly g status = length (filter (\<lambda>c. sc_status c = status) (coverage g))"

definition ledger_contains :: "run_ledger \<Rightarrow> string \<Rightarrow> bool" where
  "ledger_contains g evidence_ref \<longleftrightarrow> evidence_ref \<in> rl_refs g"

section \<open>Laws of the helpers\<close>

abbreviation bt_sorted :: "('k::linorder \<times> 'v) list \<Rightarrow> bool" where
  "bt_sorted m \<equiv> sorted_wrt (<) (map fst m)"

lemma bt_insert_keys [simp]: "fst ` set (bt_insert k v m) = insert k (fst ` set m)"
  by (induction k v m rule: bt_insert.induct) auto

lemma bt_insert_sorted [simp, intro]: "bt_sorted m \<Longrightarrow> bt_sorted (bt_insert k v m)"
proof (induction k v m rule: bt_insert.induct)
  case (2 k v k' v' m)
  have "set (map fst (bt_insert k v m)) = insert k (set (map fst m))"
    using bt_insert_keys [of k v m] by simp
  with 2 show ?case by auto
qed simp

lemma bt_get_insert [simp]:
  "bt_sorted m \<Longrightarrow> map_of (bt_insert k v m) k' = (if k' = k then Some v else map_of m k')"
proof (induction k v m rule: bt_insert.induct)
  case (2 k v k' v' m)
  have "map_of m k = None" if "k < k'"
    using that 2(2) by (auto simp: map_of_eq_None_iff)
  with 2 show ?case by auto
qed simp

lemma bt_sorted_distinct: "bt_sorted m \<Longrightarrow> distinct (map fst m)"
  by (simp add: strict_sorted_iff)

lemma update_first_split:
  "find P xs = Some e \<Longrightarrow> \<exists>us vs. xs = us @ e # vs \<and> update_first P f xs = us @ f e # vs"
proof (induction xs)
  case (Cons x xs)
  show ?case
  proof (cases "P x")
    case True
    with Cons.prems show ?thesis by (intro exI [of _ "[]"] exI [of _ xs]) auto
  next
    case False
    with Cons obtain us vs where "xs = us @ e # vs" "update_first P f xs = us @ f e # vs" by auto
    with False show ?thesis by (intro exI [of _ "x # us"] exI [of _ vs]) auto
  qed
qed simp

lemma find_unique_key:
  "distinct (map k xs) \<Longrightarrow> find (\<lambda>x. k x = c) xs = Some x \<longleftrightarrow> x \<in> set xs \<and> k x = c"
  by (induction xs) (auto simp: rev_image_eqI)

lemma find_key_None: "find (\<lambda>x. k x = c) xs = None \<longleftrightarrow> c \<notin> k ` set xs"
  by (auto simp: find_None_iff)

lemma digits_value_append:
  "digits_value n (xs @ ys) = (case digits_value n xs of None \<Rightarrow> None | Some m \<Rightarrow> digits_value m ys)"
  by (induction n xs rule: digits_value.induct) auto

lemma digit_char: "(d :: nat) < 10 \<Longrightarrow> ascii_digit (char_of (48 + d)) \<and> of_char (char_of (48 + d) :: char) = 48 + d"
proof -
  assume "d < 10"
  then have "d \<in> {0,1,2,3,4,5,6,7,8,9}" by auto
  then show ?thesis by (elim insertE emptyE; hypsubst; code_simp)
qed

lemma digits_value_dec [simp]: "digits_value 0 (dec n) = Some n"
proof (induction n rule: dec.induct)
  case (1 n)
  show ?case
  proof (cases "n < 10")
    case True
    then show ?thesis using digit_char [of n] by (simp add: dec.simps)
  next
    case False
    with 1 digit_char [of "n mod 10"] show ?thesis
      by (subst dec.simps) (simp add: digits_value_append)
  qed
qed

lemma dec_inj: "dec n = dec m \<longleftrightarrow> n = m"
  by (metis digits_value_dec option.inject)

section \<open>The ledger over a run\<close>

datatype ledger_event =
    EvSource string string work_source_status "string option" "string option"
  | EvConsulted string string
  | EvFailed string string string
  | EvSucceeded tool_result

fun ledger_step :: "lib \<Rightarrow> ledger_event \<Rightarrow> run_ledger \<Rightarrow> string option \<times> run_ledger" where
  "ledger_step l (EvSource i f st d ob) g = (None, record_source i f st d ob g)"
| "ledger_step l (EvConsulted i f) g = (None, record_consulted i f g)"
| "ledger_step l (EvFailed i f d) g = (None, record_failed i f d g)"
| "ledger_step l (EvSucceeded r) g = (let (ref, g') = record_succeeded l r g in (Some ref, g'))"

text \<open>The events of a run in order, each with the reference it earned.\<close>

definition ledger_run ::
    "lib \<Rightarrow> string \<Rightarrow> ledger_event list \<Rightarrow> (ledger_event \<times> string option) list \<times> run_ledger" where
  "ledger_run l run evs =
     fold (\<lambda>ev (hist, g). let (ref, g') = ledger_step l ev g in (hist @ [(ev, ref)], g')) evs
       ([], ledger_new run)"

lemma ledger_run_Nil [simp]: "ledger_run l run [] = ([], ledger_new run)"
  by (simp add: ledger_run_def)

lemma ledger_run_snoc:
  "ledger_run l run (evs @ [ev]) =
     (let (hist, g) = ledger_run l run evs; (ref, g') = ledger_step l ev g in (hist @ [(ev, ref)], g'))"
  by (simp add: ledger_run_def case_prod_beta Let_def)

text \<open>The last successful result that carries a reference.\<close>

definition latest :: "(ledger_event \<times> string option) list \<Rightarrow> string \<Rightarrow> tool_result option" where
  "latest hist ref =
     find_map (\<lambda>(ev, earned). case ev of
                 EvSucceeded r \<Rightarrow> if earned = Some ref then Some r else None | _ \<Rightarrow> None) (rev hist)"

lemma latest_simps [simp]:
  "latest [] ref = None"
  "latest (hist @ [(EvSucceeded r, Some x)]) ref = (if x = ref then Some r else latest hist ref)"
  "latest (hist @ [(EvSource i f st d ob, y)]) ref = latest hist ref"
  "latest (hist @ [(EvConsulted i f, y)]) ref = latest hist ref"
  "latest (hist @ [(EvFailed i f x, y)]) ref = latest hist ref"
  by (simp_all add: latest_def)

lemma record_source_keeps [simp]:
  "rl_run_id (record_source i f st d ob g) = rl_run_id g"
  "rl_entries (record_source i f st d ob g) = rl_entries g"
  "rl_refs (record_source i f st d ob g) = rl_refs g"
  "rl_next_index (record_source i f st d ob g) = rl_next_index g"
  by (simp_all add: record_source_def Let_def)

definition backs :: "lib \<Rightarrow> tool_result \<Rightarrow> evidence_entry \<Rightarrow> bool" where
  "backs l r e \<longleftrightarrow>
     ee_result_digest e = result_digest l (tr_result r) \<and> ee_tool_call_id e = tr_tool_call_id r
     \<and> ee_tool_definition_digest e = tr_tool_definition_digest r
     \<and> ee_observed_at e = tr_observed_at r"

lemma backs_refresh [simp]: "backs l r (refresh_entry l r t e)"
  by (simp add: backs_def refresh_entry_def)

lemma backs_earned [simp]: "backs l r (earned_entry l r v ref)"
  by (simp add: backs_def earned_entry_def)

lemma refresh_ref [simp]: "ee_evidence_ref (refresh_entry l r t e) = ee_evidence_ref e"
  by (simp add: refresh_entry_def)

lemma earned_ref [simp]: "ee_evidence_ref (earned_entry l r v ref) = ref"
  by (simp add: earned_entry_def)

definition ledger_inv :: "lib \<Rightarrow> (ledger_event \<times> string option) list \<Rightarrow> run_ledger \<Rightarrow> bool" where
  "ledger_inv l hist g \<longleftrightarrow>
     distinct (map ee_evidence_ref (rl_entries g))
     \<and> rl_refs g = ee_evidence_ref ` set (rl_entries g)
     \<and> (\<forall>ref \<in> rl_refs g. \<exists>k < rl_next_index g. ref = rl_run_id g @ '':ev-'' @ dec k)
     \<and> (\<forall>ref. latest hist ref \<noteq> None \<longleftrightarrow> ref \<in> rl_refs g)
     \<and> (\<forall>e \<in> set (rl_entries g). \<forall>r. latest hist (ee_evidence_ref e) = Some r \<longrightarrow> backs l r e)"

lemma ledger_inv_latest: "ledger_inv l hist g \<Longrightarrow> (latest hist ref = None) = (ref \<notin> rl_refs g)"
  unfolding ledger_inv_def by blast

lemma ledger_inv_same:
  assumes "ledger_inv l hist g" "rl_entries g' = rl_entries g" "rl_refs g' = rl_refs g"
    "rl_next_index g' = rl_next_index g" "rl_run_id g' = rl_run_id g"
    "\<And>ref. latest hist' ref = latest hist ref"
  shows "ledger_inv l hist' g'"
  using assms by (simp add: ledger_inv_def)

lemma fresh_ref: "ledger_inv l hist g \<Longrightarrow> evidence_ref_of g \<notin> rl_refs g"
  by (fastforce simp: ledger_inv_def evidence_ref_of_def dec_inj)

lemma ledger_inv_succeeded:
  assumes inv: "ledger_inv l hist g"
  shows "ledger_inv l (hist @ [(EvSucceeded r, Some (fst (record_succeeded l r g)))])
           (snd (record_succeeded l r g))"
proof -
  define v where "v = resolve_evidence l (tr_family r) (tr_instance_id r) (tr_result r)"
  define P where "P = same_resource (re_canonical_resource_id v)"
  show ?thesis
  proof (cases "find P (rl_entries g)")
    case None
    have fr: "evidence_ref_of g \<notin> rl_refs g" using inv by (rule fresh_ref)
    define g' where "g' = snd (record_succeeded l r g)"
    have e: "rl_entries g' = rl_entries g @ [earned_entry l r v (evidence_ref_of g)]"
      and rf: "rl_refs g' = insert (evidence_ref_of g) (rl_refs g)"
      and nx: "rl_next_index g' = rl_next_index g + 1" and id: "rl_run_id g' = rl_run_id g"
      and fs: "fst (record_succeeded l r g) = evidence_ref_of g"
      using None by (simp_all add: g'_def record_succeeded_def Let_def v_def [symmetric] P_def [symmetric])
    show ?thesis
      unfolding g'_def [symmetric] fs ledger_inv_def e rf nx id
      using inv fr by (auto simp: ledger_inv_def evidence_ref_of_def less_Suc_eq)
  next
    case (Some e0)
    define g' where "g' = snd (record_succeeded l r g)"
    define f where "f = refresh_entry l r (re_target v)"
    obtain us vs where us: "rl_entries g = us @ e0 # vs"
      and up: "update_first P f (rl_entries g) = us @ f e0 # vs"
      using update_first_split [OF Some] by blast
    have e: "rl_entries g' = us @ f e0 # vs"
      and rf: "rl_refs g' = rl_refs g" and nx: "rl_next_index g' = rl_next_index g"
      and id: "rl_run_id g' = rl_run_id g"
      and fs: "fst (record_succeeded l r g) = ee_evidence_ref e0"
      using Some up by (simp_all add: g'_def record_succeeded_def Let_def v_def [symmetric]
          P_def [symmetric] f_def [symmetric])
    have d: "distinct (map ee_evidence_ref (us @ e0 # vs))"
      and rs: "rl_refs g = ee_evidence_ref ` set (us @ e0 # vs)"
      and lt: "\<And>ref. latest hist ref \<noteq> None \<longleftrightarrow> ref \<in> rl_refs g"
      and bk: "\<And>e r. e \<in> set (us @ e0 # vs) \<Longrightarrow> latest hist (ee_evidence_ref e) = Some r \<Longrightarrow> backs l r e"
      and ix: "\<forall>ref \<in> rl_refs g. \<exists>k < rl_next_index g. ref = rl_run_id g @ '':ev-'' @ dec k"
      using inv us by (auto simp: ledger_inv_def)
    have fe: "ee_evidence_ref (f e0) = ee_evidence_ref e0" "backs l r (f e0)" by (simp_all add: f_def)
    have nl: "latest hist (ee_evidence_ref e) = Some r' \<Longrightarrow> e \<in> set us \<union> set vs \<Longrightarrow> backs l r' e" for e r'
      using bk [of e r'] by auto
    show ?thesis
      unfolding g'_def [symmetric] fs ledger_inv_def e rf nx id
    proof (intro conjI)
      show "distinct (map ee_evidence_ref (us @ f e0 # vs))" using d fe by simp
      show "rl_refs g = ee_evidence_ref ` set (us @ f e0 # vs)" using rs fe by simp
      show "\<forall>ref \<in> rl_refs g. \<exists>k < rl_next_index g. ref = rl_run_id g @ '':ev-'' @ dec k" by (rule ix)
      show "\<forall>ref. latest (hist @ [(EvSucceeded r, Some (ee_evidence_ref e0))]) ref \<noteq> None
          \<longleftrightarrow> ref \<in> rl_refs g"
        using lt rs by auto
      show "\<forall>e \<in> set (us @ f e0 # vs). \<forall>r'.
          latest (hist @ [(EvSucceeded r, Some (ee_evidence_ref e0))]) (ee_evidence_ref e) = Some r'
          \<longrightarrow> backs l r' e"
        using fe d nl by (auto split: if_splits)
    qed
  qed
qed

lemma ledger_inv_run: "ledger_inv l (fst (ledger_run l run evs)) (snd (ledger_run l run evs))"
proof (induction evs rule: rev_induct)
  case (snoc ev evs)
  obtain hist g where lg: "ledger_run l run evs = (hist, g)" by (cases "ledger_run l run evs") auto
  with snoc have inv: "ledger_inv l hist g" by simp
  show ?case
  proof (cases ev)
    case (EvSucceeded r)
    with ledger_inv_succeeded [OF inv, of r] lg show ?thesis
      by (simp add: ledger_run_snoc case_prod_beta Let_def)
  qed (use lg in \<open>auto simp: ledger_run_snoc record_consulted_def record_failed_def
         intro: ledger_inv_same [OF inv]\<close>)
qed (simp add: ledger_inv_def ledger_new_def)

text \<open>A reference the ledger holds is one a successful call of the run was last given.\<close>

lemma latest_is_event: "latest hist ref = Some r \<Longrightarrow> EvSucceeded r \<in> fst ` set hist"
proof (induction hist rule: rev_induct)
  case (snoc h hist)
  then show ?case
    by (cases h; cases "fst h") (auto simp: latest_def split: if_splits)
qed simp

lemma ledger_run_history: "map fst (fst (ledger_run l run evs)) = evs"
  by (induction evs rule: rev_induct) (simp_all add: ledger_run_snoc case_prod_beta Let_def)

lemma ledger_reference_backed:
  assumes "ledger_contains (snd (ledger_run l run evs)) ref"
  obtains r e where "EvSucceeded r \<in> set evs"
    "ledger_entry (snd (ledger_run l run evs)) ref = Some e" "backs l r e"
proof -
  obtain hist g where lg: "ledger_run l run evs = (hist, g)" by fastforce
  have inv: "ledger_inv l hist g" using ledger_inv_run [of l run evs] lg by simp
  from assms lg have ref: "ref \<in> rl_refs g" by (simp add: ledger_contains_def)
  then obtain r where r: "latest hist ref = Some r" using ledger_inv_latest [OF inv] by blast
  from ref inv obtain e where e: "e \<in> set (rl_entries g)" "ee_evidence_ref e = ref"
    by (auto simp: ledger_inv_def)
  then have "ledger_entry g ref = Some e" using inv by (simp add: ledger_entry_def find_unique_key ledger_inv_def)
  moreover have "backs l r e" using inv e r by (auto simp: ledger_inv_def)
  moreover have "EvSucceeded r \<in> set evs"
    using latest_is_event [OF r] ledger_run_history [of l run evs] lg by (metis fst_conv list.set_map)
  ultimately show thesis using that lg by simp
qed

text \<open>
  C14. A reference is earned, never granted: whatever the sources and the calls of a run did,
  the ledger holds a reference exactly if some successful call of the run was given it, and the
  entry behind it carries the call, the result digest, the tool definition and the time of the
  last successful call that was.
\<close>
theorem evidence_is_earned:
  "let (hist, g) = ledger_run l run evs in
     (case latest hist ref of
        None \<Rightarrow> \<not> ledger_contains g ref \<and> ledger_entry g ref = None
      | Some r \<Rightarrow> ledger_contains g ref \<and>
          (\<exists>e. ledger_entry g ref = Some e \<and> ee_result_digest e = result_digest l (tr_result r)
             \<and> ee_tool_call_id e = tr_tool_call_id r
             \<and> ee_tool_definition_digest e = tr_tool_definition_digest r
             \<and> ee_observed_at e = tr_observed_at r))"
proof -
  obtain hist g where lg: "ledger_run l run evs = (hist, g)" by (cases "ledger_run l run evs") auto
  have inv: "ledger_inv l hist g" using ledger_inv_run [of l run evs] lg by simp
  show ?thesis
  proof (cases "latest hist ref")
    case None
    with ledger_inv_latest [OF inv] have "ref \<notin> rl_refs g" by blast
    moreover from this inv have "ledger_entry g ref = None"
      by (simp add: ledger_entry_def find_key_None ledger_inv_def)
    ultimately show ?thesis using None lg by (simp add: ledger_contains_def)
  next
    case (Some r)
    with ledger_inv_latest [OF inv, of ref] have "ref \<in> rl_refs g" by simp
    then obtain e where e: "e \<in> set (rl_entries g)" "ee_evidence_ref e = ref"
      using inv by (auto simp: ledger_inv_def)
    then have "ledger_entry g ref = Some e"
      using inv by (simp add: ledger_entry_def find_unique_key ledger_inv_def)
    moreover have "backs l r e" using inv e Some by (auto simp: ledger_inv_def)
    ultimately show ?thesis
      using \<open>ref \<in> rl_refs g\<close> Some lg by (auto simp: backs_def ledger_contains_def)
  qed
qed

section \<open>Coverage\<close>

fun reached :: "ledger_event \<Rightarrow> string \<times> work_source_status" where
  "reached (EvSource i f st d ob) = (i, st)"
| "reached (EvConsulted i f) = (i, WsConsulted)"
| "reached (EvFailed i f d) = (i, WsFailed)"
| "reached (EvSucceeded r) = (tr_instance_id r, WsSucceeded)"

definition statuses_of :: "string \<Rightarrow> ledger_event list \<Rightarrow> work_source_status set" where
  "statuses_of i evs = {st. (i, st) \<in> reached ` set evs}"

lemma progress_inj: "progress a = progress b \<Longrightarrow> a = b"
  by (cases a; cases b) simp_all

lemma status_advance:
  "sc_status (advance_source st d ob c) = (if progress (sc_status c) \<le> progress st then st else sc_status c)"
  by (simp add: advance_source_def)

lemma record_source_coverage:
  assumes "bt_sorted (rl_coverage g)"
  shows "bt_sorted (rl_coverage (record_source i f st d ob g))"
    and "map_option sc_status (map_of (rl_coverage (record_source i f st d ob g)) j) =
      (if j = i then Some (case map_of (rl_coverage g) i of
                             None \<Rightarrow> st
                           | Some c \<Rightarrow> if progress (sc_status c) \<le> progress st then st else sc_status c)
       else map_option sc_status (map_of (rl_coverage g) j))"
  using assms by (auto simp: record_source_def Let_def status_advance split: option.splits)

text \<open>One event's effect on the coverage, whichever it is.\<close>

lemma ledger_step_coverage:
  assumes "bt_sorted (rl_coverage g)" and "snd (ledger_step l ev g) = g'"
  shows "bt_sorted (rl_coverage g')
    \<and> (\<forall>j. map_option sc_status (map_of (rl_coverage g') j) =
      (if j = fst (reached ev) then Some (case map_of (rl_coverage g) j of
                             None \<Rightarrow> snd (reached ev)
                           | Some c \<Rightarrow> if progress (sc_status c) \<le> progress (snd (reached ev))
                               then snd (reached ev) else sc_status c)
       else map_option sc_status (map_of (rl_coverage g) j)))"
proof -
  have "rl_coverage (snd (record_succeeded l r g)) = rl_coverage (record_source (tr_instance_id r)
      (family_as_str (tr_family r)) WsSucceeded None (Some (tr_observed_at r)) g)" for r
    by (simp add: record_succeeded_def record_source_def Let_def split: option.split)
  then have "\<exists>f d ob. rl_coverage g'
      = rl_coverage (record_source (fst (reached ev)) f (snd (reached ev)) d ob g)"
    using assms(2)
    by (cases ev) (auto simp: record_consulted_def record_failed_def case_prod_beta Let_def)
  then obtain f d ob where g': "rl_coverage g'
      = rl_coverage (record_source (fst (reached ev)) f (snd (reached ev)) d ob g)" by blast
  show ?thesis
    unfolding g' using record_source_coverage [OF assms(1), where f = f and d = d and ob = ob] by auto
qed

definition furthest :: "work_source_status set \<Rightarrow> work_source_status option \<Rightarrow> bool" where
  "furthest S st =
     (case st of None \<Rightarrow> S = {} | Some s \<Rightarrow> s \<in> S \<and> (\<forall>s' \<in> S. progress s' \<le> progress s))"

lemma statuses_snoc:
  "statuses_of i (evs @ [ev]) =
     (if fst (reached ev) = i then insert (snd (reached ev)) (statuses_of i evs) else statuses_of i evs)"
  by (cases "reached ev") (auto simp: statuses_of_def)

lemma dom_pairs: "i \<in> fst ` R \<longleftrightarrow> (\<exists>st. (i, st) \<in> R)"
  by force

lemma coverage_inv:
  "bt_sorted (rl_coverage (snd (ledger_run l run evs)))
   \<and> (\<forall>i. furthest (statuses_of i evs)
            (map_option sc_status (map_of (rl_coverage (snd (ledger_run l run evs))) i)))"
proof (induction evs rule: rev_induct)
  case (snoc ev evs)
  let ?g = "snd (ledger_run l run evs)" let ?g' = "snd (ledger_run l run (evs @ [ev]))"
  have st: "snd (ledger_step l ev ?g) = ?g'"
    by (simp add: ledger_run_snoc case_prod_beta Let_def)
  note step = ledger_step_coverage [OF conjunct1 [OF snoc.IH] st]
  have "furthest (statuses_of i (evs @ [ev])) (map_option sc_status (map_of (rl_coverage ?g') i))" for i
  proof -
    have IH: "furthest (statuses_of i evs) (map_option sc_status (map_of (rl_coverage ?g) i))"
      using snoc.IH by blast
    have eq: "map_option sc_status (map_of (rl_coverage ?g') i) =
      (if i = fst (reached ev) then Some (case map_of (rl_coverage ?g) i of
                             None \<Rightarrow> snd (reached ev)
                           | Some c \<Rightarrow> if progress (sc_status c) \<le> progress (snd (reached ev))
                               then snd (reached ev) else sc_status c)
       else map_option sc_status (map_of (rl_coverage ?g) i))"
      using step by blast
    show ?thesis
      unfolding eq statuses_snoc using IH
      by (cases "map_of (rl_coverage ?g) i") (auto simp: furthest_def)
  qed
  with step show ?case by blast
qed (simp add: furthest_def statuses_of_def ledger_new_def)

text \<open>
  The coverage of a run has one row for every source an event was about, in the order of
  their names, and its status is the furthest that source got in any event, in whatever order
  the events came: a failed call does not erase an earlier success.
\<close>
theorem coverage_is_the_furthest_reached:
  "let g = snd (ledger_run l run evs) in
     sorted_wrt (<) (map fst (rl_coverage g))
     \<and> fst ` set (rl_coverage g) = fst ` reached ` set evs
     \<and> list_all (\<lambda>(i, c). sc_status c \<in> statuses_of i evs
          \<and> progress ` statuses_of i evs \<subseteq> {.. progress (sc_status c)}) (rl_coverage g)"
proof -
  let ?g = "snd (ledger_run l run evs)"
  have so: "bt_sorted (rl_coverage ?g)" and fu: "\<And>i. furthest (statuses_of i evs)
            (map_option sc_status (map_of (rl_coverage ?g) i))"
    using coverage_inv [of l run evs] by blast+
  have "i \<in> fst ` set (rl_coverage ?g) \<longleftrightarrow> i \<in> fst ` reached ` set evs" for i
  proof -
    have "i \<in> fst ` set (rl_coverage ?g) \<longleftrightarrow> map_of (rl_coverage ?g) i \<noteq> None"
      by (simp add: map_of_eq_None_iff)
    also have "\<dots> \<longleftrightarrow> statuses_of i evs \<noteq> {}"
      using fu [of i] by (cases "map_of (rl_coverage ?g) i") (auto simp: furthest_def)
    also have "\<dots> \<longleftrightarrow> i \<in> fst ` reached ` set evs"
      using dom_pairs [of i "reached ` set evs"] by (simp add: statuses_of_def)
    finally show ?thesis .
  qed
  moreover have row: "sc_status c \<in> statuses_of i evs
      \<and> progress ` statuses_of i evs \<subseteq> {.. progress (sc_status c)}"
    if "(i, c) \<in> set (rl_coverage ?g)" for i c
    using fu [of i] map_of_is_SomeI [OF bt_sorted_distinct [OF so] that] by (auto simp: furthest_def)
  moreover have "list_all (\<lambda>(i, c). sc_status c \<in> statuses_of i evs
      \<and> progress ` statuses_of i evs \<subseteq> {.. progress (sc_status c)}) (rl_coverage ?g)"
    unfolding list_all_iff by (clarify, rule row)
  ultimately show ?thesis using so by (simp add: Let_def set_eq_iff)
qed

section \<open>Eligibility\<close>

lemma reviewed_identities_Ok:
  "reviewed_identities presented rs = Inr ts \<longleftrightarrow>
     ts = map rt_identity rs
     \<and> (\<forall>r \<in> set rs. map_of presented (wire_name (rt_identity r)) = Some (rt_definition_digest r))"
  by (induction rs arbitrary: ts) (auto simp: Let_def split: option.splits sum.splits)

text \<open>
  A connector is offered to a model exactly if its family has a resolver, it is signed in,
  someone reviewed at least one of its tools, and the definition of every reviewed tool is still
  the one that was reviewed; what is offered is then exactly the reviewed tools.
\<close>
theorem eligible_means_reviewed_and_unchanged:
  "eligibility i = Eligible f ts \<longleftrightarrow>
     ci_family i = Some f \<and> ci_authenticated i \<and> ci_reviewed_tools i \<noteq> []
     \<and> ts = map rt_identity (ci_reviewed_tools i)
     \<and> list_all (\<lambda>r. map_of (ci_presented_digests i) (wire_name (rt_identity r))
          = Some (rt_definition_digest r)) (ci_reviewed_tools i)"
  by (auto simp: eligibility_def reviewed_identities_Ok list_all_iff split: option.splits sum.splits)
     (metis reviewed_identities_Ok sum.distinct(1))+

section \<open>Digests of tool definitions\<close>

text \<open>Two values that differ only in the order of the keys of their objects.\<close>

inductive same_json :: "json \<Rightarrow> json \<Rightarrow> bool" where
  same_refl: "same_json v v"
| same_arr: "list_all2 same_json xs ys \<Longrightarrow> same_json (JArr xs) (JArr ys)"
| same_obj: "list_all2 (\<lambda>a b. fst a = fst b \<and> same_json (snd a) (snd b)) ob ob' \<Longrightarrow> mset ob'' = mset ob' \<Longrightarrow>
     distinct (map fst ob) \<Longrightarrow> same_json (JObj ob) (JObj ob'')"
monos list_all2_mono

lemma list_all2_insort:
  assumes "\<And>a b. R a b \<Longrightarrow> k a = k b" and "R x y" "list_all2 R xs ys"
  shows "list_all2 R (insort_key k x xs) (insort_key k y ys)"
  using assms(3)
proof (induction rule: list_all2_induct)
  case (Cons a as b bs)
  have "k x = k y" "k a = k b" using assms(1,2) Cons by simp_all
  then show ?case using Cons assms(2) by simp
qed (simp add: assms(2))

lemma list_all2_sort_key:
  assumes "\<And>a b. R a b \<Longrightarrow> k a = k b" and "list_all2 R xs ys"
  shows "list_all2 R (sort_key k xs) (sort_key k ys)"
  using assms(2) by (induction rule: list_all2_induct) (auto intro: list_all2_insort assms(1))

lemma filter_distinct_key:
  "distinct (map k xs) \<Longrightarrow> x \<in> set xs \<Longrightarrow> filter (\<lambda>y. k x = k y) xs = [x]"
  by (induction xs) (auto simp: filter_empty_conv rev_image_eqI)

lemma sort_key_mset:
  assumes "mset xs = mset ys" "distinct (map k xs)"
  shows "sort_key k xs = sort_key k ys"
proof (rule properties_for_sort_key)
  show "mset (sort_key k ys) = mset xs" using assms(1) by simp
  fix x assume "x \<in> set (sort_key k ys)"
  then have x: "x \<in> set xs" using assms(1) by (metis set_mset_mset set_sort)
  have d: "distinct (map k (sort_key k ys))"
    using assms by (metis distinct_map mset_eq_imp_distinct_iff mset_sort set_mset_mset)
  show "filter (\<lambda>y. k x = k y) (sort_key k ys) = filter (\<lambda>y. k x = k y) xs"
    using filter_distinct_key [OF assms(2) x] filter_distinct_key [OF d, of x] x assms(1)
    by (metis set_mset_mset set_sort)
qed simp

lemma canonical_json_same: "same_json v w \<Longrightarrow> canonical_json render v = canonical_json render w"
proof (induction rule: same_json.induct)
  case (same_arr xs ys)
  then have "map (canonical_json render) xs = map (canonical_json render) ys"
    by (auto simp: list_all2_conv_all_nth intro: nth_equalityI)
  then show ?case by simp
next
  case (same_obj ob ob' ob'')
  let ?R = "\<lambda>a b. fst a = fst b \<and> canonical_json render (snd a) = canonical_json render (snd b)"
  have R: "list_all2 ?R ob ob'" using same_obj(1) by (rule list_all2_mono) blast
  then have keys: "map fst ob = map fst ob'"
    by (auto simp: list_all2_conv_all_nth intro: nth_equalityI)
  have eq: "sort_key fst ob'' = sort_key fst ob'"
    using same_obj(2,3) keys by (intro sort_key_mset [symmetric]) simp_all
  have "list_all2 ?R (sort_key fst ob) (sort_key fst ob')"
    using R by (rule list_all2_sort_key [rotated]) simp
  then have "map (\<lambda>(k, v). render (JStr k) @ '':'' @ canonical_json render v) (sort_key fst ob)
      = map (\<lambda>(k, v). render (JStr k) @ '':'' @ canonical_json render v) (sort_key fst ob')"
    by (auto simp: list_all2_conv_all_nth case_prod_beta intro: nth_equalityI)
  then show ?case using eq by simp
qed simp

text \<open>
  The digest a review pins a tool to does not depend on the order in which the provider
  emits the keys of any object in the tool's definition, at any depth.
\<close>
theorem tool_digest_ignores_key_order:
  "same_json v w \<Longrightarrow> tool_definition_digest l v = tool_definition_digest l w"
  by (simp add: tool_definition_digest_def canonical_json_same)

theorem tool_digest_ignores_key_order_witness:
  "\<forall>l. tool_definition_digest l (JObj [(''name'', JStr ''search''), (''parameters'', JNull)])
   = tool_definition_digest l (JObj [(''parameters'', JNull), (''name'', JStr ''search'')])"
proof (intro allI, rule tool_digest_ignores_key_order, rule same_obj)
  show "list_all2 (\<lambda>a b. fst a = fst b \<and> same_json (snd a) (snd b))
      [(''name'', JStr ''search''), (''parameters'', JNull)]
      [(''name'', JStr ''search''), (''parameters'', JNull)]"
    by (simp add: same_refl)
qed simp_all

section \<open>Links\<close>

lemma url_authority_split:
  "\<exists>tail. rest = url_authority rest @ tail \<and> (tail = [] \<or> hd tail \<in> set ''/?#'')"
proof (induction rest)
  case (Cons c rest)
  obtain w ws where w: "split_by (\<lambda>c. c \<in> set ''/?#'') rest = w # ws"
    by (cases "split_by (\<lambda>c. c \<in> set ''/?#'') rest") (auto simp del: set_simps)
  show ?case
  proof (cases "c \<in> set ''/?#''")
    case True
    then have "url_authority (c # rest) = []" unfolding url_authority_def by simp
    with True show ?thesis by (intro exI [of _ "c # rest"]) simp
  next
    case False
    then have "url_authority (c # rest) = c # url_authority rest"
      unfolding url_authority_def split_by.simps if_not_P [OF False] w by simp
    with Cons show ?thesis by auto
  qed
qed (simp add: url_authority_def)

lemma strip_suffix_Some: "strip_suffix s p = Some l \<longleftrightarrow> s = l @ p"
  by (auto simp: strip_suffix_def suffix_def)

lemma safe_external_link_Some:
  "safe_external_link family url = Some t \<longleftrightarrow>
     (\<exists>rest. url = ''https://'' @ rest \<and> url_authority rest \<noteq> [] \<and> CHR ''@'' \<notin> set (url_authority rest)
        \<and> t = ExternalLink url (url_host (url_authority rest))
        \<and> (slack_workspace family (url_host (url_authority rest))
           \<or> url_host (url_authority rest) \<in> set (allowed_hosts family)))"
  by (auto simp: safe_external_link_def strip_prefix_Some Let_def split: option.splits)

section \<open>Canonical ids\<close>

lemma colliding_results:
  assumes "tr_family r = Linear" "tr_instance_id r = ''team''" "tr_result r = JObj [(''identifier'', JStr ''eu:1'')]"
    and "tr_family r' = Linear" "tr_instance_id r' = ''team:eu''" "tr_result r' = JObj [(''identifier'', JStr ''1'')]"
    and "tr_account_identity r' = Some other"
  shows "let (hist, g) = ledger_run l run [EvSucceeded r, EvSucceeded r'] in
     map snd hist = [Some (run @ '':ev-1''), Some (run @ '':ev-1'')]
     \<and> map (\<lambda>e. (ee_connector_instance_id e, ee_account_identity e, ee_result_digest e)) (rl_entries g)
         = [(''team'', Some other, result_digest l (tr_result r'))]"
proof -
  have it: "source_item l (JObj [(''identifier'', JStr s)]) = Some (JObj [(''identifier'', JStr s)])" for s
    by (simp add: source_item_def wrapper_of_def wrapper_keys_def obj_get_def get_str_def eval_nat_numeral)
  have tr: "trim ''eu:1'' = ''eu:1''" "trim ''1'' = ''1''" by code_simp+
  have id: "re_canonical_resource_id (resolve_evidence l Linear ''team'' (JObj [(''identifier'', JStr ''eu:1'')]))
      = Some ''linear:team:eu:1''"
    "re_canonical_resource_id (resolve_evidence l Linear ''team:eu'' (JObj [(''identifier'', JStr ''1'')]))
      = Some ''linear:team:eu:1''"
    using tr by (simp_all add: resolve_evidence_def it item_text_def json_get_def obj_get_def Let_def)
  have one: "dec 1 = ''1''" by code_simp
  show ?thesis
    using assms id one
    by (simp add: ledger_run_def Let_def record_succeeded_def ledger_new_def same_resource_def
        earned_entry_def refresh_entry_def evidence_ref_of_def)
qed

text \<open>
  The canonical resource id joins the family, the instance and the provider's id with
  colons, so an item of one instance can be given the id of an item of another; the ledger then
  answers the second call with the first one's reference, and the entry keeps the first
  instance while its digest, account and time become the second call's.
\<close>
theorem canonical_ids_collide:
  "let r = \<lparr>tr_family = Linear, tr_instance_id = ''team'', tr_account_identity = Some a,
            tr_tool_call_id = c, tr_tool_definition_digest = d,
            tr_result = JObj [(''identifier'', JStr ''eu:1'')], tr_observed_at = t\<rparr>;
       r' = \<lparr>tr_family = Linear, tr_instance_id = ''team:eu'', tr_account_identity = Some a',
            tr_tool_call_id = c', tr_tool_definition_digest = d',
            tr_result = JObj [(''identifier'', JStr ''1'')], tr_observed_at = t'\<rparr>;
       (hist, g) = ledger_run l run [EvSucceeded r, EvSucceeded r'] in
     map snd hist = [Some (run @ '':ev-1''), Some (run @ '':ev-1'')]
     \<and> map (\<lambda>e. (ee_connector_instance_id e, ee_account_identity e, ee_result_digest e)) (rl_entries g)
         = [(''team'', Some a', result_digest l (tr_result r'))]"
  unfolding Let_def
  by (rule colliding_results [unfolded Let_def]) simp_all

end
