(* ===== verification/Work_Brief.thy ===== *)
theory Work_Brief
  imports Envelopes Work_Evidence
begin

text \<open>
  The strict reader of a briefing model's answer (\<open>bridge-core/src/work_brief_parser.rs\<close>): one
  fenced block, one closed schema, ranks and bounds, and citations only of evidence the run
  earned; then at most one repair.

  \<open>serde_json\<close> is a library: \<open>br_json\<close> reads text to a value whose objects keep duplicate keys (a
  derived reader refuses them), \<open>br_error\<close> is what it reports for text it cannot read as a brief,
  whether it is a syntax error or an early end, and its message. \<open>br_alphanumeric\<close> is the Unicode
  half of \<open>char::is_alphanumeric\<close>.
\<close>

record brief_reader =
  br_json :: "string \<Rightarrow> json option"
  br_error :: "string \<Rightarrow> bool \<times> string"
  br_alphanumeric :: "string \<Rightarrow> bool"

definition brief_schema_version :: nat where "brief_schema_version = 1"
definition brief_fence :: string where "brief_fence = ''bridge-work-brief''"
definition max_tasks :: nat where "max_tasks = 12"
definition max_title_chars :: nat where "max_title_chars = 160"
definition max_why_chars :: nat where "max_why_chars = 400"

datatype brief_rejection =
    FenceCount nat
  | NotJson
  | SchemaInvalid string
  | UnknownVersion nat
  | RankNotDense
  | TooManyTasks nat
  | TextTooLong string nat
  | ConfidenceOutOfRange
  | EvidenceUnknown
  | EvidenceDuplicated
  | EvidenceMissing
  | PrimaryEvidenceMissing

fun rejection_code :: "brief_rejection \<Rightarrow> string" where
  "rejection_code (FenceCount _) = ''schema_invalid''"
| "rejection_code NotJson = ''schema_invalid''"
| "rejection_code (SchemaInvalid _) = ''schema_invalid''"
| "rejection_code (UnknownVersion _) = ''schema_version_unsupported''"
| "rejection_code RankNotDense = ''rank_invalid''"
| "rejection_code (TooManyTasks _) = ''task_limit_exceeded''"
| "rejection_code (TextTooLong _ _) = ''text_limit_exceeded''"
| "rejection_code ConfidenceOutOfRange = ''confidence_invalid''"
| "rejection_code EvidenceUnknown = ''evidence_invalid''"
| "rejection_code EvidenceMissing = ''evidence_invalid''"
| "rejection_code EvidenceDuplicated = ''evidence_invalid''"
| "rejection_code PrimaryEvidenceMissing = ''evidence_invalid''"

fun rejection_detail :: "brief_rejection \<Rightarrow> string" where
  "rejection_detail (FenceCount n) =
     ''expected exactly one '' @ quoted brief_fence @ '' block, found '' @ dec n"
| "rejection_detail NotJson = ''the block did not contain one JSON object''"
| "rejection_detail (SchemaInvalid f) =
     ''the field '' @ quoted f @ '' is missing, unknown, or the wrong type''"
| "rejection_detail (UnknownVersion n) =
     ''payload version '' @ dec n @ '' is not implemented by this build (expected ''
     @ dec brief_schema_version @ '')''"
| "rejection_detail RankNotDense = ''ranks must be 1..n with no gap and no duplicate''"
| "rejection_detail (TooManyTasks n) = dec n @ '' tasks exceeds the limit of '' @ dec max_tasks"
| "rejection_detail (TextTooLong f n) = quoted f @ '' is longer than '' @ dec n @ '' characters''"
| "rejection_detail ConfidenceOutOfRange = ''confidence must be 0..=10000 basis points''"
| "rejection_detail EvidenceUnknown = ''a task cited evidence this run did not earn''"
| "rejection_detail EvidenceDuplicated = ''a task cited the same evidence twice''"
| "rejection_detail EvidenceMissing = ''a task cited no evidence''"
| "rejection_detail PrimaryEvidenceMissing =
     ''a task with multiple citations must name one primaryEvidence reference''"

record brief_task =
  bt_rank :: int
  bt_title :: string
  bt_why :: string
  bt_confidence_bps :: int
  bt_primary_evidence :: "string option"
  bt_evidence :: "string list"

record work_brief =
  wb_version :: nat
  wb_tasks :: "brief_task list"

section \<open>The fence\<close>

definition brief_opener :: string where "brief_opener = ''```'' @ brief_fence"

lemma split_once_shorter: "split_once s sep = Some (a, b) \<Longrightarrow> sep \<noteq> [] \<Longrightarrow> length b < length s"
  by (drule split_once_some) simp

function fenced_briefs :: "string \<Rightarrow> string list" where
  "fenced_briefs rest =
     (case split_once rest brief_opener of
        None \<Rightarrow> []
      | Some (_, after) \<Rightarrow>
          (case split_once after [CHR 0x0A] of
             None \<Rightarrow> []
           | Some (line, body) \<Rightarrow>
               if trim line \<noteq> [] then fenced_briefs after
               else (case split_once body ''```'' of
                       None \<Rightarrow> []
                     | Some (block, rest') \<Rightarrow> block # fenced_briefs rest')))"
  by pat_completeness auto
termination
proof (relation "measure length", goal_cases)
  case (2 rest x b after y line body)
  then show ?case using split_once_shorter [of rest brief_opener] by (auto simp: brief_opener_def)
next
  case (3 rest x b after y line body z block rest')
  then have "length after < length rest" "length body < length after" "length rest' < length body"
    using split_once_shorter [of rest brief_opener] split_once_shorter [of after "[CHR 0x0A]"]
      split_once_shorter [of body "''```''"] by (auto simp: brief_opener_def)
  then show ?case by simp
qed simp

declare fenced_briefs.simps [simp del]

definition extract_fenced :: "string \<Rightarrow> (brief_rejection, string) result" where
  "extract_fenced message =
     (case fenced_briefs message of
        [block] \<Rightarrow> Ok block
      | blocks \<Rightarrow> Err (FenceCount (length blocks)))"

section \<open>The schema\<close>

text \<open>\<open>deny_unknown_fields\<close>: only known keys, each once.\<close>

definition strict_fields :: "string list \<Rightarrow> json \<Rightarrow> json_object option" where
  "strict_fields names v = do {
     ob \<leftarrow> struct_fields names (length names) v;
     if distinct (obj_keys ob) \<and> set (obj_keys ob) \<subseteq> set names then Some ob else None }"

definition read_i64 :: "json_object \<Rightarrow> string \<Rightarrow> int option" where
  "read_i64 ob k = do { v \<leftarrow> obj_get ob k; as_i64 v }"

definition read_brief_task :: "json \<Rightarrow> brief_task option" where
  "read_brief_task v = do {
     ob \<leftarrow> strict_fields [''rank'', ''title'', ''why'', ''confidenceBps'', ''primaryEvidence'', ''evidence''] v;
     rank \<leftarrow> read_i64 ob ''rank'';
     title_text \<leftarrow> get_str ob ''title'';
     why \<leftarrow> get_str ob ''why'';
     confidence \<leftarrow> read_i64 ob ''confidenceBps'';
     primary \<leftarrow> read_option as_str ob ''primaryEvidence'';
     evidence \<leftarrow> read_strings ob ''evidence'';
     Some \<lparr>bt_rank = rank, bt_title = title_text, bt_why = why, bt_confidence_bps = confidence,
       bt_primary_evidence = primary, bt_evidence = evidence\<rparr> }"

definition read_work_brief :: "json \<Rightarrow> work_brief option" where
  "read_work_brief v = do {
     ob \<leftarrow> strict_fields [''version'', ''tasks''] v;
     version \<leftarrow> read_u32 ob ''version'';
     ts \<leftarrow> obj_get ob ''tasks'' \<bind> as_array;
     tasks \<leftarrow> read_all read_brief_task ts;
     Some \<lparr>wb_version = version, wb_tasks = tasks\<rparr> }"

definition field_char :: "brief_reader \<Rightarrow> string \<Rightarrow> bool" where
  "field_char br g \<longleftrightarrow>
     (if is_ascii g then list_all (\<lambda>c. ascii_alphanumeric c \<or> c = CHR ''_'') g
      else br_alphanumeric br g)"

definition unknown_field :: "brief_reader \<Rightarrow> string \<Rightarrow> string" where
  "unknown_field br message =
     (case split_once message ''`'' of
        None \<Rightarrow> ''unknown''
      | Some (_, after) \<Rightarrow>
          (case split_once after ''`'' of
             None \<Rightarrow> ''unknown''
           | Some (name, _) \<Rightarrow>
               if length name \<le> 64 \<and> list_all (field_char br) (chars name) then name else ''unknown''))"

section \<open>Validation\<close>

fun check_citations ::
    "(string \<Rightarrow> bool) \<Rightarrow> string list \<Rightarrow> string list \<Rightarrow> (brief_rejection, string list) result" where
  "check_citations earned seen [] = Ok seen"
| "check_citations earned seen (r # rs) =
     (if r \<in> set seen then Err EvidenceDuplicated
      else if \<not> earned r then Err EvidenceUnknown
      else check_citations earned (r # seen) rs)"

definition check_task :: "(string \<Rightarrow> bool) \<Rightarrow> brief_task \<Rightarrow> (brief_rejection, unit) result" where
  "check_task earned t =
     (if max_title_chars < length (chars (bt_title t)) then Err (TextTooLong ''title'' max_title_chars)
      else if max_why_chars < length (chars (bt_why t)) then Err (TextTooLong ''why'' max_why_chars)
      else if trim (bt_title t) = [] then Err (SchemaInvalid ''title'')
      else if \<not> (0 \<le> bt_confidence_bps t \<and> bt_confidence_bps t \<le> 10000) then Err ConfidenceOutOfRange
      else if bt_evidence t = [] then Err EvidenceMissing
      else (case check_citations earned [] (bt_evidence t) of
              Inl e \<Rightarrow> Err e
            | Inr seen \<Rightarrow>
                if 1 < length (bt_evidence t) \<and> bt_primary_evidence t = None
                then Err PrimaryEvidenceMissing
                else (case bt_primary_evidence t of
                        None \<Rightarrow> Ok ()
                      | Some p \<Rightarrow> if p \<in> set seen then Ok () else Err PrimaryEvidenceMissing)))"

fun check_tasks :: "(string \<Rightarrow> bool) \<Rightarrow> brief_task list \<Rightarrow> (brief_rejection, unit) result" where
  "check_tasks earned [] = Ok ()"
| "check_tasks earned (t # ts) =
     (case check_task earned t of Inl e \<Rightarrow> Err e | Inr _ \<Rightarrow> check_tasks earned ts)"

definition validate :: "work_brief \<Rightarrow> (string \<Rightarrow> bool) \<Rightarrow> (brief_rejection, work_brief) result" where
  "validate b earned =
     (if wb_version b \<noteq> brief_schema_version then Err (UnknownVersion (wb_version b))
      else if max_tasks < length (wb_tasks b) then Err (TooManyTasks (length (wb_tasks b)))
      else if sort (map bt_rank (wb_tasks b)) \<noteq> map int [1 ..< length (wb_tasks b) + 1]
      then Err RankNotDense
      else (case check_tasks earned (wb_tasks b) of Inl e \<Rightarrow> Err e | Inr _ \<Rightarrow> Ok b))"

definition parse_brief ::
    "brief_reader \<Rightarrow> string \<Rightarrow> (string \<Rightarrow> bool) \<Rightarrow> (brief_rejection, work_brief) result" where
  "parse_brief br message earned =
     (case extract_fenced message of
        Inl e \<Rightarrow> Err e
      | Inr payload \<Rightarrow>
          (case Option.bind (br_json br (trim payload)) read_work_brief of
             None \<Rightarrow>
               (let (syntax, text_of) = br_error br (trim payload) in
                if syntax then Err NotJson else Err (SchemaInvalid (unknown_field br text_of)))
           | Some b \<Rightarrow> validate b earned))"

section \<open>One repair\<close>

definition max_repair_attempts :: nat where "max_repair_attempts = 1"

datatype brief_outcome =
    BriefAccepted work_brief bool
  | BriefRefused brief_rejection "brief_rejection option"

fun outcome_failure_code :: "brief_outcome \<Rightarrow> string option" where
  "outcome_failure_code (BriefAccepted _ _) = None"
| "outcome_failure_code (BriefRefused first repair) =
     Some (rejection_code (case repair of Some r \<Rightarrow> r | None \<Rightarrow> first))"

text \<open>\<open>ask\<close> is the provider, with its state: an answer to a rejection, or none.\<close>

fun repair_loop ::
    "brief_reader \<Rightarrow> (string \<Rightarrow> bool) \<Rightarrow> (brief_rejection \<Rightarrow> 's \<Rightarrow> string option \<times> 's) \<Rightarrow> nat
      \<Rightarrow> brief_rejection \<Rightarrow> brief_rejection option \<Rightarrow> 's \<Rightarrow> brief_outcome \<times> 's" where
  "repair_loop br earned ask 0 first last_one s = (BriefRefused first last_one, s)"
| "repair_loop br earned ask (Suc n) first last_one s =
     (case ask (case last_one of Some r \<Rightarrow> r | None \<Rightarrow> first) s of
        (None, s') \<Rightarrow> (BriefRefused first last_one, s')
      | (Some attempt, s') \<Rightarrow>
          (case parse_brief br attempt earned of
             Inr b \<Rightarrow> (BriefAccepted b True, s')
           | Inl r \<Rightarrow> repair_loop br earned ask n first (Some r) s'))"

definition parse_with_one_repair ::
    "brief_reader \<Rightarrow> string \<Rightarrow> (string \<Rightarrow> bool) \<Rightarrow> (brief_rejection \<Rightarrow> 's \<Rightarrow> string option \<times> 's)
      \<Rightarrow> 's \<Rightarrow> brief_outcome \<times> 's" where
  "parse_with_one_repair br message earned ask s =
     (case parse_brief br message earned of
        Inr b \<Rightarrow> (BriefAccepted b False, s)
      | Inl first \<Rightarrow> repair_loop br earned ask max_repair_attempts first None s)"

section \<open>What an accepted brief satisfies\<close>

definition task_ok :: "(string \<Rightarrow> bool) \<Rightarrow> brief_task \<Rightarrow> bool" where
  "task_ok earned t \<longleftrightarrow>
     length (chars (bt_title t)) \<le> 160 \<and> length (chars (bt_why t)) \<le> 400 \<and> trim (bt_title t) \<noteq> []
     \<and> 0 \<le> bt_confidence_bps t \<and> bt_confidence_bps t \<le> 10000
     \<and> bt_evidence t \<noteq> [] \<and> distinct (bt_evidence t) \<and> list_all earned (bt_evidence t)
     \<and> (case bt_primary_evidence t of
          None \<Rightarrow> length (bt_evidence t) = 1 | Some p \<Rightarrow> p \<in> set (bt_evidence t))"

lemma check_citations_Ok:
  "check_citations earned seen rs = Inr seen' \<longleftrightarrow>
     distinct rs \<and> set rs \<inter> set seen = {} \<and> list_all earned rs \<and> seen' = rev rs @ seen"
  by (induction rs arbitrary: seen) auto

lemma check_task_Ok: "check_task earned t = Inr u \<longleftrightarrow> task_ok earned t"
proof (cases "check_citations earned [] (bt_evidence t)")
  case (Inl e)
  then have "\<not> (distinct (bt_evidence t) \<and> list_all earned (bt_evidence t))"
    using check_citations_Ok [of earned "[]" "bt_evidence t" "rev (bt_evidence t)"] by auto
  with Inl show ?thesis by (auto simp: check_task_def task_ok_def)
next
  case (Inr seen)
  then have "distinct (bt_evidence t)" "list_all earned (bt_evidence t)" "set seen = set (bt_evidence t)"
    by (auto simp: check_citations_Ok)
  with Inr show ?thesis
    by (cases "bt_evidence t")
       (auto simp: check_task_def task_ok_def max_title_chars_def max_why_chars_def
          split: option.splits)
qed

lemma check_tasks_Ok: "check_tasks earned ts = Inr u \<longleftrightarrow> list_all (task_ok earned) ts"
  by (induction ts) (auto simp: check_task_Ok split: sum.splits, metis check_task_Ok sum.distinct(1))

lemma sort_eq_mset: "sorted ys \<Longrightarrow> sort xs = ys \<longleftrightarrow> mset xs = mset ys"
  by (metis mset_sort properties_for_sort)

text \<open>
  C15. A brief is accepted exactly if it is version 1, has at most twelve tasks ranked \<open>1..n\<close>
  without gap or duplicate, and every task has a title of at most 160 characters that is not
  blank, a rationale of at most 400, a confidence between 0 and 10000 basis points, and cites,
  without repetition, at least one piece of evidence, all of it earned by this run, the primary
  one among them and named when there are several. It is then taken unchanged.
\<close>
theorem accepted_brief_is_grounded:
  "validate b earned = Inr b' \<longleftrightarrow>
     b' = b \<and> wb_version b = 1 \<and> length (wb_tasks b) \<le> 12
     \<and> mset (map bt_rank (wb_tasks b)) = mset (map int [1 ..< length (wb_tasks b) + 1])
     \<and> list_all (task_ok earned) (wb_tasks b)"
proof -
  define E where "E = map int [1 ..< length (wb_tasks b) + 1]"
  have "sorted (map int [a ..< c])" for a c by (simp add: sorted_wrt_map)
  then have "sorted E" unfolding E_def .
  then have eq: "sort (map bt_rank (wb_tasks b)) = E \<longleftrightarrow> mset (map bt_rank (wb_tasks b)) = mset E"
    by (rule sort_eq_mset)
  have ts: "(case check_tasks earned (wb_tasks b) of Inl e \<Rightarrow> Err e | Inr _ \<Rightarrow> Ok b) = Inr b'
      \<longleftrightarrow> b' = b \<and> list_all (task_ok earned) (wb_tasks b)"
    using check_tasks_Ok [of earned "wb_tasks b" "()"] by (cases "check_tasks earned (wb_tasks b)") auto
  show ?thesis
    unfolding validate_def brief_schema_version_def max_tasks_def E_def [symmetric] eq
    using ts by (simp only: if_distrib split: if_splits) auto
qed

section \<open>Finding the block\<close>

lemma split_once_hit:
  assumes "sep \<noteq> []" "hd sep \<notin> set a"
  shows "split_once (a @ sep @ b) sep = Some (a, b)"
  using assms(2)
proof (induction a)
  case Nil
  obtain c cs where c: "sep = c # cs" using assms(1) by (cases sep) auto
  have "strip_prefix (sep @ b) sep = Some b" by simp
  with c show ?case by simp
next
  case (Cons x a)
  obtain c cs where c: "sep = c # cs" using assms(1) by (cases sep) auto
  with Cons.prems have x: "x \<noteq> c" by auto
  then have "strip_prefix ((x # a) @ sep @ b) sep = None" by (simp add: c)
  moreover have "split_once (a @ sep @ b) sep = Some (a, b)" using Cons by simp
  ultimately show ?case by simp
qed

lemma split_once_miss: "sep \<noteq> [] \<Longrightarrow> hd sep \<notin> set a \<Longrightarrow> split_once a sep = None"
proof (induction a)
  case (Cons x a)
  then have "strip_prefix (x # a) sep = None" by (cases sep) auto
  with Cons show ?case by simp
qed simp

text \<open>
  A payload is read back from the message that fences it: with no backtick in the prose
  around it or in it, and nothing but white space after the fence's name, the one block is the
  payload.
\<close>
theorem fenced_payload_is_read:
  assumes "CHR ''`'' \<notin> set prose" "CHR ''`'' \<notin> set payload" "CHR ''`'' \<notin> set prose'"
    and "trim pad = []" "CHR 0x0A \<notin> set pad"
  shows "extract_fenced (prose @ ''```bridge-work-brief'' @ pad @ [CHR 0x0A] @ payload @ ''```'' @ prose')
    = Inr payload"
proof -
  let ?rest = "pad @ [CHR 0x0A] @ payload @ ''```'' @ prose'"
  have op: "brief_opener = ''```bridge-work-brief''" by (simp add: brief_opener_def brief_fence_def)
  have 1: "split_once (prose @ ''```bridge-work-brief'' @ ?rest) brief_opener = Some (prose, ?rest)"
    unfolding op using assms(1) by (intro split_once_hit) simp_all
  have 2: "split_once ?rest [CHR 0x0A] = Some (pad, payload @ ''```'' @ prose')"
    using split_once_hit [of "[CHR 0x0A]" pad "payload @ ''```'' @ prose'"] assms(5) by simp
  have 3: "split_once (payload @ ''```'' @ prose') ''```'' = Some (payload, prose')"
    using assms(2) by (intro split_once_hit) simp_all
  have "split_once prose' brief_opener = None"
    unfolding op using assms(3) by (intro split_once_miss) simp_all
  then have 4: "fenced_briefs prose' = []" by (subst fenced_briefs.simps) simp
  have "fenced_briefs (prose @ ''```bridge-work-brief'' @ ?rest) = [payload]"
    by (subst fenced_briefs.simps) (simp only: 1 2 3 4 assms(4) option.case prod.case if_False simp_thms)
  then show ?thesis by (simp add: extract_fenced_def)
qed

theorem fenced_payload_is_read_witness:
  "extract_fenced (''Here.'' @ ''```bridge-work-brief'' @ '' '' @ [CHR 0x0A] @ ''{}'' @ ''```'' @ ''Done.'')
    = Inr ''{}''"
proof (rule fenced_payload_is_read)
  show "trim '' '' = []" by code_simp
qed simp_all

section \<open>One repair\<close>

text \<open>A provider that keeps what it was asked.\<close>

definition recording :: "(brief_rejection \<Rightarrow> string option) \<Rightarrow>
    brief_rejection \<Rightarrow> brief_rejection list \<Rightarrow> string option \<times> brief_rejection list" where
  "recording answer r asked_so_far = (answer r, asked_so_far @ [r])"

text \<open>
  Reading an answer asks the provider for at most one repair, with the reason the first
  answer was refused, and never after an answer that was accepted. The outcome is the brief of the
  last answer read, accepted under the same rules, or the refusal of both.
\<close>
theorem at_most_one_repair:
  "(case parse_with_one_repair br message earned (recording answer) [] of
      (BriefAccepted b False, asked_for) \<Rightarrow> asked_for = [] \<and> parse_brief br message earned = Inr b
    | (BriefAccepted b True, asked_for) \<Rightarrow>
        (\<exists>r attempt. parse_brief br message earned = Inl r \<and> asked_for = [r] \<and> answer r = Some attempt
           \<and> parse_brief br attempt earned = Inr b)
    | (BriefRefused first repair, asked_for) \<Rightarrow>
        parse_brief br message earned = Inl first \<and> asked_for = [first]
        \<and> (case answer first of
             None \<Rightarrow> repair = None
           | Some attempt \<Rightarrow> (\<exists>r. repair = Some r \<and> parse_brief br attempt earned = Inl r)))"
proof (cases "parse_brief br message earned")
  case (Inl first)
  show ?thesis
  proof (cases "answer first")
    case None
    with Inl show ?thesis by (simp add: parse_with_one_repair_def max_repair_attempts_def recording_def)
  next
    case (Some attempt)
    with Inl show ?thesis
      by (cases "parse_brief br attempt earned")
         (simp_all add: parse_with_one_repair_def max_repair_attempts_def recording_def)
  qed
qed (simp add: parse_with_one_repair_def)

text \<open>What a run can commit is grounded, whichever answer it came from.\<close>

lemma parse_brief_Ok:
  "parse_brief br message earned = Inr b \<Longrightarrow> validate b earned = Inr b"
proof -
  assume "parse_brief br message earned = Inr b"
  then obtain b0 where v: "validate b0 earned = Inr b"
    by (auto simp: parse_brief_def case_prod_beta Let_def split: sum.splits option.splits if_splits)
  then have "b = b0"
    by (auto simp: validate_def split: if_splits sum.splits)
  with v show ?thesis by simp
qed

lemma repaired_brief_Ok:
  "fst (parse_with_one_repair br message earned ask s) = BriefAccepted b repaired \<Longrightarrow>
     validate b earned = Inr b"
proof -
  assume a: "fst (parse_with_one_repair br message earned ask s) = BriefAccepted b repaired"
  have "fst (repair_loop br earned ask n first last_one s) = BriefAccepted b repaired \<Longrightarrow>
      validate b earned = Inr b" for n first last_one s
    by (induction br earned ask n first last_one s rule: repair_loop.induct)
       (auto split: prod.splits option.splits sum.splits dest: parse_brief_Ok)
  with a show ?thesis
    by (auto simp: parse_with_one_repair_def split: sum.splits dest: parse_brief_Ok)
qed

end
