(* ===== verification/Work_Board.thy ===== *)
theory Work_Board
  imports Work_Brief
begin

text \<open>
  The durable board: the tables of a briefing (\<open>bridge-core/src/work_brief_store.rs\<close>), the one
  transaction that commits a brief to them (\<open>work_reconcile.rs\<close>), what a human may do with a task
  (\<open>work_actions.rs\<close>, the handlers of \<open>api.rs\<close>) and the tasks a reader is shown (\<open>work.rs\<close>).

  A table is the list of its rows; a statement's constraints (primary and unique keys, the foreign
  keys of a run) are its error branches. A transaction that fails leaves the database as it was.
\<close>

section \<open>Tables\<close>

record task_row =
  wt_id :: string
  wt_fingerprint :: "string option"
  wt_connector_instance_id :: string
  wt_canonical_resource_id :: "string option"
  wt_source_kind :: string
  wt_title :: string
  wt_why :: string
  wt_rank :: int
  wt_confidence_bps :: int
  wt_state :: string
  wt_pinned :: bool
  wt_snoozed_until :: "string option"
  wt_evidence_digest :: "string option"
  wt_evidence_target :: "string option"
  wt_evidence_observed_at :: "string option"
  wt_miss_count :: int
  wt_ephemeral :: bool
  wt_workspace_id :: "string option"
  wt_first_run_id :: "string option"
  wt_last_run_id :: "string option"
  wt_resolution :: "string option"
  wt_resolved_at :: "string option"
  wt_created_at :: string
  wt_updated_at :: string
  wt_source_activity_at :: "string option"

record run_row =
  rr_id :: string
  rr_trigger_kind :: string
  rr_status :: string
  rr_profile_reference :: "string option"
  rr_session_id :: "string option"
  rr_limits :: brief_limits
  rr_output_digest :: "string option"
  rr_failure_code :: "string option"
  rr_failure_detail :: "string option"
  rr_input_tokens :: int
  rr_output_tokens :: int
  rr_cached_input_tokens :: int
  rr_cost_microusd :: "int option"
  rr_tool_calls :: int
  rr_turns :: int
  rr_idempotency_key :: "string option"
  rr_started_at :: string
  rr_completed_at :: "string option"
  rr_lease_owner :: "string option"
  rr_lease_expires_at :: "string option"
  rr_cancellation_requested :: bool

record source_row =
  sr_run_id :: string
  sr_connector_instance_id :: string
  sr_connector_family :: string
  sr_status :: string
  sr_detail :: "string option"
  sr_observed_at :: "string option"

record evidence_row =
  er_run_id :: string
  er_entry :: evidence_entry
  er_target :: "string option"

record work_db =
  db_runs :: "run_row list"
  db_sources :: "source_row list"
  db_evidence :: "evidence_row list"
  db_tasks :: "task_row list"

datatype db_error = ForeignKey | UniqueKey | InvalidRequest string

definition run_exists :: "work_db \<Rightarrow> string \<Rightarrow> bool" where
  "run_exists d run_id \<longleftrightarrow> run_id \<in> rr_id ` set (db_runs d)"

section \<open>Targets as stored\<close>

definition target_value :: "evidence_target \<Rightarrow> json" where
  "target_value t =
     (case t of
        ExternalLink url host \<Rightarrow>
          JObj [(''kind'', JStr ''externalLink''), (''url'', JStr url), (''host'', JStr host)]
      | SessionTarget sid \<Rightarrow> JObj [(''kind'', JStr ''session''), (''session_id'', JStr sid)]
      | NoTarget \<Rightarrow> JObj [(''kind'', JStr ''none'')])"

definition target_json :: "lib \<Rightarrow> evidence_target \<Rightarrow> string option" where
  "target_json l t = (if t = NoTarget then None else Some (lib_render_json l (target_value t)))"

text \<open>The reader of an internally tagged enum: the tag, then the variant's fields.\<close>

definition read_target_variant :: "string \<Rightarrow> json \<Rightarrow> evidence_target option" where
  "read_target_variant kind v =
     (if kind = ''externalLink'' then do {
        ob \<leftarrow> struct_fields [''url'', ''host''] 2 v;
        url \<leftarrow> get_str ob ''url'';
        host \<leftarrow> get_str ob ''host'';
        Some (ExternalLink url host) }
      else if kind = ''session'' then do {
        ob \<leftarrow> struct_fields [''session_id''] 1 v;
        sid \<leftarrow> get_str ob ''session_id'';
        Some (SessionTarget sid) }
      else if kind = ''none'' then Some NoTarget
      else None)"

definition once :: "string \<Rightarrow> json_object \<Rightarrow> bool" where
  "once k ob \<longleftrightarrow> length (filter (\<lambda>e. fst e = k) ob) \<le> 1"

definition read_target :: "json \<Rightarrow> evidence_target option" where
  "read_target v =
     (case v of
        JObj ob \<Rightarrow>
          if list_all (\<lambda>k. once k ob) [''kind'', ''url'', ''host'', ''session_id'']
          then Option.bind (get_str ob ''kind'') (\<lambda>k. read_target_variant k v) else None
      | JArr (JStr k # xs) \<Rightarrow> read_target_variant k (JArr xs)
      | _ \<Rightarrow> None)"

datatype target_refused = TargetAbsent | TargetUnreadable | TargetNotAllowed string

fun refused_reason :: "target_refused \<Rightarrow> string" where
  "refused_reason TargetAbsent = ''this evidence has nothing to open''"
| "refused_reason TargetUnreadable = ''the stored target could not be read''"
| "refused_reason (TargetNotAllowed d) = d"

datatype open_target = OpenExternal string string | OpenSession string

definition open_target :: "lib \<Rightarrow> string option \<Rightarrow> connector_family \<Rightarrow> (target_refused, open_target) result" where
  "open_target l stored family =
     (case map_option trim stored of
        None \<Rightarrow> Err TargetAbsent
      | Some s \<Rightarrow>
          if s = [] then Err TargetAbsent
          else (case Option.bind (lib_entries l s) read_target of
                  None \<Rightarrow> Err TargetUnreadable
                | Some NoTarget \<Rightarrow> Err TargetAbsent
                | Some (SessionTarget sid) \<Rightarrow>
                    if trim sid = [] then Err TargetUnreadable else Ok (OpenSession sid)
                | Some (ExternalLink url _) \<Rightarrow>
                    (case safe_external_link family url of
                       Some (ExternalLink u host) \<Rightarrow> Ok (OpenExternal u host)
                     | _ \<Rightarrow> Err (TargetNotAllowed (''a '' @ family_as_str family
                              @ '' link must be https on a host '' @ family_as_str family
                              @ '' publishes'')))))"

section \<open>Drafts\<close>

record session_draft =
  sd_title :: string
  sd_draft :: string
  sd_dispatched :: bool

definition max_draft_chars :: nat where "max_draft_chars = 800"

definition bounded_text :: "string \<Rightarrow> nat \<Rightarrow> string" where
  "bounded_text s limit =
     (let t = trim s in
      if length (chars t) \<le> limit then t else concat (take limit (chars t)) @ ellipsis)"

definition prepare_draft :: "string \<Rightarrow> string \<Rightarrow> string \<Rightarrow> session_draft" where
  "prepare_draft title_text why source_kind =
     (let t = bounded_text title_text 120; w = bounded_text why max_draft_chars in
      \<lparr>sd_title = (if t = [] then ''Suggested work'' else t),
       sd_draft = ''From '' @ source_kind @ '': '' @ t @ [CHR 0x0A, CHR 0x0A] @ w,
       sd_dispatched = False\<rparr>)"

section \<open>Writing a run's ledger\<close>

fun source_status_str :: "work_source_status \<Rightarrow> string" where
  "source_status_str WsIneligible = ''ineligible''"
| "source_status_str WsEligible = ''eligible''"
| "source_status_str WsConsulted = ''consulted''"
| "source_status_str WsSucceeded = ''succeeded''"
| "source_status_str WsFailed = ''failed''"
| "source_status_str WsAuthRequired = ''auth_required''"

definition parse_source_status :: "string \<Rightarrow> work_source_status" where
  "parse_source_status s =
     (if s = ''eligible'' then WsEligible
      else if s = ''consulted'' then WsConsulted
      else if s = ''succeeded'' then WsSucceeded
      else if s = ''failed'' then WsFailed
      else if s = ''auth_required'' then WsAuthRequired
      else WsIneligible)"

definition source_row_of :: "string \<Rightarrow> source_coverage \<Rightarrow> source_row" where
  "source_row_of run_id c =
     \<lparr>sr_run_id = run_id, sr_connector_instance_id = sc_connector_instance_id c,
      sr_connector_family = sc_connector_family c, sr_status = source_status_str (sc_status c),
      sr_detail = sc_detail c, sr_observed_at = sc_observed_at c\<rparr>"

text \<open>\<open>INSERT .. ON CONFLICT(run_id,connector_instance_id) DO UPDATE\<close>\<close>

fun upsert_source :: "source_row \<Rightarrow> source_row list \<Rightarrow> source_row list" where
  "upsert_source n [] = [n]"
| "upsert_source n (r # rs) =
     (if sr_run_id r = sr_run_id n \<and> sr_connector_instance_id r = sr_connector_instance_id n
      then r\<lparr>sr_status := sr_status n, sr_detail := sr_detail n, sr_observed_at := sr_observed_at n\<rparr> # rs
      else r # upsert_source n rs)"

definition insert_evidence :: "evidence_row \<Rightarrow> evidence_row list \<Rightarrow> evidence_row list" where
  "insert_evidence n rs =
     (if list_ex (\<lambda>r. er_run_id r = er_run_id n
                     \<and> ee_evidence_ref (er_entry r) = ee_evidence_ref (er_entry n)) rs
      then rs else rs @ [n])"

definition record_ledger_in :: "lib \<Rightarrow> run_ledger \<Rightarrow> work_db \<Rightarrow> (db_error, work_db) result" where
  "record_ledger_in l g d =
     (if (coverage g \<noteq> [] \<or> rl_entries g \<noteq> []) \<and> \<not> run_exists d (rl_run_id g) then Err ForeignKey
      else Ok (d\<lparr>db_sources := fold (\<lambda>c. upsert_source (source_row_of (rl_run_id g) c)) (coverage g)
                                (db_sources d),
                 db_evidence := fold (\<lambda>e. insert_evidence
                     \<lparr>er_run_id = rl_run_id g, er_entry = e, er_target = target_json l (ee_target e)\<rparr>)
                   (rl_entries g) (db_evidence d)\<rparr>))"

section \<open>Committing a brief\<close>

datatype run_status = RunRunning | RunSucceeded | RunFailed | RunCancelled | RunSkipped

fun run_status_str :: "run_status \<Rightarrow> string" where
  "run_status_str RunRunning = ''running''"
| "run_status_str RunSucceeded = ''succeeded''"
| "run_status_str RunFailed = ''failed''"
| "run_status_str RunCancelled = ''cancelled''"
| "run_status_str RunSkipped = ''skipped''"

record run_usage =
  ru_input_tokens :: nat
  ru_output_tokens :: nat
  ru_cached_input_tokens :: nat
  ru_cost_microusd :: "int option"

record run_outcome =
  ro_status :: run_status
  ro_output_digest :: "string option"
  ro_failure_code :: "string option"
  ro_failure_detail :: "string option"
  ro_usage :: "run_usage option"
  ro_tool_calls :: int
  ro_turns :: int
  ro_completed_at :: string

definition close_row :: "run_outcome \<Rightarrow> run_row \<Rightarrow> run_row" where
  "close_row oc r =
     r\<lparr>rr_status := run_status_str (ro_status oc), rr_output_digest := ro_output_digest oc,
       rr_failure_code := ro_failure_code oc, rr_failure_detail := ro_failure_detail oc,
       rr_input_tokens := (case ro_usage oc of None \<Rightarrow> 0 | Some u \<Rightarrow> int (ru_input_tokens u)),
       rr_output_tokens := (case ro_usage oc of None \<Rightarrow> 0 | Some u \<Rightarrow> int (ru_output_tokens u)),
       rr_cached_input_tokens := (case ro_usage oc of None \<Rightarrow> 0 | Some u \<Rightarrow> int (ru_cached_input_tokens u)),
       rr_cost_microusd := Option.bind (ro_usage oc) ru_cost_microusd,
       rr_tool_calls := ro_tool_calls oc, rr_turns := ro_turns oc,
       rr_completed_at := Some (ro_completed_at oc)\<rparr>"

definition finish_run :: "string \<Rightarrow> run_outcome \<Rightarrow> work_db \<Rightarrow> work_db" where
  "finish_run run_id oc d =
     d\<lparr>db_runs := map (\<lambda>r. if rr_id r = run_id then close_row oc r else r) (db_runs d)\<rparr>"

definition snapshot_of :: "task_row \<Rightarrow> task_snapshot" where
  "snapshot_of r =
     \<lparr>ts_state = task_state_parse (wt_state r), ts_pinned = wt_pinned r,
      ts_miss_count = wt_miss_count r, ts_ephemeral = wt_ephemeral r,
      ts_resolved_at = wt_resolved_at r, ts_evidence_digest = wt_evidence_digest r,
      ts_resolved_evidence_digest = wt_resolution r\<rparr>"

record resolved =
  rs_entry :: evidence_entry
  rs_fingerprint :: "string option"

definition resolve :: "lib \<Rightarrow> run_ledger \<Rightarrow> string \<Rightarrow> resolved option" where
  "resolve l g evidence_ref =
     map_option (\<lambda>e. \<lparr>rs_entry = e,
        rs_fingerprint = fingerprint_for (lib_sha l) (ee_connector_instance_id e) (ee_canonical_resource_id e)\<rparr>)
       (ledger_entry g evidence_ref)"

definition outcomes :: "run_ledger \<Rightarrow> (string \<times> source_outcome) list" where
  "outcomes g =
     fold (\<lambda>c. bt_insert (sc_connector_instance_id c) (from_coverage (sc_status c))) (coverage g) []"

type_synonym proposal = "int \<times> brief_task \<times> evidence_entry"

definition primary_ref :: "brief_task \<Rightarrow> string option" where
  "primary_ref t =
     (case bt_primary_evidence t of
        Some p \<Rightarrow> Some p
      | None \<Rightarrow> (case bt_evidence t of [] \<Rightarrow> None | e # _ \<Rightarrow> Some e))"

definition propose :: "string \<Rightarrow> proposal \<Rightarrow> (string \<times> proposal) list \<Rightarrow> (string \<times> proposal) list" where
  "propose fp p present =
     (case map_of present fp of
        None \<Rightarrow> bt_insert fp p present
      | Some current \<Rightarrow> if fst p < fst current then bt_insert fp p present else present)"

fun collect_tasks ::
    "lib \<Rightarrow> run_ledger \<Rightarrow> brief_task list \<Rightarrow> (string \<times> proposal) list \<times> (brief_task \<times> evidence_entry) list
      \<Rightarrow> (string \<times> proposal) list \<times> (brief_task \<times> evidence_entry) list" where
  "collect_tasks l g [] acc = acc"
| "collect_tasks l g (t # ts) (present, ephemeral) =
     (case Option.bind (primary_ref t) (resolve l g) of
        None \<Rightarrow> collect_tasks l g ts (present, ephemeral)
      | Some r \<Rightarrow>
          (case rs_fingerprint r of
             Some fp \<Rightarrow> collect_tasks l g ts (propose fp (bt_rank t, t, rs_entry r) present, ephemeral)
           | None \<Rightarrow> collect_tasks l g ts (present, ephemeral @ [(t, rs_entry r)])))"

text \<open>The rows a run can change: the \<open>WHERE\<close> clause of the select.\<close>

definition source_succeeded :: "work_db \<Rightarrow> string \<Rightarrow> string \<Rightarrow> bool" where
  "source_succeeded d run_id instance_id \<longleftrightarrow>
     list_ex (\<lambda>s. sr_run_id s = run_id \<and> sr_status s = ''succeeded''
                  \<and> sr_connector_instance_id s = instance_id) (db_sources d)"

definition selected :: "work_db \<Rightarrow> string \<Rightarrow> (string \<times> proposal) list \<Rightarrow> task_row \<Rightarrow> bool" where
  "selected d run_id present r \<longleftrightarrow>
     wt_ephemeral r
     \<or> ((wt_state r = ''active'' \<or> wt_state r = ''snoozed'') \<and> wt_miss_count r < 2
        \<and> source_succeeded d run_id (wt_connector_instance_id r))
     \<or> (case wt_fingerprint r of None \<Rightarrow> False | Some fp \<Rightarrow> fp \<in> fst ` set present)"

definition update_row :: "string \<Rightarrow> (task_row \<Rightarrow> task_row) \<Rightarrow> task_row list \<Rightarrow> task_row list" where
  "update_row task_id f rs = map (\<lambda>r. if wt_id r = task_id then f r else r) rs"

definition write_reconciled :: "string \<Rightarrow> string \<Rightarrow> task_snapshot \<Rightarrow> task_row \<Rightarrow> task_row" where
  "write_reconciled run_id now t r =
     r\<lparr>wt_state := task_state_as_str (ts_state t), wt_pinned := ts_pinned t,
       wt_miss_count := ts_miss_count t, wt_resolved_at := ts_resolved_at t,
       wt_resolution := ts_resolved_evidence_digest t, wt_last_run_id := Some run_id,
       wt_updated_at := now\<rparr>"

definition mentioned_entry :: "(string \<times> proposal) list \<Rightarrow> task_row \<Rightarrow> evidence_entry option" where
  "mentioned_entry present r =
     map_option (\<lambda>p. snd (snd p)) (Option.bind (wt_fingerprint r) (map_of present))"

definition reconcile_row ::
    "string \<Rightarrow> string \<Rightarrow> (string \<times> source_outcome) list \<Rightarrow> (string \<times> proposal) list \<Rightarrow> task_row
      \<Rightarrow> work_db \<Rightarrow> (db_error, work_db) result" where
  "reconcile_row run_id now ocs present r d =
     (let update = (\<lambda>t. if t = snapshot_of r then Ok d
                       else if \<not> run_exists d run_id then Err ForeignKey
                       else Ok (d\<lparr>db_tasks := update_row (wt_id r) (write_reconciled run_id now t) (db_tasks d)\<rparr>)) in
      case mentioned_entry present r of
        Some e \<Rightarrow> update (reconcile_present (snapshot_of r) (Some (ee_result_digest e)))
      | None \<Rightarrow>
          if wt_ephemeral r
          then Ok (d\<lparr>db_tasks := filter (\<lambda>x. wt_id x \<noteq> wt_id r) (db_tasks d)\<rparr>)
          else update (reconcile_absent (snapshot_of r)
                 (case map_of ocs (wt_connector_instance_id r) of
                    Some oc \<Rightarrow> oc | None \<Rightarrow> SourceNotRead)))"

fun reconcile_rows ::
    "string \<Rightarrow> string \<Rightarrow> (string \<times> source_outcome) list \<Rightarrow> (string \<times> proposal) list \<Rightarrow> task_row list
      \<Rightarrow> work_db \<Rightarrow> (db_error, work_db) result" where
  "reconcile_rows run_id now ocs present [] d = Ok d"
| "reconcile_rows run_id now ocs present (r # rs) d =
     (case reconcile_row run_id now ocs present r d of
        Inl e \<Rightarrow> Err e
      | Inr d' \<Rightarrow> reconcile_rows run_id now ocs present rs d')"

definition task_id_of :: "string \<Rightarrow> string option \<Rightarrow> int \<Rightarrow> string" where
  "task_id_of run_id fp rank =
     (case fp of
        Some f \<Rightarrow> ''task-'' @ f
      | None \<Rightarrow> ''task-ephemeral-'' @ run_id @ ''-'' @ dec_int rank)"

definition new_task_row ::
    "lib \<Rightarrow> string \<Rightarrow> string \<Rightarrow> string option \<Rightarrow> int \<Rightarrow> brief_task \<Rightarrow> evidence_entry \<Rightarrow> bool \<Rightarrow> task_row" where
  "new_task_row l run_id now fp rank t e ephemeral =
     \<lparr>wt_id = task_id_of run_id fp rank, wt_fingerprint = fp,
      wt_connector_instance_id = ee_connector_instance_id e,
      wt_canonical_resource_id = ee_canonical_resource_id e, wt_source_kind = ee_source_kind e,
      wt_title = bt_title t, wt_why = bt_why t, wt_rank = rank, wt_confidence_bps = bt_confidence_bps t,
      wt_state = ''active'', wt_pinned = False, wt_snoozed_until = None,
      wt_evidence_digest = Some (ee_result_digest e), wt_evidence_target = target_json l (ee_target e),
      wt_evidence_observed_at = Some (ee_observed_at e), wt_miss_count = 0, wt_ephemeral = ephemeral,
      wt_workspace_id = None, wt_first_run_id = Some run_id, wt_last_run_id = Some run_id,
      wt_resolution = None, wt_resolved_at = None, wt_created_at = now, wt_updated_at = now,
      wt_source_activity_at = ee_source_activity_at e\<rparr>"

definition refresh_task_row :: "task_row \<Rightarrow> task_row \<Rightarrow> task_row" where
  "refresh_task_row excluded r =
     r\<lparr>wt_title := wt_title excluded, wt_why := wt_why excluded, wt_rank := wt_rank excluded,
       wt_confidence_bps := wt_confidence_bps excluded,
       wt_evidence_digest := wt_evidence_digest excluded,
       wt_evidence_target := wt_evidence_target excluded,
       wt_evidence_observed_at := wt_evidence_observed_at excluded,
       wt_source_activity_at := wt_source_activity_at excluded,
       wt_last_run_id := wt_last_run_id excluded, wt_updated_at := wt_updated_at excluded\<rparr>"

definition upsert_task ::
    "lib \<Rightarrow> string \<Rightarrow> string \<Rightarrow> string option \<Rightarrow> int \<Rightarrow> brief_task \<Rightarrow> evidence_entry \<Rightarrow> bool
      \<Rightarrow> work_db \<Rightarrow> (db_error, work_db) result" where
  "upsert_task l run_id now fp rank t e ephemeral d =
     (let n = new_task_row l run_id now fp rank t e ephemeral in
      if \<not> run_exists d run_id then Err ForeignKey
      else if wt_id n \<in> wt_id ` set (db_tasks d)
      then Ok (d\<lparr>db_tasks := update_row (wt_id n) (refresh_task_row n) (db_tasks d)\<rparr>)
      else if fp \<noteq> None \<and> fp \<in> wt_fingerprint ` set (db_tasks d) then Err UniqueKey
      else Ok (d\<lparr>db_tasks := db_tasks d @ [n]\<rparr>))"

fun upsert_present ::
    "lib \<Rightarrow> string \<Rightarrow> string \<Rightarrow> (string \<times> proposal) list \<Rightarrow> work_db \<Rightarrow> (db_error, work_db) result" where
  "upsert_present l run_id now [] d = Ok d"
| "upsert_present l run_id now ((fp, rank, t, e) # ps) d =
     (case upsert_task l run_id now (Some fp) rank t e False d of
        Inl x \<Rightarrow> Err x | Inr d' \<Rightarrow> upsert_present l run_id now ps d')"

fun upsert_ephemeral ::
    "lib \<Rightarrow> string \<Rightarrow> string \<Rightarrow> (brief_task \<times> evidence_entry) list \<Rightarrow> work_db \<Rightarrow> (db_error, work_db) result" where
  "upsert_ephemeral l run_id now [] d = Ok d"
| "upsert_ephemeral l run_id now ((t, e) # ps) d =
     (case upsert_task l run_id now None (bt_rank t) t e True d of
        Inl x \<Rightarrow> Err x | Inr d' \<Rightarrow> upsert_ephemeral l run_id now ps d')"

record commit_request =
  cm_run_id :: string
  cm_brief :: work_brief
  cm_ledger :: run_ledger
  cm_outcome :: run_outcome
  cm_now :: string

definition commit_steps :: "lib \<Rightarrow> commit_request \<Rightarrow> work_db \<Rightarrow> (db_error, work_db) result" where
  "commit_steps l c d0 =
     (case record_ledger_in l (cm_ledger c) d0 of
        Inl e \<Rightarrow> Err e
      | Inr d1 \<Rightarrow>
          let (present, ephemeral) = collect_tasks l (cm_ledger c) (wb_tasks (cm_brief c)) ([], []);
              stored = filter (selected d1 (cm_run_id c) present) (db_tasks d1) in
          (case reconcile_rows (cm_run_id c) (cm_now c) (outcomes (cm_ledger c)) present stored d1 of
             Inl e \<Rightarrow> Err e
           | Inr d2 \<Rightarrow>
               (case upsert_present l (cm_run_id c) (cm_now c) present d2 of
                  Inl e \<Rightarrow> Err e
                | Inr d3 \<Rightarrow>
                    (case upsert_ephemeral l (cm_run_id c) (cm_now c) ephemeral d3 of
                       Inl e \<Rightarrow> Err e
                     | Inr d4 \<Rightarrow> Ok (finish_run (cm_run_id c) (cm_outcome c) d4)))))"

definition commit_brief :: "lib \<Rightarrow> commit_request \<Rightarrow> work_db \<Rightarrow> (db_error, nat) result \<times> work_db" where
  "commit_brief l c d =
     (case commit_steps l c d of
        Inl e \<Rightarrow> (Err e, d)
      | Inr d' \<Rightarrow> (Ok (length (db_tasks d')), d'))"

definition abandon_run ::
    "lib \<Rightarrow> string \<Rightarrow> run_ledger \<Rightarrow> run_outcome \<Rightarrow> work_db \<Rightarrow> (db_error, unit) result \<times> work_db" where
  "abandon_run l run_id g oc d =
     (case record_ledger_in l g d of
        Inl e \<Rightarrow> (Err e, d)
      | Inr d' \<Rightarrow> (Ok (), finish_run run_id oc d'))"

section \<open>Reading and acting\<close>

text \<open>\<open>ORDER BY rank,id\<close>\<close>

definition board_tasks :: "work_db \<Rightarrow> (string \<times> string \<times> task_state \<times> bool \<times> int) list" where
  "board_tasks d =
     filter (\<lambda>(_, _, st, pinned, _). visible st pinned)
       (map (\<lambda>r. (wt_id r, wt_title r, task_state_parse (wt_state r), wt_pinned r, wt_rank r))
         (sort_key (\<lambda>r. (wt_rank r, wt_id r)) (db_tasks d)))"

definition read_task :: "work_db \<Rightarrow> string \<Rightarrow> task_snapshot option" where
  "read_task d task_id = map_option snapshot_of (find (\<lambda>r. wt_id r = task_id) (db_tasks d))"

definition write_task_state ::
    "string \<Rightarrow> task_snapshot \<Rightarrow> string option \<Rightarrow> string \<Rightarrow> work_db \<Rightarrow> work_db" where
  "write_task_state task_id t snoozed_until now d =
     d\<lparr>db_tasks := update_row task_id (\<lambda>r. r\<lparr>wt_state := task_state_as_str (ts_state t),
         wt_pinned := ts_pinned t, wt_resolved_at := ts_resolved_at t,
         wt_resolution := ts_resolved_evidence_digest t, wt_snoozed_until := snoozed_until,
         wt_updated_at := now\<rparr>) (db_tasks d)\<rparr>"

definition write_task_pin :: "string \<Rightarrow> bool \<Rightarrow> string \<Rightarrow> work_db \<Rightarrow> (db_error, unit) result \<times> work_db" where
  "write_task_pin task_id pinned now d =
     (let d' = d\<lparr>db_tasks := update_row task_id (\<lambda>r. r\<lparr>wt_pinned := pinned, wt_updated_at := now\<rparr>)
                              (db_tasks d)\<rparr> in
      if task_id \<in> wt_id ` set (db_tasks d) then (Ok (), d')
      else (Err (InvalidRequest ''that task is not on the board''), d'))"

datatype task_action_kind = ActDone | ActSnooze | ActDismiss | ActRestore

fun action_of :: "task_action_kind \<Rightarrow> task_action" where
  "action_of ActDone = Complete"
| "action_of ActSnooze = Snooze"
| "action_of ActDismiss = Dismiss"
| "action_of ActRestore = Restore"

definition snooze_deadline ::
    "lib \<Rightarrow> int \<Rightarrow> task_action_kind \<Rightarrow> string option \<Rightarrow> (db_error, string option) result" where
  "snooze_deadline l now kind snoozed_until =
     (if kind \<noteq> ActSnooze then Ok None
      else (case snoozed_until of
              None \<Rightarrow> Err (InvalidRequest ''snoozing requires a deadline'')
            | Some deadline \<Rightarrow>
                (case lib_parse_rfc3339 l deadline of
                   None \<Rightarrow> Err (InvalidRequest ''the snooze deadline is not a timestamp'')
                 | Some t \<Rightarrow>
                     if t \<le> now then Err (InvalidRequest ''the snooze deadline must be in the future'')
                     else Ok (Some deadline))))"

definition work_task_action ::
    "lib \<Rightarrow> int \<Rightarrow> string \<Rightarrow> task_action_kind \<Rightarrow> string option \<Rightarrow> work_db
      \<Rightarrow> (db_error, unit) result \<times> work_db" where
  "work_task_action l now task_id kind snoozed_until d =
     (let now_text = lib_to_rfc3339 l now in
      case read_task d task_id of
        None \<Rightarrow> (Err (InvalidRequest ''that task is not on the board''), d)
      | Some current \<Rightarrow>
          (case apply_action current (action_of kind) now_text of
             Inl e \<Rightarrow> (Err (InvalidRequest (illegal_reason e)), d)
           | Inr t \<Rightarrow>
               (case snooze_deadline l now kind snoozed_until of
                  Inl e \<Rightarrow> (Err e, d)
                | Inr until \<Rightarrow> (Ok (), write_task_state task_id t until now_text d))))"

definition work_task_pin :: "lib \<Rightarrow> int \<Rightarrow> string \<Rightarrow> bool \<Rightarrow> work_db \<Rightarrow> (db_error, unit) result \<times> work_db" where
  "work_task_pin l now task_id pinned d =
     (let now_text = lib_to_rfc3339 l now in
      case read_task d task_id of
        None \<Rightarrow> (Err (InvalidRequest ''that task is not on the board''), d)
      | Some current \<Rightarrow>
          (case apply_action current (if pinned then Pin else Unpin) now_text of
             Inl e \<Rightarrow> (Err (InvalidRequest (illegal_reason e)), d)
           | Inr t \<Rightarrow> write_task_pin task_id (ts_pinned t) now_text d))"

definition family_of_source :: "string \<Rightarrow> connector_family option" where
  "family_of_source source_kind = family_parse (hd (split_char (CHR ''.'') source_kind))"

definition work_task_open_evidence :: "lib \<Rightarrow> work_db \<Rightarrow> string \<Rightarrow> (db_error, open_target) result" where
  "work_task_open_evidence l d task_id =
     (case find (\<lambda>r. wt_id r = task_id) (db_tasks d) of
        None \<Rightarrow> Err (InvalidRequest ''that task is not on the board'')
      | Some r \<Rightarrow>
          (case family_of_source (wt_source_kind r) of
             None \<Rightarrow> Err (InvalidRequest ''that task's source is not supported'')
           | Some family \<Rightarrow>
               (case open_target l (wt_evidence_target r) family of
                  Inl e \<Rightarrow> Err (InvalidRequest (refused_reason e))
                | Inr t \<Rightarrow> Ok t)))"

definition checked_evidence_target :: "lib \<Rightarrow> string option \<Rightarrow> string \<Rightarrow> open_target option" where
  "checked_evidence_target l stored source_kind =
     Option.bind (family_of_source source_kind) (\<lambda>family. ok (open_target l stored family))"

text \<open>\<open>suggested_tasks\<close>: expired snoozes wake, then the last day's active tasks, newest first.\<close>

definition wake_snoozed :: "lib \<Rightarrow> string \<Rightarrow> task_row \<Rightarrow> task_row" where
  "wake_snoozed l now r =
     (case (Option.bind (wt_snoozed_until r) (lib_julianday l), lib_julianday l now) of
        (Some until, Some n) \<Rightarrow>
          if wt_state r = ''snoozed'' \<and> until \<le> n
          then r\<lparr>wt_state := (if 2 \<le> wt_miss_count r then ''stale'' else ''active''),
                 wt_snoozed_until := None, wt_resolved_at := None, wt_updated_at := now\<rparr>
          else r
      | _ \<Rightarrow> r)"

definition recent :: "lib \<Rightarrow> string \<Rightarrow> task_row \<Rightarrow> bool" where
  "recent l now r \<longleftrightarrow>
     (case (Option.bind (wt_source_activity_at r) (lib_julianday l), lib_julianday l now) of
        (Some t, Some n) \<Rightarrow> n - 1 \<le> t \<and> t \<le> n
      | _ \<Rightarrow> False)"

definition on_board :: "lib \<Rightarrow> string \<Rightarrow> task_row \<Rightarrow> bool" where
  "on_board l now r \<longleftrightarrow>
     wt_state r = ''active'' \<and> recent l now r
     \<and> wt_source_kind r \<in> set [''slack.message'', ''github.item'', ''gmail.thread'', ''linear.issue'', ''notion.page'']
     \<and> wt_connector_instance_id r \<noteq> []"

definition activity_day :: "lib \<Rightarrow> task_row \<Rightarrow> rat" where
  "activity_day l r = (case Option.bind (wt_source_activity_at r) (lib_julianday l) of Some t \<Rightarrow> t | None \<Rightarrow> 0)"

definition suggested_tasks :: "lib \<Rightarrow> string \<Rightarrow> work_db \<Rightarrow> (task_row \<times> open_target option) list \<times> work_db" where
  "suggested_tasks l now d =
     (let d' = d\<lparr>db_tasks := map (wake_snoozed l now) (db_tasks d)\<rparr>;
          rows = take 100 (sort_key (\<lambda>r. (- activity_day l r, wt_id r)) (filter (on_board l now) (db_tasks d'))) in
      (map (\<lambda>r. (r, checked_evidence_target l (wt_evidence_target r) (wt_source_kind r)))
         (filter (\<lambda>r. let st = task_state_parse (wt_state r) in
                      visible st (wt_pinned r) \<or> st = Snoozed \<or> st = Dismissed) rows),
       d'))"

section \<open>The invariant of the task table\<close>

text \<open>
  Ids are unique; a task with a fingerprint is durable and named by it, one without is ephemeral;
  and the counter agrees with the state.
\<close>

definition row_ok :: "task_row \<Rightarrow> bool" where
  "row_ok r \<longleftrightarrow>
     (case wt_fingerprint r of
        Some fp \<Rightarrow> wt_id r = ''task-'' @ fp \<and> \<not> wt_ephemeral r
      | None \<Rightarrow> wt_ephemeral r)
     \<and> snapshot_ok (snapshot_of r)"

definition tasks_ok :: "task_row list \<Rightarrow> bool" where
  "tasks_ok rs \<longleftrightarrow> distinct (map wt_id rs) \<and> list_all row_ok rs"

lemma parse_active [simp]:
  "task_state_parse s = Active \<longleftrightarrow> s = ''active''"
  "task_state_parse s = Snoozed \<longleftrightarrow> s = ''snoozed''"
  "task_state_parse s = Stale \<longleftrightarrow> s = ''stale''"
  "task_state_parse s = Done \<longleftrightarrow> s = ''done''"
  by (auto simp: task_state_parse_def)

lemma update_row_ids [simp]:
  "(\<And>r. wt_id (f r) = wt_id r) \<Longrightarrow> map wt_id (update_row i f rs) = map wt_id rs"
  by (simp add: update_row_def o_def if_distrib cong: if_cong)

section \<open>What a reconciliation does to the table\<close>

definition reconciled ::
    "(string \<times> source_outcome) list \<Rightarrow> (string \<times> proposal) list \<Rightarrow> task_row \<Rightarrow> task_snapshot" where
  "reconciled ocs present r =
     (case mentioned_entry present r of
        Some e \<Rightarrow> reconcile_present (snapshot_of r) (Some (ee_result_digest e))
      | None \<Rightarrow> reconcile_absent (snapshot_of r)
                 (case map_of ocs (wt_connector_instance_id r) of Some oc \<Rightarrow> oc | None \<Rightarrow> SourceNotRead))"

definition step_row ::
    "string \<Rightarrow> string \<Rightarrow> (string \<times> source_outcome) list \<Rightarrow> (string \<times> proposal) list \<Rightarrow> task_row
      \<Rightarrow> task_row option" where
  "step_row run_id now ocs present r =
     (if mentioned_entry present r = None \<and> wt_ephemeral r then None
      else (let t = reconciled ocs present r in
            Some (if t = snapshot_of r then r else write_reconciled run_id now t r)))"

definition step_rows ::
    "string \<Rightarrow> string \<Rightarrow> (string \<times> source_outcome) list \<Rightarrow> (string \<times> proposal) list \<Rightarrow> task_row set
      \<Rightarrow> task_row list \<Rightarrow> task_row list" where
  "step_rows run_id now ocs present S rs =
     List.map_filter (\<lambda>x. if x \<in> S then step_row run_id now ocs present x else Some x) rs"

lemma step_row_id: "step_row run_id now ocs present r = Some r' \<Longrightarrow> wt_id r' = wt_id r"
  by (auto simp: step_row_def Let_def write_reconciled_def split: if_splits)

lemma map_filter_Some [simp]: "List.map_filter Some xs = xs"
  by (induction xs) (simp_all add: map_filter_simps)

lemma map_filter_cong:
  "(\<And>x. x \<in> set xs \<Longrightarrow> f x = g x) \<Longrightarrow> List.map_filter f xs = List.map_filter g xs"
proof (induction xs)
  case (Cons a xs)
  then have "List.map_filter f xs = List.map_filter g xs" "f a = g a" by simp_all
  then show ?case by (simp add: map_filter_simps split: option.split)
qed simp

lemma map_filter_id: "(\<And>x. x \<in> set xs \<Longrightarrow> f x = Some x) \<Longrightarrow> List.map_filter f xs = xs"
  by (induction xs) (simp_all add: map_filter_simps)

lemma update_row_one:
  assumes "distinct (map wt_id rs)" "r \<in> set rs"
  shows "update_row (wt_id r) f rs = List.map_filter (\<lambda>x. if x = r then Some (f r) else Some x) rs"
  using assms
proof (induction rs)
  case (Cons x rs)
  show ?case
  proof (cases "x = r")
    case True
    then have "y \<noteq> r \<and> wt_id y \<noteq> wt_id r" if "y \<in> set rs" for y
      using Cons.prems(1) that by (auto simp: image_iff)
    then have "update_row (wt_id r) f rs = rs"
      and "List.map_filter (\<lambda>x. if x = r then Some (f r) else Some x) rs = rs"
      by (auto simp: update_row_def intro!: map_idI map_filter_id)
    with True show ?thesis by (simp add: update_row_def map_filter_simps)
  next
    case False
    with Cons.prems have "wt_id x \<noteq> wt_id r" by (auto simp: image_iff)
    with False Cons show ?thesis by (simp add: update_row_def map_filter_simps)
  qed
qed simp

lemma delete_row_one:
  assumes "distinct (map wt_id rs)" "r \<in> set rs"
  shows "filter (\<lambda>x. wt_id x \<noteq> wt_id r) rs = List.map_filter (\<lambda>x. if x = r then None else Some x) rs"
  using assms
proof (induction rs)
  case (Cons x rs)
  show ?case
  proof (cases "x = r")
    case True
    then have "y \<noteq> r \<and> wt_id y \<noteq> wt_id r" if "y \<in> set rs" for y
      using Cons.prems(1) that by (auto simp: image_iff)
    then have "filter (\<lambda>x. wt_id x \<noteq> wt_id r) rs = rs"
      and "List.map_filter (\<lambda>x. if x = r then None else Some x) rs = rs"
      by (auto simp: filter_id_conv intro!: map_filter_id)
    with True show ?thesis by (simp add: map_filter_simps)
  next
    case False
    with Cons.prems have "wt_id x \<noteq> wt_id r" by (auto simp: image_iff)
    with False Cons show ?thesis by (simp add: map_filter_simps)
  qed
qed simp

lemma reconcile_row_eq:
  assumes "run_exists d run_id" "distinct (map wt_id (db_tasks d))" "r \<in> set (db_tasks d)"
  shows "reconcile_row run_id now ocs present r d
    = Inr (d\<lparr>db_tasks := step_rows run_id now ocs present {r} (db_tasks d)\<rparr>)"
proof -
  let ?t = "reconciled ocs present r" let ?step = "step_row run_id now ocs present"
  have one: "step_rows run_id now ocs present {r} (db_tasks d)
      = List.map_filter (\<lambda>x. if x = r then ?step r else Some x) (db_tasks d)"
    unfolding step_rows_def by (rule map_filter_cong) simp
  show ?thesis
  proof (cases "mentioned_entry present r = None \<and> wt_ephemeral r")
    case True
    then have "?step r = None" by (simp add: step_row_def)
    with True show ?thesis
      using delete_row_one [OF assms(2,3)] by (simp only: one reconcile_row_def Let_def) simp
  next
    case False
    then have upd: "reconcile_row run_id now ocs present r d =
        (if ?t = snapshot_of r then Inr d
         else Inr (d\<lparr>db_tasks := update_row (wt_id r) (write_reconciled run_id now ?t) (db_tasks d)\<rparr>))"
      using assms(1) by (auto simp: reconcile_row_def reconciled_def Let_def split: option.splits)
    show ?thesis
    proof (cases "?t = snapshot_of r")
      case True
      have "?step r = Some r" unfolding step_row_def if_not_P [OF False] by (simp add: True Let_def)
      then have "List.map_filter (\<lambda>x. if x = r then ?step r else Some x) (db_tasks d) = db_tasks d"
        by (intro map_filter_id) simp
      with True show ?thesis by (simp add: upd one)
    next
      case ne: False
      with False have "?step r = Some (write_reconciled run_id now ?t r)"
        by (simp add: step_row_def Let_def)
      with ne show ?thesis
        unfolding upd one by (simp only: update_row_one [OF assms(2,3)]) simp
    qed
  qed
qed

lemma map_filter_comp:
  "List.map_filter g (List.map_filter f xs)
    = List.map_filter (\<lambda>x. case f x of None \<Rightarrow> None | Some y \<Rightarrow> g y) xs"
  by (induction xs) (simp_all add: map_filter_simps split: option.splits)

lemma set_map_filter: "set (List.map_filter f xs) = {y. \<exists>x \<in> set xs. f x = Some y}"
  by (induction xs) (auto simp: map_filter_simps split: option.splits)

lemma step_rows_mem:
  "y \<in> set (step_rows run_id now ocs present S rs) \<longleftrightarrow>
     (\<exists>x \<in> set rs. (if x \<in> S then step_row run_id now ocs present x else Some x) = Some y)"
  by (auto simp: step_rows_def set_map_filter)

lemma step_rows_ids:
  "set (map wt_id (step_rows run_id now ocs present S rs)) \<subseteq> set (map wt_id rs)
   \<and> (distinct (map wt_id rs) \<longrightarrow> distinct (map wt_id (step_rows run_id now ocs present S rs)))"
proof (induction rs)
  case (Cons x rs)
  let ?f = "\<lambda>x. if x \<in> S then step_row run_id now ocs present x else Some x"
  have id: "wt_id y = wt_id x" if "?f x = Some y" for y
    using that step_row_id by (auto split: if_splits)
  have st: "step_rows run_id now ocs present S (x # rs)
      = (case ?f x of None \<Rightarrow> step_rows run_id now ocs present S rs
         | Some y \<Rightarrow> y # step_rows run_id now ocs present S rs)"
    unfolding step_rows_def map_filter_simps ..
  show ?case
  proof (cases "?f x")
    case None
    then show ?thesis using Cons by (simp only: st) auto
  next
    case (Some y)
    then show ?thesis using Cons id [OF Some] by (simp only: st) auto
  qed
qed (simp add: step_rows_def)

lemma step_rows_insert:
  assumes "distinct (map wt_id rs)" "r \<notin> S" "r \<in> set rs" "S \<subseteq> set rs"
  shows "step_rows run_id now ocs present S (step_rows run_id now ocs present {r} rs)
    = step_rows run_id now ocs present (insert r S) rs"
  unfolding step_rows_def map_filter_comp
proof (rule map_filter_cong)
  fix x assume x: "x \<in> set rs"
  show "(case if x \<in> {r} then step_row run_id now ocs present x else Some x of
           None \<Rightarrow> None
         | Some y \<Rightarrow> if y \<in> S then step_row run_id now ocs present y else Some y)
      = (if x \<in> insert r S then step_row run_id now ocs present x else Some x)"
  proof (cases "x = r")
    case True
    have "y \<notin> S" if "step_row run_id now ocs present r = Some y" for y
    proof
      assume "y \<in> S"
      then have "y \<in> set rs" using assms(4) by blast
      moreover have "wt_id y = wt_id r" using that by (rule step_row_id)
      ultimately have "y = r" using assms(1,3) by (auto simp: distinct_map inj_on_def)
      with \<open>y \<in> S\<close> assms(2) show False by simp
    qed
    with True show ?thesis by (simp split: option.splits)
  qed simp
qed

lemma reconcile_rows_eq:
  assumes "run_exists d run_id" "distinct (map wt_id (db_tasks d))" "set rs \<subseteq> set (db_tasks d)"
    and "distinct rs"
  shows "reconcile_rows run_id now ocs present rs d
    = Inr (d\<lparr>db_tasks := step_rows run_id now ocs present (set rs) (db_tasks d)\<rparr>)"
  using assms
proof (induction rs arbitrary: d)
  case Nil
  then show ?case by (simp add: step_rows_def)
next
  case (Cons r rs)
  define d' where "d' = d\<lparr>db_tasks := step_rows run_id now ocs present {r} (db_tasks d)\<rparr>"
  have 1: "reconcile_row run_id now ocs present r d = Inr d'"
    using Cons.prems by (simp add: reconcile_row_eq d'_def)
  have 2: "run_exists d' run_id" using Cons.prems by (simp add: d'_def run_exists_def)
  have 3: "distinct (map wt_id (db_tasks d'))"
    using Cons.prems(2) step_rows_ids [of run_id now ocs present "{r}" "db_tasks d"] by (simp add: d'_def)
  have 4: "set rs \<subseteq> set (db_tasks d')"
  proof
    fix x assume "x \<in> set rs"
    with Cons.prems(3,4) have "x \<in> set (db_tasks d)" "x \<noteq> r" by auto
    then show "x \<in> set (db_tasks d')" by (auto simp: d'_def step_rows_mem intro!: bexI [of _ x])
  qed
  have "reconcile_rows run_id now ocs present (r # rs) d
      = Inr (d'\<lparr>db_tasks := step_rows run_id now ocs present (set rs) (db_tasks d')\<rparr>)"
    using Cons.IH [OF 2 3 4] Cons.prems(4) 1 by simp
  then show ?case
    using step_rows_insert [of "db_tasks d" r "set rs"] Cons.prems by (simp add: d'_def)
qed

section \<open>The rows a commit does not have to read\<close>

lemma bt_sorted_fold: "bt_sorted m \<Longrightarrow> bt_sorted (fold (\<lambda>c. bt_insert (k c) (v c)) cs m)"
  by (induction cs arbitrary: m) auto

lemma outcomes_snoc:
  "map_of (fold (\<lambda>c. bt_insert (k c) (v c)) (cs @ [c]) []) i =
     (if i = k c then Some (v c) else map_of (fold (\<lambda>c. bt_insert (k c) (v c)) cs []) i)"
  using bt_sorted_fold [of "[]" k v cs] by simp

definition has_source :: "string \<Rightarrow> string \<Rightarrow> string \<Rightarrow> source_row list \<Rightarrow> bool" where
  "has_source run_id i st rs \<longleftrightarrow>
     (\<exists>s \<in> set rs. sr_run_id s = run_id \<and> sr_connector_instance_id s = i \<and> sr_status s = st)"

lemma upsert_source_has:
  "has_source (sr_run_id n) (sr_connector_instance_id n) (sr_status n) (upsert_source n rs)"
  "sr_connector_instance_id n \<noteq> i \<Longrightarrow> has_source run_id i st rs \<Longrightarrow> has_source run_id i st (upsert_source n rs)"
  by (induction rs) (auto simp: has_source_def)

lemma outcome_read_is_stored:
  assumes "map_of (fold (\<lambda>c. bt_insert (sc_connector_instance_id c) (from_coverage (sc_status c))) cs []) i
    = Some SourceRead"
  shows "has_source run_id i ''succeeded'' (fold (\<lambda>c. upsert_source (source_row_of run_id c)) cs rs)"
  using assms
proof (induction cs rule: rev_induct)
  case (snoc c cs)
  show ?case
  proof (cases "i = sc_connector_instance_id c")
    case True
    with snoc.prems have "sc_status c = WsSucceeded"
      by (cases "sc_status c") (simp_all only: outcomes_snoc, simp_all)
    with True upsert_source_has(1) [of "source_row_of run_id c"] show ?thesis
      by (simp add: source_row_of_def)
  next
    case False
    with snoc.prems have "map_of (fold (\<lambda>c. bt_insert (sc_connector_instance_id c)
        (from_coverage (sc_status c))) cs []) i = Some SourceRead"
      by (simp only: outcomes_snoc if_False)
    with snoc.IH have "has_source run_id i ''succeeded''
        (fold (\<lambda>c. upsert_source (source_row_of run_id c)) cs rs)" by blast
    moreover have "sr_connector_instance_id (source_row_of run_id c) \<noteq> i"
      using False by (simp add: source_row_of_def)
    ultimately show ?thesis by (simp add: upsert_source_has(2))
  qed
qed simp

lemma record_ledger_Ok:
  assumes "record_ledger_in l g d = Inr d'"
  shows "db_tasks d' = db_tasks d" "db_runs d' = db_runs d"
    and "map_of (outcomes g) i = Some SourceRead \<Longrightarrow> source_succeeded d' (rl_run_id g) i"
proof -
  from assms have d': "d' = d\<lparr>db_sources := fold (\<lambda>c. upsert_source (source_row_of (rl_run_id g) c)) (coverage g)
                                (db_sources d),
                 db_evidence := fold (\<lambda>e. insert_evidence
                     \<lparr>er_run_id = rl_run_id g, er_entry = e, er_target = target_json l (ee_target e)\<rparr>)
                   (rl_entries g) (db_evidence d)\<rparr>"
    by (auto simp: record_ledger_in_def split: if_splits)
  then show "db_tasks d' = db_tasks d" "db_runs d' = db_runs d" by simp_all
  assume "map_of (outcomes g) i = Some SourceRead"
  from outcome_read_is_stored [OF this [unfolded outcomes_def], of "rl_run_id g" "db_sources d"] d'
  show "source_succeeded d' (rl_run_id g) i"
    by (auto simp: source_succeeded_def has_source_def list_ex_iff)
qed

text \<open>
  The select reads every row the run can change: reconciling a durable row it leaves out is either
  no change or, for a task that is done or stale, not wanted.
\<close>

definition live :: "task_row \<Rightarrow> bool" where
  "live r \<longleftrightarrow> wt_state r = ''active'' \<or> wt_state r = ''snoozed''"

lemma mentioned_key:
  "mentioned_entry present r = None \<longleftrightarrow>
     (case wt_fingerprint r of None \<Rightarrow> True | Some fp \<Rightarrow> fp \<notin> fst ` set present)"
  by (cases "wt_fingerprint r") (simp_all add: mentioned_entry_def map_of_eq_None_iff)

lemma selected_iff:
  "selected d run_id present r \<longleftrightarrow>
     wt_ephemeral r \<or> (live r \<and> wt_miss_count r < 2
        \<and> source_succeeded d run_id (wt_connector_instance_id r))
     \<or> mentioned_entry present r \<noteq> None"
  unfolding selected_def live_def mentioned_key by (cases "wt_fingerprint r") simp_all

lemma unselected_unchanged:
  assumes "\<not> selected d run_id present r" "live r"
    and "\<And>i. map_of ocs i = Some SourceRead \<Longrightarrow> source_succeeded d run_id i"
  shows "reconciled ocs present r = snapshot_of r"
proof -
  have m: "mentioned_entry present r = None" using assms(1) by (simp add: selected_iff)
  have "2 \<le> wt_miss_count r \<or> map_of ocs (wt_connector_instance_id r) \<noteq> Some SourceRead"
    using assms(1,2) assms(3) [of "wt_connector_instance_id r"] by (auto simp: selected_iff)
  with m show ?thesis
    by (auto simp: reconciled_def reconcile_absent_def read_successfully_def misses_before_stale_def
        snapshot_of_def split: option.splits)
qed

text \<open>What a run makes of one durable row.\<close>

definition expected ::
    "(string \<times> source_outcome) list \<Rightarrow> (string \<times> proposal) list \<Rightarrow> task_row \<Rightarrow> task_snapshot" where
  "expected ocs present r =
     (if mentioned_entry present r \<noteq> None \<or> live r then reconciled ocs present r else snapshot_of r)"

lemma selected_durable:
  "selected d run_id present r \<Longrightarrow> \<not> wt_ephemeral r \<Longrightarrow> mentioned_entry present r \<noteq> None \<or> live r"
  by (auto simp: selected_iff)

lemma reconciled_snapshot [simp]:
  "ts_ephemeral (reconciled ocs present r) = wt_ephemeral r"
  "ts_evidence_digest (reconciled ocs present r) = wt_evidence_digest r"
  "ts_pinned (reconciled ocs present r) = wt_pinned r"
  by (simp_all add: reconciled_def snapshot_of_def split: option.split)

lemma snapshot_written [simp]:
  "snapshot_of (write_reconciled run_id now (reconciled ocs present r) r) = reconciled ocs present r"
proof -
  have "snapshot_of (write_reconciled run_id now t r) = t"
    if "ts_ephemeral t = wt_ephemeral r" "ts_evidence_digest t = wt_evidence_digest r" for t
    using that by (cases t) (simp add: snapshot_of_def write_reconciled_def)
  then show ?thesis by simp
qed

lemma reconciled_ok: "snapshot_ok (snapshot_of r) \<Longrightarrow> snapshot_ok (reconciled ocs present r)"
  by (simp add: reconciled_def snapshot_ok_present snapshot_ok_absent split: option.split)

lemma write_reconciled_keeps [simp]:
  "wt_id (write_reconciled run_id now t r) = wt_id r"
  "wt_fingerprint (write_reconciled run_id now t r) = wt_fingerprint r"
  "wt_ephemeral (write_reconciled run_id now t r) = wt_ephemeral r"
  "wt_snoozed_until (write_reconciled run_id now t r) = wt_snoozed_until r"
  by (simp_all add: write_reconciled_def)

lemma row_ok_written:
  assumes "row_ok r"
  shows "row_ok (write_reconciled run_id now (reconciled ocs present r) r)"
  using assms unfolding row_ok_def snapshot_written
  by (cases "wt_fingerprint r") (simp_all add: reconciled_ok)

lemma step_row_ok: "row_ok r \<Longrightarrow> step_row run_id now ocs present r = Some r' \<Longrightarrow> row_ok r'"
  by (auto simp: step_row_def Let_def row_ok_written split: if_splits)

section \<open>What the upserts keep\<close>

definition decided :: "task_row \<Rightarrow> string \<times> bool \<times> int \<times> string option \<times> string option \<times> string option \<times> bool" where
  "decided r = (wt_state r, wt_pinned r, wt_miss_count r, wt_resolved_at r, wt_resolution r,
     wt_snoozed_until r, wt_ephemeral r)"

text \<open>Every row is still there, with what was decided about it.\<close>

definition kept :: "task_row list \<Rightarrow> task_row list \<Rightarrow> bool" where
  "kept rs rs' \<longleftrightarrow> (\<forall>r \<in> set rs. \<exists>r' \<in> set rs'. wt_id r' = wt_id r \<and> decided r' = decided r)"

lemma kept_refl [simp, intro]: "kept rs rs"
  by (auto simp: kept_def)

lemma kept_trans: "kept a b \<Longrightarrow> kept b c \<Longrightarrow> kept a c"
  unfolding kept_def by metis

lemma refresh_keeps [simp]:
  "wt_id (refresh_task_row n r) = wt_id r"
  "wt_fingerprint (refresh_task_row n r) = wt_fingerprint r"
  "wt_ephemeral (refresh_task_row n r) = wt_ephemeral r"
  "decided (refresh_task_row n r) = decided r"
  by (simp_all add: refresh_task_row_def decided_def)

lemma row_ok_refresh: "row_ok r \<Longrightarrow> row_ok (refresh_task_row n r)"
  by (cases "wt_fingerprint r")
     (auto simp: row_ok_def snapshot_ok_def snapshot_of_def refresh_task_row_def)

lemma row_ok_new: "row_ok (new_task_row l run_id now fp rank t e (fp = None))"
  by (cases fp) (simp_all add: row_ok_def new_task_row_def task_id_of_def snapshot_ok_def
      snapshot_of_def misses_before_stale_def task_state_parse_def)

lemma fingerprint_names_id:
  "tasks_ok rs \<Longrightarrow> Some fp \<in> wt_fingerprint ` set rs \<Longrightarrow> ''task-'' @ fp \<in> wt_id ` set rs"
proof -
  assume ok: "tasks_ok rs" and "Some fp \<in> wt_fingerprint ` set rs"
  then obtain r where r: "r \<in> set rs" "wt_fingerprint r = Some fp" by auto
  then have "row_ok r" using ok by (auto simp: tasks_ok_def list_all_iff)
  with r(2) have "wt_id r = ''task-'' @ fp" by (simp add: row_ok_def)
  with r(1) show ?thesis by force
qed

lemma upsert_task_ok:
  assumes "run_exists d run_id" "tasks_ok (db_tasks d)"
  shows "\<exists>d'. upsert_task l run_id now fp rank t e (fp = None) d = Inr d'
    \<and> run_exists d' run_id \<and> db_runs d' = db_runs d \<and> tasks_ok (db_tasks d') \<and> kept (db_tasks d) (db_tasks d')"
proof -
  define n where "n = new_task_row l run_id now fp rank t e (fp = None)"
  show ?thesis
  proof (cases "wt_id n \<in> wt_id ` set (db_tasks d)")
    case True
    let ?d = "d\<lparr>db_tasks := update_row (wt_id n) (refresh_task_row n) (db_tasks d)\<rparr>"
    have "upsert_task l run_id now fp rank t e (fp = None) d = Inr ?d"
      using assms(1) True by (simp add: upsert_task_def n_def [symmetric] Let_def)
    moreover have "tasks_ok (db_tasks ?d)"
      using assms(2) by (auto simp: tasks_ok_def list_all_iff update_row_def row_ok_refresh o_def if_distrib
          cong: if_cong)
    moreover have "kept (db_tasks d) (db_tasks ?d)"
      unfolding kept_def
    proof
      fix r assume "r \<in> set (db_tasks d)"
      then show "\<exists>r' \<in> set (db_tasks ?d). wt_id r' = wt_id r \<and> decided r' = decided r"
        by (intro bexI [of _ "if wt_id r = wt_id n then refresh_task_row n r else r"])
           (auto simp: update_row_def)
    qed
    ultimately show ?thesis using assms(1) by (auto simp: run_exists_def)
  next
    case False
    have "fp = None \<or> fp \<notin> wt_fingerprint ` set (db_tasks d)"
    proof (cases fp)
      case (Some f)
      with False fingerprint_names_id [OF assms(2), of f] show ?thesis
        by (auto simp: n_def new_task_row_def task_id_of_def)
    qed simp
    then have "upsert_task l run_id now fp rank t e (fp = None) d = Inr (d\<lparr>db_tasks := db_tasks d @ [n]\<rparr>)"
      using assms(1) False by (auto simp: upsert_task_def n_def [symmetric] Let_def)
    moreover have "tasks_ok (db_tasks d @ [n])"
      using assms(2) False row_ok_new by (auto simp: tasks_ok_def n_def)
    ultimately show ?thesis using assms(1) by (auto simp: run_exists_def kept_def)
  qed
qed

lemma upsert_present_ok:
  assumes "run_exists d run_id" "tasks_ok (db_tasks d)"
  shows "\<exists>d'. upsert_present l run_id now ps d = Inr d'
    \<and> run_exists d' run_id \<and> db_runs d' = db_runs d \<and> tasks_ok (db_tasks d') \<and> kept (db_tasks d) (db_tasks d')"
  using assms
proof (induction ps arbitrary: d)
  case (Cons p ps)
  obtain fp rank t e where p: "p = (fp, rank, t, e)" by (cases p) auto
  obtain d1 where d1: "upsert_task l run_id now (Some fp) rank t e False d = Inr d1" "run_exists d1 run_id"
    "db_runs d1 = db_runs d" "tasks_ok (db_tasks d1)" "kept (db_tasks d) (db_tasks d1)"
    using upsert_task_ok [OF Cons.prems, of l now "Some fp" rank t e] by auto
  from Cons.IH [OF d1(2,4)] d1 p show ?case by (auto intro: kept_trans)
qed auto

lemma upsert_ephemeral_ok:
  assumes "run_exists d run_id" "tasks_ok (db_tasks d)"
  shows "\<exists>d'. upsert_ephemeral l run_id now ps d = Inr d'
    \<and> run_exists d' run_id \<and> db_runs d' = db_runs d \<and> tasks_ok (db_tasks d') \<and> kept (db_tasks d) (db_tasks d')"
  using assms
proof (induction ps arbitrary: d)
  case (Cons p ps)
  obtain t e where p: "p = (t, e)" by (cases p) auto
  obtain d1 where d1: "upsert_task l run_id now None (bt_rank t) t e True d = Inr d1" "run_exists d1 run_id"
    "db_runs d1 = db_runs d" "tasks_ok (db_tasks d1)" "kept (db_tasks d) (db_tasks d1)"
    using upsert_task_ok [OF Cons.prems, of l now None "bt_rank t" t e] by auto
  from Cons.IH [OF d1(2,4)] d1 p show ?case by (auto intro: kept_trans)
qed auto

section \<open>The commit, in one piece\<close>

abbreviation present_of :: "lib \<Rightarrow> commit_request \<Rightarrow> (string \<times> proposal) list" where
  "present_of l c \<equiv> fst (collect_tasks l (cm_ledger c) (wb_tasks (cm_brief c)) ([], []))"

lemma step_rows_ok:
  assumes "tasks_ok rs"
  shows "tasks_ok (step_rows run_id now ocs present S rs)"
proof -
  have "row_ok y" if "y \<in> set (step_rows run_id now ocs present S rs)" for y
    using that assms step_row_ok by (fastforce simp: step_rows_mem tasks_ok_def list_all_iff split: if_splits)
  then show ?thesis
    using assms step_rows_ids [of run_id now ocs present S rs] by (auto simp: tasks_ok_def list_all_iff)
qed

lemma commit_steps_ok:
  assumes "run_exists d (cm_run_id c)" "rl_run_id (cm_ledger c) = cm_run_id c" "tasks_ok (db_tasks d)"
  shows "\<exists>d1 d'. commit_steps l c d = Inr d' \<and> tasks_ok (db_tasks d')
    \<and> (\<forall>i. map_of (outcomes (cm_ledger c)) i = Some SourceRead \<longrightarrow> source_succeeded d1 (cm_run_id c) i)
    \<and> kept (step_rows (cm_run_id c) (cm_now c) (outcomes (cm_ledger c)) (present_of l c)
              {r \<in> set (db_tasks d). selected d1 (cm_run_id c) (present_of l c) r} (db_tasks d))
        (db_tasks d')"
proof -
  obtain d1 where d1: "record_ledger_in l (cm_ledger c) d = Inr d1"
    using assms(1,2) by (auto simp: record_ledger_in_def)
  note r1 = record_ledger_Ok [OF d1]
  have e1: "run_exists d1 (cm_run_id c)" using assms(1) r1(2) by (simp add: run_exists_def)
  obtain present ephemeral where ct: "collect_tasks l (cm_ledger c) (wb_tasks (cm_brief c)) ([], [])
      = (present, ephemeral)" by (cases "collect_tasks l (cm_ledger c) (wb_tasks (cm_brief c)) ([], [])")
  define stored where "stored = filter (selected d1 (cm_run_id c) present) (db_tasks d1)"
  define d2 where "d2 = d1\<lparr>db_tasks := step_rows (cm_run_id c) (cm_now c) (outcomes (cm_ledger c)) present
      (set stored) (db_tasks d1)\<rparr>"
  have dis: "distinct (map wt_id (db_tasks d1))" using assms(3) r1(1) by (simp add: tasks_ok_def)
  have rr: "reconcile_rows (cm_run_id c) (cm_now c) (outcomes (cm_ledger c)) present stored d1 = Inr d2"
    unfolding d2_def using dis e1
    by (intro reconcile_rows_eq) (auto simp: stored_def distinct_map)
  have e2: "run_exists d2 (cm_run_id c)" using e1 by (simp add: d2_def run_exists_def)
  have t2: "tasks_ok (db_tasks d2)" using assms(3) r1(1) by (simp add: d2_def step_rows_ok)
  obtain d3 where d3: "upsert_present l (cm_run_id c) (cm_now c) present d2 = Inr d3"
    "run_exists d3 (cm_run_id c)" "tasks_ok (db_tasks d3)" "kept (db_tasks d2) (db_tasks d3)"
    using upsert_present_ok [OF e2 t2] by blast
  obtain d4 where d4: "upsert_ephemeral l (cm_run_id c) (cm_now c) ephemeral d3 = Inr d4"
    "tasks_ok (db_tasks d4)" "kept (db_tasks d3) (db_tasks d4)"
    using upsert_ephemeral_ok [OF d3(2,3)] by blast
  let ?d' = "finish_run (cm_run_id c) (cm_outcome c) d4"
  have "commit_steps l c d = Inr ?d'"
    using d1 ct rr d3(1) d4(1) by (simp add: commit_steps_def stored_def [symmetric] Let_def)
  moreover have "db_tasks ?d' = db_tasks d4" by (simp add: finish_run_def)
  moreover have "set stored = {r \<in> set (db_tasks d). selected d1 (cm_run_id c) present r}"
    by (auto simp: stored_def r1(1))
  ultimately show ?thesis
    using d4(2) kept_trans [OF d3(4) d4(3)] r1(1,3) assms(2) ct
    by (intro exI [of _ d1] exI [of _ ?d']) (simp add: d2_def)
qed

lemma decided_snapshot:
  "decided r' = decided r \<Longrightarrow>
     snapshot_of r' = (snapshot_of r)\<lparr>ts_evidence_digest := wt_evidence_digest r'\<rparr>
     \<and> wt_snoozed_until r' = wt_snoozed_until r"
  by (simp add: decided_def snapshot_of_def)

lemma commit_row:
  assumes "run_exists d (cm_run_id c)" "rl_run_id (cm_ledger c) = cm_run_id c" "tasks_ok (db_tasks d)"
    and "r \<in> set (db_tasks d)" "\<not> wt_ephemeral r"
  shows "\<exists>r' \<in> set (db_tasks (snd (commit_brief l c d))).
     wt_id r' = wt_id r \<and> wt_snoozed_until r' = wt_snoozed_until r
     \<and> snapshot_of r' = (expected (outcomes (cm_ledger c)) (present_of l c) r)
          \<lparr>ts_evidence_digest := wt_evidence_digest r'\<rparr>"
proof -
  let ?ocs = "outcomes (cm_ledger c)" let ?p = "present_of l c"
  let ?step = "step_row (cm_run_id c) (cm_now c) ?ocs ?p"
  obtain d1 d' where cs: "commit_steps l c d = Inr d'"
    and src: "\<And>i. map_of ?ocs i = Some SourceRead \<Longrightarrow> source_succeeded d1 (cm_run_id c) i"
    and k: "kept (step_rows (cm_run_id c) (cm_now c) ?ocs ?p
              {r \<in> set (db_tasks d). selected d1 (cm_run_id c) ?p r} (db_tasks d)) (db_tasks d')"
    using commit_steps_ok [OF assms(1-3)] by blast
  have "\<exists>r1. (if selected d1 (cm_run_id c) ?p r then ?step r else Some r) = Some r1
      \<and> wt_id r1 = wt_id r \<and> wt_snoozed_until r1 = wt_snoozed_until r
      \<and> snapshot_of r1 = expected ?ocs ?p r"
  proof (cases "selected d1 (cm_run_id c) ?p r")
    case True
    with assms(5) have "expected ?ocs ?p r = reconciled ?ocs ?p r"
      using selected_durable by (simp add: expected_def)
    with True assms(5) show ?thesis by (auto simp: step_row_def Let_def)
  next
    case False
    then have "expected ?ocs ?p r = snapshot_of r"
      using unselected_unchanged [OF False _ src] by (auto simp: expected_def selected_iff)
    with False show ?thesis by simp
  qed
  then obtain r1 where st: "(if selected d1 (cm_run_id c) ?p r then ?step r else Some r) = Some r1"
    and r1: "wt_id r1 = wt_id r" "wt_snoozed_until r1 = wt_snoozed_until r"
      "snapshot_of r1 = expected ?ocs ?p r" by blast
  have "r1 \<in> set (step_rows (cm_run_id c) (cm_now c) ?ocs ?p
              {r \<in> set (db_tasks d). selected d1 (cm_run_id c) ?p r} (db_tasks d))"
    unfolding step_rows_mem using assms(4) st by (intro bexI [of _ r]) simp_all
  with k obtain r' where r': "r' \<in> set (db_tasks d')" "wt_id r' = wt_id r1" "decided r' = decided r1"
    unfolding kept_def by blast
  with decided_snapshot [OF r'(3)] r1 cs show ?thesis
    by (intro bexI [of _ r']) (simp_all add: commit_brief_def)
qed

section \<open>Properties of a commit\<close>

text \<open>
  C24. On a well-formed board, committing a brief for a run that exists always succeeds, and the
  board it leaves is well formed: ids are unique, a durable task carries the id its fingerprint
  names, and every stored miss count agrees with its task's state. So no brief, however its tasks
  repeat resources, can make the transaction fail on a key.
\<close>
theorem commit_succeeds_on_a_sound_board:
  assumes "run_exists d (cm_run_id c)" "rl_run_id (cm_ledger c) = cm_run_id c" "tasks_ok (db_tasks d)"
  shows "fst (commit_brief l c d) = Ok (length (db_tasks (snd (commit_brief l c d))))
    \<and> tasks_ok (db_tasks (snd (commit_brief l c d)))"
proof -
  obtain d' where "commit_steps l c d = Inr d'" "tasks_ok (db_tasks d')"
    using commit_steps_ok [OF assms, of l] by blast
  then show ?thesis by (simp add: commit_brief_def)
qed

text \<open>
  C13. What one commit does to a durable task, but for the digest of its evidence: mentioned, it is
  reconciled as present with the new evidence; not mentioned but active or snoozed, it is
  reconciled as absent with what the run learned about its own source, although the select reads
  only those that missed fewer than two briefs and whose source the run read; any other, done,
  stale or dismissed and not mentioned, keeps its state, its pin, its misses and its resolution.
  No upsert undoes a decision.
\<close>
theorem commit_reconciles_every_task:
  assumes "run_exists d (cm_run_id c)" "rl_run_id (cm_ledger c) = cm_run_id c" "tasks_ok (db_tasks d)"
    and "r \<in> set (db_tasks d)" "\<not> wt_ephemeral r"
  shows "\<exists>r' \<in> set (db_tasks (snd (commit_brief l c d))).
     wt_id r' = wt_id r \<and> wt_snoozed_until r' = wt_snoozed_until r
     \<and> snapshot_of r' =
        (case mentioned_entry (fst (collect_tasks l (cm_ledger c) (wb_tasks (cm_brief c)) ([], []))) r of
           Some e \<Rightarrow> reconcile_present (snapshot_of r) (Some (ee_result_digest e))
         | None \<Rightarrow>
             if wt_state r = ''active'' \<or> wt_state r = ''snoozed''
             then reconcile_absent (snapshot_of r)
               (case map_of (outcomes (cm_ledger c)) (wt_connector_instance_id r) of
                  Some oc \<Rightarrow> oc | None \<Rightarrow> SourceNotRead)
             else snapshot_of r)\<lparr>ts_evidence_digest := wt_evidence_digest r'\<rparr>"
proof -
  have "expected (outcomes (cm_ledger c)) (present_of l c) r =
        (case mentioned_entry (present_of l c) r of
           Some e \<Rightarrow> reconcile_present (snapshot_of r) (Some (ee_result_digest e))
         | None \<Rightarrow>
             if wt_state r = ''active'' \<or> wt_state r = ''snoozed''
             then reconcile_absent (snapshot_of r)
               (case map_of (outcomes (cm_ledger c)) (wt_connector_instance_id r) of
                  Some oc \<Rightarrow> oc | None \<Rightarrow> SourceNotRead)
             else snapshot_of r)"
    by (cases "mentioned_entry (present_of l c) r") (auto simp: expected_def reconciled_def live_def)
  with commit_row [OF assms, of l] show ?thesis by simp
qed

text \<open>
  C4. A human's decision outranks the model's: whatever a brief says, a durable task keeps its
  pin, a dismissed one stays as it was dismissed, a snoozed one stays snoozed until the deadline it
  was given, and a completed one reopens only if the brief cites it with content that differs from
  what the user saw.
\<close>
theorem commit_respects_the_user:
  assumes "run_exists d (cm_run_id c)" "rl_run_id (cm_ledger c) = cm_run_id c" "tasks_ok (db_tasks d)"
    and "r \<in> set (db_tasks d)" "\<not> wt_ephemeral r"
  shows "\<exists>r' \<in> set (db_tasks (snd (commit_brief l c d))).
     wt_id r' = wt_id r \<and> wt_pinned r' = wt_pinned r \<and> wt_snoozed_until r' = wt_snoozed_until r
     \<and> (task_state_parse (wt_state r) = Dismissed \<longrightarrow>
          task_state_parse (wt_state r') = Dismissed \<and> wt_resolved_at r' = wt_resolved_at r)
     \<and> (wt_state r = ''snoozed'' \<longrightarrow> wt_state r' = ''snoozed'')
     \<and> (wt_state r = ''done'' \<and> wt_state r' \<noteq> ''done'' \<longrightarrow>
          (\<exists>e seen. mentioned_entry (fst (collect_tasks l (cm_ledger c) (wb_tasks (cm_brief c)) ([], []))) r = Some e
             \<and> wt_resolution r = Some seen \<and> ee_result_digest e \<noteq> seen))"
proof -
  let ?x = "expected (outcomes (cm_ledger c)) (present_of l c) r"
  obtain r' where r': "r' \<in> set (db_tasks (snd (commit_brief l c d)))" "wt_id r' = wt_id r"
    "wt_snoozed_until r' = wt_snoozed_until r"
    "snapshot_of r' = ?x\<lparr>ts_evidence_digest := wt_evidence_digest r'\<rparr>"
    using commit_row [OF assms, of l] by blast
  have f: "task_state_parse (wt_state r') = ts_state ?x" "wt_pinned r' = ts_pinned ?x"
    "wt_resolved_at r' = ts_resolved_at ?x"
    using arg_cong [OF r'(4), of ts_state] arg_cong [OF r'(4), of ts_pinned]
      arg_cong [OF r'(4), of ts_resolved_at] by (simp_all add: snapshot_of_def)
  have s: "ts_state (snapshot_of r) = task_state_parse (wt_state r)" "ts_pinned (snapshot_of r) = wt_pinned r"
    "ts_resolved_at (snapshot_of r) = wt_resolved_at r" by (simp_all add: snapshot_of_def)
  have pin: "ts_pinned ?x = wt_pinned r" by (simp add: expected_def s)
  have dis: "?x = snapshot_of r" if "task_state_parse (wt_state r) = Dismissed"
    using that by (simp add: expected_def reconciled_def s split: option.split)
  have sno: "ts_state ?x = Snoozed" if "wt_state r = ''snoozed''"
    using that reconcile_snoozed [of "snapshot_of r"]
    by (simp add: expected_def reconciled_def s split: option.split)
  have don: "\<exists>e seen. mentioned_entry (present_of l c) r = Some e \<and> wt_resolution r = Some seen
      \<and> ee_result_digest e \<noteq> seen"
    if "wt_state r = ''done''" "ts_state ?x \<noteq> Done"
  proof -
    have st: "task_state_parse (wt_state r) = Done" using that(1) by simp
    show ?thesis
    proof (cases "mentioned_entry (present_of l c) r")
      case None
      with that st show ?thesis by (simp add: expected_def live_def s)
    next
      case (Some e)
      with that(2) st have "evidence_changed (wt_resolution r) (Some (ee_result_digest e))"
        by (simp add: expected_def reconciled_def reconcile_present_state s snapshot_of_def split: if_splits)
      with Some show ?thesis by (auto simp: evidence_changed_def split: option.splits)
    qed
  qed
  show ?thesis
  proof (rule bexI [OF _ r'(1)], intro conjI impI)
    show "wt_id r' = wt_id r" "wt_snoozed_until r' = wt_snoozed_until r" using r' by simp_all
    show "wt_pinned r' = wt_pinned r" using f(2) pin by simp
    assume "task_state_parse (wt_state r) = Dismissed"
    from dis [OF this] this f s show "task_state_parse (wt_state r') = Dismissed"
      "wt_resolved_at r' = wt_resolved_at r" by simp_all
  next
    assume "wt_state r = ''snoozed''"
    then have "task_state_parse (wt_state r') = Snoozed" using sno f(1) by simp
    then show "wt_state r' = ''snoozed''" by simp
  next
    assume "wt_state r = ''done'' \<and> wt_state r' \<noteq> ''done''"
    then have "wt_state r = ''done''" "task_state_parse (wt_state r') \<noteq> Done" by simp_all
    with don f(1) show "\<exists>e seen. mentioned_entry (present_of l c) r = Some e \<and> wt_resolution r = Some seen
        \<and> ee_result_digest e \<noteq> seen" by simp
  qed
qed

section \<open>A concrete board\<close>

definition plain_lib :: lib where
  "plain_lib = \<lparr>lib_parse_json = (\<lambda>s. None), lib_render_json = (\<lambda>v. []), lib_sha = (\<lambda>s. s),
     lib_from_timestamp = (\<lambda>s n. None), lib_from_timestamp_millis = (\<lambda>n. None),
     lib_parse_rfc3339 = (\<lambda>s. None), lib_to_rfc3339 = (\<lambda>t. dec_int t), lib_entries = (\<lambda>s. None),
     lib_julianday = (\<lambda>s. None)\<rparr>"

definition sample_task :: task_row where
  "sample_task =
     \<lparr>wt_id = ''task-v1:a'', wt_fingerprint = Some ''v1:a'', wt_connector_instance_id = ''slack-1'',
      wt_canonical_resource_id = None, wt_source_kind = ''slack.message'', wt_title = ''Reply'',
      wt_why = '''', wt_rank = 1, wt_confidence_bps = 0, wt_state = ''dismissed'', wt_pinned = True,
      wt_snoozed_until = None, wt_evidence_digest = None, wt_evidence_target = None,
      wt_evidence_observed_at = None, wt_miss_count = 1, wt_ephemeral = False, wt_workspace_id = None,
      wt_first_run_id = None, wt_last_run_id = None, wt_resolution = None, wt_resolved_at = Some ''t'',
      wt_created_at = '''', wt_updated_at = '''', wt_source_activity_at = None\<rparr>"

definition sample_run :: run_row where
  "sample_run =
     \<lparr>rr_id = ''run-1'', rr_trigger_kind = ''manual'', rr_status = ''running'', rr_profile_reference = None,
      rr_session_id = None,
      rr_limits = \<lparr>bl_max_wall_seconds = 60, bl_max_turns = 1, bl_max_tool_calls = 1,
        bl_max_output_tokens = None, bl_cost_ceiling_microusd = None\<rparr>,
      rr_output_digest = None, rr_failure_code = None, rr_failure_detail = None, rr_input_tokens = 0,
      rr_output_tokens = 0, rr_cached_input_tokens = 0, rr_cost_microusd = None, rr_tool_calls = 0,
      rr_turns = 0, rr_idempotency_key = None, rr_started_at = '''', rr_completed_at = None,
      rr_lease_owner = None, rr_lease_expires_at = None, rr_cancellation_requested = False\<rparr>"

definition sample_db :: work_db where
  "sample_db = \<lparr>db_runs = [sample_run], db_sources = [], db_evidence = [], db_tasks = [sample_task]\<rparr>"

definition sample_commit :: commit_request where
  "sample_commit =
     \<lparr>cm_run_id = ''run-1'', cm_brief = \<lparr>wb_version = 1, wb_tasks = []\<rparr>, cm_ledger = ledger_new ''run-1'',
      cm_outcome = \<lparr>ro_status = RunSucceeded, ro_output_digest = None, ro_failure_code = None,
        ro_failure_detail = None, ro_usage = None, ro_tool_calls = 0, ro_turns = 1, ro_completed_at = ''t''\<rparr>,
      cm_now = ''t''\<rparr>"

lemma sample_ok:
  "run_exists sample_db (cm_run_id sample_commit)"
  "rl_run_id (cm_ledger sample_commit) = cm_run_id sample_commit"
  "tasks_ok (db_tasks sample_db)"
  "sample_task \<in> set (db_tasks sample_db)" "\<not> wt_ephemeral sample_task"
  by (simp_all add: run_exists_def sample_db_def sample_run_def sample_commit_def ledger_new_def
      tasks_ok_def row_ok_def sample_task_def snapshot_ok_def snapshot_of_def misses_before_stale_def
      task_state_parse_def)

theorem commit_succeeds_on_a_sound_board_witness:
  "tasks_ok (db_tasks (snd (commit_brief plain_lib sample_commit sample_db)))"
  using commit_succeeds_on_a_sound_board [OF sample_ok(1-3), of plain_lib] by simp

theorem commit_reconciles_every_task_witness:
  "\<exists>r' \<in> set (db_tasks (snd (commit_brief plain_lib sample_commit sample_db))). wt_id r' = ''task-v1:a''"
  using commit_reconciles_every_task [OF sample_ok, of plain_lib] by (auto simp: sample_task_def)

theorem commit_respects_the_user_witness:
  "\<exists>r' \<in> set (db_tasks (snd (commit_brief plain_lib sample_commit sample_db))).
     wt_pinned r' \<and> task_state_parse (wt_state r') = Dismissed"
proof -
  have "task_state_parse (wt_state sample_task) = Dismissed" "wt_pinned sample_task"
    by (simp_all add: sample_task_def task_state_parse_def)
  with commit_respects_the_user [OF sample_ok, of plain_lib] show ?thesis by blast
qed

section \<open>The board a reader sees\<close>

lemma read_target_value: "read_target (target_value t) = Some t"
  by (cases t) (simp_all add: target_value_def read_target_def once_def read_target_variant_def
      struct_fields_def get_str_def obj_get_def)

lemma open_target_external:
  "open_target l stored family = Inr (OpenExternal url host) \<Longrightarrow>
     safe_external_link family url = Some (ExternalLink url host)"
  by (auto simp: open_target_def safe_external_link_Some split: option.splits if_splits evidence_target.splits)

lemma wake_id [simp]: "wt_id (wake_snoozed l now r) = wt_id r"
  by (simp add: wake_snoozed_def split: prod.split option.split)

lemma row_ok_wake: "row_ok r \<Longrightarrow> row_ok (wake_snoozed l now r)"
  by (cases "wt_fingerprint r")
     (auto simp: row_ok_def wake_snoozed_def snapshot_ok_def snapshot_of_def misses_before_stale_def
        task_state_parse_def split: prod.split option.split)

text \<open>
  The board shows at most a hundred tasks, newest activity first, and only active ones whose
  source moved within the last day; the link beside one was checked again when it was read, against
  the hosts of the task's own family.
\<close>
theorem board_shows_recent_active_tasks:
  "let (shown, d') = suggested_tasks l now d in
     length shown \<le> 100
     \<and> list_all (\<lambda>(r, t). r \<in> set (db_tasks d') \<and> wt_state r = ''active'' \<and> recent l now r
          \<and> (case t of
               Some (OpenExternal url host) \<Rightarrow>
                 Option.bind (family_of_source (wt_source_kind r)) (\<lambda>f. safe_external_link f url)
                   = Some (ExternalLink url host)
             | _ \<Rightarrow> True)) shown
     \<and> sorted (map (\<lambda>(r, t). - activity_day l r) shown)"
proof -
  define d' where "d' = d\<lparr>db_tasks := map (wake_snoozed l now) (db_tasks d)\<rparr>"
  define rows where "rows = take 100 (sort_key (\<lambda>r. (- activity_day l r, wt_id r))
    (filter (on_board l now) (db_tasks d')))"
  define keep where "keep = filter (\<lambda>r. let st = task_state_parse (wt_state r) in
                      visible st (wt_pinned r) \<or> st = Snoozed \<or> st = Dismissed) rows"
  define view where "view = (\<lambda>r :: task_row. (r, checked_evidence_target l (wt_evidence_target r) (wt_source_kind r)))"
  have st: "suggested_tasks l now d = (map view keep, d')"
    by (simp add: suggested_tasks_def d'_def rows_def keep_def view_def Let_def)
  have "length rows \<le> 100" by (simp add: rows_def)
  then have len: "length (map view keep) \<le> 100"
    using length_filter_le [of _ rows] by (simp add: keep_def) (meson le_trans length_filter_le)
  have mem: "r \<in> set (db_tasks d') \<and> on_board l now r" if "r \<in> set keep" for r
    using that by (auto simp: keep_def rows_def dest: in_set_takeD)
  have target: "Option.bind (family_of_source k) (\<lambda>f. safe_external_link f url) = Some (ExternalLink url host)"
    if "checked_evidence_target l s k = Some (OpenExternal url host)" for s k url host
  proof -
    from that obtain f where f: "family_of_source k = Some f"
      and "ok (open_target l s f) = Some (OpenExternal url host)"
      by (auto simp: checked_evidence_target_def bind_eq_Some_conv)
    then have "open_target l s f = Inr (OpenExternal url host)"
      by (cases "open_target l s f") simp_all
    from open_target_external [OF this] f show ?thesis by simp
  qed
  have so: "sorted (map (\<lambda>r. - activity_day l r) keep)"
  proof -
    have "sorted (map (\<lambda>r. (- activity_day l r, wt_id r)) rows)"
      by (simp add: rows_def take_map [symmetric] sorted_wrt_take)
    then have "sorted_wrt (\<lambda>a b. - activity_day l a \<le> - activity_day l b) rows"
      unfolding sorted_map by (rule sorted_wrt_mono_rel [rotated]) (auto simp: less_eq_prod_def)
    then have "sorted_wrt (\<lambda>a b. - activity_day l a \<le> - activity_day l b) keep"
      unfolding keep_def by (rule sorted_wrt_filter)
    then show ?thesis by (simp add: sorted_map)
  qed
  show ?thesis
    unfolding st Let_def prod.case
  proof (intro conjI)
    show "length (map view keep) \<le> 100" by (rule len)
    show "sorted (map (\<lambda>(r, t). - activity_day l r) (map view keep))"
      using so by (simp add: view_def o_def)
    show "list_all (\<lambda>(r, t). r \<in> set (db_tasks d') \<and> wt_state r = ''active'' \<and> recent l now r
          \<and> (case t of
               Some (OpenExternal url host) \<Rightarrow>
                 Option.bind (family_of_source (wt_source_kind r)) (\<lambda>f. safe_external_link f url)
                   = Some (ExternalLink url host)
             | _ \<Rightarrow> True)) (map view keep)"
      using mem target
      by (auto simp: list_all_iff view_def on_board_def split: option.split open_target.split)
  qed
qed

text \<open>
  A pinned stale task is visible by the rule of the task states but never on the board: the
  board's query asks for active rows only.
\<close>
theorem pinned_stale_task_is_off_the_board:
  "visible Stale True
   \<and> r\<lparr>wt_state := ''stale'', wt_pinned := True\<rparr> \<notin> fst ` set (fst (suggested_tasks l now d))"
proof -
  have "wt_state x = ''active''" if "x \<in> fst ` set (fst (suggested_tasks l now d))" for x
    using that by (auto simp: suggested_tasks_def Let_def on_board_def dest: in_set_takeD)
  then show ?thesis by fastforce
qed

text \<open>
  A stale task that is dismissed, mentioned by a brief and restored comes back stale: a mention
  does not clear the count of a dismissed task, so the restored task is hidden although its source
  has just named it.
\<close>
theorem restored_task_stays_hidden:
  "let t = t0\<lparr>ts_state := Stale, ts_miss_count := misses_before_stale, ts_pinned := False\<rparr> in
     (case apply_action t Dismiss w of
        Inl _ \<Rightarrow> False
      | Inr t1 \<Rightarrow>
          (case apply_action (reconcile_present t1 d) Restore w' of
             Inl _ \<Rightarrow> False
           | Inr t2 \<Rightarrow> ts_state t2 = Stale \<and> \<not> visible (ts_state t2) (ts_pinned t2)))"
  by (simp add: Let_def)

end
