(* ===== verification/Work_Settings.thy ===== *)
theory Work_Settings
  imports Work_Board
begin

text \<open>
  The configuration of briefings: the settings of \<open>work.rs\<close> with their bounds, their stored
  JSON and their only writer, and \<open>work_briefing_config.rs\<close>, which turns them into something
  that can run. The stored row of \<open>configuration_entries\<close> is its payload or nothing.
\<close>

section \<open>Settings\<close>

record briefing_profile =
  bpf_harness :: string
  bpf_model :: string
  bpf_effort :: "effort option"

record work_settings =
  ws_briefing :: "briefing_profile option"
  ws_enabled_instances :: "string list"
  ws_refresh_on_focus :: bool
  ws_refresh_interval_minutes :: "int option"
  ws_cooldown_minutes :: int
  ws_limits :: brief_limits

record settings_snapshot =
  ss_configured :: bool
  ss_settings :: work_settings

definition default_max_wall_seconds :: int where "default_max_wall_seconds = 600"
definition default_max_turns :: int where "default_max_turns = 12"
definition default_max_tool_calls :: int where "default_max_tool_calls = 24"
definition default_cooldown_minutes :: int where "default_cooldown_minutes = 15"
definition min_refresh_interval :: int where "min_refresh_interval = 15"
definition max_refresh_interval :: int where "max_refresh_interval = 1440"
definition max_cooldown_minutes :: int where "max_cooldown_minutes = 1440"
definition min_wall_seconds :: int where "min_wall_seconds = 60"
definition max_wall_seconds :: int where "max_wall_seconds = 3600"
definition max_turns_ceiling :: int where "max_turns_ceiling = 64"
definition max_tool_calls_ceiling :: int where "max_tool_calls_ceiling = 256"

lemmas settings_bounds =
  default_max_wall_seconds_def default_max_turns_def default_max_tool_calls_def
  default_cooldown_minutes_def min_refresh_interval_def max_refresh_interval_def
  max_cooldown_minutes_def min_wall_seconds_def max_wall_seconds_def max_turns_ceiling_def
  max_tool_calls_ceiling_def

definition default_settings :: work_settings where
  "default_settings =
     \<lparr>ws_briefing = None, ws_enabled_instances = [], ws_refresh_on_focus = False,
      ws_refresh_interval_minutes = None, ws_cooldown_minutes = default_cooldown_minutes,
      ws_limits = \<lparr>bl_max_wall_seconds = default_max_wall_seconds, bl_max_turns = default_max_turns,
        bl_max_tool_calls = default_max_tool_calls, bl_max_output_tokens = None,
        bl_cost_ceiling_microusd = None\<rparr>\<rparr>"

section \<open>The stored form\<close>

definition write_limits :: "brief_limits \<Rightarrow> json" where
  "write_limits b =
     JObj [(''maxWallSeconds'', json_int (bl_max_wall_seconds b)),
           (''maxTurns'', json_int (bl_max_turns b)),
           (''maxToolCalls'', json_int (bl_max_tool_calls b)),
           (''maxOutputTokens'', json_opt json_int (bl_max_output_tokens b)),
           (''costCeilingMicrousd'', json_opt json_int (bl_cost_ceiling_microusd b))]"

definition write_profile :: "briefing_profile \<Rightarrow> json" where
  "write_profile b =
     JObj [(''harness'', JStr (bpf_harness b)), (''model'', JStr (bpf_model b)),
           (''effort'', json_opt (JStr \<circ> effort_as_str) (bpf_effort b))]"

definition write_settings_json :: "work_settings \<Rightarrow> json" where
  "write_settings_json w =
     JObj [(''briefing'', json_opt write_profile (ws_briefing w)),
           (''enabledConnectorInstances'', JArr (map JStr (ws_enabled_instances w))),
           (''refreshOnFocus'', JBool (ws_refresh_on_focus w)),
           (''refreshIntervalMinutes'', json_opt json_int (ws_refresh_interval_minutes w)),
           (''cooldownMinutes'', json_int (ws_cooldown_minutes w)),
           (''limits'', write_limits (ws_limits w))]"

definition read_limits :: "json \<Rightarrow> brief_limits option" where
  "read_limits v = do {
     ob \<leftarrow> strict_fields [''maxWallSeconds'', ''maxTurns'', ''maxToolCalls'', ''maxOutputTokens'',
       ''costCeilingMicrousd''] v;
     wall \<leftarrow> read_i64 ob ''maxWallSeconds'';
     turns \<leftarrow> read_i64 ob ''maxTurns'';
     calls \<leftarrow> read_i64 ob ''maxToolCalls'';
     tokens \<leftarrow> read_option as_i64 ob ''maxOutputTokens'';
     cost \<leftarrow> read_option as_i64 ob ''costCeilingMicrousd'';
     Some \<lparr>bl_max_wall_seconds = wall, bl_max_turns = turns, bl_max_tool_calls = calls,
       bl_max_output_tokens = tokens, bl_cost_ceiling_microusd = cost\<rparr> }"

definition read_harness_id :: "json \<Rightarrow> string option" where
  "read_harness_id v = as_str v \<bind> (\<lambda>s. ok (harness_id_parse s))"

definition read_profile :: "json \<Rightarrow> briefing_profile option" where
  "read_profile v = do {
     ob \<leftarrow> strict_fields [''harness'', ''model'', ''effort''] v;
     harness \<leftarrow> obj_get ob ''harness'' \<bind> read_harness_id;
     model \<leftarrow> get_str ob ''model'';
     eff \<leftarrow> read_option (read_variant effort_as_str [Low, Medium, High, Xhigh]) ob ''effort'';
     Some \<lparr>bpf_harness = harness, bpf_model = model, bpf_effort = eff\<rparr> }"

definition read_settings_json :: "json \<Rightarrow> work_settings option" where
  "read_settings_json v = do {
     ob \<leftarrow> strict_fields [''briefing'', ''enabledConnectorInstances'', ''refreshOnFocus'',
       ''refreshIntervalMinutes'', ''cooldownMinutes'', ''limits''] v;
     briefing \<leftarrow> read_option read_profile ob ''briefing'';
     instances \<leftarrow> read_strings ob ''enabledConnectorInstances'';
     focus \<leftarrow> obj_get ob ''refreshOnFocus'' \<bind> as_bool;
     interval \<leftarrow> read_option as_i64 ob ''refreshIntervalMinutes'';
     cooldown \<leftarrow> read_i64 ob ''cooldownMinutes'';
     limits \<leftarrow> obj_get ob ''limits'' \<bind> read_limits;
     Some \<lparr>ws_briefing = briefing, ws_enabled_instances = instances, ws_refresh_on_focus = focus,
       ws_refresh_interval_minutes = interval, ws_cooldown_minutes = cooldown, ws_limits = limits\<rparr> }"

text \<open>The text of \<open>serde_json\<close>'s error is a parameter.\<close>

definition stored_settings ::
    "lib \<Rightarrow> (string \<Rightarrow> string) \<Rightarrow> string option \<Rightarrow> (db_error, work_settings option) result" where
  "stored_settings l serde_error payload =
     (case payload of
        None \<Rightarrow> Ok None
      | Some p \<Rightarrow>
          (case lib_entries l p \<bind> read_settings_json of
             Some w \<Rightarrow> Ok (Some w)
           | None \<Rightarrow> Err (InvalidRequest (''stored Work settings are invalid: '' @ serde_error p))))"

definition read_settings ::
    "lib \<Rightarrow> (string \<Rightarrow> string) \<Rightarrow> string option \<Rightarrow> (db_error, settings_snapshot) result" where
  "read_settings l serde_error payload =
     (case stored_settings l serde_error payload of
        Inl e \<Rightarrow> Err e
      | Inr None \<Rightarrow> Ok \<lparr>ss_configured = False, ss_settings = default_settings\<rparr>
      | Inr (Some w) \<Rightarrow> Ok \<lparr>ss_configured = True, ss_settings = w\<rparr>)"

section \<open>What may be written\<close>

definition validate_settings_keeping ::
    "work_settings \<Rightarrow> briefing_profile option \<Rightarrow> (string, unit) result" where
  "validate_settings_keeping w stored_briefing =
     (let limits = ws_limits w in
      if \<not> (0 \<le> ws_cooldown_minutes w \<and> ws_cooldown_minutes w \<le> max_cooldown_minutes)
      then Err (''cooldownMinutes must be between 0 and '' @ dec_int max_cooldown_minutes)
      else if (case ws_refresh_interval_minutes w of
                 None \<Rightarrow> False
               | Some i \<Rightarrow> \<not> (min_refresh_interval \<le> i \<and> i \<le> max_refresh_interval))
      then Err (''refreshIntervalMinutes must be between '' @ dec_int min_refresh_interval
                @ '' and '' @ dec_int max_refresh_interval)
      else if \<not> (min_wall_seconds \<le> bl_max_wall_seconds limits
                 \<and> bl_max_wall_seconds limits \<le> max_wall_seconds)
      then Err (''maxWallSeconds must be between '' @ dec_int min_wall_seconds
                @ '' and '' @ dec_int max_wall_seconds)
      else if \<not> (1 \<le> bl_max_turns limits \<and> bl_max_turns limits \<le> max_turns_ceiling)
      then Err (''maxTurns must be between 1 and '' @ dec_int max_turns_ceiling)
      else if \<not> (1 \<le> bl_max_tool_calls limits \<and> bl_max_tool_calls limits \<le> max_tool_calls_ceiling)
      then Err (''maxToolCalls must be between 1 and '' @ dec_int max_tool_calls_ceiling)
      else if (case bl_max_output_tokens limits of None \<Rightarrow> False | Some v \<Rightarrow> v \<le> 0)
      then Err ''maxOutputTokens must be positive when set''
      else if (case bl_cost_ceiling_microusd limits of None \<Rightarrow> False | Some v \<Rightarrow> v \<le> 0)
      then Err ''costCeilingMicrousd must be positive when set''
      else if list_ex (\<lambda>i. trim i = []) (ws_enabled_instances w)
      then Err ''a connector instance id cannot be blank''
      else (case ws_briefing w of
              None \<Rightarrow> Ok ()
            | Some b \<Rightarrow>
                if trim (bpf_model b) = [] then Err ''the briefing model cannot be blank''
                else if stored_briefing = Some b then Ok ()
                else (case adapter_may_brief (bpf_harness b) of
                        Inl u \<Rightarrow> Err (unsupported_reason u)
                      | Inr _ \<Rightarrow> Ok ())))"

definition write_settings ::
    "lib \<Rightarrow> (string \<Rightarrow> string) \<Rightarrow> work_settings \<Rightarrow> string option
     \<Rightarrow> (db_error, settings_snapshot) result \<times> string option" where
  "write_settings l serde_error w payload =
     (case read_settings l serde_error payload of
        Inl e \<Rightarrow> (Err e, payload)
      | Inr stored \<Rightarrow>
          (case validate_settings_keeping w
                  (if ss_configured stored then ws_briefing (ss_settings stored) else None) of
             Inl e \<Rightarrow> (Err (InvalidRequest e), payload)
           | Inr _ \<Rightarrow>
               (Ok \<lparr>ss_configured = True, ss_settings = w\<rparr>,
                Some (lib_render_json l (write_settings_json w)))))"

text \<open>
  The handler of a client's request; \<open>descriptors\<close> gives the label and the model ids of a registered
  harness.
\<close>

definition write_work_settings ::
    "lib \<Rightarrow> (string \<Rightarrow> string) \<Rightarrow> (string \<Rightarrow> (string \<times> string list) option) \<Rightarrow> work_settings \<Rightarrow> string option
     \<Rightarrow> (db_error, settings_snapshot) result \<times> string option" where
  "write_work_settings l serde_error descriptors w payload =
     (case ws_briefing w of
        None \<Rightarrow> write_settings l serde_error w payload
      | Some b \<Rightarrow>
          (case descriptors (bpf_harness b) of
             None \<Rightarrow> write_settings l serde_error w payload
           | Some (label, ms) \<Rightarrow>
               if ms \<noteq> [] \<and> bpf_model b \<notin> set ms
               then (Err (InvalidRequest (bpf_model b @ '' is not a model '' @ label @ '' offers'')), payload)
               else write_settings l serde_error w payload))"

section \<open>What can be run\<close>

datatype briefing_unavailable =
    NotConfigured
  | UnknownHarness string
  | ProviderUnsupported string string
  | MalformedProfile string

fun unavailable_code :: "briefing_unavailable \<Rightarrow> string" where
  "unavailable_code NotConfigured = ''not_configured''"
| "unavailable_code (UnknownHarness _) = ''provider_unknown''"
| "unavailable_code (ProviderUnsupported _ _) = ''provider_unsupported''"
| "unavailable_code (MalformedProfile _) = ''configuration_invalid''"

fun unavailable_reason :: "briefing_unavailable \<Rightarrow> string" where
  "unavailable_reason NotConfigured = ''no briefing model is configured, so Work is facts-only''"
| "unavailable_reason (UnknownHarness h) = quoted h @ '' is not a harness Bridge knows about''"
| "unavailable_reason (ProviderUnsupported h r) = quoted h @ '' cannot run a briefing: '' @ r"
| "unavailable_reason (MalformedProfile d) = ''the briefing configuration is not usable: '' @ d"

datatype suggestions_state =
  SuggestNotConfigured | SuggestUnsupported | SuggestRunning | SuggestDegraded | SuggestReady

fun suggestions_of :: "briefing_unavailable \<Rightarrow> suggestions_state" where
  "suggestions_of NotConfigured = SuggestNotConfigured"
| "suggestions_of _ = SuggestUnsupported"

record briefing_selection =
  bs_harness :: string
  bs_model :: string
  bs_effort :: "string option"
  bs_certified_version :: string

definition selection_reference :: "briefing_selection \<Rightarrow> string" where
  "selection_reference s =
     (case bs_effort s of
        Some e \<Rightarrow> bs_harness s @ ''/'' @ bs_model s @ ''/'' @ e
      | None \<Rightarrow> bs_harness s @ ''/'' @ bs_model s)"

fun unsupported_to_unavailable :: "string \<Rightarrow> briefing_unsupported \<Rightarrow> briefing_unavailable" where
  "unsupported_to_unavailable h (UnknownAdapter a) = UnknownHarness a"
| "unsupported_to_unavailable h u = ProviderUnsupported h (unsupported_reason u)"

text \<open>\<open>None\<close> is the panic of \<open>certify_briefing\<close>'s unreachable branch.\<close>

definition resolve_briefing ::
    "work_settings \<Rightarrow> (string \<Rightarrow> string option)
     \<Rightarrow> (briefing_unavailable, briefing_selection) result option" where
  "resolve_briefing w reported_versions =
     (case ws_briefing w of
        None \<Rightarrow> Some (Err NotConfigured)
      | Some p \<Rightarrow>
          let harness = bpf_harness p; model = trim (bpf_model p) in
          if model = [] then Some (Err (MalformedProfile ''the briefing model is empty''))
          else (case reported_versions harness of
                  None \<Rightarrow> Some (Err (UnknownHarness harness))
                | Some version \<Rightarrow>
                    (case certify_briefing harness (Some version) of
                       None \<Rightarrow> None
                     | Some (Inl u) \<Rightarrow> Some (Err (unsupported_to_unavailable harness u))
                     | Some (Inr c) \<Rightarrow>
                         (case bc_support c of
                            Unsupported r \<Rightarrow> Some (Err (ProviderUnsupported harness r))
                          | Supported certified \<Rightarrow>
                              Some (Ok \<lparr>bs_harness = harness, bs_model = model,
                                bs_effort = map_option effort_as_str (bpf_effort p),
                                bs_certified_version = certified\<rparr>)))))"

text \<open>Session kinds no list shows.\<close>

definition briefing_session_kind :: string where "briefing_session_kind = ''briefing''"

definition hidden_session_kinds :: "string list" where
  "hidden_session_kinds =
     [briefing_session_kind, ''suggestion'', ''extraction'', ''outcome_evaluation'', ''consolidation'',
      ''chat_search'', ''connector'']"

definition is_hidden_session_kind :: "string option \<Rightarrow> bool" where
  "is_hidden_session_kind kind \<longleftrightarrow> (case kind of None \<Rightarrow> False | Some k \<Rightarrow> k \<in> set hidden_session_kinds)"

section \<open>Properties\<close>

text \<open>The Rust types of a settings value: an id that parses and numbers of 64 bits.\<close>

definition settings_typed :: "work_settings \<Rightarrow> bool" where
  "settings_typed w \<longleftrightarrow>
     (case ws_briefing w of None \<Rightarrow> True | Some b \<Rightarrow> is_ok (harness_id_parse (bpf_harness b)))
     \<and> list_all in_i64 (ws_cooldown_minutes w # bl_max_wall_seconds (ws_limits w)
         # bl_max_turns (ws_limits w) # bl_max_tool_calls (ws_limits w) # [])
     \<and> list_all (\<lambda>v. case v of None \<Rightarrow> True | Some i \<Rightarrow> in_i64 i)
         [ws_refresh_interval_minutes w, bl_max_output_tokens (ws_limits w),
          bl_cost_ceiling_microusd (ws_limits w)]"

lemma as_i64_json_int [simp]: "in_i64 i \<Longrightarrow> as_i64 (json_int i) = Some i"
  by (auto simp: json_int_def in_i64_def)

lemma json_int_not_null [simp]: "json_int i \<noteq> JNull"
  by (simp add: json_int_def)

lemma option_written:
  "(\<And>a. v = Some a \<Longrightarrow> f a \<noteq> JNull \<and> g (f a) = Some a) \<Longrightarrow>
   (if json_opt f v = JNull then Some None else map_option Some (g (json_opt f v))) = Some v"
  by (cases v) (auto simp: json_opt_def)

lemma int_option_written [simp]:
  "(case v of None \<Rightarrow> True | Some i \<Rightarrow> in_i64 i) \<Longrightarrow>
   (if json_opt json_int v = JNull then Some None else map_option Some (as_i64 (json_opt json_int v))) = Some v"
  by (rule option_written) simp

lemma read_all_map [simp]: "(\<And>x. x \<in> set xs \<Longrightarrow> f (g x) = Some x) \<Longrightarrow> read_all f (map g xs) = Some xs"
  by (induction xs) auto

lemma read_effort_written [simp]:
  "read_variant effort_as_str [Low, Medium, High, Xhigh] (JStr (effort_as_str e)) = Some e"
  by (cases e) (simp_all add: read_variant_def variant_name_def)

lemma read_write_limits:
  "list_all in_i64 [bl_max_wall_seconds b, bl_max_turns b, bl_max_tool_calls b] \<Longrightarrow>
   list_all (\<lambda>v. case v of None \<Rightarrow> True | Some i \<Rightarrow> in_i64 i) [bl_max_output_tokens b, bl_cost_ceiling_microusd b] \<Longrightarrow>
   read_limits (write_limits b) = Some b"
  by (simp add: read_limits_def write_limits_def strict_fields_def struct_fields_def
      read_i64_def read_option_def obj_keys_def obj_get_def)

lemma read_write_profile:
  assumes "is_ok (harness_id_parse (bpf_harness b))"
  shows "read_profile (write_profile b) = Some b"
proof -
  from assms obtain i where "harness_id_parse (bpf_harness b) = Inr i"
    by (cases "harness_id_parse (bpf_harness b)") auto
  with harness_id_parse_Ok have "harness_id_parse (bpf_harness b) = Inr (bpf_harness b)" by blast
  then show ?thesis
    by (simp add: read_profile_def write_profile_def strict_fields_def struct_fields_def obj_keys_def
        obj_get_def get_str_def read_harness_id_def read_option_def option_written)
qed

lemma read_write_settings:
  assumes "settings_typed w"
  shows "read_settings_json (write_settings_json w) = Some w"
proof -
  have [simp]: "write_profile b \<noteq> JNull" for b by (simp add: write_profile_def)
  have limits: "read_limits (write_limits (ws_limits w)) = Some (ws_limits w)"
    using assms by (intro read_write_limits) (simp_all add: settings_typed_def)
  have [simp]: "(if json_opt write_profile (ws_briefing w) = JNull then Some None
      else map_option Some (read_profile (json_opt write_profile (ws_briefing w)))) = Some (ws_briefing w)"
    using assms by (intro option_written) (auto simp: settings_typed_def read_write_profile)
  show ?thesis
    using assms limits
    by (simp add: settings_typed_def read_settings_json_def write_settings_json_def strict_fields_def
        struct_fields_def obj_keys_def obj_get_def read_strings_def read_i64_def read_option_def)
qed

lemma stored_written:
  assumes "settings_typed w" "lib_entries l (lib_render_json l (write_settings_json w)) = Some (write_settings_json w)"
  shows "stored_settings l err (Some (lib_render_json l (write_settings_json w))) = Ok (Some w)"
  using assms by (simp add: stored_settings_def read_write_settings)

lemma write_settings_cases:
  obtains e where "write_settings l err w payload = (Err e, payload)"
  | s where "read_settings l err payload = Ok s"
      "validate_settings_keeping w (if ss_configured s then ws_briefing (ss_settings s) else None) = Ok ()"
      "write_settings l err w payload =
         (Ok \<lparr>ss_configured = True, ss_settings = w\<rparr>, Some (lib_render_json l (write_settings_json w)))"
proof (cases "read_settings l err payload")
  case (Inr s)
  then show thesis
    using that
    by (cases "validate_settings_keeping w (if ss_configured s then ws_briefing (ss_settings s) else None)")
       (auto simp: write_settings_def)
qed (use that in \<open>auto simp: write_settings_def\<close>)

text \<open>The bounds every stored value keeps.\<close>

definition settings_in_bounds :: "work_settings \<Rightarrow> bool" where
  "settings_in_bounds w \<longleftrightarrow>
     0 \<le> ws_cooldown_minutes w \<and> ws_cooldown_minutes w \<le> 1440
     \<and> (case ws_refresh_interval_minutes w of None \<Rightarrow> True | Some i \<Rightarrow> 15 \<le> i \<and> i \<le> 1440)
     \<and> 60 \<le> bl_max_wall_seconds (ws_limits w) \<and> bl_max_wall_seconds (ws_limits w) \<le> 3600
     \<and> 1 \<le> bl_max_turns (ws_limits w) \<and> bl_max_turns (ws_limits w) \<le> 64
     \<and> 1 \<le> bl_max_tool_calls (ws_limits w) \<and> bl_max_tool_calls (ws_limits w) \<le> 256
     \<and> (case bl_max_output_tokens (ws_limits w) of None \<Rightarrow> True | Some v \<Rightarrow> 0 < v)
     \<and> (case bl_cost_ceiling_microusd (ws_limits w) of None \<Rightarrow> True | Some v \<Rightarrow> 0 < v)
     \<and> list_all (\<lambda>i. trim i \<noteq> []) (ws_enabled_instances w)
     \<and> (case ws_briefing w of None \<Rightarrow> True | Some b \<Rightarrow> trim (bpf_model b) \<noteq> [])"

lemma list_all_not_ex: "list_all (\<lambda>x. \<not> P x) xs \<longleftrightarrow> \<not> list_ex P xs"
  by (induction xs) auto

lemma validate_settings_Ok:
  "validate_settings_keeping w b = Ok () \<longleftrightarrow>
     settings_in_bounds w
     \<and> (case ws_briefing w of None \<Rightarrow> True
        | Some p \<Rightarrow> b = Some p \<or> is_ok (adapter_may_brief (bpf_harness p)))"
  by (auto simp: validate_settings_keeping_def settings_in_bounds_def Let_def settings_bounds list_all_not_ex
      split: option.splits sum.splits if_splits)

definition renders :: "lib \<Rightarrow> work_settings \<Rightarrow> bool" where
  "renders l w \<longleftrightarrow> settings_typed w
     \<and> lib_entries l (lib_render_json l (write_settings_json w)) = Some (write_settings_json w)"

text \<open>
  Settings that were accepted are read back exactly, whatever was stored before them.
\<close>
theorem written_settings_are_read_back:
  assumes "renders l w" "write_settings l err w payload = (Ok s, payload')"
  shows "ss_settings s = w \<and> read_settings l err payload' = Ok s"
  using assms by (cases rule: write_settings_cases [of l err w payload])
    (auto simp: renders_def read_settings_def stored_written)

fun settings_writes :: "lib \<Rightarrow> (string \<Rightarrow> string) \<Rightarrow> work_settings list \<Rightarrow> string option \<Rightarrow> string option" where
  "settings_writes l err [] payload = payload"
| "settings_writes l err (w # ws) payload = settings_writes l err ws (snd (write_settings l err w payload))"

definition payload_sound :: "lib \<Rightarrow> (string \<Rightarrow> string) \<Rightarrow> string option \<Rightarrow> bool" where
  "payload_sound l err payload \<longleftrightarrow>
     (case stored_settings l err payload of
        Inl _ \<Rightarrow> False
      | Inr None \<Rightarrow> True
      | Inr (Some w) \<Rightarrow>
          settings_in_bounds w
          \<and> (case ws_briefing w of None \<Rightarrow> True | Some b \<Rightarrow> is_ok (adapter_may_brief (bpf_harness b))))"

lemma payload_sound_step:
  assumes "payload_sound l err payload" "renders l w"
  shows "payload_sound l err (snd (write_settings l err w payload))"
proof (cases rule: write_settings_cases [of l err w payload])
  case (2 s)
  then have "settings_in_bounds w" and kept: "case ws_briefing w of None \<Rightarrow> True
      | Some p \<Rightarrow> (if ss_configured s then ws_briefing (ss_settings s) else None) = Some p
          \<or> is_ok (adapter_may_brief (bpf_harness p))"
    by (simp_all add: validate_settings_Ok)
  moreover have "is_ok (adapter_may_brief (bpf_harness p))"
    if "ss_configured s" "ws_briefing (ss_settings s) = Some p" for p
    using assms(1) 2(1) that
    by (auto simp: payload_sound_def read_settings_def split: sum.splits option.splits)
  ultimately show ?thesis
    using 2 assms(2)
    by (auto simp: payload_sound_def renders_def stored_written split: option.splits if_splits)
qed (use assms in simp)

lemma settings_writes_sound:
  "payload_sound l err payload \<Longrightarrow> list_all (renders l) ws \<Longrightarrow> payload_sound l err (settings_writes l err ws payload)"
  by (induction ws arbitrary: payload) (auto simp: payload_sound_step)

text \<open>
  C32. From a fresh install, whatever settings are requested in whatever order, the stored ones can be
  read, are within their bounds, and name no harness without certified briefing support: keeping
  a stored profile never brings in one that was not accepted before.
\<close>
theorem stored_settings_are_sound:
  assumes "list_all (renders l) ws"
  shows "payload_sound l err (settings_writes l err ws None)"
  using assms by (intro settings_writes_sound) (auto simp: payload_sound_def stored_settings_def)

text \<open>
  C40. Settings that this build cannot read are never replaced: every write is refused, with the
  reading error, although the board that meets them says that defaults are in use.
\<close>
theorem unreadable_settings_freeze:
  assumes "lib_entries l p \<bind> read_settings_json = None"
  shows "settings_writes l err ws (Some p) = Some p
    \<and> fst (write_settings l err w (Some p))
        = Err (InvalidRequest (''stored Work settings are invalid: '' @ err p))"
  using assms
  by (induction ws) (auto simp: write_settings_def read_settings_def stored_settings_def)

text \<open>
  A briefing is resolved exactly if a profile with a model is configured for \<open>claude\<close> and the
  version it reports is on the certified line; what runs is the profile's choice, and the branch the
  code marks unreachable is.
\<close>
theorem resolved_briefing_is_certified:
  "(case resolve_briefing w versions of
      None \<Rightarrow> False
    | Some (Inl e) \<Rightarrow> \<not> (\<exists>p v. ws_briefing w = Some p \<and> trim (bpf_model p) \<noteq> [] \<and> bpf_harness p = ''claude''
         \<and> versions ''claude'' = Some v \<and> trim v \<noteq> []
         \<and> prefix [''0'', ''3''] (split_char (CHR ''.'') (trim v)))
    | Some (Inr sel) \<Rightarrow> (\<exists>p v. ws_briefing w = Some p \<and> trim (bpf_model p) \<noteq> [] \<and> bpf_harness p = ''claude''
         \<and> versions ''claude'' = Some v \<and> trim v \<noteq> []
         \<and> prefix [''0'', ''3''] (split_char (CHR ''.'') (trim v))
         \<and> sel = \<lparr>bs_harness = ''claude'', bs_model = trim (bpf_model p),
             bs_effort = map_option effort_as_str (bpf_effort p), bs_certified_version = ''0.3''\<rparr>))"
proof (cases "ws_briefing w")
  case (Some p)
  show ?thesis
  proof (cases "bpf_harness p = ''claude''")
    case True
    with Some show ?thesis
      by (auto simp: resolve_briefing_def certify_briefing_def may_brief_claude claude_support certified_line
          Let_def split: option.splits sum.splits)
  next
    case False
    then obtain e where "adapter_may_brief (bpf_harness p) = Inl e"
      using may_brief_only_claude by blast
    with Some False show ?thesis
      by (auto simp: resolve_briefing_def certify_briefing_def Let_def split: option.splits)
  qed
qed (simp add: resolve_briefing_def)

section \<open>Witnesses\<close>

definition sample_settings :: work_settings where
  "sample_settings = default_settings
     \<lparr>ws_briefing := Some \<lparr>bpf_harness = ''claude'', bpf_model = ''haiku'', bpf_effort = Some Low\<rparr>,
      ws_refresh_interval_minutes := Some 30\<rparr>"

definition settings_lib :: lib where
  "settings_lib = plain_lib
     \<lparr>lib_entries := (\<lambda>p. if p = ''saved'' then Some (write_settings_json sample_settings)
        else Some (JObj [(''writeConnectorTools'', JBool True)])),
      lib_render_json := (\<lambda>_. ''saved'')\<rparr>"

lemma sample_renders: "renders settings_lib sample_settings"
proof -
  have "harness_id_parse ''claude'' = Inr ''claude''" by code_simp
  then show ?thesis
    by (simp add: renders_def settings_lib_def settings_typed_def sample_settings_def default_settings_def
        settings_bounds in_i64_def i64_min_def i64_max_def)
qed

lemma sample_bounds: "validate_settings_keeping sample_settings None = Ok ()"
proof -
  have "trim ''haiku'' \<noteq> []" by code_simp
  then show ?thesis
    by (simp add: validate_settings_Ok settings_in_bounds_def sample_settings_def default_settings_def
        settings_bounds may_brief_claude)
qed

lemma sample_written:
  "write_settings settings_lib err sample_settings None =
     (Ok \<lparr>ss_configured = True, ss_settings = sample_settings\<rparr>, Some ''saved'')"
  by (simp add: write_settings_def read_settings_def stored_settings_def sample_bounds)
     (simp add: settings_lib_def)

theorem written_settings_are_read_back_witness:
  "read_settings settings_lib (\<lambda>_. []) (Some ''saved'')
     = Ok \<lparr>ss_configured = True, ss_settings = sample_settings\<rparr>"
  using written_settings_are_read_back [OF sample_renders sample_written] by simp

theorem stored_settings_are_sound_witness:
  "payload_sound settings_lib (\<lambda>_. []) (settings_writes settings_lib (\<lambda>_. [])
      [sample_settings, sample_settings] None)"
  by (rule stored_settings_are_sound) (simp add: sample_renders)

theorem unreadable_settings_freeze_witness:
  "settings_writes settings_lib (\<lambda>_. []) [sample_settings] (Some ''newer'') = Some ''newer''"
proof -
  have "lib_entries settings_lib ''newer'' \<bind> read_settings_json = None"
    by (simp add: settings_lib_def read_settings_json_def strict_fields_def struct_fields_def obj_keys_def)
  then show ?thesis by (rule unreadable_settings_freeze [THEN conjunct1])
qed

end
