(* ===== verification/Work_Runs.thy ===== *)
theory Work_Runs
  imports Work_Settings
begin

text \<open>
  One briefing at a time: the run rows of \<open>work_brief_store.rs\<close>, and \<open>work_briefing_trigger.rs\<close>, the
  claim every trigger goes through with its lease, heartbeat, commit gate and cancellation. Each
  operation holds the connection's mutex and is one step; the writes of another connection can
  only come between a claim's read and its compare-and-swap, and are an argument there.
\<close>

section \<open>Run rows\<close>

datatype brief_trigger = TriggerManual | TriggerFocus | TriggerSchedule

fun trigger_str :: "brief_trigger \<Rightarrow> string" where
  "trigger_str TriggerManual = ''manual''"
| "trigger_str TriggerFocus = ''focus''"
| "trigger_str TriggerSchedule = ''schedule''"

definition parse_trigger :: "string \<Rightarrow> brief_trigger" where
  "parse_trigger s =
     (if s = ''focus'' then TriggerFocus else if s = ''schedule'' then TriggerSchedule else TriggerManual)"

definition parse_run_status :: "string \<Rightarrow> run_status" where
  "parse_run_status s =
     (if s = ''succeeded'' then RunSucceeded
      else if s = ''failed'' then RunFailed
      else if s = ''cancelled'' then RunCancelled
      else if s = ''skipped'' then RunSkipped
      else RunRunning)"

definition max_safe_integer :: nat where "max_safe_integer = 2 ^ 53 - 1"

definition js_safe :: "int \<Rightarrow> nat" where
  "js_safe v = (let n = nat (max v 0) in if n \<le> max_safe_integer then n else 0)"

record run_start =
  rs_run_id :: string
  rs_trigger :: brief_trigger
  rs_profile_reference :: "string option"
  rs_session_id :: "string option"
  rs_limits :: brief_limits
  rs_idempotency_key :: "string option"
  rs_started_at :: string
  rs_lease_owner :: "string option"
  rs_lease_expires_at :: "string option"

definition started_row :: "run_start \<Rightarrow> run_row" where
  "started_row s =
     \<lparr>rr_id = rs_run_id s, rr_trigger_kind = trigger_str (rs_trigger s), rr_status = ''running'',
      rr_profile_reference = rs_profile_reference s, rr_session_id = rs_session_id s,
      rr_limits = rs_limits s, rr_output_digest = None, rr_failure_code = None,
      rr_failure_detail = None, rr_input_tokens = 0, rr_output_tokens = 0, rr_cached_input_tokens = 0,
      rr_cost_microusd = None, rr_tool_calls = 0, rr_turns = 0,
      rr_idempotency_key = rs_idempotency_key s, rr_started_at = rs_started_at s,
      rr_completed_at = None, rr_lease_owner = rs_lease_owner s,
      rr_lease_expires_at = rs_lease_expires_at s, rr_cancellation_requested = False\<rparr>"

text \<open>
  The primary key, the partial unique index on the idempotency key and the reference to a session
  refuse an insert; \<open>sessions\<close> lists the sessions that exist.
\<close>

definition key_taken :: "run_row list \<Rightarrow> string option \<Rightarrow> bool" where
  "key_taken rs k \<longleftrightarrow> k \<noteq> None \<and> list_ex (\<lambda>r. rr_idempotency_key r = k) rs"

definition begin_run :: "string list \<Rightarrow> run_start \<Rightarrow> work_db \<Rightarrow> (db_error, work_db) result" where
  "begin_run sessions s d =
     (if run_exists d (rs_run_id s) \<or> key_taken (db_runs d) (rs_idempotency_key s) then Err UniqueKey
      else if (case rs_session_id s of None \<Rightarrow> False | Some i \<Rightarrow> i \<notin> set sessions) then Err ForeignKey
      else Ok (d\<lparr>db_runs := db_runs d @ [started_row s]\<rparr>))"

definition record_ledger :: "lib \<Rightarrow> run_ledger \<Rightarrow> work_db \<Rightarrow> (db_error, unit) result \<times> work_db" where
  "record_ledger l g d =
     (case record_ledger_in l g d of Inl e \<Rightarrow> (Err e, d) | Inr d' \<Rightarrow> (Ok (), d'))"

text \<open>\<open>ORDER BY started_at DESC, rowid DESC LIMIT 1\<close>; rows are kept in the order of their rowid.\<close>

fun newest :: "run_row list \<Rightarrow> run_row option" where
  "newest [] = None"
| "newest (r # rs) =
     (case newest rs of
        None \<Rightarrow> Some r
      | Some s \<Rightarrow> if rr_started_at r \<le> rr_started_at s then Some s else Some r)"

definition is_running :: "run_row \<Rightarrow> bool" where "is_running r \<longleftrightarrow> rr_status r = ''running''"

definition active_run :: "work_db \<Rightarrow> run_row option" where
  "active_run d = newest (filter is_running (db_runs d))"

record brief_run =
  br_id :: string
  br_trigger :: brief_trigger
  br_status :: run_status
  br_profile_reference :: "string option"
  br_session_id :: "string option"
  br_output_digest :: "string option"
  br_failure_code :: "string option"
  br_failure_detail :: "string option"
  br_usage :: run_usage
  br_tool_calls :: int
  br_turns :: int
  br_started_at :: string
  br_completed_at :: "string option"

definition read_run :: "work_db \<Rightarrow> string \<Rightarrow> brief_run option" where
  "read_run d run_id =
     map_option (\<lambda>r.
       \<lparr>br_id = rr_id r, br_trigger = parse_trigger (rr_trigger_kind r),
        br_status = parse_run_status (rr_status r), br_profile_reference = rr_profile_reference r,
        br_session_id = rr_session_id r, br_output_digest = rr_output_digest r,
        br_failure_code = rr_failure_code r, br_failure_detail = rr_failure_detail r,
        br_usage = \<lparr>ru_input_tokens = js_safe (rr_input_tokens r),
          ru_output_tokens = js_safe (rr_output_tokens r),
          ru_cached_input_tokens = js_safe (rr_cached_input_tokens r),
          ru_cost_microusd = rr_cost_microusd r\<rparr>,
        br_tool_calls = rr_tool_calls r, br_turns = rr_turns r, br_started_at = rr_started_at r,
        br_completed_at = rr_completed_at r\<rparr>)
       (find (\<lambda>r. rr_id r = run_id) (db_runs d))"

definition latest_run :: "work_db \<Rightarrow> brief_run option" where
  "latest_run d = (case newest (db_runs d) of None \<Rightarrow> None | Some r \<Rightarrow> read_run d (rr_id r))"

definition read_coverage :: "work_db \<Rightarrow> string \<Rightarrow> source_coverage list" where
  "read_coverage d run_id =
     map (\<lambda>r. \<lparr>sc_connector_instance_id = sr_connector_instance_id r,
                sc_connector_family = sr_connector_family r,
                sc_status = parse_source_status (sr_status r), sc_detail = sr_detail r,
                sc_observed_at = sr_observed_at r\<rparr>)
       (sort_key sr_connector_instance_id (filter (\<lambda>r. sr_run_id r = run_id) (db_sources d)))"

definition read_evidence :: "lib \<Rightarrow> work_db \<Rightarrow> string \<Rightarrow> evidence_entry list" where
  "read_evidence l d run_id =
     map (\<lambda>r. (er_entry r)\<lparr>ee_account_identity := None,
          ee_target := (case er_target r of
             None \<Rightarrow> NoTarget
           | Some t \<Rightarrow> (case lib_entries l t \<bind> read_target of None \<Rightarrow> NoTarget | Some v \<Rightarrow> v))\<rparr>)
       (sort_key (\<lambda>r. ee_evidence_ref (er_entry r)) (filter (\<lambda>r. er_run_id r = run_id) (db_evidence d)))"

section \<open>Claiming a run\<close>

definition minutes :: "int \<Rightarrow> int" where "minutes m = m * 60 * 10 ^ 9"
definition lease_minutes :: int where "lease_minutes = 15"

record claimed_run =
  cr_run_id :: string
  cr_lease_owner :: string
  cr_trigger :: brief_trigger
  cr_selection :: briefing_selection
  cr_settings :: work_settings

datatype claim_outcome =
    Claimed claimed_run
  | Observed string
  | Refused string string

definition expired :: "lib \<Rightarrow> int \<Rightarrow> string option \<Rightarrow> bool" where
  "expired l now lease =
     (case lease \<bind> lib_parse_rfc3339 l of None \<Rightarrow> True | Some expiry \<Rightarrow> expiry \<le> now)"

definition lease_until :: "lib \<Rightarrow> int \<Rightarrow> string" where
  "lease_until l now = lib_to_rfc3339 l (now + minutes lease_minutes)"

text \<open>An update of the rows a condition selects, with the number of rows it changed.\<close>

definition update_runs :: "(run_row \<Rightarrow> bool) \<Rightarrow> (run_row \<Rightarrow> run_row) \<Rightarrow> work_db \<Rightarrow> nat \<times> work_db" where
  "update_runs P f d =
     (length (filter P (db_runs d)), d\<lparr>db_runs := map (\<lambda>r. if P r then f r else r) (db_runs d)\<rparr>)"

definition settled :: "string \<Rightarrow> run_row \<Rightarrow> run_row" where
  "settled now_text r =
     r\<lparr>rr_status := ''failed'', rr_failure_code := Some ''lease_expired'',
       rr_failure_detail := Some ''the lease expired without a completion; a later trigger settled the run'',
       rr_completed_at := Some now_text, rr_lease_owner := None, rr_lease_expires_at := None\<rparr>"

definition settle_expired :: "string \<Rightarrow> string option \<Rightarrow> string \<Rightarrow> work_db \<Rightarrow> nat \<times> work_db" where
  "settle_expired run_id lease now_text =
     update_runs (\<lambda>r. rr_id r = run_id \<and> is_running r \<and> rr_lease_expires_at r = lease) (settled now_text)"

text \<open>Division of \<open>i64\<close> truncates.\<close>

definition trunc_div :: "int \<Rightarrow> int \<Rightarrow> int" where
  "trunc_div a b = (if a < 0 then - ((- a) div b) else a div b)"

text \<open>\<open>timestamp()\<close> is the instant in whole seconds, rounded down.\<close>

definition timestamp :: "int \<Rightarrow> int" where "timestamp now = now div 10 ^ 9"

definition bucket :: "int \<Rightarrow> int \<Rightarrow> string" where
  "bucket now width = dec_int (trunc_div (timestamp now) (max width 1 * 60))"

definition idempotency_key :: "brief_trigger \<Rightarrow> work_settings \<Rightarrow> int \<Rightarrow> (claim_outcome, string option) result" where
  "idempotency_key trig w now =
     (case trig of
        TriggerManual \<Rightarrow> Ok None
      | TriggerFocus \<Rightarrow> Ok (Some (''focus:'' @ bucket now (ws_cooldown_minutes w)))
      | TriggerSchedule \<Rightarrow>
          (case ws_refresh_interval_minutes w of
             None \<Rightarrow> Err (Refused ''cadence_disabled'' ''no refresh interval is configured'')
           | Some interval \<Rightarrow> Ok (Some (''schedule:'' @ bucket now interval))))"

definition cooling_down :: "lib \<Rightarrow> brief_trigger \<Rightarrow> work_settings \<Rightarrow> int \<Rightarrow> work_db \<Rightarrow> claim_outcome option" where
  "cooling_down l trig w now d =
     (if trig \<noteq> TriggerManual \<and> 0 < ws_cooldown_minutes w then
        (case newest (db_runs d) of
           None \<Rightarrow> None
         | Some r \<Rightarrow>
             (case lib_parse_rfc3339 l (rr_started_at r) of
                None \<Rightarrow> None
              | Some started \<Rightarrow>
                  let elapsed = now - started in
                  if elapsed < minutes (ws_cooldown_minutes w)
                  then Some (Refused ''cooldown''
                    (''the last run started '' @ dec_int (max (trunc_div elapsed (minutes 1)) 0)
                     @ '' minute(s) ago; the cooldown is '' @ dec_int (ws_cooldown_minutes w) @ '' minute(s)''))
                  else None))
      else None)"

text \<open>
  The active run: observed, or settled if its lease has expired. \<open>peer\<close> is what another connection
  wrote between the read and the compare-and-swap.
\<close>

definition observe_or_settle ::
    "lib \<Rightarrow> (work_db \<Rightarrow> work_db) \<Rightarrow> int \<Rightarrow> work_db \<Rightarrow> claim_outcome option \<times> work_db" where
  "observe_or_settle l peer now d =
     (case active_run d of
        None \<Rightarrow> (None, d)
      | Some r \<Rightarrow>
          if \<not> expired l now (rr_lease_expires_at r) then (Some (Observed (rr_id r)), d)
          else (case settle_expired (rr_id r) (rr_lease_expires_at r) (lib_to_rfc3339 l now) (peer d) of
                  (n, d') \<Rightarrow>
                    if n = 0
                    then (map_option (\<lambda>a. Observed (rr_id a)) (active_run d'), d')
                    else (None, d')))"

text \<open>The fresh identifiers \<open>uuid\<close> and \<open>owner\<close> are arguments.\<close>

definition claim_insert ::
    "lib \<Rightarrow> brief_trigger \<Rightarrow> work_settings \<Rightarrow> briefing_selection \<Rightarrow> int \<Rightarrow> string \<Rightarrow> string \<Rightarrow> work_db
     \<Rightarrow> (db_error, claim_outcome) result \<times> work_db" where
  "claim_insert l trig w sel now uuid owner d =
     (case idempotency_key trig w now of
        Inl refusal \<Rightarrow> (Ok refusal, d)
      | Inr key \<Rightarrow>
          let run_id = ''run-'' @ uuid in
          (case begin_run []
              \<lparr>rs_run_id = run_id, rs_trigger = trig, rs_profile_reference = Some (selection_reference sel),
               rs_session_id = None, rs_limits = ws_limits w, rs_idempotency_key = key,
               rs_started_at = lib_to_rfc3339 l now, rs_lease_owner = Some owner,
               rs_lease_expires_at = Some (lease_until l now)\<rparr> d of
             Inr d' \<Rightarrow>
               (Ok (Claimed \<lparr>cr_run_id = run_id, cr_lease_owner = owner, cr_trigger = trig,
                  cr_selection = sel, cr_settings = w\<rparr>), d')
           | Inl e \<Rightarrow>
               (case (if key = None then None else find (\<lambda>r. rr_idempotency_key r = key) (db_runs d)) of
                  Some existing \<Rightarrow> (Ok (Observed (rr_id existing)), d)
                | None \<Rightarrow> (Err e, d))))"

definition claim ::
    "lib \<Rightarrow> (string \<Rightarrow> string) \<Rightarrow> (string \<Rightarrow> string option) \<Rightarrow> string option \<Rightarrow> brief_trigger \<Rightarrow> int
     \<Rightarrow> string \<Rightarrow> string \<Rightarrow> (work_db \<Rightarrow> work_db) \<Rightarrow> work_db \<Rightarrow> ((db_error, claim_outcome) result \<times> work_db) option" where
  "claim l serde_error reported_versions payload trig now uuid owner peer d =
     (case read_settings l serde_error payload of
        Inl e \<Rightarrow> Some (Err e, d)
      | Inr snapshot \<Rightarrow>
          if \<not> ss_configured snapshot
          then Some (Ok (Refused ''not_configured'' ''Work has never been configured''), d)
          else (let w = ss_settings snapshot in
            case resolve_briefing w reported_versions of
              None \<Rightarrow> None
            | Some (Inl u) \<Rightarrow> Some (Ok (Refused (unavailable_code u) (unavailable_reason u)), d)
            | Some (Inr sel) \<Rightarrow>
                (case observe_or_settle l peer now d of
                   (Some seen, d1) \<Rightarrow> Some (Ok seen, d1)
                 | (None, d1) \<Rightarrow>
                     (case cooling_down l trig w now d1 of
                        Some refusal \<Rightarrow> Some (Ok refusal, d1)
                      | None \<Rightarrow> Some (claim_insert l trig w sel now uuid owner d1)))))"

section \<open>Holding the lease\<close>

definition holds :: "string \<Rightarrow> string \<Rightarrow> run_row \<Rightarrow> bool" where
  "holds run_id owner r \<longleftrightarrow> rr_id r = run_id \<and> rr_lease_owner r = Some owner \<and> is_running r"

definition heartbeat :: "lib \<Rightarrow> string \<Rightarrow> string \<Rightarrow> int \<Rightarrow> work_db \<Rightarrow> bool \<times> work_db" where
  "heartbeat l run_id owner now d =
     (case update_runs (holds run_id owner) (\<lambda>r. r\<lparr>rr_lease_expires_at := Some (lease_until l now)\<rparr>) d of
        (n, d') \<Rightarrow> (n = 1, d'))"

text \<open>A \<open>NULL\<close> on either side of the comparison selects nothing.\<close>

definition lease_alive :: "lib \<Rightarrow> int \<Rightarrow> run_row \<Rightarrow> bool" where
  "lease_alive l now r \<longleftrightarrow>
     (case rr_lease_expires_at r \<bind> lib_julianday l of
        None \<Rightarrow> False
      | Some expiry \<Rightarrow>
          (case lib_julianday l (lib_to_rfc3339 l now) of None \<Rightarrow> False | Some n \<Rightarrow> n < expiry))"

definition assert_lease_for_commit :: "lib \<Rightarrow> string \<Rightarrow> string \<Rightarrow> int \<Rightarrow> work_db \<Rightarrow> bool \<times> work_db" where
  "assert_lease_for_commit l run_id owner now d =
     (case update_runs (\<lambda>r. holds run_id owner r \<and> lease_alive l now r)
             (\<lambda>r. r\<lparr>rr_lease_expires_at := Some (lease_until l now)\<rparr>) d of
        (n, d') \<Rightarrow> (n = 1, d'))"

definition release :: "string \<Rightarrow> string \<Rightarrow> work_db \<Rightarrow> work_db" where
  "release run_id owner d =
     snd (update_runs (\<lambda>r. rr_id r = run_id \<and> rr_lease_owner r = Some owner)
       (\<lambda>r. r\<lparr>rr_lease_owner := None, rr_lease_expires_at := None\<rparr>) d)"

definition request_cancel :: "work_db \<Rightarrow> string option \<times> work_db" where
  "request_cancel d =
     (case active_run d of
        None \<Rightarrow> (None, d)
      | Some a \<Rightarrow>
          (Some (rr_id a),
           snd (update_runs (\<lambda>r. rr_id r = rr_id a) (\<lambda>r. r\<lparr>rr_cancellation_requested := True\<rparr>) d)))"

definition cancellation_requested :: "work_db \<Rightarrow> string \<Rightarrow> bool" where
  "cancellation_requested d run_id =
     (case find (\<lambda>r. rr_id r = run_id) (db_runs d) of None \<Rightarrow> False | Some r \<Rightarrow> rr_cancellation_requested r)"

text \<open>The session's row was inserted just before, under the same lock.\<close>

definition record_session :: "string \<Rightarrow> string \<Rightarrow> work_db \<Rightarrow> work_db" where
  "record_session run_id session_id d =
     snd (update_runs (\<lambda>r. rr_id r = run_id) (\<lambda>r. r\<lparr>rr_session_id := Some session_id\<rparr>) d)"

definition schedule_due ::
    "lib \<Rightarrow> (string \<Rightarrow> string) \<Rightarrow> string option \<Rightarrow> int \<Rightarrow> work_db \<Rightarrow> (db_error, bool) result" where
  "schedule_due l serde_error payload now d =
     (case read_settings l serde_error payload of
        Inl e \<Rightarrow> Err e
      | Inr s \<Rightarrow>
          if \<not> ss_configured s \<or> ws_briefing (ss_settings s) = None then Ok False
          else (case ws_refresh_interval_minutes (ss_settings s) of
                  None \<Rightarrow> Ok False
                | Some interval \<Rightarrow>
                    (case newest (db_runs d) \<bind> (\<lambda>r. lib_parse_rfc3339 l (rr_started_at r)) of
                       Some started \<Rightarrow> Ok (minutes interval \<le> now - started)
                     | None \<Rightarrow> Ok True)))"

section \<open>The end of a live run\<close>

text \<open>
  \<open>work_briefing_live.rs\<close>: under one lock, an accepted brief is committed, or the run is abandoned,
  by the worker that holds its lease. The clock is read twice.
\<close>

definition live_commit ::
    "lib \<Rightarrow> string \<Rightarrow> string \<Rightarrow> int \<Rightarrow> commit_request \<Rightarrow> work_db \<Rightarrow> (db_error, unit) result \<times> work_db" where
  "live_commit l run_id owner now c d =
     (case assert_lease_for_commit l run_id owner now d of
        (False, d') \<Rightarrow> (Ok (), d')
      | (True, d') \<Rightarrow>
          (case commit_brief l c d' of
             (Inl e, d'') \<Rightarrow> (Err e, d'')
           | (Inr _, d'') \<Rightarrow> (Ok (), release run_id owner d'')))"

definition bounded :: "string \<Rightarrow> nat \<Rightarrow> string" where
  "bounded s limit = concat (take limit (chars s))"

definition abandoned_outcome ::
    "string \<Rightarrow> string option \<Rightarrow> run_status \<Rightarrow> run_usage \<Rightarrow> int \<Rightarrow> string \<Rightarrow> run_outcome" where
  "abandoned_outcome code detail status usage turns completed_at =
     \<lparr>ro_status = status, ro_output_digest = None, ro_failure_code = Some code,
      ro_failure_detail = map_option (\<lambda>t. bounded t 300) detail, ro_usage = Some usage,
      ro_tool_calls = 0, ro_turns = turns, ro_completed_at = completed_at\<rparr>"

definition live_abandon ::
    "lib \<Rightarrow> string \<Rightarrow> string \<Rightarrow> run_ledger \<Rightarrow> string \<Rightarrow> string option \<Rightarrow> run_status \<Rightarrow> run_usage \<Rightarrow> int
     \<Rightarrow> int \<Rightarrow> int \<Rightarrow> work_db \<Rightarrow> (db_error, unit) result \<times> work_db" where
  "live_abandon l run_id owner g code detail status usage turns now completed_at d =
     (case assert_lease_for_commit l run_id owner now d of
        (False, d') \<Rightarrow> (Ok (), d')
      | (True, d') \<Rightarrow>
          (case abandon_run l run_id g
                  (abandoned_outcome code detail status usage turns (lib_to_rfc3339 l completed_at)) d' of
             (Inl e, d'') \<Rightarrow> (Err e, d'')
           | (Inr _, d'') \<Rightarrow> (Ok (), release run_id owner d'')))"

text \<open>What \<open>execute\<close> writes when a run returned an error.\<close>

definition settle_internal :: "lib \<Rightarrow> string \<Rightarrow> string \<Rightarrow> string \<Rightarrow> int \<Rightarrow> work_db \<Rightarrow> work_db" where
  "settle_internal l run_id owner error now d =
     snd (update_runs (holds run_id owner)
       (\<lambda>r. r\<lparr>rr_status := ''failed'', rr_failure_code := Some ''internal'',
               rr_failure_detail := Some (bounded error 300),
               rr_completed_at := Some (lib_to_rfc3339 l now), rr_lease_owner := None,
               rr_lease_expires_at := None\<rparr>) d)"

section \<open>Every interleaving of triggers and workers\<close>

datatype run_op =
    OpSettings work_settings
  | OpClaim brief_trigger int string string
  | OpHeartbeat string string int
  | OpCommit string string int commit_request
  | OpAbandon string string run_ledger string "string option" run_status run_usage int int int
  | OpInternal string string string int
  | OpCancel
  | OpSession string string

text \<open>
  The state is the stored settings and the database. A worker commits a success or abandons with a
  failure, as \<open>terminal_code\<close> names it.
\<close>

inductive run_step ::
    "lib \<Rightarrow> (string \<Rightarrow> string) \<Rightarrow> (string \<Rightarrow> string option) \<Rightarrow> run_op
     \<Rightarrow> string option \<times> work_db \<Rightarrow> string option \<times> work_db \<Rightarrow> bool"
  for l err versions where
  settings: "run_step l err versions (OpSettings w) (p, d) (snd (write_settings l err w p), d)"
| claims: "claim l err versions p trig now uuid owner id d = Some (res, d') \<Longrightarrow>
    run_step l err versions (OpClaim trig now uuid owner) (p, d) (p, d')"
| heartbeats: "run_step l err versions (OpHeartbeat i owner now) (p, d) (p, snd (heartbeat l i owner now d))"
| commits: "cm_run_id c = i \<Longrightarrow> ro_status (cm_outcome c) = RunSucceeded \<Longrightarrow>
    run_step l err versions (OpCommit i owner now c) (p, d) (p, snd (live_commit l i owner now c d))"
| abandons: "status \<in> {RunFailed, RunCancelled} \<Longrightarrow>
    run_step l err versions (OpAbandon i owner g code detail status usage turns now ended) (p, d)
      (p, snd (live_abandon l i owner g code detail status usage turns now ended d))"
| internals: "run_step l err versions (OpInternal i owner e now) (p, d) (p, settle_internal l i owner e now d)"
| cancels: "run_step l err versions OpCancel (p, d) (p, snd (request_cancel d))"
| sessions: "run_step l err versions (OpSession i sid) (p, d) (p, record_session i sid d)"

inductive run_steps ::
    "lib \<Rightarrow> (string \<Rightarrow> string) \<Rightarrow> (string \<Rightarrow> string option) \<Rightarrow> string option \<times> work_db
     \<Rightarrow> string option \<times> work_db \<Rightarrow> bool"
  for l err versions where
  refl: "run_steps l err versions s s"
| step: "run_steps l err versions s t \<Longrightarrow> run_step l err versions opr t u \<Longrightarrow> run_steps l err versions s u"

definition keys_of :: "run_row list \<Rightarrow> string list" where
  "keys_of rs = List.map_filter rr_idempotency_key rs"

definition runs_ok :: "run_row list \<Rightarrow> bool" where
  "runs_ok rs \<longleftrightarrow> distinct (map rr_id rs) \<and> distinct (keys_of rs) \<and> length (filter is_running rs) \<le> 1"

definition outcome_of ::
    "run_row \<Rightarrow> string \<times> string option \<times> string option \<times> string option \<times> (int \<times> int \<times> int \<times> int option)
     \<times> int \<times> int \<times> string option" where
  "outcome_of r =
     (rr_status r, rr_output_digest r, rr_failure_code r, rr_failure_detail r,
      (rr_input_tokens r, rr_output_tokens r, rr_cached_input_tokens r, rr_cost_microusd r),
      rr_tool_calls r, rr_turns r, rr_completed_at r)"

lemma outcome_running: "outcome_of r = outcome_of s \<Longrightarrow> is_running r = is_running s"
  by (simp add: outcome_of_def is_running_def)

definition keeps :: "run_row \<Rightarrow> run_row \<Rightarrow> bool" where
  "keeps r r' \<longleftrightarrow> rr_id r' = rr_id r \<and> rr_idempotency_key r' = rr_idempotency_key r
     \<and> (if is_running r then True else outcome_of r' = outcome_of r)"

lemma keeps_refl [simp]: "keeps r r"
  by (simp add: keeps_def)

lemma keeps_trans: "keeps r s \<Longrightarrow> keeps s t \<Longrightarrow> keeps r t"
  by (auto simp: keeps_def dest: outcome_running split: if_splits)

definition evolves :: "run_row list \<Rightarrow> run_row list \<Rightarrow> bool" where
  "evolves rs rs' \<longleftrightarrow> (\<exists>ks ns. rs' = ks @ ns \<and> list_all2 keeps rs ks)"

lemma evolves_refl [simp]: "evolves rs rs"
  unfolding evolves_def by (rule exI [of _ rs], rule exI [of _ "[]"]) (simp add: list.rel_refl)

lemma evolves_trans: "evolves a b \<Longrightarrow> evolves b c \<Longrightarrow> evolves a c"
proof -
  assume "evolves a b" "evolves b c"
  then obtain k1 n1 k2 n2 where b: "b = k1 @ n1" "list_all2 keeps a k1" and c: "c = k2 @ n2" "list_all2 keeps b k2"
    by (auto simp: evolves_def)
  from c(2) b(1) obtain x y where "k2 = x @ y" "list_all2 keeps k1 x"
    by (auto simp: list_all2_append1)
  with b c have "c = x @ (y @ n2)" "list_all2 keeps a x"
    using list_all2_trans [of keeps keeps keeps a k1 x] keeps_trans by auto
  then show "evolves a c" unfolding evolves_def by blast
qed

lemma evolves_append [simp]: "evolves rs (rs @ ns)"
  unfolding evolves_def by (rule exI [of _ rs]) (simp add: list.rel_refl)

lemma evolves_map:
  "(\<And>r. r \<in> set rs \<Longrightarrow> keeps r (f r)) \<Longrightarrow> evolves rs (map f rs)"
  unfolding evolves_def by (rule exI [of _ "map f rs"], rule exI [of _ "[]"]) (simp add: list_all2_conv_all_nth)

lemma running_map_le:
  "(\<And>r. r \<in> set rs \<Longrightarrow> is_running (f r) \<Longrightarrow> is_running r) \<Longrightarrow>
   length (filter is_running (map f rs)) \<le> length (filter is_running rs)"
proof (induction rs)
  case (Cons r rs)
  then show ?case by (cases "is_running (f r)") auto
qed simp

lemma runs_ok_map:
  assumes "runs_ok rs" "\<And>r. r \<in> set rs \<Longrightarrow> keeps r (f r)"
  shows "runs_ok (map f rs)"
proof -
  have ids: "map rr_id (map f rs) = map rr_id rs" and keys: "keys_of (map f rs) = keys_of rs"
    using assms(2) by (induction rs) (auto simp: keeps_def keys_of_def List.map_filter_def)
  have "length (filter is_running (map f rs)) \<le> length (filter is_running rs)"
  proof (rule running_map_le)
    fix r assume "r \<in> set rs" "is_running (f r)"
    with assms(2) [of r] show "is_running r"
      by (auto simp: keeps_def dest: outcome_running split: if_splits)
  qed
  with assms(1) show ?thesis unfolding runs_ok_def ids keys by simp
qed

lemma db_runs_update [simp]:
  "db_runs (snd (update_runs P f d)) = map (\<lambda>r. if P r then f r else r) (db_runs d)"
  by (simp add: update_runs_def)

lemma keeps_lease [simp]:
  "keeps r (r\<lparr>rr_lease_expires_at := x\<rparr>)" "keeps r (r\<lparr>rr_lease_owner := y, rr_lease_expires_at := x\<rparr>)"
  "keeps r (r\<lparr>rr_cancellation_requested := c\<rparr>)" "keeps r (r\<lparr>rr_session_id := sid\<rparr>)"
  by (simp_all add: keeps_def outcome_of_def)

lemma keeps_running [simp]:
  "is_running r \<Longrightarrow> keeps r (settled t r)" "is_running r \<Longrightarrow> keeps r (close_row oc r)"
  by (simp_all add: keeps_def settled_def close_row_def)

definition safe :: "work_db \<Rightarrow> work_db \<Rightarrow> bool" where
  "safe d d' \<longleftrightarrow> (runs_ok (db_runs d) \<longrightarrow> runs_ok (db_runs d') \<and> evolves (db_runs d) (db_runs d'))"

lemma safe_refl [simp]: "safe d d"
  by (simp add: safe_def)

lemma safe_trans: "safe a b \<Longrightarrow> safe b c \<Longrightarrow> safe a c"
  by (auto simp: safe_def intro: evolves_trans)

lemma safe_update:
  "(\<And>r. P r \<Longrightarrow> keeps r (f r)) \<Longrightarrow> safe d (snd (update_runs P f d))"
  by (auto simp: safe_def intro!: runs_ok_map evolves_map)

lemma safe_same_runs: "db_runs d' = db_runs d \<Longrightarrow> safe d d'"
  by (simp add: safe_def)


section \<open>Each operation keeps the runs sound\<close>

lemma safe_heartbeat: "safe d (snd (heartbeat l i owner now d))"
  unfolding heartbeat_def by (simp add: split_def) (rule safe_update, simp)

lemma safe_assert: "safe d (snd (assert_lease_for_commit l i owner now d))"
  unfolding assert_lease_for_commit_def by (simp add: split_def) (rule safe_update, simp)

lemma safe_release: "safe d (release i owner d)"
  unfolding release_def by (rule safe_update) simp

lemma safe_session: "safe d (record_session i sid d)"
  unfolding record_session_def by (rule safe_update) simp

lemma safe_cancel: "safe d (snd (request_cancel d))"
  by (auto simp: request_cancel_def split: option.split intro: safe_update)

lemma safe_internal: "safe d (settle_internal l i owner e now d)"
  unfolding settle_internal_def
  by (rule safe_update) (simp add: holds_def keeps_def)

lemma safe_settle: "safe d (snd (settle_expired i lease t d))"
  unfolding settle_expired_def by (rule safe_update) simp

lemma safe_begin_run:
  assumes "begin_run sessions s d = Inr d'" "filter is_running (db_runs d) = []"
  shows "safe d d'"
proof -
  from assms(1) have d': "d' = d\<lparr>db_runs := db_runs d @ [started_row s]\<rparr>"
    and new: "rs_run_id s \<notin> rr_id ` set (db_runs d)" "\<not> key_taken (db_runs d) (rs_idempotency_key s)"
    by (auto simp: begin_run_def run_exists_def split: if_splits)
  have "distinct (keys_of (db_runs d @ [started_row s]))" if "distinct (keys_of (db_runs d))"
    using that new(2)
    by (cases "rs_idempotency_key s")
       (auto simp: keys_of_def List.map_filter_def started_row_def key_taken_def list_ex_iff)
  with new(1) assms(2) show ?thesis
    by (auto simp: safe_def d' runs_ok_def started_row_def)
qed

text \<open>A commit closes the run's row and leaves every other row alone.\<close>

lemma reconcile_row_runs: "reconcile_row i now ocs present r d = Inr d' \<Longrightarrow> db_runs d' = db_runs d"
  by (auto simp: reconcile_row_def Let_def split: option.splits if_splits)

lemma reconcile_rows_runs: "reconcile_rows i now ocs present rs d = Inr d' \<Longrightarrow> db_runs d' = db_runs d"
  by (induction rs arbitrary: d) (auto split: sum.splits dest: reconcile_row_runs)

lemma upsert_task_runs: "upsert_task l i now fp rank t e eph d = Inr d' \<Longrightarrow> db_runs d' = db_runs d"
  by (auto simp: upsert_task_def Let_def split: if_splits)

lemma upsert_present_runs: "upsert_present l i now ps d = Inr d' \<Longrightarrow> db_runs d' = db_runs d"
  by (induction ps arbitrary: d) (auto split: sum.splits dest: upsert_task_runs)

lemma upsert_ephemeral_runs: "upsert_ephemeral l i now ps d = Inr d' \<Longrightarrow> db_runs d' = db_runs d"
  by (induction ps arbitrary: d) (auto split: sum.splits dest: upsert_task_runs)

lemma commit_steps_runs:
  "commit_steps l c d = Inr d' \<Longrightarrow> db_runs d' = db_runs (finish_run (cm_run_id c) (cm_outcome c) d)"
  by (auto simp: commit_steps_def Let_def finish_run_def split: sum.splits prod.splits
      dest!: record_ledger_Ok(2) reconcile_rows_runs upsert_present_runs upsert_ephemeral_runs)

lemma asserted_running:
  assumes "assert_lease_for_commit l i owner now d = (True, d')" "distinct (map rr_id (db_runs d))"
  shows "\<forall>r \<in> set (db_runs d'). rr_id r = i \<longrightarrow> is_running r"
proof -
  let ?P = "\<lambda>r. holds i owner r \<and> lease_alive l now r"
  from assms(1) have one: "length (filter ?P (db_runs d)) = 1"
    and d': "db_runs d' = map (\<lambda>r. if ?P r then r\<lparr>rr_lease_expires_at := Some (lease_until l now)\<rparr> else r) (db_runs d)"
    by (auto simp: assert_lease_for_commit_def update_runs_def)
  from one have "filter ?P (db_runs d) \<noteq> []" by auto
  then have "hd (filter ?P (db_runs d)) \<in> set (filter ?P (db_runs d))" by (rule hd_in_set)
  then obtain h where h: "h \<in> set (db_runs d)" "?P h" by auto
  have "rr_id r = i \<Longrightarrow> r \<in> set (db_runs d) \<Longrightarrow> r = h" for r
    using h assms(2) by (auto simp: holds_def distinct_map dest: inj_onD)
  with h show ?thesis by (auto simp: d' holds_def is_running_def split: if_splits)
qed

lemma safe_finish:
  assumes "\<forall>r \<in> set (db_runs d). rr_id r = i \<longrightarrow> is_running r"
  shows "safe d (finish_run i oc d)"
proof -
  have "keeps r (if rr_id r = i then close_row oc r else r)" if "r \<in> set (db_runs d)" for r
    using that assms by simp
  then show ?thesis by (auto simp: safe_def finish_run_def intro!: runs_ok_map evolves_map)
qed

lemma safe_live_commit:
  assumes "cm_run_id c = i"
  shows "safe d (snd (live_commit l i owner now c d))"
proof -
  obtain b d1 where a: "assert_lease_for_commit l i owner now d = (b, d1)" by fastforce
  have s1: "safe d d1" using safe_assert [of d l i owner now] a by simp
  show ?thesis
  proof (cases b)
    case True
    show ?thesis
    proof (cases "commit_steps l c d1")
      case (Inl e)
      with a True s1 show ?thesis by (simp add: live_commit_def commit_brief_def)
    next
      case (Inr d2)
      have "safe d1 d2" if "runs_ok (db_runs d)"
      proof -
        from that have "\<forall>r \<in> set (db_runs d1). rr_id r = i \<longrightarrow> is_running r"
          using asserted_running [of l i owner now d d1] a True by (simp add: runs_ok_def)
        with safe_finish have "safe d1 (finish_run i (cm_outcome c) d1)" by blast
        with commit_steps_runs [OF Inr] assms show ?thesis by (simp add: safe_def)
      qed
      then have "safe d d2" using s1 by (auto simp: safe_def intro: evolves_trans)
      with a True Inr show ?thesis
        by (auto simp: live_commit_def commit_brief_def intro: safe_trans safe_release)
    qed
  qed (use a s1 in \<open>simp add: live_commit_def\<close>)
qed

lemma safe_live_abandon:
  "safe d (snd (live_abandon l i owner g code detail status usage turns now ended d))"
proof -
  obtain b d1 where a: "assert_lease_for_commit l i owner now d = (b, d1)" by fastforce
  have s1: "safe d d1" using safe_assert [of d l i owner now] a by simp
  show ?thesis
  proof (cases b)
    case True
    let ?oc = "abandoned_outcome code detail status usage turns (lib_to_rfc3339 l ended)"
    show ?thesis
    proof (cases "record_ledger_in l g d1")
      case (Inl e)
      with a True s1 show ?thesis by (simp add: live_abandon_def abandon_run_def)
    next
      case (Inr d2)
      have "safe d1 (finish_run i ?oc d2)" if "runs_ok (db_runs d)"
      proof -
        from that have "\<forall>r \<in> set (db_runs d1). rr_id r = i \<longrightarrow> is_running r"
          using asserted_running [of l i owner now d d1] a True by (simp add: runs_ok_def)
        with safe_finish [of d2 i ?oc] record_ledger_Ok(2) [OF Inr] show ?thesis
          by (simp add: safe_def)
      qed
      then have "safe d (finish_run i ?oc d2)" using s1 by (auto simp: safe_def intro: evolves_trans)
      with a True Inr show ?thesis
        by (auto simp: live_abandon_def abandon_run_def intro: safe_trans safe_release)
    qed
  qed (use a s1 in \<open>simp add: live_abandon_def\<close>)
qed

lemma newest_mem: "newest rs = Some r \<Longrightarrow> r \<in> set rs"
  by (induction rs arbitrary: r) (auto split: option.splits if_splits)

lemma newest_None [simp]: "newest rs = None \<longleftrightarrow> rs = []"
  by (cases rs) (auto split: option.splits)

lemma at_most_one_running:
  assumes "runs_ok rs"
  shows "filter is_running rs = (case newest (filter is_running rs) of None \<Rightarrow> [] | Some r \<Rightarrow> [r])"
proof -
  from assms have "length (filter is_running rs) \<le> 1" by (simp add: runs_ok_def)
  then show ?thesis by (cases "filter is_running rs") (auto simp: Suc_length_conv)
qed

lemma active_run_only:
  "runs_ok (db_runs d) \<Longrightarrow> filter is_running (db_runs d) = (case active_run d of None \<Rightarrow> [] | Some r \<Rightarrow> [r])"
  unfolding active_run_def by (rule at_most_one_running)

lemma running_is_active: "runs_ok (db_runs d) \<Longrightarrow> r \<in> set (db_runs d) \<Longrightarrow> is_running r \<Longrightarrow> active_run d = Some r"
proof -
  assume "runs_ok (db_runs d)" "r \<in> set (db_runs d)" "is_running r"
  then have "r \<in> set (case active_run d of None \<Rightarrow> [] | Some r \<Rightarrow> [r])"
    unfolding active_run_only [OF \<open>runs_ok (db_runs d)\<close>, symmetric] by simp
  then show ?thesis by (cases "active_run d") simp_all
qed

lemma active_run_running: "active_run d = Some r \<Longrightarrow> r \<in> set (db_runs d) \<and> is_running r"
  by (auto simp: active_run_def dest!: newest_mem)

lemma settle_active:
  assumes "runs_ok (db_runs d)" "active_run d = Some r"
    "settle_expired (rr_id r) (rr_lease_expires_at r) t d = (n, d')"
  shows "n = 1" "filter is_running (db_runs d') = []"
proof -
  let ?P = "\<lambda>x. rr_id x = rr_id r \<and> is_running x \<and> rr_lease_expires_at x = rr_lease_expires_at r"
  have f: "filter is_running (db_runs d) = [r]"
    using active_run_only [OF assms(1)] assms(2) by simp
  have P: "x = r" if "x \<in> set (db_runs d)" "is_running x" for x
  proof -
    from that have "x \<in> set (filter is_running (db_runs d))" by simp
    then show ?thesis unfolding f by simp
  qed
  have r: "r \<in> set (db_runs d)" "is_running r" using active_run_running [OF assms(2)] by auto
  have "filter ?P (db_runs d) = filter is_running (db_runs d)"
  proof (rule filter_cong)
    fix x assume "x \<in> set (db_runs d)"
    then show "?P x \<longleftrightarrow> is_running x" using P by blast
  qed simp
  then have "length (filter ?P (db_runs d)) = 1" by (simp only: f) simp
  with assms(3) show "n = 1" unfolding settle_expired_def update_runs_def by (simp only: prod.inject)
  from assms(3) have d': "db_runs d' = map (\<lambda>x. if ?P x then settled t x else x) (db_runs d)"
    unfolding settle_expired_def update_runs_def by (clarsimp)
  have "\<not> is_running (if ?P x then settled t x else x)" if "x \<in> set (db_runs d)" for x
  proof (cases "is_running x")
    case True
    from P [OF that True] True show ?thesis by (simp add: is_running_def settled_def)
  qed simp
  then show "filter is_running (db_runs d') = []"
    unfolding d' filter_empty_conv set_map by blast
qed

lemma observe_or_settle_safe:
  assumes "observe_or_settle l id now d = (seen, d')"
  shows "safe d d'" "runs_ok (db_runs d) \<Longrightarrow> seen = None \<Longrightarrow> filter is_running (db_runs d') = []"
proof -
  show "safe d d'"
    using assms safe_settle
    by (auto simp: observe_or_settle_def split: option.splits if_splits prod.splits) (metis snd_conv)+
  assume "runs_ok (db_runs d)" "seen = None"
  with assms show "filter is_running (db_runs d') = []"
    using active_run_only [of d] settle_active [of d]
    by (auto simp: observe_or_settle_def split: option.splits if_splits prod.splits)
qed

lemma claim_insert_cases:
  assumes "claim_insert l trig w sel now uuid owner d = (res, d')"
  obtains "d' = d" "\<not> (\<exists>c. res = Ok (Claimed c))"
  | key where "idempotency_key trig w now = Ok key"
      "begin_run [] \<lparr>rs_run_id = ''run-'' @ uuid, rs_trigger = trig,
         rs_profile_reference = Some (selection_reference sel), rs_session_id = None,
         rs_limits = ws_limits w, rs_idempotency_key = key, rs_started_at = lib_to_rfc3339 l now,
         rs_lease_owner = Some owner, rs_lease_expires_at = Some (lease_until l now)\<rparr> d = Ok d'"
      "res = Ok (Claimed \<lparr>cr_run_id = ''run-'' @ uuid, cr_lease_owner = owner, cr_trigger = trig,
         cr_selection = sel, cr_settings = w\<rparr>)"
  using assms
  by (auto simp: claim_insert_def Let_def idempotency_key_def
      split: sum.splits option.splits brief_trigger.splits if_splits)

lemma claim_safe:
  assumes "claim l err versions p trig now uuid owner id d = Some (res, d')"
  shows "safe d d'"
proof (cases "d' = d")
  case False
  with assms obtain w sel seen d1 where o: "observe_or_settle l id now d = (seen, d1)"
    and c: "seen \<noteq> None \<and> d' = d1 \<or> seen = None \<and> (d' = d1 \<or> claim_insert l trig w sel now uuid owner d1 = (res, d'))"
    by (auto simp: claim_def Let_def split: sum.splits if_splits option.splits prod.splits)
  have s1: "safe d d1" using observe_or_settle_safe(1) [OF o] .
  have "safe d1 d'" if "runs_ok (db_runs d)" "seen = None" "claim_insert l trig w sel now uuid owner d1 = (res, d')"
    using that(3)
  proof (cases rule: claim_insert_cases)
    case (2 key)
    with observe_or_settle_safe(2) [OF o that(1,2)] show ?thesis by (intro safe_begin_run)
  qed simp
  with s1 c show ?thesis by (auto simp: safe_def intro: evolves_trans)
qed simp

lemma step_safe: "run_step l err versions opr (p, d) (p', d') \<Longrightarrow> safe d d'"
  by (induction "(p, d)" "(p', d')" rule: run_step.induct)
     (auto simp: safe_heartbeat safe_live_commit safe_live_abandon safe_internal safe_cancel safe_session
       dest: claim_safe)

section \<open>Properties\<close>

lemma steps_safe: "run_steps l err versions s t \<Longrightarrow> safe (snd s) (snd t)"
proof (induction rule: run_steps.induct)
  case (step s t opr u)
  then show ?case
    using step_safe [of l err versions opr "fst t" "snd t" "fst u" "snd u"] by (auto intro: safe_trans)
qed simp

text \<open>
  C2. Whatever triggers, workers, cancellations and settings writes do, in any order: at most one run
  is running, no id is used twice, and no occasion starts two runs.
\<close>
theorem at_most_one_active_run:
  assumes "run_steps l err versions s t" "runs_ok (db_runs (snd s))"
  shows "length (filter is_running (db_runs (snd t))) \<le> 1
    \<and> distinct (map rr_id (db_runs (snd t)))
    \<and> distinct (List.map_filter rr_idempotency_key (db_runs (snd t)))"
  using steps_safe [OF assms(1)] assms(2) by (simp add: safe_def runs_ok_def keys_of_def)

lemma list_all2_row: "list_all2 Q xs ys \<Longrightarrow> x \<in> set xs \<Longrightarrow> \<exists>y \<in> set ys. Q x y"
  by (induction rule: list_all2_induct) auto

lemma evolves_row:
  assumes "evolves rs rs'" "r \<in> set rs"
  obtains r' where "r' \<in> set rs'" "keeps r r'"
proof -
  from assms(1) obtain ks ns where rs': "rs' = ks @ ns" and "list_all2 keeps rs ks"
    unfolding evolves_def by blast
  from list_all2_row [OF this(2) assms(2)] obtain r' where "r' \<in> set ks" "keeps r r'" by blast
  with that [of r'] show thesis unfolding rs' by simp
qed

lemma find_by_id: "distinct (map rr_id rs) \<Longrightarrow> r \<in> set rs \<Longrightarrow> find (\<lambda>x. rr_id x = rr_id r) rs = Some r"
  by (induction rs) auto

lemma final_run:
  assumes "safe d d'" "runs_ok (db_runs d)" "r \<in> set (db_runs d)" "\<not> is_running r"
  obtains r' where "r' \<in> set (db_runs d')" "rr_id r' = rr_id r" "outcome_of r' = outcome_of r"
    "\<not> is_running r'" "runs_ok (db_runs d')"
proof -
  from assms(1,2) have e: "evolves (db_runs d) (db_runs d')" "runs_ok (db_runs d')" by (auto simp: safe_def)
  from evolves_row [OF e(1) assms(3)] obtain r' where r': "r' \<in> set (db_runs d')" "keeps r r'" .
  from r'(2) assms(4) have "rr_id r' = rr_id r" "outcome_of r' = outcome_of r" by (simp_all add: keeps_def)
  with that r'(1) e(2) assms(4) outcome_running show thesis by blast
qed

lemma not_held:
  assumes "distinct (map rr_id (db_runs d))" "r \<in> set (db_runs d)" "\<not> is_running r"
  shows "filter (holds (rr_id r) owner) (db_runs d) = []"
proof -
  have "x = r" if "x \<in> set (db_runs d)" "rr_id x = rr_id r" for x
    using that assms(1,2) by (auto simp: distinct_map dest: inj_onD)
  with assms(3) show ?thesis by (auto simp: filter_empty_conv holds_def)
qed

lemma update_none:
  assumes "filter P (db_runs d) = []"
  shows "update_runs P f d = (0, d)"
proof -
  have "map (\<lambda>r. if P r then f r else r) (db_runs d) = db_runs d"
    using assms by (intro map_idI) (simp add: filter_empty_conv)
  with assms show ?thesis by (simp add: update_runs_def)
qed

lemma filter_stronger: "filter P xs = [] \<Longrightarrow> filter (\<lambda>x. P x \<and> Q x) xs = []"
  by (simp add: filter_empty_conv)

text \<open>
  C5. A run that has ended, for instance because another trigger settled its expired lease, keeps its
  outcome whatever follows, and every later write of its worker changes nothing: not the commit,
  not the abandoning, not the heartbeat.
\<close>
theorem stale_worker_cannot_commit:
  assumes "run_steps l err versions s t" "runs_ok (db_runs (snd s))"
    and "r \<in> set (db_runs (snd s))" "rr_status r \<noteq> ''running''"
  shows "(\<exists>r'. find (\<lambda>x. rr_id x = rr_id r) (db_runs (snd t)) = Some r' \<and> outcome_of r' = outcome_of r)
    \<and> live_commit l (rr_id r) owner now c (snd t) = (Ok (), snd t)
    \<and> live_abandon l (rr_id r) owner g code detail status usage turns now ended (snd t) = (Ok (), snd t)
    \<and> settle_internal l (rr_id r) owner e now (snd t) = snd t
    \<and> heartbeat l (rr_id r) owner now (snd t) = (False, snd t)"
proof -
  from assms(4) have "\<not> is_running r" by (simp add: is_running_def)
  from final_run [OF steps_safe [OF assms(1)] assms(2,3) this]
  obtain r' where r': "r' \<in> set (db_runs (snd t))" "rr_id r' = rr_id r" "outcome_of r' = outcome_of r"
    "\<not> is_running r'" and d: "distinct (map rr_id (db_runs (snd t)))"
    by (metis runs_ok_def)
  have f: "find (\<lambda>x. rr_id x = rr_id r) (db_runs (snd t)) = Some r'"
    using find_by_id [OF d r'(1)] r'(2) by simp
  have none: "filter (holds (rr_id r) owner) (db_runs (snd t)) = []"
    using not_held [OF d r'(1,4)] r'(2) by simp
  have gate: "assert_lease_for_commit l (rr_id r) owner now (snd t) = (False, snd t)"
    by (simp add: assert_lease_for_commit_def update_none [OF filter_stronger [OF none]])
  show ?thesis
    using f r'(3) gate
    by (simp add: live_commit_def live_abandon_def settle_internal_def heartbeat_def update_none [OF none])
qed

text \<open>The settings are readable, configured and name a provider that can brief.\<close>

definition can_brief :: "lib \<Rightarrow> (string \<Rightarrow> string) \<Rightarrow> (string \<Rightarrow> string option) \<Rightarrow> string option \<Rightarrow> bool" where
  "can_brief l err versions p \<longleftrightarrow>
     (case read_settings l err p of
        Inl _ \<Rightarrow> False
      | Inr s \<Rightarrow> ss_configured s \<and> (case resolve_briefing (ss_settings s) versions of Some (Inr _) \<Rightarrow> True | _ \<Rightarrow> False))"

text \<open>
  C19. While the lease of a running run has not expired, a claim changes nothing, and observes that run
  if the settings allow a briefing at all; a claim that is given the lease found every running run's
  lease expired, and afterwards its own run is the only one running, leased to it for fifteen minutes.
\<close>
theorem claim_takes_over_only_the_expired:
  assumes "claim l err versions p trig now uuid owner id d = Some (res, d')"
    and "runs_ok (db_runs d)"
  shows "(\<forall>r \<in> set (db_runs d). is_running r \<and> \<not> expired l now (rr_lease_expires_at r) \<longrightarrow>
        d' = d \<and> (can_brief l err versions p \<longrightarrow> res = Ok (Observed (rr_id r))))
    \<and> (\<forall>c. res = Ok (Claimed c) \<longrightarrow>
         list_all (\<lambda>r. is_running r \<longrightarrow> expired l now (rr_lease_expires_at r)) (db_runs d)
         \<and> (\<exists>r. filter is_running (db_runs d') = [r] \<and> rr_id r = cr_run_id c
              \<and> rr_lease_owner r = Some (cr_lease_owner c)
              \<and> rr_lease_expires_at r = Some (lib_to_rfc3339 l (now + 15 * 60 * 10 ^ 9))))"
proof -
  have live: "observe_or_settle l id now d = (Some (Observed (rr_id r)), d)"
    if "r \<in> set (db_runs d)" "is_running r" "\<not> expired l now (rr_lease_expires_at r)" for r
    using running_is_active [OF assms(2) that(1,2)] that(3) by (simp add: observe_or_settle_def)
  have "d' = d \<and> (can_brief l err versions p \<longrightarrow> res = Ok (Observed (rr_id r)))"
    if "r \<in> set (db_runs d)" "is_running r" "\<not> expired l now (rr_lease_expires_at r)" for r
    using assms(1) live [OF that]
    by (auto simp: claim_def can_brief_def Let_def split: sum.splits if_splits option.splits)
  moreover have "list_all (\<lambda>r. is_running r \<longrightarrow> expired l now (rr_lease_expires_at r)) (db_runs d)
         \<and> (\<exists>r. filter is_running (db_runs d') = [r] \<and> rr_id r = cr_run_id c
              \<and> rr_lease_owner r = Some (cr_lease_owner c)
              \<and> rr_lease_expires_at r = Some (lib_to_rfc3339 l (now + 15 * 60 * 10 ^ 9)))"
    if claimed: "res = Ok (Claimed c)" for c
  proof -
    from assms(1) claimed obtain w sel d1 where o: "observe_or_settle l id now d = (None, d1)"
      and i: "claim_insert l trig w sel now uuid owner d1 = (Ok (Claimed c), d')"
      by (auto simp: claim_def Let_def cooling_down_def observe_or_settle_def
          split: sum.splits if_splits option.splits prod.splits)
    have e: "list_all (\<lambda>r. is_running r \<longrightarrow> expired l now (rr_lease_expires_at r)) (db_runs d)"
      using live o by (force simp: list_all_iff)
    from observe_or_settle_safe(2) [OF o assms(2)] have n: "filter is_running (db_runs d1) = []" by simp
    from i show ?thesis
    proof (cases rule: claim_insert_cases)
      case (2 key)
      from 2(2) n have "filter is_running (db_runs d') = [started_row
          \<lparr>rs_run_id = ''run-'' @ uuid, rs_trigger = trig,
           rs_profile_reference = Some (selection_reference sel), rs_session_id = None,
           rs_limits = ws_limits w, rs_idempotency_key = key, rs_started_at = lib_to_rfc3339 l now,
           rs_lease_owner = Some owner, rs_lease_expires_at = Some (lease_until l now)\<rparr>]"
        by (auto simp: begin_run_def started_row_def is_running_def split: if_splits)
      with 2(3) e show ?thesis
        by (auto simp: started_row_def lease_until_def minutes_def lease_minutes_def)
    qed simp
  qed
  ultimately show ?thesis by blast
qed

lemma claim_manual:
  assumes "read_settings l err p = Ok s" "ss_configured s"
    and "resolve_briefing (ss_settings s) versions = Some (Ok sel)"
    and "observe_or_settle l id now d = (None, d1)"
  shows "claim l err versions p TriggerManual now uuid owner id d
    = Some (claim_insert l TriggerManual (ss_settings s) sel now uuid owner d1)"
  using assms by (simp add: claim_def Let_def cooling_down_def)

text \<open>
  C34. A crashed run blocks briefings no longer than its lease: once every running lease has
  expired, a manual claim with usable settings and a fresh identifier, no other connection writing in
  between, is given the lease for a run of its own, and every run that was running has failed.
\<close>
theorem expired_lease_is_reclaimed:
  assumes "read_settings l err p = Ok s" "ss_configured s"
    and "resolve_briefing (ss_settings s) versions = Some (Ok sel)"
    and "runs_ok (db_runs d)" "list_all (\<lambda>r. is_running r \<longrightarrow> expired l now (rr_lease_expires_at r)) (db_runs d)"
    and "\<not> run_exists d (''run-'' @ uuid)"
  shows "\<exists>c d'. claim l err versions p TriggerManual now uuid owner id d = Some (Ok (Claimed c), d')
    \<and> cr_run_id c = ''run-'' @ uuid \<and> cr_lease_owner c = owner \<and> cr_selection c = sel
    \<and> (\<forall>r \<in> set (db_runs d). is_running r \<longrightarrow>
         (\<exists>r' \<in> set (db_runs d'). rr_id r' = rr_id r \<and> rr_status r' = ''failed'' \<and> rr_failure_code r' = Some ''lease_expired''))"
proof -
  obtain seen d1 where o: "observe_or_settle l id now d = (seen, d1)" by fastforce
  have none: "seen = None"
  proof (cases "active_run d")
    case (Some r)
    with assms(5) active_run_running [OF Some] have e: "expired l now (rr_lease_expires_at r)"
      by (auto simp: list_all_iff)
    obtain n d2 where "settle_expired (rr_id r) (rr_lease_expires_at r) (lib_to_rfc3339 l now) d = (n, d2)"
      by fastforce
    with settle_active(1) [OF assms(4) Some this] Some e o show ?thesis
      by (simp add: observe_or_settle_def)
  qed (use o in \<open>simp add: observe_or_settle_def\<close>)
  have "evolves (db_runs d) (db_runs d1)" and ids: "map rr_id (db_runs d1) = map rr_id (db_runs d)"
    using observe_or_settle_safe(1) [OF o] assms(4) o
    by (auto simp: safe_def observe_or_settle_def settle_expired_def update_runs_def settled_def
        split: option.splits if_splits)
  then have fresh: "\<not> run_exists d1 (''run-'' @ uuid)"
    using assms(6) by (metis list.set_map run_exists_def)
  have failed: "settled (lib_to_rfc3339 l now) r \<in> set (db_runs d1)"
    if "r \<in> set (db_runs d)" "is_running r" for r
  proof -
    note running_is_active [OF assms(4) that]
    moreover have "expired l now (rr_lease_expires_at r)" using assms(5) that by (simp add: list_all_iff)
    ultimately have "db_runs d1 = db_runs (snd (settle_expired (rr_id r) (rr_lease_expires_at r) (lib_to_rfc3339 l now) d))"
      using o by (auto simp: observe_or_settle_def split: prod.splits if_splits)
    with that show ?thesis by (force simp: settle_expired_def update_runs_def)
  qed
  obtain c d' where i: "claim_insert l TriggerManual (ss_settings s) sel now uuid owner d1 = (Ok (Claimed c), d')"
    and c: "cr_run_id c = ''run-'' @ uuid" "cr_lease_owner c = owner" "cr_selection c = sel"
    and runs: "set (db_runs d1) \<subseteq> set (db_runs d')"
    using fresh by (auto simp: claim_insert_def idempotency_key_def begin_run_def key_taken_def Let_def)
  have "\<exists>r' \<in> set (db_runs d'). rr_id r' = rr_id r \<and> rr_status r' = ''failed'' \<and> rr_failure_code r' = Some ''lease_expired''"
    if "r \<in> set (db_runs d)" "is_running r" for r
    using failed [OF that] runs
    by (intro bexI [of _ "settled (lib_to_rfc3339 l now) r"]) (auto simp: settled_def)
  with c i show ?thesis
    unfolding claim_manual [OF assms(1-3) o [unfolded none]] by blast
qed

text \<open>
  C33. At one instant a lease cannot both pass the commit gate and be taken over: when its worker may
  commit, a claim leaves the database alone: it is told of that run, is refused or fails, and is never
  given the lease. The instants of leases are read back as printed, and SQLite orders them.
\<close>
theorem commit_gate_excludes_reclaim:
  assumes "runs_ok (db_runs d)" "fst (assert_lease_for_commit l i owner now d)"
    and "\<And>r. r \<in> set (db_runs d) \<Longrightarrow> holds i owner r \<Longrightarrow>
      (\<exists>expiry. rr_lease_expires_at r = Some (lib_to_rfc3339 l expiry)
         \<and> lib_parse_rfc3339 l (lib_to_rfc3339 l expiry) = Some expiry)"
    and "\<And>a b x y. a \<le> b \<Longrightarrow> lib_julianday l (lib_to_rfc3339 l a) = Some x \<Longrightarrow>
      lib_julianday l (lib_to_rfc3339 l b) = Some y \<Longrightarrow> x \<le> y"
    and "claim l err versions p trig now uuid o2 id d = Some (res, d')"
  shows "d' = d \<and> (case res of Inl _ \<Rightarrow> True | Inr (Claimed _) \<Rightarrow> False | Inr (Observed j) \<Rightarrow> j = i
    | Inr (Refused _ _) \<Rightarrow> True)"
proof -
  let ?P = "\<lambda>r. holds i owner r \<and> lease_alive l now r"
  from assms(2) have "length (filter ?P (db_runs d)) = 1"
    by (auto simp: assert_lease_for_commit_def update_runs_def)
  then have "filter ?P (db_runs d) \<noteq> []" by auto
  then have "hd (filter ?P (db_runs d)) \<in> set (filter ?P (db_runs d))" by (rule hd_in_set)
  then obtain h where h: "h \<in> set (db_runs d)" "holds i owner h" "lease_alive l now h" by auto
  from assms(3) [OF h(1,2)] obtain expiry where e: "rr_lease_expires_at h = Some (lib_to_rfc3339 l expiry)"
    "lib_parse_rfc3339 l (lib_to_rfc3339 l expiry) = Some expiry" by blast
  have "now < expiry"
  proof (rule ccontr)
    assume "\<not> now < expiry"
    then have "expiry \<le> now" by simp
    from h(3) e(1) obtain x y where "lib_julianday l (lib_to_rfc3339 l expiry) = Some x"
      "lib_julianday l (lib_to_rfc3339 l now) = Some y" "y < x"
      by (auto simp: lease_alive_def split: option.splits)
    with assms(4) [OF \<open>expiry \<le> now\<close>] show False by fastforce
  qed
  with e have alive: "\<not> expired l now (rr_lease_expires_at h)" by (simp add: expired_def)
  have "h \<in> set (filter is_running (db_runs d))" using h by (simp add: holds_def)
  then have "active_run d = Some h"
    unfolding active_run_only [OF assms(1)] by (auto split: option.splits)
  with alive h(2) have "observe_or_settle l id now d = (Some (Observed i), d)"
    by (simp add: observe_or_settle_def holds_def)
  with assms(5) show ?thesis
    by (auto simp: claim_def Let_def split: sum.splits if_splits option.splits)
qed

section \<open>The ledger as stored\<close>

lemma ledger_run_id [simp]: "rl_run_id (snd (ledger_run l run evs)) = run"
proof (induction evs rule: rev_induct)
  case (snoc ev evs)
  have "rl_run_id (snd (ledger_step l ev g)) = rl_run_id g" for g
    by (cases ev) (auto simp: record_consulted_def record_failed_def record_source_def record_succeeded_def
        Let_def split: option.splits prod.splits)
  with snoc show ?case by (simp add: ledger_run_snoc case_prod_beta Let_def)
qed (simp add: ledger_new_def)

definition keyed :: "run_ledger \<Rightarrow> bool" where
  "keyed g \<longleftrightarrow> list_all (\<lambda>(i, c). sc_connector_instance_id c = i) (rl_coverage g)"

lemma keyed_insert: "list_all Q m \<Longrightarrow> Q (k, v) \<Longrightarrow> list_all Q (bt_insert k v m)"
  by (induction m) auto

lemma keyed_source: "keyed g \<Longrightarrow> keyed (record_source i f st d ob g)"
proof -
  assume k: "keyed g"
  then have "map_of (rl_coverage g) i = Some c \<Longrightarrow> sc_connector_instance_id c = i" for c
    by (auto simp: keyed_def list_all_iff dest!: map_of_SomeD)
  with k show ?thesis
    by (auto simp: keyed_def record_source_def Let_def advance_source_def intro!: keyed_insert split: option.splits)
qed

lemma keyed_same: "rl_coverage g' = rl_coverage g \<Longrightarrow> keyed g \<Longrightarrow> keyed g'"
  by (simp add: keyed_def)

lemma keyed_run: "keyed (snd (ledger_run l run evs))"
proof (induction evs rule: rev_induct)
  case (snoc ev evs)
  have "keyed g \<Longrightarrow> keyed (snd (ledger_step l ev g))" for g
  proof (cases ev)
    case (EvSucceeded r)
    assume k: "keyed g"
    show ?thesis
      by (auto simp: EvSucceeded record_succeeded_def Let_def split: option.split prod.split
          intro!: keyed_source intro: keyed_same [OF _ k])
  qed (auto simp: record_consulted_def record_failed_def intro: keyed_source)
  with snoc show ?case by (simp add: ledger_run_snoc case_prod_beta Let_def)
qed (simp add: keyed_def ledger_new_def)


text \<open>Rows of a run that has none yet are appended in the order of the ledger.\<close>

lemma upsert_source_new:
  "\<forall>r \<in> set rs. sr_run_id r \<noteq> sr_run_id n \<or> sr_connector_instance_id r \<noteq> sr_connector_instance_id n \<Longrightarrow>
   upsert_source n rs = rs @ [n]"
  by (induction rs) auto

lemma upsert_sources_new:
  "distinct (map sc_connector_instance_id cs) \<Longrightarrow>
   \<forall>r \<in> set rs. sr_run_id r = run \<longrightarrow> sr_connector_instance_id r \<notin> sc_connector_instance_id ` set cs \<Longrightarrow>
   fold (\<lambda>c. upsert_source (source_row_of run c)) cs rs = rs @ map (source_row_of run) cs"
proof (induction cs arbitrary: rs)
  case (Cons c cs)
  have "upsert_source (source_row_of run c) rs = rs @ [source_row_of run c]"
    using Cons.prems(2) by (intro upsert_source_new) (auto simp: source_row_of_def)
  moreover have "fold (\<lambda>c. upsert_source (source_row_of run c)) cs (rs @ [source_row_of run c])
      = (rs @ [source_row_of run c]) @ map (source_row_of run) cs"
    using Cons.prems by (intro Cons.IH) (auto simp: source_row_of_def)
  ultimately show ?case by simp
qed simp

lemma insert_evidences_new:
  "distinct (map ee_evidence_ref es) \<Longrightarrow>
   \<forall>r \<in> set rs. er_run_id r = run \<longrightarrow> ee_evidence_ref (er_entry r) \<notin> ee_evidence_ref ` set es \<Longrightarrow>
   fold (\<lambda>e. insert_evidence \<lparr>er_run_id = run, er_entry = e, er_target = f e\<rparr>) es rs
     = rs @ map (\<lambda>e. \<lparr>er_run_id = run, er_entry = e, er_target = f e\<rparr>) es"
proof (induction es arbitrary: rs)
  case (Cons e es)
  let ?n = "\<lparr>er_run_id = run, er_entry = e, er_target = f e\<rparr>"
  have "insert_evidence ?n rs = rs @ [?n]"
    using Cons.prems(2) by (auto simp: insert_evidence_def list_ex_iff)
  moreover have "fold (\<lambda>e. insert_evidence \<lparr>er_run_id = run, er_entry = e, er_target = f e\<rparr>) es (rs @ [?n])
      = (rs @ [?n]) @ map (\<lambda>e. \<lparr>er_run_id = run, er_entry = e, er_target = f e\<rparr>) es"
    using Cons.prems by (intro Cons.IH) auto
  ultimately show ?case by simp
qed simp

lemma coverage_ids:
  assumes "keyed g"
  shows "map sc_connector_instance_id (coverage g) = map fst (rl_coverage g)"
  using assms by (auto simp: keyed_def coverage_def list_all_iff)

lemma source_status_roundtrip [simp]: "parse_source_status (source_status_str st) = st"
  by (cases st) (simp_all add: parse_source_status_def)

lemma source_coverage_eta:
  "\<lparr>sc_connector_instance_id = sc_connector_instance_id c, sc_connector_family = sc_connector_family c,
    sc_status = sc_status c, sc_detail = sc_detail c, sc_observed_at = sc_observed_at c\<rparr> = c"
  by (cases c) simp

lemma filter_new_rows: "\<forall>r \<in> set rs. \<not> P r \<Longrightarrow> \<forall>r \<in> set ns. P r \<Longrightarrow> filter P (rs @ ns) = ns"
  by (simp add: filter_empty_conv)

lemma insort_key_map: "insort_key f (h x) (map h xs) = map h (insort_key (\<lambda>x. f (h x)) x xs)"
  by (induction xs) auto

lemma sort_key_map: "sort_key f (map h xs) = map h (sort_key (\<lambda>x. f (h x)) xs)"
  by (induction xs) (simp_all add: insort_key_map)

text \<open>
  What a run's ledger recorded is read back from the database: its coverage in the order of the
  instances, and its evidence in the order of the references, without the account identities that
  are not stored.
\<close>
theorem recorded_ledger_reads_back:
  assumes "g = snd (ledger_run l run evs)" "run_exists d run"
    and "run \<notin> sr_run_id ` set (db_sources d)" "run \<notin> er_run_id ` set (db_evidence d)"
    and "list_all (\<lambda>e. lib_entries l (lib_render_json l (target_value (ee_target e)))
           = Some (target_value (ee_target e))) (rl_entries g)"
  shows "\<exists>d'. record_ledger l g d = (Ok (), d') \<and> read_coverage d' run = coverage g
    \<and> read_evidence l d' run
        = map (\<lambda>e. e\<lparr>ee_account_identity := None\<rparr>) (sort_key ee_evidence_ref (rl_entries g))"
proof -
  let ?ns = "map (source_row_of run) (coverage g)"
  let ?es = "map (\<lambda>e. \<lparr>er_run_id = run, er_entry = e, er_target = target_json l (ee_target e)\<rparr>) (rl_entries g)"
  have so: "sorted_wrt (<) (map fst (rl_coverage g))" and k: "keyed g"
    using coverage_inv [of l run evs] keyed_run [of l run evs] by (simp_all add: assms(1))
  have dis: "distinct (map sc_connector_instance_id (coverage g))"
    unfolding coverage_ids [OF k] using so by (rule bt_sorted_distinct)
  have refs: "distinct (map ee_evidence_ref (rl_entries g))"
    using ledger_inv_run [of l run evs] by (simp add: assms(1) ledger_inv_def)
  define d' where "d' = d\<lparr>db_sources := db_sources d @ ?ns, db_evidence := db_evidence d @ ?es\<rparr>"
  have srcs: "fold (\<lambda>c. upsert_source (source_row_of run c)) (coverage g) (db_sources d) = db_sources d @ ?ns"
    using dis assms(3) by (intro upsert_sources_new) auto
  have evid: "fold (\<lambda>e. insert_evidence \<lparr>er_run_id = run, er_entry = e, er_target = target_json l (ee_target e)\<rparr>)
      (rl_entries g) (db_evidence d) = db_evidence d @ ?es"
    using refs assms(4) by (intro insert_evidences_new) auto
  have rec: "record_ledger l g d = (Ok (), d')"
    using assms(2) srcs evid by (simp add: record_ledger_def record_ledger_in_def d'_def assms(1))
  have "filter (\<lambda>r. sr_run_id r = run) (db_sources d') = ?ns"
  proof -
    have "filter (\<lambda>r. sr_run_id r = run) (db_sources d @ ?ns) = ?ns"
      using assms(3) by (intro filter_new_rows) (auto simp: source_row_of_def)
    then show ?thesis by (simp add: d'_def)
  qed
  moreover have "sorted (map sr_connector_instance_id ?ns)"
  proof -
    have "map sr_connector_instance_id ?ns = map fst (rl_coverage g)"
      using coverage_ids [OF k] by (simp add: source_row_of_def comp_def)
    with so show ?thesis by (simp add: strict_sorted_imp_sorted)
  qed
  ultimately have cov: "read_coverage d' run = coverage g"
    by (simp add: read_coverage_def sort_key_id_if_sorted source_row_of_def comp_def source_coverage_eta)
  have fe: "filter (\<lambda>r. er_run_id r = run) (db_evidence d') = ?es"
  proof -
    have "filter (\<lambda>r. er_run_id r = run) (db_evidence d @ ?es) = ?es"
      using assms(4) by (intro filter_new_rows) auto
    then show ?thesis by (simp add: d'_def)
  qed
  have restore: "(case target_json l (ee_target e) of None \<Rightarrow> NoTarget
      | Some t \<Rightarrow> (case lib_entries l t \<bind> read_target of None \<Rightarrow> NoTarget | Some v \<Rightarrow> v)) = ee_target e"
    if "e \<in> set (rl_entries g)" for e
    using assms(5) that by (simp add: target_json_def list_all_iff read_target_value)
  have "read_evidence l d' run = map (\<lambda>e. e\<lparr>ee_account_identity := None,
      ee_target := (case target_json l (ee_target e) of None \<Rightarrow> NoTarget
        | Some t \<Rightarrow> (case lib_entries l t \<bind> read_target of None \<Rightarrow> NoTarget | Some v \<Rightarrow> v))\<rparr>)
      (sort_key ee_evidence_ref (rl_entries g))"
    unfolding read_evidence_def fe by (simp add: sort_key_map comp_def)
  also have "\<dots> = map (\<lambda>e. e\<lparr>ee_account_identity := None\<rparr>) (sort_key ee_evidence_ref (rl_entries g))"
    by (rule map_cong) (simp_all add: restore)
  finally show ?thesis using rec cov by blast
qed

section \<open>Witnesses\<close>

text \<open>A clock whose text is a tally of its nanoseconds.\<close>

definition run_lib :: lib where
  "run_lib = settings_lib
     \<lparr>lib_to_rfc3339 := (\<lambda>t. replicate (nat t) (CHR ''x'')),
      lib_parse_rfc3339 := (\<lambda>s. Some (int (length s))),
      lib_julianday := (\<lambda>s. Some (rat_of_nat (length s)))\<rparr>"

lemma run_lib_simps [simp]:
  "lib_to_rfc3339 run_lib t = replicate (nat t) (CHR ''x'')"
  "lib_parse_rfc3339 run_lib s = Some (int (length s))"
  "lib_julianday run_lib s = Some (rat_of_nat (length s))"
  by (simp_all add: run_lib_def)

definition sample_versions :: "string \<Rightarrow> string option" where "sample_versions h = Some ''0.3.1''"

definition sample_selection :: briefing_selection where
  "sample_selection =
     \<lparr>bs_harness = ''claude'', bs_model = ''haiku'', bs_effort = Some ''low'', bs_certified_version = ''0.3''\<rparr>"

definition empty_db :: work_db where
  "empty_db = \<lparr>db_runs = [], db_sources = [], db_evidence = [], db_tasks = []\<rparr>"

definition sample_start :: run_start where
  "sample_start =
     \<lparr>rs_run_id = ''run-u'', rs_trigger = TriggerManual,
      rs_profile_reference = Some (selection_reference sample_selection), rs_session_id = None,
      rs_limits = ws_limits sample_settings, rs_idempotency_key = None, rs_started_at = [],
      rs_lease_owner = Some ''o'', rs_lease_expires_at = Some (lease_until run_lib 0)\<rparr>"

definition claimed_db :: work_db where
  "claimed_db = empty_db\<lparr>db_runs := [started_row sample_start]\<rparr>"

definition sample_claimed :: claimed_run where
  "sample_claimed = \<lparr>cr_run_id = ''run-u'', cr_lease_owner = ''o'', cr_trigger = TriggerManual,
     cr_selection = sample_selection, cr_settings = sample_settings\<rparr>"

lemma sample_read:
  "read_settings run_lib err (Some ''saved'') = Ok \<lparr>ss_configured = True, ss_settings = sample_settings\<rparr>"
proof -
  have "settings_typed sample_settings" using sample_renders by (simp add: renders_def)
  then show ?thesis
    by (simp add: read_settings_def stored_settings_def run_lib_def settings_lib_def read_write_settings)
qed

lemma sample_resolved: "resolve_briefing sample_settings sample_versions = Some (Ok sample_selection)"
proof -
  have "trim ''haiku'' = ''haiku''" "trim ''0.3.1'' = ''0.3.1''"
    "prefix [''0'', ''3''] (split_char (CHR ''.'') ''0.3.1'')" by code_simp+
  then show ?thesis
    by (simp add: resolve_briefing_def sample_settings_def sample_versions_def certify_briefing_def
        may_brief_claude claude_support certified_line sample_selection_def)
qed

lemma sample_claim:
  "claim run_lib err sample_versions (Some ''saved'') TriggerManual 0 ''u'' ''o'' id empty_db
    = Some (Ok (Claimed sample_claimed), claimed_db)"
  by (simp add: claim_def sample_read sample_resolved observe_or_settle_def active_run_def empty_db_def
      cooling_down_def claim_insert_def idempotency_key_def begin_run_def run_exists_def key_taken_def
      claimed_db_def sample_claimed_def sample_start_def Let_def)

lemma claimed_ok: "runs_ok (db_runs claimed_db)" "runs_ok (db_runs empty_db)"
  by (simp_all add: runs_ok_def claimed_db_def empty_db_def keys_of_def List.map_filter_def)

theorem at_most_one_active_run_witness:
  "\<exists>t. run_steps run_lib (\<lambda>_. []) sample_versions (Some ''saved'', empty_db) t
     \<and> filter is_running (db_runs (snd t)) \<noteq> [] \<and> length (filter is_running (db_runs (snd t))) \<le> 1"
proof (intro exI conjI)
  show r: "run_steps run_lib (\<lambda>_. []) sample_versions (Some ''saved'', empty_db) (Some ''saved'', claimed_db)"
    by (rule step [OF refl claims [OF sample_claim]])
  show "filter is_running (db_runs (snd (Some ''saved'', claimed_db))) \<noteq> []"
    by (simp add: claimed_db_def started_row_def is_running_def)
  show "length (filter is_running (db_runs (snd (Some ''saved'', claimed_db)))) \<le> 1"
    using at_most_one_active_run [OF r] claimed_ok(2) by simp
qed

theorem claim_takes_over_only_the_expired_witness:
  "\<exists>r. filter is_running (db_runs claimed_db) = [r] \<and> rr_lease_owner r = Some ''o''"
  using claim_takes_over_only_the_expired [OF sample_claim claimed_ok(2)]
  by (auto simp: sample_claimed_def)

theorem expired_lease_is_reclaimed_witness:
  "\<exists>c d'. claim run_lib (\<lambda>_. []) sample_versions (Some ''saved'') TriggerManual (20 * 60 * 10 ^ 9) ''v'' ''w'' id
       claimed_db = Some (Ok (Claimed c), d') \<and> cr_lease_owner c = ''w''"
proof -
  have "list_all (\<lambda>r. is_running r \<longrightarrow> expired run_lib (20 * 60 * 10 ^ 9) (rr_lease_expires_at r)) (db_runs claimed_db)"
    by (simp add: claimed_db_def started_row_def sample_start_def expired_def lease_until_def
        minutes_def lease_minutes_def)
  moreover have "\<not> run_exists claimed_db (''run-'' @ ''v'')"
    by (simp add: run_exists_def claimed_db_def started_row_def sample_start_def)
  ultimately have "\<exists>c d'. claim run_lib (\<lambda>_. []) sample_versions (Some ''saved'') TriggerManual (20 * 60 * 10 ^ 9)
      ''v'' ''w'' id claimed_db = Some (Ok (Claimed c), d')
      \<and> cr_lease_owner c = ''w''"
    using expired_lease_is_reclaimed [OF sample_read, where versions = sample_versions and sel = sample_selection
        and d = claimed_db and now = "20 * 60 * 10 ^ 9" and uuid = "''v''" and owner = "''w''"]
    by (simp add: sample_resolved claimed_ok) blast
  then show ?thesis by blast
qed

theorem commit_gate_excludes_reclaim_witness:
  "fst (assert_lease_for_commit run_lib ''run-u'' ''o'' 1 claimed_db)
   \<and> claim run_lib (\<lambda>_. []) sample_versions (Some ''saved'') TriggerManual 1 ''v'' ''w'' id claimed_db
       = Some (Ok (Observed ''run-u''), claimed_db)"
proof -
  have g: "fst (assert_lease_for_commit run_lib ''run-u'' ''o'' 1 claimed_db)"
    by (simp add: assert_lease_for_commit_def update_runs_def claimed_db_def started_row_def sample_start_def
        holds_def is_running_def lease_alive_def lease_until_def minutes_def lease_minutes_def)
  have c: "claim run_lib (\<lambda>_. []) sample_versions (Some ''saved'') TriggerManual 1 ''v'' ''w'' id claimed_db
      = Some (Ok (Observed ''run-u''), claimed_db)"
    by (simp add: claim_def sample_read sample_resolved observe_or_settle_def active_run_def claimed_db_def
        started_row_def sample_start_def is_running_def expired_def lease_until_def minutes_def
        lease_minutes_def)
  have laws: "\<And>r. r \<in> set (db_runs claimed_db) \<Longrightarrow> holds ''run-u'' ''o'' r \<Longrightarrow>
      \<exists>expiry. rr_lease_expires_at r = Some (lib_to_rfc3339 run_lib expiry)
        \<and> lib_parse_rfc3339 run_lib (lib_to_rfc3339 run_lib expiry) = Some expiry"
    by (rule exI [of _ "minutes lease_minutes"])
       (auto simp: claimed_db_def started_row_def sample_start_def lease_until_def minutes_def
         lease_minutes_def)
  have mono: "\<And>a b x y. a \<le> b \<Longrightarrow> lib_julianday run_lib (lib_to_rfc3339 run_lib a) = Some x \<Longrightarrow>
      lib_julianday run_lib (lib_to_rfc3339 run_lib b) = Some y \<Longrightarrow> x \<le> y"
    by auto
  from commit_gate_excludes_reclaim [OF claimed_ok(1) g laws mono c] g c show ?thesis by simp
qed

definition ended_db :: work_db where
  "ended_db = empty_db\<lparr>db_runs := [(started_row sample_start)\<lparr>rr_status := ''failed''\<rparr>]\<rparr>"

theorem stale_worker_cannot_commit_witness:
  "live_commit run_lib ''run-u'' ''o'' 1 sample_commit ended_db = (Ok (), ended_db)"
  using stale_worker_cannot_commit [OF refl [of run_lib "\<lambda>_. []" sample_versions "(None, ended_db)"],
      of "(started_row sample_start)\<lparr>rr_status := ''failed''\<rparr>" "''o''" 1 sample_commit]
  by (simp add: ended_db_def empty_db_def runs_ok_def keys_of_def List.map_filter_def started_row_def
      sample_start_def is_running_def)

definition sample_result :: tool_result where
  "sample_result = \<lparr>tr_family = Slack, tr_instance_id = ''slack-1'', tr_account_identity = Some ''T1'',
     tr_tool_call_id = ''c1'', tr_tool_definition_digest = [], tr_result = JNull, tr_observed_at = ''t''\<rparr>"

theorem recorded_ledger_reads_back_witness:
  "let l = plain_lib\<lparr>lib_entries := (\<lambda>_. Some (target_value NoTarget))\<rparr>;
       g = snd (ledger_run l ''run-u'' [EvSource ''slack-1'' ''slack'' WsEligible None None, EvSucceeded sample_result])
   in \<exists>d'. record_ledger l g claimed_db = (Ok (), d') \<and> read_coverage d' ''run-u'' = coverage g"
proof -
  define l where "l = plain_lib\<lparr>lib_entries := (\<lambda>_. Some (target_value NoTarget))\<rparr>"
  define g where "g = snd (ledger_run l ''run-u''
    [EvSource ''slack-1'' ''slack'' WsEligible None None, EvSucceeded sample_result])"
  have "list_all (\<lambda>e. ee_target e = NoTarget) (rl_entries g)"
    by (simp add: g_def ledger_run_def record_succeeded_def sample_result_def Let_def record_source_def
        ledger_new_def earned_entry_def resolve_evidence_def resolve_target_def json_get_def source_item_def eval_nat_numeral link_keys_def split: option.split)
  then have t: "list_all (\<lambda>e. lib_entries l (lib_render_json l (target_value (ee_target e)))
      = Some (target_value (ee_target e))) (rl_entries g)"
    by (simp add: l_def list_all_iff)
  have "run_exists claimed_db ''run-u''" "''run-u'' \<notin> sr_run_id ` set (db_sources claimed_db)"
    "''run-u'' \<notin> er_run_id ` set (db_evidence claimed_db)"
    by (simp_all add: run_exists_def claimed_db_def empty_db_def started_row_def sample_start_def)
  from recorded_ledger_reads_back [OF g_def this t] show ?thesis
    by (auto simp: Let_def g_def l_def)
qed

end
