(* ===== verification/Live_Briefing.thy ===== *)
theory Live_Briefing
  imports Work_Runs
begin

text \<open>
  The production run of \<open>work_briefing_live.rs\<close>: a provider session under the scoped read policy,
  whose stream is observed line by line. Evidence is what the stream showed; the brief cites tool
  calls, which are translated to references of the ledger before the commit. The provider, the
  clock and the heartbeats of a run are a script, an argument of the run.
\<close>

section \<open>The scope of a run\<close>

text \<open>
  What the observer uses of libraries: the record of \<open>Work_Evidence\<close>, lower-case mapping, and a JSON
  number of dollars as micro-dollars.
\<close>

record live_lib =
  lv_lib :: lib
  lv_reader :: brief_reader
  lv_lower :: "string \<Rightarrow> string"
  lv_micro :: "json \<Rightarrow> int option"

definition server_tokens :: "(string \<Rightarrow> string) \<Rightarrow> string \<Rightarrow> string list" where
  "server_tokens lower server =
     filter (\<lambda>t. t \<noteq> []) (split_by (\<lambda>c. \<not> ascii_alphanumeric c) (to_lowercase lower server))"

definition family_for_server :: "(string \<Rightarrow> string) \<Rightarrow> string \<Rightarrow> connector_family option" where
  "family_for_server lower server =
     find (\<lambda>f. list_ex (\<lambda>t. t = family_as_str f) (server_tokens lower server)) family_all"

definition briefing_scope ::
    "(string \<Rightarrow> string) \<Rightarrow> string list \<Rightarrow> string list \<Rightarrow> (string \<times> connector_family option) list" where
  "briefing_scope lower configured enabled =
     map (\<lambda>s. (s, family_for_server lower s))
       (filter (\<lambda>s. enabled = [] \<or> list_ex (\<lambda>e. e = s) enabled) configured)"

section \<open>Observing the stream\<close>

record usage_totals =
  ut_input :: int
  ut_output :: int
  ut_cached :: int
  ut_cost :: "int option"

definition wire_usage :: "usage_totals \<Rightarrow> run_usage" where
  "wire_usage u =
     \<lparr>ru_input_tokens = js_safe (ut_input u), ru_output_tokens = js_safe (ut_output u),
      ru_cached_input_tokens = js_safe (ut_cached u), ru_cost_microusd = ut_cost u\<rparr>"

record observer =
  ob_ledger :: run_ledger
  ob_pending :: "(string \<times> string) list"
  ob_citable :: "(string \<times> string) list"
  ob_text :: string
  ob_usage :: usage_totals
  ob_turn_done :: bool
  ob_tool_uses :: int

definition observer_new :: "string \<Rightarrow> observer" where
  "observer_new run_id =
     \<lparr>ob_ledger = ledger_new run_id, ob_pending = [], ob_citable = [], ob_text = [],
      ob_usage = \<lparr>ut_input = 0, ut_output = 0, ut_cached = 0, ut_cost = None\<rparr>, ob_turn_done = False,
      ob_tool_uses = 0\<rparr>"

definition observer_turn :: "observer \<Rightarrow> observer" where
  "observer_turn ob = ob\<lparr>ob_text := [], ob_turn_done := False\<rparr>"

definition result_text :: "json \<Rightarrow> string" where
  "result_text block =
     (case json_get block ''content'' of
        Some (JStr t) \<Rightarrow> t
      | Some (JArr parts) \<Rightarrow>
          join [CHR 0x0A] (List.map_filter (\<lambda>p. json_get p ''text'' \<bind> as_str) parts)
      | _ \<Rightarrow> [])"

definition content_blocks :: "json \<Rightarrow> json list" where
  "content_blocks message =
     (case json_get message ''message'' \<bind> (\<lambda>m. json_get m ''content'') \<bind> as_array of
        None \<Rightarrow> [] | Some blocks \<Rightarrow> blocks)"

definition record_result :: "live_lib \<Rightarrow> string \<Rightarrow> string \<Rightarrow> json \<Rightarrow> string \<Rightarrow> observer \<Rightarrow> observer" where
  "record_result lv call_id tool block now ob =
     (case strip_prefix tool ''mcp__'' \<bind> (\<lambda>rest. split_once rest ''__'') of
        None \<Rightarrow> ob
      | Some (server, _) \<Rightarrow>
          (case family_for_server (lv_lower lv) server of
             None \<Rightarrow> ob
           | Some family \<Rightarrow>
               if (case json_get block ''is_error'' \<bind> as_bool of None \<Rightarrow> False | Some b \<Rightarrow> b)
               then (let detail = result_text block in
                     if str_contains detail ''not one of the reviewed connector reads''
                        \<or> str_contains detail ''-byte limit''
                     then ob\<lparr>ob_ledger := record_consulted server (family_as_str family) (ob_ledger ob)\<rparr>
                     else ob\<lparr>ob_ledger := record_failed server (family_as_str family) (bounded detail 200)
                            (ob_ledger ob)\<rparr>)
               else (let raw = result_text block;
                         res = (case lib_parse_json (lv_lib lv) raw of
                                  Some v \<Rightarrow> v | None \<Rightarrow> JObj [(''text'', JStr raw)]);
                         (earned, g) = record_succeeded (lv_lib lv)
                           \<lparr>tr_family = family, tr_instance_id = server, tr_account_identity = None,
                            tr_tool_call_id = call_id, tr_tool_definition_digest = [], tr_result = res,
                            tr_observed_at = now\<rparr> (ob_ledger ob) in
                     ob\<lparr>ob_ledger := g, ob_citable := bt_insert call_id earned (ob_citable ob)\<rparr>)))"

definition str_field :: "json \<Rightarrow> string \<Rightarrow> string" where
  "str_field v k = (case json_get v k \<bind> as_str of None \<Rightarrow> [] | Some s \<Rightarrow> s)"

definition assistant_block :: "json \<Rightarrow> observer \<Rightarrow> observer" where
  "assistant_block block ob =
     (case json_get block ''type'' \<bind> as_str of
        None \<Rightarrow> ob
      | Some kind \<Rightarrow>
          if kind = ''text'' then
            (case json_get block ''text'' \<bind> as_str of
               None \<Rightarrow> ob
             | Some t \<Rightarrow> ob\<lparr>ob_text := (if ob_text ob = [] then t else ob_text ob @ [CHR 0x0A] @ t)\<rparr>)
          else if kind = ''tool_use'' then
            (let i = str_field block ''id''; name = str_field block ''name'' in
             if i \<noteq> [] \<and> name \<noteq> []
             then ob\<lparr>ob_tool_uses := i64_add (ob_tool_uses ob) 1,
                     ob_pending := bt_insert i name (ob_pending ob)\<rparr>
             else ob)
          else ob)"

definition user_block :: "live_lib \<Rightarrow> string \<Rightarrow> json \<Rightarrow> observer \<Rightarrow> observer" where
  "user_block lv now block ob =
     (if json_get block ''type'' \<bind> as_str \<noteq> Some ''tool_result'' then ob
      else (case json_get block ''tool_use_id'' \<bind> as_str of
              None \<Rightarrow> ob
            | Some call_id \<Rightarrow>
                (case map_of (ob_pending ob) call_id of
                   None \<Rightarrow> ob
                 | Some tool \<Rightarrow> record_result lv call_id tool block now ob)))"

definition i64_field :: "json \<Rightarrow> string \<Rightarrow> int" where
  "i64_field v k = (case json_get v k \<bind> as_i64 of None \<Rightarrow> 0 | Some i \<Rightarrow> i)"

definition result_message :: "live_lib \<Rightarrow> json \<Rightarrow> observer \<Rightarrow> observer" where
  "result_message lv message ob =
     (let u = ob_usage ob;
          u1 = (case json_get message ''usage'' of
                  None \<Rightarrow> u
                | Some usage \<Rightarrow>
                    u\<lparr>ut_input := i64_add (ut_input u) (i64_field usage ''input_tokens''),
                      ut_output := i64_add (ut_output u) (i64_field usage ''output_tokens''),
                      ut_cached := i64_add (ut_cached u) (i64_field usage ''cache_read_input_tokens'')\<rparr>);
          u2 = (case json_get message ''total_cost_usd'' \<bind> lv_micro lv of
                  None \<Rightarrow> u1
                | Some micro \<Rightarrow>
                    u1\<lparr>ut_cost := Some (i64_add (case ut_cost u1 of None \<Rightarrow> 0 | Some c \<Rightarrow> c) micro)\<rparr>) in
      ob\<lparr>ob_usage := u2, ob_turn_done := True\<rparr>)"

definition observe_message :: "live_lib \<Rightarrow> string \<Rightarrow> json \<Rightarrow> observer \<Rightarrow> observer" where
  "observe_message lv now message ob =
     (case json_get message ''type'' \<bind> as_str of
        None \<Rightarrow> ob
      | Some kind \<Rightarrow>
          if kind = ''assistant'' then fold assistant_block (content_blocks message) ob
          else if kind = ''user'' then fold (user_block lv now) (content_blocks message) ob
          else if kind = ''result'' then result_message lv message ob
          else ob)"

definition observe_line :: "live_lib \<Rightarrow> string \<Rightarrow> string \<Rightarrow> observer \<Rightarrow> observer" where
  "observe_line lv line now ob =
     (case lib_parse_json (lv_lib lv) line of None \<Rightarrow> ob | Some message \<Rightarrow> observe_message lv now message ob)"

definition translate :: "(string \<times> string) list \<Rightarrow> string \<Rightarrow> string" where
  "translate citable ref = (case map_of citable ref of Some r \<Rightarrow> r | None \<Rightarrow> ref)"

definition translate_citations :: "(string \<times> string) list \<Rightarrow> work_brief \<Rightarrow> work_brief" where
  "translate_citations citable b =
     b\<lparr>wb_tasks := map (\<lambda>t. t\<lparr>bt_evidence := map (translate citable) (bt_evidence t),
                                bt_primary_evidence := map_option (translate citable) (bt_primary_evidence t)\<rparr>)
                     (wb_tasks b)\<rparr>"

section \<open>One turn\<close>

datatype turn_end = TurnCompleted | ProviderEnded | DeadlineExceeded | TurnCancelled

text \<open>
  One round of the loop: whether the deadline has passed; the heartbeat and the cancellation flag
  where thirty seconds have gone by; and what the channel gave within a second.
\<close>

datatype received = RecvLine string string | RecvTimeout | RecvDisconnected

record tick =
  tk_past_deadline :: bool
  tk_heartbeat :: "(string, bool \<times> bool) result option"
  tk_received :: received

text \<open>\<open>new_calls\<close> calls are charged one by one; the first refusal stops.\<close>

fun charge_calls :: "nat \<Rightarrow> briefing_guard \<Rightarrow> bool \<times> briefing_guard" where
  "charge_calls 0 g = (True, g)"
| "charge_calls (Suc n) g =
     (case begin_tool_call g of
        (Inl _, g') \<Rightarrow> (False, g')
      | (Inr _, g') \<Rightarrow> charge_calls n g')"

text \<open>A line is observed, its new calls and its length are charged, and it may end the turn.\<close>

definition take_line ::
    "live_lib \<Rightarrow> string \<Rightarrow> string \<Rightarrow> observer \<Rightarrow> briefing_guard \<Rightarrow> turn_end option \<times> observer \<times> briefing_guard" where
  "take_line lv line now ob g =
     (let ob' = observe_line lv line now ob in
      case charge_calls (nat (ob_tool_uses ob' - ob_tool_uses ob)) g of
        (False, g1) \<Rightarrow> (Some DeadlineExceeded, ob', g1)
      | (True, g1) \<Rightarrow>
          (case record_output g1 (length line) of
             (Inl _, g2) \<Rightarrow> (Some DeadlineExceeded, ob', g2)
           | (Inr _, g2) \<Rightarrow> (if ob_turn_done ob' then Some TurnCompleted else None, ob', g2)))"

definition interrupted :: "tick \<Rightarrow> (string, turn_end) result option" where
  "interrupted t =
     (if tk_past_deadline t then Some (Ok DeadlineExceeded)
      else (case tk_heartbeat t of
              None \<Rightarrow> None
            | Some (Inl e) \<Rightarrow> Some (Err e)
            | Some (Inr (held, cancelled)) \<Rightarrow>
                if \<not> held \<or> cancelled then Some (Ok TurnCancelled) else None))"

text \<open>\<open>None\<close>: the script ends while the turn is still being read.\<close>

fun read_turn ::
    "live_lib \<Rightarrow> tick list \<Rightarrow> observer \<Rightarrow> briefing_guard
     \<Rightarrow> ((string, turn_end) result \<times> observer \<times> briefing_guard) option" where
  "read_turn lv [] ob g = None"
| "read_turn lv (t # ts) ob g =
     (case interrupted t of
        Some res \<Rightarrow> Some (res, ob, g)
      | None \<Rightarrow>
          (case tk_received t of
             RecvTimeout \<Rightarrow> read_turn lv ts ob g
           | RecvDisconnected \<Rightarrow> Some (Ok ProviderEnded, ob, g)
           | RecvLine line now \<Rightarrow>
               (case take_line lv line now ob g of
                  (Some e, ob', g') \<Rightarrow> Some (Ok e, ob', g')
                | (None, ob', g') \<Rightarrow> read_turn lv ts ob' g')))"

section \<open>A run\<close>

fun terminal_code :: "turn_end \<Rightarrow> string \<times> run_status" where
  "terminal_code TurnCancelled = (''cancelled'', RunCancelled)"
| "terminal_code DeadlineExceeded = (''budget_exceeded'', RunFailed)"
| "terminal_code ProviderEnded = (''provider_failed'', RunFailed)"
| "terminal_code TurnCompleted = (''provider_failed'', RunFailed)"

text \<open>
  The script: the servers of the harness's configuration, the errors of creating and starting the
  session, and for each turn whether it could be sent and what was read then. What a repair
  turn meets depends on the rejection it was asked about.
\<close>

record live_script =
  ls_configured :: "string list"
  ls_create :: "(string, unit) result"
  ls_start :: "(string, unit) result"
  ls_attach :: "(string, unit) result"
  ls_send :: "(string, unit) result"
  ls_ticks :: "tick list"
  ls_repair :: "brief_rejection \<Rightarrow> (string, unit) result \<times> tick list"

datatype live_end =
    LiveCommit work_brief run_ledger run_usage int int
  | LiveAbandon run_ledger string "string option" run_status run_usage int
  | LiveError string

definition offer_source :: "string \<times> connector_family option \<Rightarrow> run_ledger \<Rightarrow> run_ledger" where
  "offer_source = (\<lambda>(server, family).
     case family of
       Some f \<Rightarrow> record_source server (family_as_str f) WsEligible None None
     | None \<Rightarrow> record_source server ''unknown'' WsEligible
         (Some ''readable, but Bridge cannot resolve its family, so its results cannot anchor evidence'') None)"

definition give_up :: "observer \<Rightarrow> string \<Rightarrow> string option \<Rightarrow> run_status \<Rightarrow> int \<Rightarrow> live_end" where
  "give_up ob code detail status turns =
     LiveAbandon (ob_ledger ob) code detail status (wire_usage (ob_usage ob)) turns"

record repair_state =
  rp_observer :: observer
  rp_guard :: briefing_guard
  rp_turns :: int
  rp_failed :: "turn_end option"

text \<open>The outer \<open>None\<close> of a repair: its turn is still being read when the script ends.\<close>

definition ask_repair ::
    "live_lib \<Rightarrow> live_script \<Rightarrow> brief_rejection \<Rightarrow> repair_state option \<Rightarrow> string option \<times> repair_state option" where
  "ask_repair lv sc rej st =
     (case st of
        None \<Rightarrow> (None, None)
      | Some st \<Rightarrow>
          (case begin_turn (rp_guard st) of
             (Inl _, g) \<Rightarrow> (None, Some (st\<lparr>rp_guard := g, rp_failed := Some DeadlineExceeded\<rparr>))
           | (Inr _, g) \<Rightarrow>
               let st1 = st\<lparr>rp_guard := g, rp_turns := i64_add (rp_turns st) 1\<rparr> in
               (case ls_repair sc rej of
                  (Inl _, _) \<Rightarrow> (None, Some (st1\<lparr>rp_failed := Some ProviderEnded\<rparr>))
                | (Inr _, ticks) \<Rightarrow>
                    (case read_turn lv ticks (observer_turn (rp_observer st1)) g of
                       None \<Rightarrow> (None, None)
                     | Some (res, ob, g') \<Rightarrow>
                         let st2 = st1\<lparr>rp_observer := ob, rp_guard := g'\<rparr> in
                         (case res of
                            Inr TurnCompleted \<Rightarrow> (Some (ob_text ob), Some st2)
                          | Inr other \<Rightarrow> (None, Some (st2\<lparr>rp_failed := Some other\<rparr>))
                          | Inl _ \<Rightarrow> (None, Some (st2\<lparr>rp_failed := Some ProviderEnded\<rparr>)))))))"

definition conclude :: "brief_outcome \<Rightarrow> repair_state \<Rightarrow> live_end" where
  "conclude outcome st =
     (case outcome of
        BriefAccepted b _ \<Rightarrow>
          LiveCommit (translate_citations (ob_citable (rp_observer st)) b) (ob_ledger (rp_observer st))
            (wire_usage (ob_usage (rp_observer st))) (bg_tool_calls (rp_guard st)) (rp_turns st)
      | BriefRefused first repair \<Rightarrow>
          let (code, status) =
            (case rp_failed st of
               Some e \<Rightarrow> terminal_code e
             | None \<Rightarrow>
                 (case outcome_failure_code outcome of
                    Some c \<Rightarrow> (c, RunFailed) | None \<Rightarrow> (''schema_invalid'', RunFailed))) in
          give_up (rp_observer st) code
            (Some (rejection_detail (case repair of Some r \<Rightarrow> r | None \<Rightarrow> first))) status (rp_turns st))"

text \<open>The first turn: charged, sent and read.\<close>

definition first_turn ::
    "live_lib \<Rightarrow> live_script \<Rightarrow> observer \<Rightarrow> briefing_guard
     \<Rightarrow> ((string, turn_end) result \<times> observer \<times> briefing_guard \<times> int) option" where
  "first_turn lv sc ob g =
     (case begin_turn g of
        (Inl _, g') \<Rightarrow> Some (Ok DeadlineExceeded, ob, g', 0)
      | (Inr _, g') \<Rightarrow>
          (case ls_send sc of
             Inl e \<Rightarrow> Some (Err (''the briefing turn could not be sent: '' @ e), ob, g', 1)
           | Inr _ \<Rightarrow>
               map_option (\<lambda>(res, ob', g''). (res, ob', g'', 1))
                 (read_turn lv (ls_ticks sc) (observer_turn ob) g')))"

definition live_run ::
    "live_lib \<Rightarrow> string \<Rightarrow> work_settings \<Rightarrow> live_script \<Rightarrow> live_end option" where
  "live_run lv run_id w sc =
     (let offered = briefing_scope (lv_lower lv) (ls_configured sc) (ws_enabled_instances w);
          ob0 = observer_new run_id;
          ob = ob0\<lparr>ob_ledger := fold offer_source offered (ob_ledger ob0)\<rparr> in
      case compile_scoped (map fst offered) (ws_limits w) of
        Inl u \<Rightarrow> Some (give_up ob ''policy_invalid'' (Some (unsupported_reason u)) RunFailed 0)
      | Inr policy \<Rightarrow>
          (case ls_create sc of
             Inl e \<Rightarrow> Some (LiveError e)
           | Inr _ \<Rightarrow>
               (case ls_start sc of
                  Inl e \<Rightarrow> Some (give_up ob ''provider_failed'' (Some e) RunFailed 0)
                | Inr _ \<Rightarrow>
                    (case ls_attach sc of
                       Inl e \<Rightarrow> Some (LiveError e)
                     | Inr _ \<Rightarrow>
                         (case first_turn lv sc ob (guard_new policy) of
                            None \<Rightarrow> None
                          | Some (Inl e, ob1, g1, turns) \<Rightarrow>
                              Some (give_up ob1 ''provider_failed'' (Some e) RunFailed turns)
                          | Some (Inr TurnCompleted, ob1, g1, turns) \<Rightarrow>
                              let citable = ob_citable ob1 in
                              (case parse_with_one_repair (lv_reader lv) (ob_text ob1)
                                      (\<lambda>ref. map_of citable ref \<noteq> None) (ask_repair lv sc)
                                      (Some \<lparr>rp_observer = ob1, rp_guard = g1, rp_turns = turns,
                                        rp_failed = None\<rparr>) of
                                 (_, None) \<Rightarrow> None
                               | (outcome, Some st) \<Rightarrow> Some (conclude outcome st))
                          | Some (Inr other, ob1, g1, turns) \<Rightarrow>
                              let (code, status) = terminal_code other in
                              Some (give_up ob1 code None status turns))))))"

section \<open>The end of a run\<close>

definition brief_value :: "work_brief \<Rightarrow> json" where
  "brief_value b =
     JObj [(''version'', JPos (wb_version b)),
           (''tasks'', JArr (map (\<lambda>t. JObj
              ([(''rank'', json_int (bt_rank t)), (''title'', JStr (bt_title t)), (''why'', JStr (bt_why t)),
                (''confidenceBps'', json_int (bt_confidence_bps t))]
               @ (case bt_primary_evidence t of None \<Rightarrow> [] | Some p \<Rightarrow> [(''primaryEvidence'', JStr p)])
               @ [(''evidence'', JArr (map JStr (bt_evidence t)))])) (wb_tasks b)))]"

definition brief_digest :: "lib \<Rightarrow> work_brief \<Rightarrow> string" where
  "brief_digest l b = lib_sha l (''bridge-work-brief-v1'' @ [CHR 0x00] @ lib_render_json l (brief_value b))"

definition commit_of :: "lib \<Rightarrow> string \<Rightarrow> work_brief \<Rightarrow> run_ledger \<Rightarrow> run_usage \<Rightarrow> int \<Rightarrow> int \<Rightarrow> int \<Rightarrow> commit_request" where
  "commit_of l run_id b g usage calls turns ended =
     \<lparr>cm_run_id = run_id, cm_brief = b, cm_ledger = g,
      cm_outcome = \<lparr>ro_status = RunSucceeded, ro_output_digest = Some (brief_digest l b),
        ro_failure_code = None, ro_failure_detail = None, ro_usage = Some usage,
        ro_tool_calls = calls, ro_turns = turns, ro_completed_at = lib_to_rfc3339 l ended\<rparr>,
      cm_now = lib_to_rfc3339 l ended\<rparr>"

text \<open>
  What \<open>execute\<close> leaves in the database: the commit or the abandoning under one lock and, where the
  run returned an error, the settlement. \<open>describe\<close> is the text of a database error.
\<close>

definition live_finish ::
    "lib \<Rightarrow> (db_error \<Rightarrow> string) \<Rightarrow> string \<Rightarrow> string \<Rightarrow> int \<Rightarrow> int \<Rightarrow> live_end \<Rightarrow> work_db \<Rightarrow> work_db" where
  "live_finish l describe run_id owner now ended e d =
     (let settle = (\<lambda>(res, d'). case res of
            Inr _ \<Rightarrow> d' | Inl err \<Rightarrow> settle_internal l run_id owner (describe err) ended d') in
      case e of
        LiveCommit b g usage calls turns \<Rightarrow>
          settle (live_commit l run_id owner now (commit_of l run_id b g usage calls turns ended) d)
      | LiveAbandon g code detail status usage turns \<Rightarrow>
          settle (live_abandon l run_id owner g code detail status usage turns now ended d)
      | LiveError text_of \<Rightarrow> settle_internal l run_id owner text_of ended d)"

section \<open>What the stream showed\<close>

text \<open>
  A stream is its lines in the order they were received, each with the time it was. Whether a call
  was made on it, and what it returned, is read off the lines alone.
\<close>

definition lines_of :: "tick list \<Rightarrow> (string \<times> string) list" where
  "lines_of ts =
     List.map_filter (\<lambda>t. case tk_received t of RecvLine line now \<Rightarrow> Some (line, now) | _ \<Rightarrow> None) ts"

definition blocks_on :: "live_lib \<Rightarrow> string \<Rightarrow> string \<Rightarrow> json list" where
  "blocks_on lv kind line =
     (case lib_parse_json (lv_lib lv) line of
        None \<Rightarrow> []
      | Some m \<Rightarrow> if json_get m ''type'' \<bind> as_str = Some kind then content_blocks m else [])"

definition calls_tool :: "string \<Rightarrow> string \<Rightarrow> json \<Rightarrow> bool" where
  "calls_tool call_id tool block \<longleftrightarrow>
     json_get block ''type'' \<bind> as_str = Some ''tool_use'' \<and> call_id \<noteq> [] \<and> tool \<noteq> []
     \<and> json_get block ''id'' \<bind> as_str = Some call_id \<and> json_get block ''name'' \<bind> as_str = Some tool"

definition called_on :: "live_lib \<Rightarrow> (string \<times> string) list \<Rightarrow> string \<Rightarrow> string \<Rightarrow> bool" where
  "called_on lv heard call_id tool \<longleftrightarrow>
     list_ex (\<lambda>(line, _). list_ex (calls_tool call_id tool) (blocks_on lv ''assistant'' line)) heard"

text \<open>
  A successful read: a tool of a server whose family is known was called, and a later line, at
  \<open>tr_observed_at\<close>, answers the call without an error.
\<close>

definition answers :: "live_lib \<Rightarrow> tool_result \<Rightarrow> json \<Rightarrow> bool" where
  "answers lv r block \<longleftrightarrow>
     json_get block ''type'' \<bind> as_str = Some ''tool_result''
     \<and> json_get block ''tool_use_id'' \<bind> as_str = Some (tr_tool_call_id r)
     \<and> json_get block ''is_error'' \<bind> as_bool \<noteq> Some True
     \<and> tr_result r = (case lib_parse_json (lv_lib lv) (result_text block) of
          Some v \<Rightarrow> v | None \<Rightarrow> JObj [(''text'', JStr (result_text block))])"

definition read_on :: "live_lib \<Rightarrow> (string \<times> string) list \<Rightarrow> tool_result \<Rightarrow> bool" where
  "read_on lv heard r \<longleftrightarrow>
     (\<exists>before line after name.
        heard = before @ (line, tr_observed_at r) # after
        \<and> called_on lv before (tr_tool_call_id r) (''mcp__'' @ tr_instance_id r @ ''__'' @ name)
        \<and> family_for_server (lv_lower lv) (tr_instance_id r) = Some (tr_family r)
        \<and> list_ex (answers lv r) (blocks_on lv ''user'' line))"

text \<open>The reference is held by the ledger, and the entry behind it is of a successful read.\<close>

definition earned_on :: "live_lib \<Rightarrow> (string \<times> string) list \<Rightarrow> run_ledger \<Rightarrow> string \<Rightarrow> bool" where
  "earned_on lv heard g ref \<longleftrightarrow>
     ledger_contains g ref
     \<and> (\<exists>r e. read_on lv heard r \<and> ledger_entry g ref = Some e
          \<and> ee_tool_call_id e = tr_tool_call_id r \<and> ee_observed_at e = tr_observed_at r
          \<and> ee_result_digest e = result_digest (lv_lib lv) (tr_result r))"

lemma lines_of_simps [simp]:
  "lines_of [] = []"
  "lines_of (t # ts) = (case tk_received t of RecvLine line now \<Rightarrow> [(line, now)] | _ \<Rightarrow> []) @ lines_of ts"
  by (simp_all add: lines_of_def map_filter_simps split: received.split)

lemma called_more: "called_on lv heard c t \<Longrightarrow> called_on lv (heard @ xs) c t"
  by (auto simp: called_on_def)

lemma read_more: "read_on lv heard r \<Longrightarrow> read_on lv (heard @ xs) r"
  unfolding read_on_def by (metis append.assoc append_Cons)

section \<open>What the observer knows\<close>

text \<open>\<open>obs_inv lv run before heard ob\<close>: calls are those of \<open>before\<close>, reads those of \<open>heard\<close>.\<close>

definition reads_only :: "live_lib \<Rightarrow> (string \<times> string) list \<Rightarrow> ledger_event list \<Rightarrow> bool" where
  "reads_only lv heard evs \<longleftrightarrow> (\<forall>r. EvSucceeded r \<in> set evs \<longrightarrow> read_on lv heard r)"

definition obs_inv ::
    "live_lib \<Rightarrow> string \<Rightarrow> (string \<times> string) list \<Rightarrow> (string \<times> string) list \<Rightarrow> observer \<Rightarrow> bool" where
  "obs_inv lv run before heard ob \<longleftrightarrow>
     (\<exists>evs. ob_ledger ob = snd (ledger_run (lv_lib lv) run evs) \<and> reads_only lv heard evs)
     \<and> bt_sorted (ob_citable ob) \<and> bt_sorted (ob_pending ob)
     \<and> (\<forall>k r. map_of (ob_citable ob) k = Some r \<longrightarrow> ledger_contains (ob_ledger ob) r)
     \<and> (\<forall>k t. map_of (ob_pending ob) k = Some t \<longrightarrow> called_on lv before k t)"

definition obs_le :: "observer \<Rightarrow> observer \<Rightarrow> bool" where
  "obs_le ob ob' \<longleftrightarrow> dom (map_of (ob_citable ob)) \<subseteq> dom (map_of (ob_citable ob'))"

text \<open>Hearing \<open>xs\<close> takes the observer from \<open>ob\<close> to \<open>ob'\<close>.\<close>

definition obs_step :: "live_lib \<Rightarrow> string \<Rightarrow> (string \<times> string) list \<Rightarrow> observer \<Rightarrow> observer \<Rightarrow> bool" where
  "obs_step lv run xs ob ob' \<longleftrightarrow>
     (\<forall>T. obs_inv lv run T T ob \<longrightarrow> obs_inv lv run (T @ xs) (T @ xs) ob' \<and> obs_le ob ob')"

lemma obs_le_trans: "obs_le a b \<Longrightarrow> obs_le b c \<Longrightarrow> obs_le a c"
  by (auto simp: obs_le_def)

lemma obs_step_refl [simp]: "obs_step lv run [] ob ob"
  by (simp add: obs_step_def obs_le_def)

lemma obs_step_trans: "obs_step lv run xs a b \<Longrightarrow> obs_step lv run ys b c \<Longrightarrow> obs_step lv run (xs @ ys) a c"
  unfolding obs_step_def by (metis append.assoc obs_le_trans)

lemma obs_same:
  "ob_ledger ob' = ob_ledger ob \<Longrightarrow> ob_citable ob' = ob_citable ob \<Longrightarrow> ob_pending ob' = ob_pending ob \<Longrightarrow>
   obs_inv lv run T H ob' = obs_inv lv run T H ob"
  by (simp add: obs_inv_def)

lemma obs_more: "obs_inv lv run T H ob \<Longrightarrow> obs_inv lv run (T @ xs) (H @ ys) ob"
  unfolding obs_inv_def reads_only_def by (blast intro: called_more read_more)

lemma obs_le_refl [simp]: "obs_le ob ob"
  by (simp add: obs_le_def)

lemma obs_le_same: "ob_citable ob' = ob_citable ob \<Longrightarrow> obs_le ob ob'"
  by (simp add: obs_le_def)

lemma obs_le_insert: "obs_le ob (ob\<lparr>ob_ledger := g, ob_citable := bt_insert k r (ob_citable ob)\<rparr>)"
  by (auto simp: obs_le_def dom_map_of_conv_image_fst)

lemma ledger_run_step: "snd (ledger_step l ev (snd (ledger_run l run evs))) = snd (ledger_run l run (evs @ [ev]))"
  by (simp add: ledger_run_snoc case_prod_beta Let_def)

lemma ledger_refs_grow: "rl_refs g \<subseteq> rl_refs (snd (ledger_step l ev g))"
  by (cases ev) (auto simp: record_consulted_def record_failed_def record_source_def record_succeeded_def
      Let_def split: option.splits prod.splits)

text \<open>An event enters the ledger; a successful one must have been read.\<close>

lemma obs_event:
  assumes "obs_inv lv run T H ob" "\<And>r. ev = EvSucceeded r \<Longrightarrow> read_on lv H r"
  shows "obs_inv lv run T H (ob\<lparr>ob_ledger := snd (ledger_step (lv_lib lv) ev (ob_ledger ob))\<rparr>)"
proof -
  let ?g = "snd (ledger_step (lv_lib lv) ev (ob_ledger ob))"
  from assms(1) obtain evs where e: "ob_ledger ob = snd (ledger_run (lv_lib lv) run evs)" "reads_only lv H evs"
    by (auto simp: obs_inv_def)
  have "?g = snd (ledger_run (lv_lib lv) run (evs @ [ev]))" using e(1) ledger_run_step by simp
  moreover have "reads_only lv H (evs @ [ev])" using e(2) assms(2) by (auto simp: reads_only_def)
  moreover have "ledger_contains ?g r" if "ledger_contains (ob_ledger ob) r" for r
    using that ledger_refs_grow [of "ob_ledger ob" "lv_lib lv" ev] by (auto simp: ledger_contains_def)
  ultimately show ?thesis using assms(1) by (auto simp: obs_inv_def)
qed

lemma succeeded_ref:
  assumes "record_succeeded l r (snd (ledger_run l run evs)) = (ref, g')"
  shows "ref \<in> rl_refs g'"
proof -
  let ?g = "snd (ledger_run l run evs)"
  have refs: "rl_refs ?g = ee_evidence_ref ` set (rl_entries ?g)"
    using ledger_inv_run [of l run evs] by (simp add: ledger_inv_def)
  show ?thesis
  proof (cases "find (same_resource (re_canonical_resource_id
      (resolve_evidence l (tr_family r) (tr_instance_id r) (tr_result r)))) (rl_entries ?g)")
    case None
    with assms show ?thesis by (auto simp: record_succeeded_def Let_def record_source_def)
  next
    case (Some e)
    then have "e \<in> set (rl_entries ?g)" by (auto simp: find_Some_iff in_set_conv_nth)
    with refs have "ee_evidence_ref e \<in> rl_refs ?g" by simp
    with Some assms show ?thesis by (auto simp: record_succeeded_def Let_def record_source_def)
  qed
qed

lemma obs_earned:
  assumes "obs_inv lv run T H ob" "read_on lv H r"
    "record_succeeded (lv_lib lv) r (ob_ledger ob) = (ref, g)"
  shows "obs_inv lv run T H (ob\<lparr>ob_ledger := g, ob_citable := bt_insert k ref (ob_citable ob)\<rparr>)"
proof -
  have led: "obs_inv lv run T H (ob\<lparr>ob_ledger := g\<rparr>)"
    using obs_event [OF assms(1), of "EvSucceeded r"] assms(2,3) by simp
  from assms(1) obtain evs where "ob_ledger ob = snd (ledger_run (lv_lib lv) run evs)"
    by (auto simp: obs_inv_def)
  with assms(3) have "ledger_contains g ref" by (simp add: ledger_contains_def succeeded_ref)
  with led show ?thesis by (auto simp: obs_inv_def)
qed

text \<open>A result of a call made before is recorded on the line that shows it.\<close>

lemma obs_result:
  assumes inv: "obs_inv lv run T (T @ [(line, now)]) ob" and called: "called_on lv T call_id tool"
    and block: "block \<in> set (blocks_on lv ''user'' line)"
      "json_get block ''type'' \<bind> as_str = Some ''tool_result''"
      "json_get block ''tool_use_id'' \<bind> as_str = Some call_id"
  shows "obs_inv lv run T (T @ [(line, now)]) (record_result lv call_id tool block now ob)
    \<and> obs_le ob (record_result lv call_id tool block now ob)"
proof (cases "strip_prefix tool ''mcp__'' \<bind> (\<lambda>rest. split_once rest ''__'')")
  case (Some p)
  obtain server rest where p: "p = (server, rest)" by (cases p)
  have tool: "tool = ''mcp__'' @ server @ ''__'' @ rest"
    using Some p by (auto simp: strip_prefix_Some bind_eq_Some_conv dest: split_once_some)
  show ?thesis
  proof (cases "family_for_server (lv_lower lv) server")
    case (Some family)
    note head = \<open>_ = Some p\<close> [unfolded p] Some
    let ?H = "T @ [(line, now)]"
    let ?err = "json_get block ''is_error'' \<bind> as_bool = Some True"
    let ?detail = "result_text block"
    let ?denied = "str_contains ?detail ''not one of the reviewed connector reads'' \<or> str_contains ?detail ''-byte limit''"
    let ?tr = "\<lparr>tr_family = family, tr_instance_id = server, tr_account_identity = None,
       tr_tool_call_id = call_id, tr_tool_definition_digest = [],
       tr_result = (case lib_parse_json (lv_lib lv) ?detail of
          Some v \<Rightarrow> v | None \<Rightarrow> JObj [(''text'', JStr ?detail)]), tr_observed_at = now\<rparr>"
    obtain ref g where rs: "record_succeeded (lv_lib lv) ?tr (ob_ledger ob) = (ref, g)" by fastforce
    have eq: "record_result lv call_id tool block now ob =
      (if ?err then
         if ?denied then ob\<lparr>ob_ledger := record_consulted server (family_as_str family) (ob_ledger ob)\<rparr>
         else ob\<lparr>ob_ledger := record_failed server (family_as_str family) (bounded ?detail 200) (ob_ledger ob)\<rparr>
       else ob\<lparr>ob_ledger := g, ob_citable := bt_insert call_id ref (ob_citable ob)\<rparr>)"
      using head rs by (auto simp: record_result_def Let_def split: option.splits)
    have read: "read_on lv ?H ?tr" if "\<not> ?err"
    proof -
      have "answers lv ?tr block" using block(2,3) that by (simp add: answers_def)
      then have "list_ex (answers lv ?tr) (blocks_on lv ''user'' line)" using block(1) by (auto simp: list_ex_iff)
      with called tool Some show ?thesis
        unfolding read_on_def by (intro exI [of _ T] exI [of _ line] exI [of _ "[]"] exI [of _ rest]) simp
    qed
    show ?thesis
      unfolding eq
      using obs_event [OF inv, of "EvConsulted server (family_as_str family)"]
        obs_event [OF inv, of "EvFailed server (family_as_str family) (bounded ?detail 200)"]
        obs_earned [OF inv read rs] obs_le_insert obs_le_same [of _ ob]
      by simp
  qed (use Some p inv in \<open>simp add: record_result_def\<close>)
qed (use inv in \<open>simp add: record_result_def\<close>)

lemma fold_keeps:
  "(\<And>x s. x \<in> set xs \<Longrightarrow> P s \<Longrightarrow> P (f x s)) \<Longrightarrow> P s \<Longrightarrow> P (fold f xs s)"
  by (induction xs arbitrary: s) auto

lemma obs_assistant:
  assumes "obs_inv lv run (T @ [(line, now)]) H ob" "block \<in> set (blocks_on lv ''assistant'' line)"
  shows "obs_inv lv run (T @ [(line, now)]) H (assistant_block block ob) \<and> obs_le ob (assistant_block block ob)"
proof -
  have called: "called_on lv (T @ [(line, now)]) i name"
    if "json_get block ''type'' \<bind> as_str = Some ''tool_use''" "str_field block ''id'' = i" "i \<noteq> []"
      "str_field block ''name'' = name" "name \<noteq> []" for i name
  proof -
    have "calls_tool i name block"
      using that by (auto simp: calls_tool_def str_field_def split: option.splits)
    with assms(2) show ?thesis by (auto simp: called_on_def list_ex_iff)
  qed
  show ?thesis
    using assms(1) called
    by (auto simp: assistant_block_def Let_def obs_inv_def obs_le_def split: option.split)
qed

lemma obs_user:
  assumes "obs_inv lv run T (T @ [(line, now)]) ob" "block \<in> set (blocks_on lv ''user'' line)"
  shows "obs_inv lv run T (T @ [(line, now)]) (user_block lv now block ob) \<and> obs_le ob (user_block lv now block ob)"
proof -
  have "called_on lv T k t" if "map_of (ob_pending ob) k = Some t" for k t
    using assms(1) that by (simp add: obs_inv_def)
  then show ?thesis
    using assms by (auto simp: user_block_def obs_result split: option.split)
qed

lemma obs_step_line: "obs_step lv run [(line, now)] ob (observe_line lv line now ob)"
proof -
  let ?ob' = "observe_line lv line now ob"
  have "obs_inv lv run (T @ [(line, now)]) (T @ [(line, now)]) ?ob' \<and> obs_le ob ?ob'"
    if inv: "obs_inv lv run T T ob" for T
  proof (cases "lib_parse_json (lv_lib lv) line")
    case None
    then show ?thesis using obs_more [OF inv] by (simp add: observe_line_def)
  next
    case (Some m)
    let ?L = "[(line, now)]"
    let ?kind = "json_get m ''type'' \<bind> as_str"
    consider (assistant) "?kind = Some ''assistant''" | (user) "?kind = Some ''user''"
      | (other) "?kind \<noteq> Some ''assistant''" "?kind \<noteq> Some ''user''" by blast
    then show ?thesis
    proof cases
      case assistant
      then have b: "blocks_on lv ''assistant'' line = content_blocks m" using Some by (simp add: blocks_on_def)
      have "obs_inv lv run (T @ ?L) (T @ ?L) (fold assistant_block (content_blocks m) ob)
          \<and> obs_le ob (fold assistant_block (content_blocks m) ob)"
        by (rule fold_keeps) (use obs_assistant b obs_more [OF inv] in \<open>auto intro: obs_le_trans\<close>)
      with Some assistant show ?thesis by (simp add: observe_line_def observe_message_def)
    next
      case user
      then have b: "blocks_on lv ''user'' line = content_blocks m" using Some by (simp add: blocks_on_def)
      have "obs_inv lv run T (T @ ?L) (fold (user_block lv now) (content_blocks m) ob)
          \<and> obs_le ob (fold (user_block lv now) (content_blocks m) ob)"
        by (rule fold_keeps) (use obs_user b obs_more [OF inv, of "[]"] in \<open>auto intro: obs_le_trans\<close>)
      with Some user obs_more [of lv run T "T @ ?L" _ ?L "[]"] show ?thesis
        by (simp add: observe_line_def observe_message_def)
    next
      case other
      have "obs_inv lv run U H (result_message lv m ob) = obs_inv lv run U H ob" for U H
        by (rule obs_same) (simp_all add: result_message_def Let_def)
      moreover have "obs_le ob (result_message lv m ob)"
        by (rule obs_le_same) (simp add: result_message_def Let_def)
      ultimately show ?thesis
        using Some other obs_more [OF inv] by (auto simp: observe_line_def observe_message_def split: option.split)
    qed
  qed
  then show ?thesis unfolding obs_step_def by blast
qed

lemma obs_step_take: "take_line lv line now ob g = (e, ob', g') \<Longrightarrow> obs_step lv run [(line, now)] ob ob'"
  using obs_step_line [of lv run line now ob]
  by (auto simp: take_line_def Let_def split: prod.splits sum.splits bool.splits)

lemma obs_step_read:
  "read_turn lv ts ob g = Some (res, ob', g') \<Longrightarrow> \<exists>xs. prefix xs (lines_of ts) \<and> obs_step lv run xs ob ob'"
proof (induction lv ts ob g rule: read_turn.induct)
  case (2 lv t ts ob g)
  show ?case
  proof (cases "interrupted t = None \<and> (\<exists>line now. tk_received t = RecvLine line now)")
    case True
    then obtain line now where r: "interrupted t = None" "tk_received t = RecvLine line now" by blast
    obtain e ob1 g1 where tl: "take_line lv line now ob g = (e, ob1, g1)" by (metis prod_cases3)
    note s1 = obs_step_take [OF tl, of run]
    show ?thesis
    proof (cases e)
      case None
      then obtain xs where "prefix xs (lines_of ts)" "obs_step lv run xs ob1 ob'"
        using 2(1) [OF r(1,2) tl [symmetric] None HOL.refl] 2(3) None r tl by auto
      with s1 r show ?thesis
        by (intro exI [of _ "(line, now) # xs"]) (auto dest: obs_step_trans)
    qed (use 2(3) r tl s1 in \<open>auto intro!: exI [of _ "[(line, now)]"]\<close>)
  next
    case False
    then show ?thesis
      using 2(2,3) by (cases "interrupted t"; cases "tk_received t") (auto intro: exI [of _ "[]"])
  qed
qed simp

lemma obs_step_turn: "obs_step lv run xs (observer_turn ob) ob' \<Longrightarrow> obs_step lv run xs ob ob'"
proof -
  have "obs_inv lv run T T (observer_turn ob) = obs_inv lv run T T ob" for T
    by (rule obs_same) (simp_all add: observer_turn_def)
  moreover have "obs_le (observer_turn ob) ob' = obs_le ob ob'" by (simp add: obs_le_def observer_turn_def)
  ultimately show "obs_step lv run xs (observer_turn ob) ob' \<Longrightarrow> ?thesis" by (simp add: obs_step_def)
qed

text \<open>What an observer can cite is earned on what it heard.\<close>

lemma obs_inv_earned:
  assumes "obs_inv lv run T H ob" "map_of (ob_citable ob) k = Some ref"
  shows "earned_on lv H (ob_ledger ob) ref"
proof -
  from assms obtain evs where e: "ob_ledger ob = snd (ledger_run (lv_lib lv) run evs)" "reads_only lv H evs"
    and c: "ledger_contains (ob_ledger ob) ref"
    by (auto simp: obs_inv_def)
  from c e(1) obtain r en where "EvSucceeded r \<in> set evs" "ledger_entry (ob_ledger ob) ref = Some en"
    "backs (lv_lib lv) r en"
    using ledger_reference_backed by metis
  with e(2) c show ?thesis by (auto simp: earned_on_def reads_only_def backs_def)
qed

section \<open>What the guard counted\<close>

definition guard_ok :: "brief_limits \<Rightarrow> briefing_guard \<Rightarrow> bool" where
  "guard_ok b g \<longleftrightarrow> bg_limits g = b \<and> 0 \<le> bg_tool_calls g \<and> bg_tool_calls g \<le> bl_max_tool_calls b"

lemma guard_turn: "begin_turn g = (res, g') \<Longrightarrow> guard_ok b g \<Longrightarrow> guard_ok b g'"
  by (auto simp: begin_turn_def guard_ok_def split: if_splits)

lemma guard_call:
  assumes "begin_tool_call g = (res, g')" "guard_ok b g" "bl_max_tool_calls b \<le> i64_max"
  shows "guard_ok b g'"
proof -
  have "i64_add (bg_tool_calls g) 1 = bg_tool_calls g + 1" if "bg_tool_calls g < bl_max_tool_calls b"
    using that assms(2,3)
    by (intro i64_add_exact) (auto simp: guard_ok_def in_i64_def i64_min_def i64_max_def)
  with assms show ?thesis by (auto simp: begin_tool_call_def guard_ok_def split: if_splits)
qed

lemma guard_charge:
  "charge_calls n g = (res, g') \<Longrightarrow> guard_ok b g \<Longrightarrow> bl_max_tool_calls b \<le> i64_max \<Longrightarrow> guard_ok b g'"
  by (induction n g rule: charge_calls.induct) (auto split: prod.splits sum.splits dest: guard_call)

lemma guard_take:
  assumes "take_line lv line now ob g = (e, ob', g')" "guard_ok b g" "bl_max_tool_calls b \<le> i64_max"
  shows "guard_ok b g'"
proof -
  obtain r g1 where c: "charge_calls (nat (ob_tool_uses (observe_line lv line now ob) - ob_tool_uses ob)) g = (r, g1)"
    by fastforce
  have "guard_ok b g1" by (rule guard_charge [OF c assms(2,3)])
  with assms(1) c show ?thesis
    by (cases r) (auto simp: take_line_def Let_def record_output_def guard_ok_def split: if_splits)
qed

lemma guard_read:
  "read_turn lv ts ob g = Some (res, ob', g') \<Longrightarrow> guard_ok b g \<Longrightarrow> bl_max_tool_calls b \<le> i64_max \<Longrightarrow> guard_ok b g'"
proof (induction lv ts ob g rule: read_turn.induct)
  case (2 lv t ts ob g)
  show ?case
  proof (cases "tk_received t")
    case (RecvLine line now)
    obtain e ob1 g1 where tl: "take_line lv line now ob g = (e, ob1, g1)" by (metis prod_cases3)
    note g1 = guard_take [OF tl 2(4,5)]
    show ?thesis
      using 2 RecvLine tl g1 by (cases e) (auto split: option.splits)
  qed (use 2 in \<open>auto split: option.splits\<close>)
qed simp

section \<open>Properties\<close>

lemma offer_is_event:
  "\<exists>evs. fold offer_source offered (ledger_new run) = snd (ledger_run (lv_lib lv) run evs) \<and> reads_only lv [] evs"
proof (induction offered rule: rev_induct)
  case (snoc x xs)
  let ?l = "lv_lib lv"
  from snoc obtain evs where e: "fold offer_source xs (ledger_new run) = snd (ledger_run ?l run evs)"
    "reads_only lv [] evs" by blast
  obtain ev where "offer_source x g = snd (ledger_step ?l ev g)" "\<And>r. ev \<noteq> EvSucceeded r" for g
  proof (cases x)
    case (Pair server family)
    show ?thesis
      by (cases family) (rule that [of "EvSource server _ WsEligible _ None"], simp_all add: offer_source_def Pair)+
  qed
  then have "fold offer_source (xs @ [x]) (ledger_new run) = snd (ledger_run ?l run (evs @ [ev]))"
    "reads_only lv [] (evs @ [ev])"
    using e ledger_run_step [of ?l ev run evs] by (auto simp: reads_only_def)
  then show ?case by blast
qed (auto simp: reads_only_def intro: exI [of _ "[]"])

text \<open>The state a repair leaves, whether it happened or not.\<close>

definition repair_ok ::
    "live_lib \<Rightarrow> string \<Rightarrow> brief_limits \<Rightarrow> (string \<times> string) list \<Rightarrow> observer \<Rightarrow> int \<Rightarrow> repair_state \<Rightarrow> bool" where
  "repair_ok lv run b said ob n st \<longleftrightarrow>
     (\<exists>xs. prefix xs said \<and> obs_step lv run xs ob (rp_observer st)) \<and> guard_ok b (rp_guard st)
     \<and> 1 \<le> rp_turns st \<and> rp_turns st \<le> n"

lemma ask_repair_ok:
  assumes "ask_repair lv sc rej (Some st) = (a, Some st')" "repair_ok lv run b [] ob 1 st"
    "bl_max_tool_calls b \<le> i64_max"
  shows "repair_ok lv run b (lines_of (snd (ls_repair sc rej))) ob 2 st'"
proof -
  have here: "obs_step lv run [] ob (rp_observer st)" using assms(2) by (simp add: repair_ok_def)
  have one: "rp_turns st = 1" using assms(2) by (simp add: repair_ok_def)
  have two: "i64_add 1 1 = 2" by code_simp
  obtain r g where bt: "begin_turn (rp_guard st) = (r, g)" by fastforce
  have g: "guard_ok b g" using guard_turn [OF bt] assms(2) by (simp add: repair_ok_def)
  obtain s ticks where rp: "ls_repair sc rej = (s, ticks)" by fastforce
  show ?thesis
  proof (cases "r = Inr () \<and> s = Inr ()")
    case True
    with assms(1) bt rp obtain res ob' g' where
      rt: "read_turn lv ticks (observer_turn (rp_observer st)) g = Some (res, ob', g')"
      by (auto simp: ask_repair_def Let_def split: option.splits)
    obtain xs where "prefix xs (lines_of ticks)" "obs_step lv run xs (rp_observer st) ob'"
      using obs_step_read [OF rt, of run] obs_step_turn by blast
    then have "\<exists>xs. prefix xs (lines_of ticks) \<and> obs_step lv run xs ob ob'"
      using obs_step_trans [OF here] by fastforce
    moreover have "guard_ok b g'" by (rule guard_read [OF rt g assms(3)])
    ultimately show ?thesis
      using assms(1) True bt rp rt one two
      by (auto simp: ask_repair_def Let_def repair_ok_def split: sum.splits turn_end.splits)
  next
    case False
    with assms(1,2) bt rp g one two show ?thesis
      by (auto simp: ask_repair_def Let_def repair_ok_def split: sum.splits intro!: exI [of _ "[]"])
  qed
qed

lemma one_repair_ok:
  assumes "parse_with_one_repair br message earned (ask_repair lv sc) (Some st) = (outcome, Some st')"
    "repair_ok lv run b [] ob 1 st" "bl_max_tool_calls b \<le> i64_max"
  shows "\<exists>rej. repair_ok lv run b (lines_of (snd (ls_repair sc rej))) ob 2 st'"
proof (cases "parse_brief br message earned")
  case (Inr x)
  with assms show ?thesis by (auto simp: parse_with_one_repair_def repair_ok_def intro!: exI [of _ "[]"])
next
  case (Inl first)
  obtain a st1 where ar: "ask_repair lv sc first (Some st) = (a, st1)" by fastforce
  with Inl assms(1) have "st1 = Some st'"
    by (auto simp: parse_with_one_repair_def max_repair_attempts_def split: option.splits sum.splits)
  with ar ask_repair_ok assms(2,3) show ?thesis by blast
qed

lemma validated:
  assumes "validate b earned = Inr b'"
  shows "wb_version b = 1" "length (wb_tasks b) \<le> 12" "list_all (task_ok earned) (wb_tasks b)"
  using assms check_tasks_Ok [of earned "wb_tasks b" "()"]
  by (auto simp: validate_def brief_schema_version_def max_tasks_def split: if_splits sum.splits)


lemma first_turn_ok:
  assumes "first_turn lv sc ob g = Some (res, ob1, g1, turns)" "guard_ok b g" "bl_max_tool_calls b \<le> i64_max"
  shows "\<exists>xs. prefix xs (lines_of (ls_ticks sc)) \<and> obs_step lv run xs ob ob1" "guard_ok b g1"
    "res = Ok TurnCompleted \<Longrightarrow> turns = 1"
proof -
  obtain r g' where bt: "begin_turn g = (r, g')" by fastforce
  have g': "guard_ok b g'" by (rule guard_turn [OF bt assms(2)])
  have "(\<exists>xs. prefix xs (lines_of (ls_ticks sc)) \<and> obs_step lv run xs ob ob1) \<and> guard_ok b g1 \<and> (res = Ok TurnCompleted \<longrightarrow> turns = 1)"
  proof (cases "r = Inr () \<and> ls_send sc = Inr ()")
    case True
    with assms(1) bt have rt: "read_turn lv (ls_ticks sc) (observer_turn ob) g' = Some (res, ob1, g1)" "turns = 1"
      by (auto simp: first_turn_def)
    then show ?thesis
      using obs_step_turn obs_step_read [OF rt(1), of run] guard_read [OF rt(1) g' assms(3)] by blast
  qed (use assms(1) bt g' in \<open>auto simp: first_turn_def split: sum.splits intro!: exI [of _ "[]"]\<close>)
  then show "\<exists>xs. prefix xs (lines_of (ls_ticks sc)) \<and> obs_step lv run xs ob ob1" "guard_ok b g1"
    "res = Ok TurnCompleted \<Longrightarrow> turns = 1"
    by blast+
qed

text \<open>How a run comes to a commit.\<close>

lemma live_commit_origin:
  assumes "live_run lv run w sc = Some (LiveCommit b g usage calls turns)"
    "bl_max_tool_calls (ws_limits w) \<le> i64_max"
  obtains first rej ob1 st b0 where "prefix first (lines_of (ls_ticks sc))" "obs_inv lv run first first ob1"
    "repair_ok lv run (ws_limits w) (lines_of (snd (ls_repair sc rej))) ob1 2 st"
    "validate b0 (\<lambda>ref. map_of (ob_citable ob1) ref \<noteq> None) = Inr b0"
    "b = translate_citations (ob_citable (rp_observer st)) b0" "g = ob_ledger (rp_observer st)"
    "calls = bg_tool_calls (rp_guard st)" "turns = rp_turns st"
proof -
  let ?offered = "briefing_scope (lv_lower lv) (ls_configured sc) (ws_enabled_instances w)"
  let ?ob = "(observer_new run)\<lparr>ob_ledger := fold offer_source ?offered (ob_ledger (observer_new run))\<rparr>"
  from assms(1) obtain policy ob1 g1 turns1 where
    c: "compile_scoped (map fst ?offered) (ws_limits w) = Inr policy"
    and f: "first_turn lv sc ?ob (guard_new policy) = Some (Inr TurnCompleted, ob1, g1, turns1)"
    by (auto simp: live_run_def Let_def give_up_def split: sum.splits option.splits turn_end.splits prod.splits)
  let ?earned = "\<lambda>ref. map_of (ob_citable ob1) ref \<noteq> None"
  let ?st = "\<lparr>rp_observer = ob1, rp_guard = g1, rp_turns = turns1, rp_failed = None\<rparr>"
  from assms(1) c f obtain outcome st where
    p: "parse_with_one_repair (lv_reader lv) (ob_text ob1) ?earned (ask_repair lv sc) (Some ?st) = (outcome, Some st)"
    and e: "conclude outcome st = LiveCommit b g usage calls turns"
    by (auto simp: live_run_def Let_def give_up_def split: sum.splits option.splits prod.splits)
  from e obtain b0 rep where o: "outcome = BriefAccepted b0 rep"
    by (cases outcome) (auto simp: conclude_def give_up_def Let_def split: prod.splits)
  have inv0: "obs_inv lv run [] [] ?ob"
    using offer_is_event [of ?offered run lv] by (auto simp: obs_inv_def observer_new_def)
  have "guard_ok (ws_limits w) (guard_new policy)"
    using c by (auto simp: compile_scoped_def check_limits_def guard_ok_def guard_new_def split: if_splits)
  note ft = first_turn_ok [OF f this assms(2)]
  have "repair_ok lv run (ws_limits w) [] ob1 1 ?st" using ft(2,3) by (simp add: repair_ok_def)
  from one_repair_ok [OF p this assms(2)] obtain rej where
    st: "repair_ok lv run (ws_limits w) (lines_of (snd (ls_repair sc rej))) ob1 2 st" by blast
  obtain first where "prefix first (lines_of (ls_ticks sc))" "obs_inv lv run first first ob1"
    using ft(1) [of run] inv0 by (fastforce simp: obs_step_def)
  moreover have "validate b0 ?earned = Inr b0"
    using repaired_brief_Ok [of "lv_reader lv" "ob_text ob1" ?earned "ask_repair lv sc" "Some ?st" b0 rep] p o
    by simp
  ultimately show thesis using that st e o by (auto simp: conclude_def)
qed

text \<open>
  C9. What a live run commits is grounded in what it read: at most twelve tasks, each citing at
  least one reference, and every cited or primary reference held by the committed ledger, its
  entry carrying the call, the time and the digest of a successful read that the run's stream
  shows - a call of a tool of a known server, answered without an error on a later line - among
  the lines read in the first turn and then in the one repair turn. The run took one or two turns
  and, where its limit is an \<open>i64\<close>, no more tool calls than it allows.
\<close>
theorem live_commit_is_grounded:
  assumes "live_run lv run w sc = Some (LiveCommit b g usage calls turns)"
    "bl_max_tool_calls (ws_limits w) \<le> i64_max"
  shows "(\<exists>first second rej. prefix first (lines_of (ls_ticks sc))
      \<and> prefix second (lines_of (snd (ls_repair sc rej)))
      \<and> list_all (\<lambda>t. bt_evidence t \<noteq> [] \<and> list_all (earned_on lv (first @ second) g) (bt_evidence t)
           \<and> (case bt_primary_evidence t of None \<Rightarrow> True | Some p \<Rightarrow> earned_on lv (first @ second) g p)) (wb_tasks b))
    \<and> length (wb_tasks b) \<le> 12
    \<and> 1 \<le> turns \<and> turns \<le> 2 \<and> 0 \<le> calls \<and> calls \<le> bl_max_tool_calls (ws_limits w)"
proof -
  from live_commit_origin [OF assms] obtain first rej ob1 st b0 where
    f: "prefix first (lines_of (ls_ticks sc))" and
    o: "obs_inv lv run first first ob1"
    "repair_ok lv run (ws_limits w) (lines_of (snd (ls_repair sc rej))) ob1 2 st"
    "validate b0 (\<lambda>ref. map_of (ob_citable ob1) ref \<noteq> None) = Inr b0"
    "b = translate_citations (ob_citable (rp_observer st)) b0" "g = ob_ledger (rp_observer st)"
    "calls = bg_tool_calls (rp_guard st)" "turns = rp_turns st" .
  let ?c = "ob_citable (rp_observer st)"
  from o(1,2) obtain second where s: "prefix second (lines_of (snd (ls_repair sc rej)))"
    and inv: "obs_inv lv run (first @ second) (first @ second) (rp_observer st)" and le: "obs_le ob1 (rp_observer st)"
    by (auto simp: repair_ok_def obs_step_def)
  let ?earned = "earned_on lv (first @ second) g"
  have held: "?earned (translate ?c ref)" if "map_of (ob_citable ob1) ref \<noteq> None" for ref
  proof -
    from that le obtain r where "map_of ?c ref = Some r" by (auto simp: obs_le_def)
    with obs_inv_earned [OF inv this] o(5) show ?thesis by (simp add: translate_def)
  qed
  note v = validated [OF o(3)]
  have "bt_evidence t \<noteq> [] \<and> list_all ?earned (map (translate ?c) (bt_evidence t))
      \<and> (case map_option (translate ?c) (bt_primary_evidence t) of None \<Rightarrow> True | Some p \<Rightarrow> ?earned p)"
    if "t \<in> set (wb_tasks b0)" for t
    using v(3) that held by (fastforce simp: list_all_iff task_ok_def split: option.splits)
  then have "list_all (\<lambda>t. bt_evidence t \<noteq> [] \<and> list_all ?earned (bt_evidence t)
         \<and> (case bt_primary_evidence t of None \<Rightarrow> True | Some p \<Rightarrow> ?earned p)) (wb_tasks b)"
    by (auto simp: o(4) translate_citations_def list_all_iff)
  moreover have "length (wb_tasks b) \<le> 12" using v(2) by (simp add: o(4) translate_citations_def)
  ultimately show ?thesis
    using f s o(2,5-7) by (auto simp: repair_ok_def guard_ok_def)
qed

text \<open>
  C22. A run that is refused, cancelled, out of budget or broken leaves every task as it was,
  whatever it had read and whoever holds the lease.
\<close>
theorem failed_run_keeps_the_board:
  "(case e of
      LiveCommit _ _ _ _ _ \<Rightarrow> True
    | _ \<Rightarrow> db_tasks (live_finish l describe run owner now ended e d) = db_tasks d)"
proof -
  have a: "db_tasks (snd (assert_lease_for_commit l i ow n d)) = db_tasks d" for i ow n
    by (simp add: assert_lease_for_commit_def update_runs_def)
  have s: "db_tasks (settle_internal l i ow x n d1) = db_tasks d1" for i ow x n d1
    by (simp add: settle_internal_def update_runs_def)
  have r: "db_tasks (release i ow d1) = db_tasks d1" for i ow d1
    by (simp add: release_def update_runs_def)
  show ?thesis
  proof (cases e)
    case (LiveAbandon g code detail status usage turns)
    obtain b d1 where d1: "assert_lease_for_commit l run owner now d = (b, d1)" by fastforce
    then have "db_tasks d1 = db_tasks d" using a [of run owner now] by simp
    with d1 LiveAbandon s r show ?thesis
      by (cases b; cases "record_ledger_in l g d1")
         (auto simp: live_finish_def live_abandon_def abandon_run_def finish_run_def dest: record_ledger_Ok(1))
  qed (simp_all add: live_finish_def s)
qed

section \<open>A scripted run\<close>

text \<open>
  Two turns over one connector. The first turn shows tool call \<open>t1\<close> and writes no block; the repair
  turn makes the call again under the same id, is shown another message, and cites \<open>t1\<close>.
\<close>

definition demo_lines :: "(string \<times> json) list" where
  "demo_lines =
     [(''u'', JObj [(''type'', JStr ''assistant''), (''message'', JObj [(''content'', JArr
         [JObj [(''type'', JStr ''tool_use''), (''id'', JStr ''t1''), (''name'', JStr ''mcp__slack__read'')]])])]),
      (''r'', JObj [(''type'', JStr ''user''), (''message'', JObj [(''content'', JArr
         [JObj [(''type'', JStr ''tool_result''), (''tool_use_id'', JStr ''t1''), (''content'', JStr ''m1'')]])])]),
      (''q'', JObj [(''type'', JStr ''user''), (''message'', JObj [(''content'', JArr
         [JObj [(''type'', JStr ''tool_result''), (''tool_use_id'', JStr ''t1''), (''content'', JStr ''m2'')]])])]),
      (''x'', JObj [(''type'', JStr ''assistant''), (''message'', JObj [(''content'', JArr
         [JObj [(''type'', JStr ''text''), (''text'', JStr ''no block'')]])])]),
      (''a'', JObj [(''type'', JStr ''assistant''), (''message'', JObj [(''content'', JArr
         [JObj [(''type'', JStr ''text''),
                (''text'', JStr (''```bridge-work-brief'' @ [CHR 0x0A] @ ''{}'' @ [CHR 0x0A] @ ''```''))]])])]),
      (''d'', JObj [(''type'', JStr ''result'')])]"

definition demo_brief :: json where
  "demo_brief = JObj [(''version'', JPos 1), (''tasks'', JArr
     [JObj [(''rank'', JPos 1), (''title'', JStr ''Reply''), (''why'', JStr ''asked''),
            (''confidenceBps'', JPos 8000), (''evidence'', JArr [JStr ''t1''])]])]"

definition demo_live :: live_lib where
  "demo_live = \<lparr>lv_lib = plain_lib\<lparr>lib_parse_json := map_of demo_lines\<rparr>,
     lv_reader = \<lparr>br_json = (\<lambda>_. Some demo_brief), br_error = (\<lambda>_. (True, [])), br_alphanumeric = (\<lambda>_. False)\<rparr>,
     lv_lower = (\<lambda>c. c), lv_micro = (\<lambda>_. None)\<rparr>"

definition said :: "string list \<Rightarrow> tick list" where
  "said = map (\<lambda>line. \<lparr>tk_past_deadline = False, tk_heartbeat = None, tk_received = RecvLine line ''now''\<rparr>)"

definition demo_script :: live_script where
  "demo_script = \<lparr>ls_configured = [''slack''], ls_create = Ok (), ls_start = Ok (), ls_attach = Ok (),
     ls_send = Ok (), ls_ticks = said [''u'', ''r'', ''x'', ''d''],
     ls_repair = (\<lambda>_. (Ok (), said [''u'', ''q'', ''a'', ''d'']))\<rparr>"


lemma demo_parse:
  "lib_parse_json (lv_lib demo_live) = map_of demo_lines" "lv_lower demo_live = (\<lambda>c. c)"
  "lv_micro demo_live = (\<lambda>_. None)"
  by (simp_all add: demo_live_def)

lemma observe_u:
  "observe_line demo_live ''u'' ''now'' ob =
     ob\<lparr>ob_tool_uses := i64_add (ob_tool_uses ob) 1,
        ob_pending := bt_insert ''t1'' ''mcp__slack__read'' (ob_pending ob)\<rparr>"
  by (simp add: observe_line_def demo_parse demo_lines_def observe_message_def content_blocks_def
      json_get_def obj_get_def assistant_block_def str_field_def)

lemma observe_x:
  "observe_line demo_live ''x'' ''now'' ob =
     ob\<lparr>ob_text := (if ob_text ob = [] then ''no block'' else ob_text ob @ [CHR 0x0A] @ ''no block'')\<rparr>"
  by (simp add: observe_line_def demo_parse demo_lines_def observe_message_def content_blocks_def
      json_get_def obj_get_def assistant_block_def str_field_def)

definition demo_text :: string where
  "demo_text = ''```bridge-work-brief'' @ [CHR 0x0A] @ ''{}'' @ [CHR 0x0A] @ ''```''"

lemma observe_a:
  "observe_line demo_live ''a'' ''now'' ob =
     ob\<lparr>ob_text := (if ob_text ob = [] then demo_text else ob_text ob @ [CHR 0x0A] @ demo_text)\<rparr>"
  by (simp add: observe_line_def demo_parse demo_lines_def observe_message_def content_blocks_def
      json_get_def obj_get_def assistant_block_def str_field_def demo_text_def)

lemma observe_d:
  "observe_line demo_live ''d'' ''now'' ob = ob\<lparr>ob_turn_done := True\<rparr>"
  by (simp add: observe_line_def demo_parse demo_lines_def observe_message_def result_message_def
      json_get_def obj_get_def)

lemma slack_server: "family_for_server (\<lambda>c. c) ''slack'' = Some Slack" by code_simp

lemma earned_fresh:
  "re_canonical_resource_id (resolve_evidence l (tr_family r) (tr_instance_id r) (tr_result r)) = None \<Longrightarrow>
   fst (record_succeeded l r g) = evidence_ref_of g
   \<and> rl_next_index (snd (record_succeeded l r g)) = rl_next_index g + 1
   \<and> rl_run_id (snd (record_succeeded l r g)) = rl_run_id g
   \<and> rl_refs (snd (record_succeeded l r g)) = insert (evidence_ref_of g) (rl_refs g)"
  by (simp add: record_succeeded_def Let_def same_resource_def record_source_def find_None_iff split: option.split)

definition shown :: "string \<Rightarrow> observer \<Rightarrow> observer" where
  "shown text_of ob =
     (let (ref, g) = record_succeeded (lv_lib demo_live)
        \<lparr>tr_family = Slack, tr_instance_id = ''slack'', tr_account_identity = None, tr_tool_call_id = ''t1'',
         tr_tool_definition_digest = [], tr_result = JObj [(''text'', JStr text_of)], tr_observed_at = ''now''\<rparr>
        (ob_ledger ob) in
      ob\<lparr>ob_ledger := g, ob_citable := bt_insert ''t1'' ref (ob_citable ob)\<rparr>)"

lemma observe_r:
  assumes "map_of (ob_pending ob) ''t1'' = Some ''mcp__slack__read''"
  shows "observe_line demo_live ''r'' ''now'' ob = shown ''m1'' ob"
    and "observe_line demo_live ''q'' ''now'' ob = shown ''m2'' ob"
  using assms slack_server
  by (simp_all add: observe_line_def demo_parse demo_lines_def observe_message_def content_blocks_def
      json_get_def obj_get_def user_block_def record_result_def result_text_def shown_def)


lemma shown_simps [simp]:
  "ob_tool_uses (shown m ob) = ob_tool_uses ob" "ob_pending (shown m ob) = ob_pending ob"
  "ob_text (shown m ob) = ob_text ob" "ob_turn_done (shown m ob) = ob_turn_done ob"
  "ob_usage (shown m ob) = ob_usage ob"
  by (simp_all add: shown_def split: prod.split)

lemma no_resource:
  "re_canonical_resource_id (resolve_evidence (lv_lib demo_live) Slack ''slack'' (JObj [(''text'', JStr m)])) = None"
  by (simp add: resolve_evidence_def source_item_def eval_nat_numeral wrapper_of_def wrapper_keys_def
      json_get_def obj_get_def get_str_def is_container_def item_text_def Let_def split: option.split)

lemma shown_cites:
  "bt_sorted (ob_citable ob) \<Longrightarrow>
   map_of (ob_citable (shown m ob)) k = (if k = ''t1'' then Some (evidence_ref_of (ob_ledger ob)) else map_of (ob_citable ob) k)"
  "rl_next_index (ob_ledger (shown m ob)) = rl_next_index (ob_ledger ob) + 1"
  "rl_run_id (ob_ledger (shown m ob)) = rl_run_id (ob_ledger ob)"
  "rl_refs (ob_ledger (shown m ob)) = insert (evidence_ref_of (ob_ledger ob)) (rl_refs (ob_ledger ob))"
  using earned_fresh [of "lv_lib demo_live" "\<lparr>tr_family = Slack, tr_instance_id = ''slack'',
      tr_account_identity = None, tr_tool_call_id = ''t1'', tr_tool_definition_digest = [],
      tr_result = JObj [(''text'', JStr m)], tr_observed_at = ''now''\<rparr>" "ob_ledger ob"]
  by (simp_all add: shown_def no_resource split: prod.split) (metis fst_conv snd_conv)+

lemma i64_small: "i64_add 0 1 = 1" "i64_add 1 1 = 2" by code_simp+

definition demo_guard :: "int \<Rightarrow> int \<Rightarrow> nat \<Rightarrow> briefing_guard" where
  "demo_guard turns calls bytes =
     \<lparr>bg_limits = ws_limits sample_settings, bg_max_output_bytes = 256 * 1024, bg_turns = turns,
      bg_tool_calls = calls, bg_output_bytes = bytes, bg_prompts_denied = []\<rparr>"

lemma sample_limits: "ws_limits sample_settings = ws_limits default_settings" by (simp add: sample_settings_def)

lemma demo_policy: "\<exists>policy. compile_scoped [''slack''] (ws_limits sample_settings) = Inr policy \<and> guard_new policy = demo_guard 0 0 0"
proof -
  have "trim ''slack'' \<noteq> []" by code_simp
  then show ?thesis
  by (simp add: compile_scoped_def check_limits_def sample_limits default_settings_def settings_bounds
      guard_new_def demo_guard_def default_max_output_bytes_def)
qed

lemma demo_turn: "begin_turn (demo_guard 0 0 b) = (Inr (), demo_guard 1 0 b)"
   "begin_turn (demo_guard 1 c b) = (Inr (), demo_guard 2 c b)"
  by (simp_all add: begin_turn_def demo_guard_def sample_limits default_settings_def settings_bounds i64_small)

lemma demo_output:
  "b + n \<le> 256 * 1024 \<Longrightarrow> record_output (demo_guard t c b) n = (Inr (), demo_guard t c (b + n))"
  by (simp add: record_output_def demo_guard_def usize_saturating_add_def usize_max_def)

lemma demo_call: "0 \<le> c \<Longrightarrow> c < 24 \<Longrightarrow> begin_tool_call (demo_guard t c b) = (Inr (), demo_guard t (c + 1) b)"
  by (simp add: begin_tool_call_def demo_guard_def sample_limits default_settings_def settings_bounds
      i64_add_exact in_i64_def i64_min_def i64_max_def)

lemma take_quiet:
  assumes "observe_line demo_live line ''now'' ob = ob'" "ob_tool_uses ob' = ob_tool_uses ob"
    "b' = b + length line" "b' \<le> 256 * 1024"
  shows "take_line demo_live line ''now'' ob (demo_guard t c b) =
    (if ob_turn_done ob' then Some TurnCompleted else None, ob', demo_guard t c b')"
  using assms by (simp add: take_line_def demo_output)

lemma take_call:
  assumes "observe_line demo_live line ''now'' ob = ob'" "ob_tool_uses ob' = ob_tool_uses ob + 1"
    "b' = b + length line" "b' \<le> 256 * 1024" "0 \<le> c" "c < 24"
  shows "take_line demo_live line ''now'' ob (demo_guard t c b) =
    (if ob_turn_done ob' then Some TurnCompleted else None, ob', demo_guard t (c + 1) b')"
proof -
  have "charge_calls (Suc 0) (demo_guard t c b) = (True, demo_guard t (c + 1) b)"
    using assms(5,6) by (simp add: demo_call)
  with assms(1-4) show ?thesis by (simp add: take_line_def demo_output)
qed

lemma read_said:
  "take_line demo_live line ''now'' ob g = (None, ob', g') \<Longrightarrow>
   read_turn demo_live (said (line # ls)) ob g = read_turn demo_live (said ls) ob' g'"
  "take_line demo_live line ''now'' ob g = (Some e, ob', g') \<Longrightarrow>
   read_turn demo_live (said (line # ls)) ob g = Some (Ok e, ob', g')"
  by (simp_all add: said_def interrupted_def)

definition demo_start :: observer where
  "demo_start = (observer_new ''run-u'')
     \<lparr>ob_ledger := offer_source (''slack'', Some Slack) (ledger_new ''run-u'')\<rparr>"

definition called :: "observer \<Rightarrow> observer" where
  "called ob = ob\<lparr>ob_tool_uses := i64_add (ob_tool_uses ob) 1,
     ob_pending := bt_insert ''t1'' ''mcp__slack__read'' (ob_pending ob)\<rparr>"

definition answered :: "string \<Rightarrow> observer \<Rightarrow> observer" where
  "answered s ob = ob\<lparr>ob_text := s, ob_turn_done := True\<rparr>"

lemma turn_of_script:
  assumes "ob_text ob = []" "\<not> ob_turn_done ob" "0 \<le> ob_tool_uses ob" "ob_tool_uses ob < 10" "bt_sorted (ob_pending ob)"
    "0 \<le> c" "c < 24" "b < 1000" "(a, s) \<in> {(''x'', ''no block''), (''a'', demo_text)}" "(r, m) \<in> {(''r'', ''m1''), (''q'', ''m2'')}"
  shows "read_turn demo_live (said [''u'', r, a, ''d'']) ob (demo_guard t c b)
    = Some (Ok TurnCompleted, answered s (shown m (called ob)), demo_guard t (c + 1) (b + 4))"
proof -
  let ?o1 = "called ob" let ?o2 = "shown m ?o1" let ?o3 = "?o2\<lparr>ob_text := s\<rparr>"
  have n: "i64_add (ob_tool_uses ob) 1 = ob_tool_uses ob + 1"
    using assms(3,4) by (intro i64_add_exact) (simp add: in_i64_def i64_min_def i64_max_def)
  have o1: "observe_line demo_live ''u'' ''now'' ob = ?o1" by (simp add: observe_u called_def)
  have p: "map_of (ob_pending ?o1) ''t1'' = Some ''mcp__slack__read''"
    using assms(5) by (simp add: called_def)
  have o2: "observe_line demo_live r ''now'' ?o1 = ?o2" using observe_r [OF p] assms(10) by auto
  have o3: "observe_line demo_live a ''now'' ?o2 = ?o3"
    using assms(1,9) by (auto simp: observe_x observe_a called_def)
  have len: "length r = 1" "length a = 1" using assms(9,10) by auto
  have u: "ob_tool_uses ?o1 = ob_tool_uses ob + 1" "\<not> ob_turn_done ?o1" "\<not> ob_turn_done ?o3"
    using n assms(2) by (simp_all add: called_def)
  have t1: "take_line demo_live ''u'' ''now'' ob (demo_guard t c b) = (None, ?o1, demo_guard t (c + 1) (b + 1))"
    using take_call [OF o1 u(1), of "b + 1" b c t] assms(6-8) u(2) by simp
  have t2: "take_line demo_live r ''now'' ?o1 (demo_guard t (c + 1) (b + 1)) = (None, ?o2, demo_guard t (c + 1) (b + 2))"
    using take_quiet [OF o2, of "b + 2" "b + 1" t "c + 1"] assms(8) len(1) u(2) by simp
  have t3: "take_line demo_live a ''now'' ?o2 (demo_guard t (c + 1) (b + 2)) = (None, ?o3, demo_guard t (c + 1) (b + 3))"
    using take_quiet [OF o3, of "b + 3" "b + 2" t "c + 1"] assms(8) len(2) u(2) by simp
  have o4: "observe_line demo_live ''d'' ''now'' ?o3 = answered s ?o2" by (simp add: observe_d answered_def)
  have t4: "take_line demo_live ''d'' ''now'' ?o3 (demo_guard t (c + 1) (b + 3))
      = (Some TurnCompleted, answered s ?o2, demo_guard t (c + 1) (b + 4))"
    using take_quiet [OF o4, of "b + 4" "b + 3" t "c + 1"] assms(8) by (simp add: answered_def)
  show ?thesis
    by (simp only: read_said(1) [OF t1] read_said(1) [OF t2] read_said(1) [OF t3] read_said(2) [OF t4])
qed


definition demo_task :: "string \<Rightarrow> brief_task" where
  "demo_task ref = \<lparr>bt_rank = 1, bt_title = ''Reply'', bt_why = ''asked'', bt_confidence_bps = 8000,
     bt_primary_evidence = None, bt_evidence = [ref]\<rparr>"

lemma demo_read: "Option.bind (br_json (lv_reader demo_live) p) read_work_brief
   = Some \<lparr>wb_version = 1, wb_tasks = [demo_task ''t1'']\<rparr>"
  by (simp add: demo_live_def demo_brief_def read_work_brief_def read_brief_task_def strict_fields_def
      struct_fields_def read_i64_def read_u32_def obj_get_def obj_keys_def get_str_def read_option_def
      read_strings_def i64_max_def u32_max_def demo_task_def)

lemma demo_validate:
  "earned ''t1'' \<Longrightarrow> validate \<lparr>wb_version = 1, wb_tasks = [demo_task ''t1'']\<rparr> earned
   = Inr \<lparr>wb_version = 1, wb_tasks = [demo_task ''t1'']\<rparr>"
proof -
  have "length (chars ''Reply'') \<le> 160" "length (chars ''asked'') \<le> 400" "trim ''Reply'' \<noteq> []" by code_simp+
  then have "task_ok earned (demo_task ''t1'')" if "earned ''t1''"
    unfolding task_ok_def demo_task_def using that by (simp del: chars.simps)
  then have "check_tasks earned [demo_task ''t1''] = Inr ()" if "earned ''t1''"
    using that by (simp add: check_tasks_Ok del: check_tasks.simps)
  then show "earned ''t1'' \<Longrightarrow> ?thesis"
    by (simp add: validate_def brief_schema_version_def max_tasks_def demo_task_def del: check_tasks.simps)
qed

lemma demo_fences: "extract_fenced ''no block'' = Inl (FenceCount 0)" "extract_fenced demo_text = Inr (''{}'' @ [CHR 0x0A])"
  by code_simp+

lemma demo_parses:
  "parse_brief (lv_reader demo_live) ''no block'' earned = Inl (FenceCount 0)"
  "earned ''t1'' \<Longrightarrow> parse_brief (lv_reader demo_live) demo_text earned = Inr \<lparr>wb_version = 1, wb_tasks = [demo_task ''t1'']\<rparr>"
  using demo_fences demo_validate [of earned] by (simp_all add: parse_brief_def demo_read)


definition demo_first :: observer where
  "demo_first = answered ''no block'' (shown ''m1'' (called (observer_turn demo_start)))"

definition demo_last :: observer where
  "demo_last = answered demo_text (shown ''m2'' (called (observer_turn demo_first)))"

lemma demo_start_simps:
  "ob_text demo_start = []" "ob_tool_uses demo_start = 0" "ob_pending demo_start = []" "ob_citable demo_start = []"
  "rl_next_index (ob_ledger demo_start) = 1" "rl_run_id (ob_ledger demo_start) = ''run-u''"
  by (simp_all add: demo_start_def observer_new_def offer_source_def record_source_def ledger_new_def Let_def)

lemma demo_first_simps:
  "ob_text demo_first = ''no block''" "ob_turn_done demo_first" "ob_tool_uses demo_first = 1"
  "ob_pending demo_first = [(''t1'', ''mcp__slack__read'')]"
  "bt_sorted (ob_citable demo_first)" "map_of (ob_citable demo_first) ''t1'' = Some ''run-u:ev-1''"
  "rl_next_index (ob_ledger demo_first) = 2" "rl_run_id (ob_ledger demo_first) = ''run-u''"
proof -
  have "dec 1 = ''1''" by code_simp
  then have r: "evidence_ref_of (ob_ledger demo_start) = ''run-u:ev-1''"
    by (simp add: evidence_ref_of_def demo_start_simps)
  have c: "called (observer_turn demo_start) = demo_start\<lparr>ob_turn_done := False, ob_tool_uses := 1,
      ob_pending := [(''t1'', ''mcp__slack__read'')]\<rparr>"
    by (simp add: called_def observer_turn_def demo_start_simps i64_small) 
  show "ob_text demo_first = ''no block''" "ob_turn_done demo_first" "ob_tool_uses demo_first = 1"
    "ob_pending demo_first = [(''t1'', ''mcp__slack__read'')]"
    by (simp_all add: demo_first_def answered_def c)
  show "map_of (ob_citable demo_first) ''t1'' = Some ''run-u:ev-1''"
    "rl_next_index (ob_ledger demo_first) = 2" "rl_run_id (ob_ledger demo_first) = ''run-u''"
    using r by (simp_all add: demo_first_def answered_def c shown_cites demo_start_simps)
  show "bt_sorted (ob_citable demo_first)"
    by (simp add: demo_first_def answered_def c shown_def demo_start_simps split: prod.split)
qed

lemma demo_last_simps:
  "ob_text demo_last = demo_text" "map_of (ob_citable demo_last) ''t1'' = Some ''run-u:ev-2''"
proof -
  have "dec 2 = ''2''" by code_simp
  then have r: "evidence_ref_of (ob_ledger demo_first) = ''run-u:ev-2''"
    by (simp add: evidence_ref_of_def demo_first_simps)
  have c: "called (observer_turn demo_first) = demo_first\<lparr>ob_text := [], ob_turn_done := False, ob_tool_uses := 2,
      ob_pending := [(''t1'', ''mcp__slack__read'')]\<rparr>"
    by (simp add: called_def observer_turn_def demo_first_simps i64_small)
  show "ob_text demo_last = demo_text" by (simp add: demo_last_def answered_def)
  show "map_of (ob_citable demo_last) ''t1'' = Some ''run-u:ev-2''"
    using r by (simp add: demo_last_def answered_def c shown_cites demo_first_simps)
qed

lemma observer_turn_simps:
  "ob_text (observer_turn ob) = []" "ob_turn_done (observer_turn ob) = False"
  "ob_tool_uses (observer_turn ob) = ob_tool_uses ob" "ob_pending (observer_turn ob) = ob_pending ob"
  by (simp_all add: observer_turn_def)

lemma demo_reads:
  "read_turn demo_live (ls_ticks demo_script) (observer_turn demo_start) (demo_guard 1 0 0)
     = Some (Ok TurnCompleted, demo_first, demo_guard 1 1 4)"
  "ls_repair demo_script rej = (Ok (), ticks) \<Longrightarrow>
   read_turn demo_live ticks (observer_turn demo_first) (demo_guard 2 1 4)
     = Some (Ok TurnCompleted, demo_last, demo_guard 2 2 8)"
  using turn_of_script [of "observer_turn demo_start" 0 0 "''x''" "''no block''" "''r''" "''m1''" 1]
    turn_of_script [of "observer_turn demo_first" 1 4 "''a''" demo_text "''q''" "''m2''" 2]
  by (auto simp: demo_script_def demo_start_simps demo_first_simps demo_first_def [symmetric]
      demo_last_def [symmetric] observer_turn_simps)

definition demo_cited :: work_brief where
  "demo_cited = \<lparr>wb_version = 1, wb_tasks = [demo_task ''run-u:ev-2'']\<rparr>"

lemma demo_run:
  "live_run demo_live ''run-u'' sample_settings demo_script
     = Some (LiveCommit demo_cited (ob_ledger demo_last) (wire_usage (ob_usage demo_last)) 2 2)"
proof -
  have scope: "briefing_scope (lv_lower demo_live) (ls_configured demo_script) (ws_enabled_instances sample_settings)
      = [(''slack'', Some Slack)]"
    using slack_server
    by (simp add: briefing_scope_def demo_parse demo_script_def sample_settings_def default_settings_def)
  have start: "(observer_new ''run-u'')\<lparr>ob_ledger := fold offer_source [(''slack'', Some Slack)]
      (ob_ledger (observer_new ''run-u''))\<rparr> = demo_start"
    by (simp add: demo_start_def observer_new_def)
  obtain policy where pol: "compile_scoped [''slack''] (ws_limits sample_settings) = Inr policy"
    "guard_new policy = demo_guard 0 0 0" using demo_policy by blast
  have ft: "first_turn demo_live demo_script demo_start (demo_guard 0 0 0)
      = Some (Ok TurnCompleted, demo_first, demo_guard 1 1 4, 1)"
    using demo_reads(1) by (simp add: first_turn_def demo_turn) (simp add: demo_script_def)
  obtain ticks where ticks: "ls_repair demo_script (FenceCount 0) = (Ok (), ticks)" by (simp add: demo_script_def)
  let ?st = "\<lparr>rp_observer = demo_first, rp_guard = demo_guard 1 1 4, rp_turns = 1, rp_failed = None\<rparr>"
  let ?st2 = "\<lparr>rp_observer = demo_last, rp_guard = demo_guard 2 2 8, rp_turns = 2, rp_failed = None\<rparr>"
  have ask: "ask_repair demo_live demo_script (FenceCount 0) (Some ?st) = (Some demo_text, Some ?st2)"
    using demo_reads(2) [OF ticks] by (simp add: ask_repair_def demo_turn ticks i64_small demo_last_simps)
  have parse: "parse_with_one_repair (lv_reader demo_live) (ob_text demo_first)
      (\<lambda>ref. map_of (ob_citable demo_first) ref \<noteq> None) (ask_repair demo_live demo_script) (Some ?st)
      = (BriefAccepted \<lparr>wb_version = 1, wb_tasks = [demo_task ''t1'']\<rparr> True, Some ?st2)"
    using ask by (simp add: parse_with_one_repair_def demo_first_simps demo_parses max_repair_attempts_def)
  have con: "conclude (BriefAccepted \<lparr>wb_version = 1, wb_tasks = [demo_task ''t1'']\<rparr> True) ?st2
      = LiveCommit demo_cited (ob_ledger demo_last) (wire_usage (ob_usage demo_last)) 2 2"
    by (simp add: conclude_def demo_cited_def translate_citations_def translate_def demo_last_simps demo_task_def)
       (simp add: demo_guard_def)
  show ?thesis
    unfolding live_run_def Let_def scope start
    using pol ft parse con by (simp) (simp add: demo_script_def)
qed

theorem live_commit_is_grounded_witness:
  "\<exists>heard. list_all (\<lambda>t. bt_evidence t \<noteq> [] \<and> list_all (earned_on demo_live heard (ob_ledger demo_last)) (bt_evidence t))
     (wb_tasks demo_cited)"
proof -
  have "bl_max_tool_calls (ws_limits sample_settings) \<le> i64_max"
    by (simp add: sample_limits default_settings_def settings_bounds i64_max_def)
  from live_commit_is_grounded [OF demo_run this] show ?thesis
    by (auto simp: list_all_iff)
qed

text \<open>
  In that run the brief is validated against what the first turn could cite, but its citations are
  translated by what the observer knows after the repair: of the tool call id used again, the commit
  cites the evidence of the repair.
\<close>

lemma repair_turn_earns_a_citation:
  "\<exists>b g u. live_run demo_live ''run-u'' sample_settings demo_script = Some (LiveCommit b g u 2 2)
     \<and> map bt_evidence (wb_tasks b) = [[''run-u:ev-2'']]
     \<and> map_of (ob_citable demo_first) ''t1'' = Some ''run-u:ev-1''"
  using demo_run demo_first_simps(6) by (auto simp: demo_cited_def demo_task_def)

end
