(* ===== verification/Session_Forest.thy ===== *)
theory Session_Forest
  imports Json "HOL-Library.Monad_Syntax"
begin

text \<open>
  The history of a session, \<open>session_forest.rs\<close> with \<open>append_session_entry_tx\<close> of \<open>store.rs\<close> and
  the forking of \<open>sessions.rs\<close>: entries that are never changed, each with the entry it continues,
  and a head per session. JSON columns are kept as their values. Fresh identifiers, the clock and
  the state of the repository are arguments.
\<close>

section \<open>Entries\<close>

definition typed_schema_marker :: string where "typed_schema_marker = ''_bridgeTypedSchemaVersion''"
definition typed_schema_version :: nat where "typed_schema_version = 1"
definition repo_state_key :: string where "repo_state_key = ''_bridgeRepoState''"
definition semantic_schema_version :: int where "semantic_schema_version = 2"
definition min_semantic_schema_version :: int where "min_semantic_schema_version = 1"

datatype entry_kind =
    UserMessage | AssistantMessage | ToolStarted | ToolCompleted | ApprovalRequested
  | ApprovalResolved | DelegationRequested | DelegationApproved | DelegationRejected
  | WorkerResultEntry | CheckpointEntry | HandoffBrief | CompactionRequested | CompactionEntry
  | CompactionFailed | BranchSummary | ModelChanged | EffortChanged | SessionStatus
  | SessionResumeFailed | ArtifactCreated | LegacyKind string

fun kind_as_str :: "entry_kind \<Rightarrow> string" where
  "kind_as_str UserMessage = ''user.message''"
| "kind_as_str AssistantMessage = ''assistant.message''"
| "kind_as_str ToolStarted = ''tool.started''"
| "kind_as_str ToolCompleted = ''tool.completed''"
| "kind_as_str ApprovalRequested = ''approval.requested''"
| "kind_as_str ApprovalResolved = ''approval.resolved''"
| "kind_as_str DelegationRequested = ''delegation.requested''"
| "kind_as_str DelegationApproved = ''delegation.approved''"
| "kind_as_str DelegationRejected = ''delegation.rejected''"
| "kind_as_str WorkerResultEntry = ''worker.result''"
| "kind_as_str CheckpointEntry = ''checkpoint''"
| "kind_as_str HandoffBrief = ''handoff.brief''"
| "kind_as_str CompactionRequested = ''compaction.requested''"
| "kind_as_str CompactionEntry = ''compaction''"
| "kind_as_str CompactionFailed = ''compaction.failed''"
| "kind_as_str BranchSummary = ''branch.summary''"
| "kind_as_str ModelChanged = ''model.changed''"
| "kind_as_str EffortChanged = ''effort.changed''"
| "kind_as_str SessionStatus = ''session.status''"
| "kind_as_str SessionResumeFailed = ''session.resume_failed''"
| "kind_as_str ArtifactCreated = ''artifact.created''"
| "kind_as_str (LegacyKind v) = v"

definition typed_kinds :: "entry_kind list" where
  "typed_kinds =
     [UserMessage, AssistantMessage, ToolStarted, ToolCompleted, ApprovalRequested, ApprovalResolved,
      DelegationRequested, DelegationApproved, DelegationRejected, WorkerResultEntry, CheckpointEntry,
      HandoffBrief, CompactionRequested, CompactionEntry, CompactionFailed, BranchSummary,
      ModelChanged, EffortChanged, SessionStatus, SessionResumeFailed, ArtifactCreated]"

definition kind_from_storage :: "string \<Rightarrow> entry_kind" where
  "kind_from_storage v =
     (case find (\<lambda>k. kind_as_str k = v) typed_kinds of Some k \<Rightarrow> k | None \<Rightarrow> LegacyKind v)"

datatype forest_error =
    DatabaseError string
  | StorageError string
  | SessionNotFound string
  | EntryNotFound string string
  | EntryBelongsToOtherSession string string string
  | UnsupportedEntryKind string
  | UnsupportedSemanticSchemaVersion string int
  | InvalidPayload string string
  | OrphanParent string string
  | CrossSessionParent string string string string
  | CycleError string string
  | InvalidHead string string

fun forest_error_display :: "forest_error \<Rightarrow> string" where
  "forest_error_display (DatabaseError e) = ''database: '' @ e"
| "forest_error_display (StorageError e) = ''storage: '' @ e"
| "forest_error_display (SessionNotFound s) = ''session not found: '' @ s"
| "forest_error_display (EntryNotFound s e) = ''entry not found: '' @ e @ '' in session '' @ s"
| "forest_error_display (EntryBelongsToOtherSession e expected actual) =
     ''entry '' @ e @ '' belongs to session '' @ actual @ '', not '' @ expected"
| "forest_error_display (UnsupportedEntryKind k) = ''unsupported entry kind for append: '' @ k"
| "forest_error_display (UnsupportedSemanticSchemaVersion e v) =
     ''unsupported semantic event schema version ''
     @ (if v < 0 then ''-'' @ dec (nat (- v)) else dec (nat v)) @ '' on entry '' @ e"
| "forest_error_display (InvalidPayload k r) = ''invalid payload for '' @ k @ '': '' @ r"
| "forest_error_display (OrphanParent e p) = ''entry '' @ e @ '' references missing parent '' @ p"
| "forest_error_display (CrossSessionParent s e p ps) =
     ''entry '' @ e @ '' in session '' @ s @ '' references parent '' @ p @ '' in session '' @ ps"
| "forest_error_display (CycleError s e) = ''cycle detected at entry '' @ e @ '' in session '' @ s"
| "forest_error_display (InvalidHead s e) = ''session '' @ s @ '' has invalid active head '' @ e"

definition has_text :: "json \<Rightarrow> string \<Rightarrow> bool" where
  "has_text payload field =
     (case json_get payload field \<bind> as_str of None \<Rightarrow> False | Some v \<Rightarrow> trim v \<noteq> [])"

definition require_string :: "json \<Rightarrow> entry_kind \<Rightarrow> string list \<Rightarrow> (forest_error, unit) result" where
  "require_string payload kind fields =
     (if list_all (has_text payload) fields then Ok ()
      else Err (InvalidPayload (kind_as_str kind)
        (''required non-empty string field(s): '' @ join '', '' fields)))"

definition require_one_string :: "json \<Rightarrow> entry_kind \<Rightarrow> string list \<Rightarrow> (forest_error, unit) result" where
  "require_one_string payload kind alternatives =
     (if list_ex (has_text payload) alternatives then Ok ()
      else Err (InvalidPayload (kind_as_str kind)
        (''one non-empty string field is required: '' @ join '' or '' alternatives)))"

fun is_number :: "json \<Rightarrow> bool" where
  "is_number (JPos _) = True"
| "is_number (JNeg _) = True"
| "is_number (JFloat _) = True"
| "is_number _ = False"

definition require_number :: "json \<Rightarrow> entry_kind \<Rightarrow> string \<Rightarrow> (forest_error, unit) result" where
  "require_number payload kind field =
     (case json_get payload field of
        Some v \<Rightarrow>
          if is_number v then Ok ()
          else Err (InvalidPayload (kind_as_str kind) (''required numeric field: '' @ field))
      | None \<Rightarrow> Err (InvalidPayload (kind_as_str kind) (''required numeric field: '' @ field)))"

definition numbered :: "json \<Rightarrow> entry_kind \<Rightarrow> (forest_error, unit) result" where
  "numbered payload kind =
     (case require_number payload kind ''schemaVersion'' of
        Inl e \<Rightarrow> Err e | Inr _ \<Rightarrow> require_string payload kind [''summary''])"

text \<open>The contract of each kind; legacy kinds were refused before.\<close>

fun payload_contract :: "json \<Rightarrow> entry_kind \<Rightarrow> (forest_error, unit) result" where
  "payload_contract p UserMessage = require_string p UserMessage [''text'']"
| "payload_contract p AssistantMessage = require_string p AssistantMessage [''text'']"
| "payload_contract p ToolStarted = require_one_string p ToolStarted [''toolId'', ''itemId'']"
| "payload_contract p ToolCompleted = require_one_string p ToolCompleted [''toolId'', ''itemId'']"
| "payload_contract p ApprovalRequested = require_one_string p ApprovalRequested [''approvalId'', ''itemId'']"
| "payload_contract p ApprovalResolved = require_one_string p ApprovalResolved [''approvalId'', ''itemId'']"
| "payload_contract p DelegationRequested = require_one_string p DelegationRequested [''requestId'', ''itemId'']"
| "payload_contract p DelegationApproved = require_one_string p DelegationApproved [''requestId'', ''itemId'']"
| "payload_contract p DelegationRejected = require_one_string p DelegationRejected [''requestId'', ''itemId'']"
| "payload_contract p WorkerResultEntry = require_string p WorkerResultEntry [''status'']"
| "payload_contract p CheckpointEntry = numbered p CheckpointEntry"
| "payload_contract p HandoffBrief = require_string p HandoffBrief [''text'']"
| "payload_contract p CompactionRequested = require_string p CompactionRequested [''reason'']"
| "payload_contract p CompactionEntry = numbered p CompactionEntry"
| "payload_contract p CompactionFailed = require_string p CompactionFailed [''reason'']"
| "payload_contract p SessionResumeFailed = require_string p SessionResumeFailed [''reason'']"
| "payload_contract p BranchSummary = require_string p BranchSummary [''summary'']"
| "payload_contract p ModelChanged = require_string p ModelChanged [''model'']"
| "payload_contract p EffortChanged = require_string p EffortChanged [''effort'']"
| "payload_contract p SessionStatus =
     (case require_string p SessionStatus [''status''] of
        Inl e \<Rightarrow> Err e
      | Inr _ \<Rightarrow>
          if json_get p ''status'' \<bind> as_str \<in> {Some ''stopped'', Some ''cancelled''}
          then require_string p SessionStatus [''reason''] else Ok ())"
| "payload_contract p ArtifactCreated = require_string p ArtifactCreated [''path'']"
| "payload_contract p (LegacyKind _) = Ok ()"

definition validate_payload :: "entry_kind \<Rightarrow> json \<Rightarrow> (forest_error, unit) result" where
  "validate_payload kind payload =
     (case kind of
        LegacyKind k \<Rightarrow> Err (UnsupportedEntryKind k)
      | _ \<Rightarrow>
          (case payload of
             JObj _ \<Rightarrow> payload_contract payload kind
           | _ \<Rightarrow> Err (InvalidPayload (kind_as_str kind) ''payload must be a JSON object'')))"

record session_entry =
  se_id :: string
  se_session :: string
  se_parent :: "string option"
  se_sequence :: int
  se_schema :: int
  se_kind :: string
  se_payload :: json
  se_provider_event :: "string option"
  se_visibility :: string
  se_token_estimate :: "int option"
  se_created :: string

record session_head =
  sh_session :: string
  sh_active :: "string option"
  sh_native :: "string option"
  sh_restoration :: string
  sh_eligibility :: string
  sh_checkpoint :: "string option"
  sh_updated :: string

text \<open>A session's row, as far as its history needs it: its id and its provider's session.\<close>

record forest_db =
  fd_sessions :: "(string \<times> string option) list"
  fd_entries :: "session_entry list"
  fd_heads :: "session_head list"

definition validate_stored_entry :: "session_entry \<Rightarrow> (forest_error, unit) result" where
  "validate_stored_entry e =
     (if \<not> (min_semantic_schema_version \<le> se_schema e \<and> se_schema e \<le> semantic_schema_version)
      then Err (UnsupportedSemanticSchemaVersion (se_id e) (se_schema e))
      else (case se_payload e of
              JObj ob \<Rightarrow>
                if obj_get ob typed_schema_marker \<bind> as_u64 = Some typed_schema_version
                then validate_payload (kind_from_storage (se_kind e)) (se_payload e)
                else Ok ()
            | _ \<Rightarrow> Err (InvalidPayload (se_kind e)
                    ''stored payload must remain inspectable as a JSON object'')))"

section \<open>Looking up\<close>

definition session_exists :: "forest_db \<Rightarrow> string \<Rightarrow> bool" where
  "session_exists d s \<longleftrightarrow> s \<in> fst ` set (fd_sessions d)"

definition find_entry :: "session_entry list \<Rightarrow> string \<Rightarrow> session_entry option" where
  "find_entry es i = find (\<lambda>e. se_id e = i) es"

definition find_head :: "forest_db \<Rightarrow> string \<Rightarrow> session_head option" where
  "find_head d s = find (\<lambda>h. sh_session h = s) (fd_heads d)"

text \<open>\<open>ORDER BY sequence\<close>\<close>

definition session_entries :: "forest_db \<Rightarrow> string \<Rightarrow> session_entry list" where
  "session_entries d s = sort_key se_sequence (filter (\<lambda>e. se_session e = s) (fd_entries d))"

definition ensure_session :: "forest_db \<Rightarrow> string \<Rightarrow> (forest_error, unit) result" where
  "ensure_session d s = (if session_exists d s then Ok () else Err (SessionNotFound s))"

definition ensure_entry_in_session :: "forest_db \<Rightarrow> string \<Rightarrow> string \<Rightarrow> (forest_error, unit) result" where
  "ensure_entry_in_session d s i =
     (case find_entry (fd_entries d) i of
        Some e \<Rightarrow> if se_session e = s then Ok () else Err (EntryBelongsToOtherSession i s (se_session e))
      | None \<Rightarrow> Err (EntryNotFound s i))"

definition raw_active_head_id :: "forest_db \<Rightarrow> string \<Rightarrow> string option" where
  "raw_active_head_id d s = find_head d s \<bind> sh_active"

definition active_head_id :: "forest_db \<Rightarrow> string \<Rightarrow> (forest_error, string option) result" where
  "active_head_id d s =
     (case ensure_session d s of
        Inl e \<Rightarrow> Err e
      | Inr _ \<Rightarrow>
          (case raw_active_head_id d s of
             None \<Rightarrow> Ok None
           | Some i \<Rightarrow>
               (case ensure_entry_in_session d s i of
                  Inl _ \<Rightarrow> Err (InvalidHead s i) | Inr _ \<Rightarrow> Ok (Some i))))"

definition parent_error :: "forest_db \<Rightarrow> string \<Rightarrow> string \<Rightarrow> string \<Rightarrow> forest_error" where
  "parent_error d s i p =
     (case find_entry (fd_entries d) p of
        Some e \<Rightarrow> CrossSessionParent s i p (se_session e) | None \<Rightarrow> OrphanParent i p)"

definition missing_leaf_error :: "forest_db \<Rightarrow> string \<Rightarrow> string \<Rightarrow> forest_error" where
  "missing_leaf_error d s i =
     (case find_entry (fd_entries d) i of
        Some e \<Rightarrow> CrossSessionParent s i i (se_session e) | None \<Rightarrow> InvalidHead s i)"

section \<open>Appending and moving the head\<close>

definition mark_typed_payload :: "json \<Rightarrow> json" where
  "mark_typed_payload payload =
     (case payload of
        JObj ob \<Rightarrow> JObj (obj_insert typed_schema_marker (JPos typed_schema_version) ob)
      | other \<Rightarrow> other)"

datatype constraint = UniqueConstraint | ForeignKeyConstraint

text \<open>
  What a write brings with it: a fresh identifier, the time, the state of the repository, and the
  words in which SQLite refuses a row.
\<close>

record stamp =
  st_uuid :: string
  st_now :: string
  st_repo :: json
  st_refusal :: "constraint \<Rightarrow> string"

definition next_sequence :: "forest_db \<Rightarrow> string \<Rightarrow> int" where
  "next_sequence d s =
     (case map se_sequence (filter (\<lambda>e. se_session e = s) (fd_entries d)) of
        [] \<Rightarrow> 1 | n # ns \<Rightarrow> fold max ns n + 1)"

text \<open>
  The constraints of \<open>session_entries\<close>: the primary key, the references to a session and to a parent,
  and one entry per session and sequence.
\<close>

definition insert_entry :: "(constraint \<Rightarrow> string) \<Rightarrow> session_entry \<Rightarrow> forest_db \<Rightarrow> (forest_error, forest_db) result" where
  "insert_entry refusal e d =
     (if find_entry (fd_entries d) (se_id e) \<noteq> None
         \<or> list_ex (\<lambda>x. se_session x = se_session e \<and> se_sequence x = se_sequence e) (fd_entries d)
      then Err (DatabaseError (refusal UniqueConstraint))
      else if \<not> session_exists d (se_session e)
         \<or> (case se_parent e of None \<Rightarrow> False | Some p \<Rightarrow> find_entry (fd_entries d) p = None)
      then Err (DatabaseError (refusal ForeignKeyConstraint))
      else Ok (d\<lparr>fd_entries := fd_entries d @ [e]\<rparr>))"

definition set_head :: "string \<Rightarrow> session_head \<Rightarrow> (session_head \<Rightarrow> session_head) \<Rightarrow> forest_db \<Rightarrow> forest_db" where
  "set_head s new update d =
     d\<lparr>fd_heads :=
        (if find_head d s = None then fd_heads d @ [new]
         else map (\<lambda>h. if sh_session h = s then update h else h) (fd_heads d))\<rparr>"

definition point_head :: "string \<Rightarrow> string option \<Rightarrow> string option \<Rightarrow> string \<Rightarrow> forest_db \<Rightarrow> forest_db" where
  "point_head s active native now =
     set_head s
       \<lparr>sh_session = s, sh_active = active, sh_native = native, sh_restoration = ''fresh'',
        sh_eligibility = ''fresh'', sh_checkpoint = None, sh_updated = now\<rparr>
       (\<lambda>h. h\<lparr>sh_active := active, sh_updated := now\<rparr>)"

definition append_session_entry ::
    "stamp \<Rightarrow> string \<Rightarrow> string option \<Rightarrow> string \<Rightarrow> json \<Rightarrow> string option \<Rightarrow> string \<Rightarrow> int option
     \<Rightarrow> forest_db \<Rightarrow> (forest_error, session_entry \<times> forest_db) result" where
  "append_session_entry st s parent kind payload provider_event visibility tokens d =
     (case payload of
        JObj ob \<Rightarrow>
          (let e = \<lparr>se_id = st_uuid st, se_session = s, se_parent = parent,
                    se_sequence = next_sequence d s, se_schema = semantic_schema_version, se_kind = kind,
                    se_payload = JObj (obj_insert repo_state_key (st_repo st) ob),
                    se_provider_event = provider_event, se_visibility = visibility,
                    se_token_estimate = tokens, se_created = st_now st\<rparr> in
           case insert_entry (st_refusal st) e d of
             Inl x \<Rightarrow> Err x
           | Inr d' \<Rightarrow>
               Ok (e, point_head s (Some (se_id e)) (map_of (fd_sessions d) s \<bind> (\<lambda>v. v)) (st_now st) d'))
      | _ \<Rightarrow> Err (StorageError ''session entry payload must be a JSON object''))"

definition append_to ::
    "stamp \<Rightarrow> string \<Rightarrow> string option \<Rightarrow> entry_kind \<Rightarrow> json \<Rightarrow> forest_db
     \<Rightarrow> (forest_error, session_entry \<times> forest_db) result" where
  "append_to st s parent kind payload d =
     (case validate_payload kind payload of
        Inl x \<Rightarrow> Err x
      | Inr _ \<Rightarrow>
          (case ensure_session d s of
             Inl x \<Rightarrow> Err x
           | Inr _ \<Rightarrow>
               (case (case parent of None \<Rightarrow> Ok () | Some p \<Rightarrow> ensure_entry_in_session d s p) of
                  Inl x \<Rightarrow> Err x
                | Inr _ \<Rightarrow>
                    append_session_entry st s parent (kind_as_str kind) (mark_typed_payload payload)
                      None ''eligible'' None d)))"

definition append_entry ::
    "stamp \<Rightarrow> string \<Rightarrow> entry_kind \<Rightarrow> json \<Rightarrow> forest_db \<Rightarrow> (forest_error, session_entry \<times> forest_db) result" where
  "append_entry st s kind payload d =
     (case active_head_id d s of Inl x \<Rightarrow> Err x | Inr parent \<Rightarrow> append_to st s parent kind payload d)"

definition append_in_transaction ::
    "stamp \<Rightarrow> string \<Rightarrow> entry_kind \<Rightarrow> json \<Rightarrow> forest_db \<Rightarrow> (forest_error, session_entry \<times> forest_db) result" where
  "append_in_transaction st s kind payload d =
     (case validate_payload kind payload of
        Inl x \<Rightarrow> Err x
      | Inr _ \<Rightarrow>
          if \<not> session_exists d s then Err (SessionNotFound s)
          else (let parent = raw_active_head_id d s in
            case parent of
              Some p \<Rightarrow>
                if map_option se_session (find_entry (fd_entries d) p) \<noteq> Some s then Err (InvalidHead s p)
                else append_session_entry st s parent (kind_as_str kind) (mark_typed_payload payload)
                       None ''eligible'' None d
            | None \<Rightarrow>
                append_session_entry st s parent (kind_as_str kind) (mark_typed_payload payload)
                  None ''eligible'' None d))"

definition append_branch_summary ::
    "stamp \<Rightarrow> string \<Rightarrow> string option \<Rightarrow> string \<Rightarrow> forest_db
     \<Rightarrow> (forest_error, session_entry \<times> forest_db) result" where
  "append_branch_summary st s parent summary =
     append_to st s parent BranchSummary (JObj [(''summary'', JStr summary)])"

definition move_head :: "string \<Rightarrow> string \<Rightarrow> string option \<Rightarrow> forest_db \<Rightarrow> (forest_error, forest_db) result" where
  "move_head now s target d =
     (case ensure_session d s of
        Inl x \<Rightarrow> Err x
      | Inr _ \<Rightarrow>
          (case (case target of None \<Rightarrow> Ok () | Some i \<Rightarrow> ensure_entry_in_session d s i) of
             Inl x \<Rightarrow> Err x
           | Inr _ \<Rightarrow> Ok (point_head s target None now d)))"

section \<open>Events of a provider\<close>

record normalized_event =
  ne_kind :: string
  ne_item_id :: "string option"
  ne_role :: "string option"
  ne_status :: "string option"
  ne_title :: "string option"
  ne_text :: "string option"
  ne_data :: json

definition event_validate :: "normalized_event \<Rightarrow> (string, unit) result" where
  "event_validate ev =
     (if trim (ne_kind ev) = [] then Err ''normalized event kind cannot be empty''
      else if (case ne_role ev of
                 None \<Rightarrow> False | Some r \<Rightarrow> r \<notin> {''user'', ''assistant'', ''system'', ''tool''})
      then Err (''unsupported normalized role: '' @ the (ne_role ev))
      else if as_object (ne_data ev) = None \<and> as_array (ne_data ev) = None
      then Err ''normalized event data must be structured JSON''
      else Ok ())"

definition hidden_control_kinds :: "string list" where
  "hidden_control_kinds = [''turn.started'', ''turn.completed'', ''usage.updated'', ''plan.updated'']"

definition hidden_visibility :: string where "hidden_visibility = ''hidden''"

text \<open>The kind an event is stored under; deltas and control signals are not stored.\<close>

definition stored_kind :: "normalized_event \<Rightarrow> string option" where
  "stored_kind ev =
     (if ne_kind ev = ''message.completed''
      then Some (if ne_role ev = Some ''user'' then ''user.message'' else ''assistant.message'')
      else if ne_kind ev \<in> {''tool.started'', ''tool.completed'', ''approval.requested'', ''approval.resolved'',
        ''delegation.requested'', ''delegation.approved'', ''delegation.rejected'', ''worker.result''}
      then Some (ne_kind ev)
      else if ends_with (ne_kind ev) ''.delta'' \<or> ends_with (ne_kind ev) ''.progress''
        \<or> ne_kind ev = ''question.settled'' \<or> ne_kind ev = ''context.compacting''
      then None
      else Some (ne_kind ev))"

definition stamp_turn :: "string \<Rightarrow> forest_db \<Rightarrow> normalized_event \<Rightarrow> json" where
  "stamp_turn s d ev =
     (if ne_kind ev = ''turn.started''
      then (let started = filter (\<lambda>e. se_session e = s \<and> se_kind e = ''turn.started'') (fd_entries d);
                data = (case ne_data ev of JObj ob \<Rightarrow> ob | _ \<Rightarrow> []) in
            JObj (obj_insert ''turnIndex'' (JPos (length started + 1)) data))
      else ne_data ev)"

definition mirrored_payload :: "string \<Rightarrow> string \<Rightarrow> forest_db \<Rightarrow> normalized_event \<Rightarrow> json \<Rightarrow> json_object" where
  "mirrored_payload trace s d ev meta =
     [(''protocolVersion'', JPos 1), (''itemId'', json_opt JStr (ne_item_id ev)),
      (''role'', json_opt JStr (ne_role ev)), (''status'', json_opt JStr (ne_status ev)),
      (''title'', json_opt JStr (ne_title ev)), (''text'', json_opt JStr (ne_text ev)),
      (''data'', stamp_turn s d ev), (''providerMeta'', meta), (''traceId'', JStr trace)]"

definition error_forest_identity :: "string \<Rightarrow> string \<Rightarrow> json \<Rightarrow> json" where
  "error_forest_identity entry_id kind meta =
     (if kind \<notin> {''error'', ''runtime.failed''} then meta
      else JObj (obj_insert ''bridgeEntryId'' (JStr entry_id)
             (case as_object meta of None \<Rightarrow> [] | Some ob \<Rightarrow> ob)))"

record agent_event =
  ae_id :: int
  ae_session :: string
  ae_sequence :: int
  ae_event :: normalized_event
  ae_provider_meta :: json
  ae_created :: string

text \<open>
  \<open>session_event_in_transaction\<close>; \<open>trace\<close> is the trace id of the session's row, and a
  \<open>BridgeError\<close> is a \<open>StorageError\<close>.
\<close>

definition session_event ::
    "stamp \<Rightarrow> string \<Rightarrow> string \<Rightarrow> normalized_event \<Rightarrow> json \<Rightarrow> forest_db
     \<Rightarrow> (forest_error, agent_event \<times> forest_db) result" where
  "session_event st trace s ev meta d =
     (case event_validate ev of
        Inl x \<Rightarrow> Err (StorageError x)
      | Inr _ \<Rightarrow>
          (case stored_kind ev of
             None \<Rightarrow> Ok (\<lparr>ae_id = 0, ae_session = s, ae_sequence = 0, ae_event = ev,
                          ae_provider_meta = meta, ae_created = st_now st\<rparr>, d)
           | Some kind \<Rightarrow>
               (case append_session_entry st s (raw_active_head_id d s) kind
                       (JObj (mirrored_payload trace s d ev meta)) (ne_item_id ev)
                       (if kind \<in> set hidden_control_kinds then hidden_visibility else ''eligible'') None d of
                  Inl x \<Rightarrow> Err x
                | Inr (e, d') \<Rightarrow>
                    Ok (\<lparr>ae_id = se_sequence e, ae_session = s, ae_sequence = se_sequence e, ae_event = ev,
                         ae_provider_meta = error_forest_identity (se_id e) (ne_kind ev) meta,
                         ae_created = se_created e\<rparr>, d'))))"

section \<open>Reading branches\<close>

lemma find_entry_id: "find_entry es i = Some e \<Longrightarrow> e \<in> set es \<and> se_id e = i"
  by (auto simp: find_entry_def find_Some_iff)

lemma find_entry_None: "find_entry es i = None \<longleftrightarrow> i \<notin> se_id ` set es"
  by (auto simp: find_entry_def find_None_iff)

text \<open>Each turn visits one more of the session's entries.\<close>

lemma fewer_unvisited:
  assumes "i \<notin> set visited" "find_entry es i = Some e"
  shows "card (se_id ` set es - set (i # visited)) < card (se_id ` set es - set visited)"
proof (rule psubset_card_mono)
  have "i \<in> se_id ` set es" using find_entry_id [OF assms(2)] by auto
  with assms(1) show "se_id ` set es - set (i # visited) \<subset> se_id ` set es - set visited" by auto
qed simp

text \<open>One turn of the loop of \<open>branch_to_leaf\<close>: \<open>visited\<close> is its set, \<open>branch\<close> what it pushed.\<close>

function walk_branch ::
    "forest_db \<Rightarrow> string \<Rightarrow> session_entry list \<Rightarrow> string list \<Rightarrow> session_entry list \<Rightarrow> string
     \<Rightarrow> (forest_error, session_entry list) result" where
  "walk_branch d s es visited branch i =
     (if i \<in> set visited then Err (CycleError s i)
      else (case find_entry es i of
              None \<Rightarrow> Err (InvalidHead s i)
            | Some e \<Rightarrow>
                (case validate_stored_entry e of
                   Inl x \<Rightarrow> Err x
                 | Inr _ \<Rightarrow>
                     (case se_parent e of
                        None \<Rightarrow> Ok (branch @ [e])
                      | Some p \<Rightarrow>
                          if find_entry es p = None then Err (parent_error d s (se_id e) p)
                          else walk_branch d s es (i # visited) (branch @ [e]) p))))"
  by pat_completeness auto

termination
  by (relation "measure (\<lambda>(d, s, es, visited, branch, i). card (se_id ` set es - set visited))")
     (simp_all add: fewer_unvisited del: set_simps)

declare walk_branch.simps [simp del]

definition branch_to_leaf :: "forest_db \<Rightarrow> string \<Rightarrow> string \<Rightarrow> (forest_error, session_entry list) result" where
  "branch_to_leaf d s leaf =
     (case ensure_session d s of
        Inl x \<Rightarrow> Err x
      | Inr _ \<Rightarrow>
          (let es = session_entries d s in
           if find_entry es leaf = None then Err (missing_leaf_error d s leaf)
           else (case walk_branch d s es [] [] leaf of Inl x \<Rightarrow> Err x | Inr b \<Rightarrow> Ok (rev b))))"

definition active_branch :: "forest_db \<Rightarrow> string \<Rightarrow> (forest_error, session_entry list) result" where
  "active_branch d s =
     (case active_head_id d s of
        Inl x \<Rightarrow> Err x
      | Inr None \<Rightarrow> Ok []
      | Inr (Some head) \<Rightarrow> branch_to_leaf d s head)"

definition children :: "forest_db \<Rightarrow> string \<Rightarrow> string option \<Rightarrow> (forest_error, session_entry list) result" where
  "children d s parent =
     (case ensure_session d s of
        Inl x \<Rightarrow> Err x
      | Inr _ \<Rightarrow>
          (case (case parent of None \<Rightarrow> Ok () | Some p \<Rightarrow> ensure_entry_in_session d s p) of
             Inl x \<Rightarrow> Err x
           | Inr _ \<Rightarrow> Ok (filter (\<lambda>e. se_parent e = parent) (session_entries d s))))"

definition branch_leaves :: "forest_db \<Rightarrow> string \<Rightarrow> (forest_error, session_entry list) result" where
  "branch_leaves d s =
     (case ensure_session d s of
        Inl x \<Rightarrow> Err x
      | Inr _ \<Rightarrow>
          (let es = session_entries d s; parents = List.map_filter se_parent es in
           Ok (filter (\<lambda>e. se_id e \<notin> set parents) es)))"

section \<open>Forking\<close>

text \<open>
  The copies of a branch in a new session: \<open>uuid\<close> gives the identifier of the \<open>n\<close>th, and the latest
  checkpoint among them is carried along.
\<close>

definition fork_copy :: "string \<Rightarrow> string \<Rightarrow> string option \<Rightarrow> nat \<Rightarrow> session_entry \<Rightarrow> session_entry" where
  "fork_copy i s parent n e =
     e\<lparr>se_id := i, se_session := s, se_parent := parent, se_sequence := int n + 1, se_provider_event := None\<rparr>"

fun copy_branch ::
    "(constraint \<Rightarrow> string) \<Rightarrow> (nat \<Rightarrow> string) \<Rightarrow> string \<Rightarrow> string option \<Rightarrow> string option \<Rightarrow> nat
     \<Rightarrow> session_entry list \<Rightarrow> forest_db \<Rightarrow> (forest_error, string option \<times> string option \<times> forest_db) result" where
  "copy_branch refusal uuid s parent checkpoint n [] d = Ok (parent, checkpoint, d)"
| "copy_branch refusal uuid s parent checkpoint n (e # es) d =
     (case insert_entry refusal (fork_copy (uuid n) s parent n e) d of
        Inl x \<Rightarrow> Err x
      | Inr d' \<Rightarrow>
          copy_branch refusal uuid s (Some (uuid n))
            (if se_kind e = kind_as_str CheckpointEntry then Some (uuid n) else checkpoint) (n + 1) es d')"

definition fork_history ::
    "(constraint \<Rightarrow> string) \<Rightarrow> (nat \<Rightarrow> string) \<Rightarrow> string \<Rightarrow> string \<Rightarrow> string \<Rightarrow> string \<Rightarrow> forest_db
     \<Rightarrow> (forest_error, forest_db) result" where
  "fork_history refusal uuid new now s leaf d =
     (case branch_to_leaf d s leaf of
        Inl x \<Rightarrow> Err (StorageError (forest_error_display x))
      | Inr branch \<Rightarrow>
          if session_exists d new then Err (DatabaseError (refusal UniqueConstraint))
          else (case copy_branch refusal uuid new None None 0 branch
                       (d\<lparr>fd_sessions := fd_sessions d @ [(new, None)]\<rparr>) of
                  Inl x \<Rightarrow> Err x
                | Inr (None, _, _) \<Rightarrow> Err (StorageError ''Session has no entries to fork'')
                | Inr (Some head, checkpoint, d') \<Rightarrow>
                    if find_head d' new \<noteq> None then Err (DatabaseError (refusal UniqueConstraint))
                    else Ok (d'\<lparr>fd_heads := fd_heads d' @
                      [\<lparr>sh_session = new, sh_active = Some head, sh_native = None,
                        sh_restoration = ''checkpoint_restored'', sh_eligibility = ''checkpoint_restored'',
                        sh_checkpoint = checkpoint, sh_updated = now\<rparr>]\<rparr>)))"

section \<open>The integrity report\<close>

definition entry_findings :: "forest_db \<Rightarrow> string \<Rightarrow> session_entry list \<Rightarrow> session_entry \<Rightarrow> forest_error list" where
  "entry_findings d s es e =
     (case validate_stored_entry e of Inl x \<Rightarrow> [x] | Inr _ \<Rightarrow> [])
     @ (case se_parent e of
          None \<Rightarrow> []
        | Some p \<Rightarrow> if find_entry es p = None then [parent_error d s (se_id e) p] else [])"

definition next_up :: "session_entry list \<Rightarrow> string \<Rightarrow> string option" where
  "next_up es i =
     (case find_entry es i \<bind> se_parent of
        None \<Rightarrow> None
      | Some p \<Rightarrow> if find_entry es p = None then None else Some p)"

lemma next_up_entry: "next_up es i = Some p \<Longrightarrow> \<exists>e. find_entry es i = Some e"
  by (auto simp: next_up_def split: option.splits bind_splits)

text \<open>Follows parents until one is verified, is missing, or is on the path: then that is a cycle.\<close>

function follow_path ::
    "session_entry list \<Rightarrow> string list \<Rightarrow> string list \<Rightarrow> string \<Rightarrow> string list \<times> string option" where
  "follow_path es verified path i =
     (if i \<in> set verified then (path, None)
      else if i \<in> set path then (path, Some i)
      else (case next_up es i of
              None \<Rightarrow> (i # path, None)
            | Some p \<Rightarrow> follow_path es verified (i # path) p))"
  by pat_completeness auto

termination
proof (relation "measure (\<lambda>(es, verified, path, i). card (se_id ` set es - set path))", goal_cases)
  case (2 es verified path i p)
  then obtain e where "find_entry es i = Some e" using next_up_entry by blast
  with 2 show ?case using fewer_unvisited [of i path es e] by (simp del: set_simps)
qed simp

declare follow_path.simps [simp del]

fun cycle_findings :: "string \<Rightarrow> session_entry list \<Rightarrow> string list \<Rightarrow> session_entry list \<Rightarrow> forest_error list" where
  "cycle_findings s es verified [] = []"
| "cycle_findings s es verified (e # rest) =
     (if se_id e \<in> set verified then cycle_findings s es verified rest
      else (case follow_path es verified [] (se_id e) of
              (path, cycle) \<Rightarrow>
                (case cycle of None \<Rightarrow> [] | Some i \<Rightarrow> [CycleError s i])
                @ cycle_findings s es (path @ verified) rest))"

definition session_findings :: "forest_db \<Rightarrow> string \<Rightarrow> forest_error list" where
  "session_findings d s =
     (let es = session_entries d s;
          found = concat (map (entry_findings d s es) es) @ cycle_findings s es [] es
            @ (case raw_active_head_id d s of
                 None \<Rightarrow> []
               | Some i \<Rightarrow> if find_entry es i = None then [missing_leaf_error d s i] else []) in
      remdups_adj (sort_key forest_error_display found))"

record integrity_report =
  ir_healthy :: "string list"
  ir_quarantined :: "(string \<times> forest_error list) list"

definition integrity_report :: "forest_db \<Rightarrow> integrity_report" where
  "integrity_report d =
     (let ids = map fst (fd_sessions d) in
      \<lparr>ir_healthy = filter (\<lambda>s. session_findings d s = []) ids,
       ir_quarantined = map (\<lambda>s. (s, session_findings d s)) (filter (\<lambda>s. session_findings d s \<noteq> []) ids)\<rparr>)"

end
