(* ===== verification/Forest_Branches.thy ===== *)
theory Forest_Branches
  imports Session_Forest
begin

text \<open>
  What reading a branch returns, and what the integrity report looks for: the paths from an entry to
  a root, and the entries from which following parents ends. A session is healthy exactly if all of
  it can be read.
\<close>

section \<open>Branches are the paths to a root\<close>

definition valid_entry :: "session_entry \<Rightarrow> bool" where
  "valid_entry e \<longleftrightarrow> validate_stored_entry e = Ok ()"

definition keyed_entries :: "session_entry list \<Rightarrow> bool" where
  "keyed_entries es \<longleftrightarrow> distinct (map se_id es)"

fun linked :: "string option \<Rightarrow> session_entry list \<Rightarrow> bool" where
  "linked parent [] \<longleftrightarrow> True"
| "linked parent (e # es) \<longleftrightarrow> se_parent e = parent \<and> linked (Some (se_id e)) es"

lemma linked_snoc:
  "linked p (bs @ [e]) \<longleftrightarrow> linked p bs \<and> se_parent e = (if bs = [] then p else Some (se_id (last bs)))"
  by (induction bs arbitrary: p) auto

lemma linked_take: "linked p bs \<Longrightarrow> linked p (take n bs)"
  by (induction bs arbitrary: p n) (auto simp: take_Cons split: nat.splits)

lemma keyed_inj: "keyed_entries es \<Longrightarrow> a \<in> set es \<Longrightarrow> b \<in> set es \<Longrightarrow> se_id a = se_id b \<Longrightarrow> a = b"
  by (auto simp: keyed_entries_def distinct_map dest: inj_onD)

lemma find_entry_keyed: "keyed_entries es \<Longrightarrow> e \<in> set es \<Longrightarrow> find_entry es (se_id e) = Some e"
proof -
  assume k: "keyed_entries es" and e: "e \<in> set es"
  then obtain x where "find_entry es (se_id e) = Some x"
    using find_entry_None [of es "se_id e"] by (cases "find_entry es (se_id e)") auto
  with keyed_inj [OF k _ e] find_entry_id show ?thesis by fastforce
qed

lemma linked_unique:
  assumes "keyed_entries es" "linked None as" "linked None bs" "set as \<subseteq> set es" "set bs \<subseteq> set es"
    "as \<noteq> []" "bs \<noteq> []" "se_id (last as) = se_id (last bs)"
  shows "as = bs"
  using assms(2-)
proof (induction as arbitrary: bs rule: rev_induct)
  case (snoc a as)
  obtain bs' b where bs: "bs = bs' @ [b]" using snoc.prems(6) by (cases bs rule: rev_cases) auto
  have "a = b" using keyed_inj [OF assms(1), of a b] snoc.prems bs by simp
  have la: "linked None as" "linked None bs'" and p: "(if as = [] then None else Some (se_id (last as)))
      = (if bs' = [] then None else Some (se_id (last bs')))"
    using snoc.prems(1,2) bs \<open>a = b\<close> by (auto simp: linked_snoc)
  show ?case
  proof (cases "as = []")
    case True
    with p have "bs' = []" by (simp split: if_splits)
    with True bs \<open>a = b\<close> show ?thesis by simp
  next
    case False
    with p have ne: "bs' \<noteq> []" and l: "se_id (last as) = se_id (last bs')" by (simp_all split: if_splits)
    have "set as \<subseteq> set es" "set bs' \<subseteq> set es" using snoc.prems(3,4) bs by simp_all
    from snoc.IH [OF la this False ne l] bs \<open>a = b\<close> show ?thesis by simp
  qed
qed simp

lemma linked_distinct:
  assumes "keyed_entries es" "linked None bs" "set bs \<subseteq> set es"
  shows "distinct (map se_id bs)"
proof -
  have "a = b" if a: "a < length bs" and b: "b < length bs" and ab: "se_id (bs ! a) = se_id (bs ! b)" for a b
  proof -
    have "take (Suc a) bs = take (Suc b) bs"
    proof (rule linked_unique [OF assms(1)])
      show "set (take (Suc a) bs) \<subseteq> set es" "set (take (Suc b) bs) \<subseteq> set es"
        using assms(3) by (meson dual_order.trans set_take_subset)+
      show "linked None (take (Suc a) bs)" "linked None (take (Suc b) bs)"
        by (rule linked_take [OF assms(2)])+
      show "take (Suc a) bs \<noteq> []" "take (Suc b) bs \<noteq> []" using a b by (metis gr_implies_not0 list.size(3) take_eq_Nil2 nat.distinct(1))+
      show "se_id (last (take (Suc a) bs)) = se_id (last (take (Suc b) bs))"
        using a b ab by (simp add: take_Suc_conv_app_nth)
    qed
    then have "length (take (Suc a) bs) = length (take (Suc b) bs)" by simp
    with a b show ?thesis by simp
  qed
  then show ?thesis by (auto simp: distinct_conv_nth)
qed

lemma walk_Ok:
  "walk_branch d s es visited branch i = Ok b \<Longrightarrow> \<exists>bs. b = branch @ rev bs \<and> bs \<noteq> [] \<and> linked None bs
     \<and> se_id (last bs) = i \<and> set bs \<subseteq> set es \<and> list_all valid_entry bs"
proof (induction d s es visited branch i rule: walk_branch.induct)
  case (1 d s es visited branch i)
  from "1.prems" obtain e where nv: "i \<notin> set visited" and e: "find_entry es i = Some e" and v: "valid_entry e"
    by (subst (asm) walk_branch.simps) (auto simp: valid_entry_def split: if_splits option.splits sum.splits)
  note e' = find_entry_id [OF e]
  show ?case
  proof (cases "se_parent e")
    case None
    with "1.prems" nv e v e' have "b = branch @ rev [e]"
      by (subst (asm) walk_branch.simps) (simp add: valid_entry_def)
    with None v e' show ?thesis by (intro exI [of _ "[e]"]) simp
  next
    case (Some p)
    with "1.prems" nv e v have p: "find_entry es p \<noteq> None"
      and w: "walk_branch d s es (i # visited) (branch @ [e]) p = Ok b"
      by (subst (asm) walk_branch.simps, simp add: valid_entry_def split: if_splits)+
    from v have v': "validate_stored_entry e = Ok ()" by (simp add: valid_entry_def)
    from "1.IH" [OF nv e v' Some p w] obtain bs where "b = (branch @ [e]) @ rev bs" "bs \<noteq> []" "linked None bs"
      "se_id (last bs) = p" "set bs \<subseteq> set es" "list_all valid_entry bs" by blast
    with Some v e' show ?thesis by (intro exI [of _ "bs @ [e]"]) (simp add: linked_snoc)
  qed
qed

lemma walk_linked:
  assumes "keyed_entries es"
  shows "bs \<noteq> [] \<Longrightarrow> linked None bs \<Longrightarrow> set bs \<subseteq> set es \<Longrightarrow> list_all valid_entry bs \<Longrightarrow>
    set visited \<inter> se_id ` set bs = {} \<Longrightarrow> walk_branch d s es visited branch (se_id (last bs)) = Ok (branch @ rev bs)"
proof (induction bs arbitrary: visited branch rule: rev_induct)
  case (snoc e bs)
  have f: "find_entry es (se_id e) = Some e" using snoc.prems(3) find_entry_keyed [OF assms] by simp
  have nv: "se_id e \<notin> set visited" using snoc.prems(5) by auto
  have v: "validate_stored_entry e = Ok ()" using snoc.prems(4) by (simp add: valid_entry_def)
  show ?case
  proof (cases "bs = []")
    case True
    with snoc.prems f nv v show ?thesis by (subst walk_branch.simps) simp
  next
    case False
    have p: "se_parent e = Some (se_id (last bs))" using snoc.prems(2) False by (simp add: linked_snoc)
    have "find_entry es (se_id (last bs)) \<noteq> None"
      using snoc.prems(3) find_entry_keyed [OF assms, of "last bs"] False by (simp add: subset_iff)
    moreover have "se_id e \<notin> se_id ` set bs"
      using linked_distinct [OF assms snoc.prems(2,3)] by auto
    then have "walk_branch d s es (se_id e # visited) (branch @ [e]) (se_id (last bs)) = Ok ((branch @ [e]) @ rev bs)"
      using snoc.prems False by (intro snoc.IH) (auto simp: linked_snoc)
    ultimately show ?thesis using f nv v p by (subst walk_branch.simps) simp
  qed
qed simp

definition path_to :: "session_entry list \<Rightarrow> string \<Rightarrow> session_entry list \<Rightarrow> bool" where
  "path_to es leaf bs \<longleftrightarrow> bs \<noteq> [] \<and> linked None bs \<and> se_id (last bs) = leaf \<and> set bs \<subseteq> set es
     \<and> list_all valid_entry bs"

lemma branch_Ok:
  assumes "keyed_entries (session_entries d s)"
  shows "branch_to_leaf d s leaf = Ok bs \<longleftrightarrow> session_exists d s \<and> path_to (session_entries d s) leaf bs"
proof
  assume "branch_to_leaf d s leaf = Ok bs"
  then obtain b where "session_exists d s" "walk_branch d s (session_entries d s) [] [] leaf = Ok b" "bs = rev b"
    by (auto simp: branch_to_leaf_def ensure_session_def Let_def split: if_splits sum.splits)
  with walk_Ok [of d s "session_entries d s" "[]" "[]" leaf b]
  show "session_exists d s \<and> path_to (session_entries d s) leaf bs" by (auto simp: path_to_def)
next
  assume a: "session_exists d s \<and> path_to (session_entries d s) leaf bs"
  then have w: "walk_branch d s (session_entries d s) [] [] leaf = Ok (rev bs)"
    using walk_linked [OF assms, of bs "[]" d s "[]"] by (auto simp: path_to_def)
  have "last bs \<in> set (session_entries d s)" using a by (auto simp: path_to_def subset_iff)
  then have "find_entry (session_entries d s) leaf \<noteq> None"
    using find_entry_keyed [OF assms, of "last bs"] a by (simp add: path_to_def)
  with a w show "branch_to_leaf d s leaf = Ok bs"
    by (simp add: branch_to_leaf_def ensure_session_def Let_def)
qed

section \<open>What the integrity report finds\<close>

text \<open>Entries from which following parents ends.\<close>

inductive rooted :: "session_entry list \<Rightarrow> string \<Rightarrow> bool" for es where
  root: "next_up es i = None \<Longrightarrow> rooted es i"
| up: "next_up es i = Some p \<Longrightarrow> rooted es p \<Longrightarrow> rooted es i"

inductive_cases rootedE: "rooted es i"

definition above :: "session_entry list \<Rightarrow> (string \<times> string) set" where
  "above es = {(i, p). next_up es i = Some p}"

lemma rooted_above: "(i, p) \<in> (above es)\<^sup>+ \<Longrightarrow> rooted es i \<longleftrightarrow> rooted es p"
proof (induction rule: trancl_induct)
  case (base p)
  then show ?case by (auto simp: above_def intro: rooted.up elim: rootedE)
next
  case (step p q)
  then show ?case by (auto simp: above_def intro: rooted.up elim: rootedE)
qed

lemma rooted_acyclic: "rooted es i \<Longrightarrow> (i, i) \<notin> (above es)\<^sup>+"
proof (induction rule: rooted.induct)
  case (root i)
  then show ?case by (auto simp: above_def dest: tranclD)
next
  case (up i p)
  show ?case
  proof
    assume "(i, i) \<in> (above es)\<^sup>+"
    then obtain q where "(i, q) \<in> above es" "(q, i) \<in> (above es)\<^sup>*" by (blast dest: tranclD)
    with up(1) have "(p, i) \<in> (above es)\<^sup>*" "(i, p) \<in> above es" by (auto simp: above_def)
    then have "(p, p) \<in> (above es)\<^sup>+" by (rule rtrancl_into_trancl1)
    with up.IH show False by blast
  qed
qed

lemma follow_rooted:
  "follow_path es verified path i = (path', c) \<Longrightarrow> list_all (rooted es) verified \<Longrightarrow>
   list_all (\<lambda>j. (j, i) \<in> (above es)\<^sup>+) path \<Longrightarrow>
   (c = None \<longleftrightarrow> rooted es i) \<and> (c = None \<longrightarrow> list_all (rooted es) path')"
proof (induction es verified path i rule: follow_path.induct)
  case (1 es verified path i)
  show ?case
  proof (cases "i \<in> set verified")
    case True
    with "1.prems" have "rooted es i" "path' = path" "c = None"
      by (simp_all add: list_all_iff follow_path.simps [of es verified path i])
    with "1.prems"(3) rooted_above show ?thesis by (auto simp: list_all_iff)
  next
    case nv: False
    show ?thesis
    proof (cases "i \<in> set path")
      case True
      with "1.prems" nv have "c = Some i" "(i, i) \<in> (above es)\<^sup>+"
        by (simp_all add: list_all_iff follow_path.simps [of es verified path i])
      with rooted_acyclic show ?thesis by blast
    next
      case np: False
      show ?thesis
      proof (cases "next_up es i")
        case None
        with "1.prems" nv np have "path' = i # path" "c = None"
          by (simp_all add: follow_path.simps [of es verified path i])
        with rooted.root [OF None] "1.prems"(3) rooted_above show ?thesis by (auto simp: list_all_iff)
      next
        case (Some p)
        with "1.prems" nv np have f: "follow_path es verified (i # path) p = (path', c)"
          by (simp add: follow_path.simps [of es verified path i])
        have ip: "(i, p) \<in> above es" using Some by (simp add: above_def)
        have "list_all (\<lambda>j. (j, p) \<in> (above es)\<^sup>+) (i # path)"
          using ip "1.prems"(3) by (auto simp: list_all_iff intro: trancl_into_trancl)
        from "1.IH" [OF nv np Some f "1.prems"(2) this] rooted_above [OF r_into_trancl [OF ip]]
        show ?thesis by simp
      qed
    qed
  qed
qed

lemma cycle_findings_rooted:
  "list_all (rooted es) verified \<Longrightarrow>
   cycle_findings s es verified xs = [] \<longleftrightarrow> list_all (\<lambda>e. rooted es (se_id e)) xs"
proof (induction xs arbitrary: verified)
  case (Cons e xs)
  obtain path c where f: "follow_path es verified [] (se_id e) = (path, c)" by fastforce
  from follow_rooted [OF f Cons.prems] have r: "c = None \<longleftrightarrow> rooted es (se_id e)"
    and p: "c = None \<Longrightarrow> list_all (rooted es) path" by simp_all
  show ?case
  proof (cases "se_id e \<in> set verified")
    case True
    with Cons show ?thesis by (auto simp: list_all_iff)
  next
    case False
    show ?thesis
    proof (cases c)
      case None
      with p have "list_all (rooted es) (path @ verified)" using Cons.prems by simp
      from Cons.IH [OF this] False None f r show ?thesis by simp
    next
      case (Some i)
      with False f r show ?thesis by simp
    qed
  qed
qed simp

definition anchored :: "session_entry list \<Rightarrow> session_entry \<Rightarrow> bool" where
  "anchored es e \<longleftrightarrow> (case se_parent e of None \<Rightarrow> True | Some p \<Rightarrow> find_entry es p \<noteq> None)"

lemma entry_findings_Nil: "entry_findings d s es e = [] \<longleftrightarrow> valid_entry e \<and> anchored es e"
  by (auto simp: entry_findings_def valid_entry_def anchored_def split: sum.splits option.splits)

lemma remdups_adj_Nil [simp]: "remdups_adj xs = [] \<longleftrightarrow> xs = []"
  by (cases xs rule: remdups_adj.cases) auto

lemma findings_Nil:
  "session_findings d s = [] \<longleftrightarrow>
     (let es = session_entries d s in
      list_all valid_entry es \<and> list_all (anchored es) es \<and> list_all (\<lambda>e. rooted es (se_id e)) es
      \<and> (case raw_active_head_id d s of None \<Rightarrow> True | Some i \<Rightarrow> find_entry es i \<noteq> None))"
  using cycle_findings_rooted [of "session_entries d s" "[]" s "session_entries d s"]
  by (auto simp: session_findings_def Let_def list_all_iff entry_findings_Nil
      simp flip: length_0_conv [of "sort_key _ _"] split: option.splits)

lemma rooted_path:
  assumes "keyed_entries es" "list_all valid_entry es" "list_all (anchored es) es"
  shows "rooted es i \<Longrightarrow> i \<in> se_id ` set es \<Longrightarrow> \<exists>bs. path_to es i bs"
proof (induction rule: rooted.induct)
  case (root i)
  then obtain e where e: "e \<in> set es" "se_id e = i" by auto
  have "find_entry es i = Some e" using find_entry_keyed [OF assms(1) e(1)] e(2) by simp
  with root(1) e assms(3) have "se_parent e = None"
    by (auto simp: next_up_def anchored_def list_all_iff split: option.splits if_splits)
  with e assms(2) show ?case by (intro exI [of _ "[e]"]) (simp add: path_to_def list_all_iff)
next
  case (up i p)
  then obtain e where e: "e \<in> set es" "se_id e = i" by auto
  have "find_entry es i = Some e" using find_entry_keyed [OF assms(1) e(1)] e(2) by simp
  with up(1) have p: "se_parent e = Some p" "find_entry es p \<noteq> None"
    by (auto simp: next_up_def split: option.splits if_splits)
  then have "p \<in> se_id ` set es" using find_entry_None by metis
  from up.IH [OF this] obtain bs where "path_to es p bs" ..
  with p e assms(2) show ?case
    by (intro exI [of _ "bs @ [e]"]) (auto simp: path_to_def linked_snoc list_all_iff)
qed

lemma path_rooted:
  assumes "keyed_entries es"
  shows "path_to es i bs \<Longrightarrow> rooted es i \<and> valid_entry (last bs) \<and> anchored es (last bs)"
proof (induction bs arbitrary: i rule: rev_induct)
  case (snoc e bs)
  then have e: "e \<in> set es" "se_id e = i" "valid_entry e" "linked None bs"
    and p: "se_parent e = (if bs = [] then None else Some (se_id (last bs)))"
    by (auto simp: path_to_def linked_snoc)
  have f: "find_entry es i = Some e" using find_entry_keyed [OF assms e(1)] e(2) by simp
  show ?case
  proof (cases "bs = []")
    case True
    with p f have "next_up es i = None" by (simp add: next_up_def)
    with True p e show ?thesis by (simp add: anchored_def rooted.root)
  next
    case False
    then have b: "path_to es (se_id (last bs)) bs" using snoc.prems e(4) by (auto simp: path_to_def)
    then have l: "last bs \<in> set es" by (auto simp: path_to_def subset_iff)
    have n: "find_entry es (se_id (last bs)) = Some (last bs)" by (rule find_entry_keyed [OF assms l])
    with p f False have "next_up es i = Some (se_id (last bs))" by (simp add: next_up_def)
    with snoc.IH [OF b] False p e n show ?thesis by (simp add: anchored_def rooted.up)
  qed
qed (simp add: path_to_def)

lemma set_session_entries [simp]: "set (session_entries d s) = {e \<in> set (fd_entries d). se_session e = s}"
  by (auto simp: session_entries_def)

lemma keyed_session:
  assumes "keyed_entries (fd_entries d)"
  shows "keyed_entries (session_entries d s)"
proof -
  have "mset (map se_id (session_entries d s)) = mset (map se_id (filter (\<lambda>e. se_session e = s) (fd_entries d)))"
    by (simp add: session_entries_def)
  moreover have "distinct (map se_id (filter (\<lambda>e. se_session e = s) (fd_entries d)))"
    using assms by (simp add: keyed_entries_def distinct_map_filter)
  ultimately show ?thesis unfolding keyed_entries_def by (metis mset_eq_imp_distinct_iff)
qed

lemma is_ok_iff: "is_ok r \<longleftrightarrow> (\<exists>v. r = Ok v)"
  by (cases r) simp_all

lemma find_in_session:
  "keyed_entries (fd_entries d) \<Longrightarrow>
   find_entry (session_entries d s) i \<noteq> None \<longleftrightarrow> ensure_entry_in_session d s i = Ok ()"
proof (cases "find_entry (fd_entries d) i")
  case None
  then show ?thesis
    using find_entry_None [of "fd_entries d" i] find_entry_None [of "session_entries d s" i]
    by (auto simp: ensure_entry_in_session_def)
next
  case (Some e)
  assume k: "keyed_entries (fd_entries d)"
  note e = find_entry_id [OF Some]
  have "find_entry (session_entries d s) i \<noteq> None \<longleftrightarrow> se_session e = s"
  proof
    assume "find_entry (session_entries d s) i \<noteq> None"
    then obtain x where "x \<in> set (session_entries d s)" "se_id x = i" using find_entry_id by blast
    with keyed_inj [OF k, of x e] e show "se_session e = s" by auto
  next
    assume "se_session e = s"
    then show "find_entry (session_entries d s) i \<noteq> None"
      using e find_entry_None [of "session_entries d s" i] by auto
  qed
  with Some show ?thesis by (simp add: ensure_entry_in_session_def)
qed

lemma health:
  assumes "keyed_entries (fd_entries d)"
  shows "s \<in> set (ir_healthy (integrity_report d)) \<longleftrightarrow>
     is_ok (active_branch d s) \<and> list_all (\<lambda>e. is_ok (branch_to_leaf d s (se_id e))) (session_entries d s)"
proof (cases "session_exists d s")
  case False
  then show ?thesis
    by (auto simp: integrity_report_def session_exists_def active_branch_def active_head_id_def
        ensure_session_def Let_def)
next
  case True
  let ?es = "session_entries d s"
  note k = keyed_session [OF assms, of s]
  have reads: "is_ok (branch_to_leaf d s i) \<longleftrightarrow> (\<exists>bs. path_to ?es i bs)" for i
    unfolding is_ok_iff branch_Ok [OF k] using True by simp
  have head: "is_ok (active_branch d s) \<longleftrightarrow> (case raw_active_head_id d s of None \<Rightarrow> True
      | Some i \<Rightarrow> find_entry ?es i \<noteq> None \<and> is_ok (branch_to_leaf d s i))"
    using find_in_session [OF assms, of s] True
    by (auto simp: active_branch_def active_head_id_def ensure_session_def split: option.splits sum.splits)
  have h: "s \<in> set (ir_healthy (integrity_report d)) \<longleftrightarrow> session_findings d s = []"
    using True by (auto simp: integrity_report_def session_exists_def Let_def)
  show ?thesis
  proof
    assume "s \<in> set (ir_healthy (integrity_report d))"
    with h have f: "list_all valid_entry ?es" "list_all (anchored ?es) ?es" "list_all (\<lambda>e. rooted ?es (se_id e)) ?es"
      "case raw_active_head_id d s of None \<Rightarrow> True | Some i \<Rightarrow> find_entry ?es i \<noteq> None"
      by (simp_all add: findings_Nil Let_def)
    then have r: "is_ok (branch_to_leaf d s (se_id e))" if "e \<in> set ?es" for e
      using that reads rooted_path [OF k f(1,2), of "se_id e"] by (simp add: list_all_iff)
    moreover have "is_ok (active_branch d s)"
      unfolding head using f(4) r find_entry_id by (fastforce split: option.splits)
    ultimately show "is_ok (active_branch d s) \<and> list_all (\<lambda>e. is_ok (branch_to_leaf d s (se_id e))) ?es"
      by (simp add: list_all_iff)
  next
    assume a: "is_ok (active_branch d s) \<and> list_all (\<lambda>e. is_ok (branch_to_leaf d s (se_id e))) ?es"
    have "rooted ?es (se_id e) \<and> valid_entry e \<and> anchored ?es e" if e: "e \<in> set ?es" for e
    proof -
      from a e reads obtain bs where b: "path_to ?es (se_id e) bs" by (auto simp: list_all_iff)
      then have "last bs = e" using keyed_inj [OF k, of "last bs" e] e by (auto simp: path_to_def subset_iff)
      with path_rooted [OF k b] show ?thesis by simp
    qed
    moreover have "case raw_active_head_id d s of None \<Rightarrow> True | Some i \<Rightarrow> find_entry ?es i \<noteq> None"
      using a head by (auto split: option.splits)
    ultimately show "s \<in> set (ir_healthy (integrity_report d))"
      unfolding h findings_Nil Let_def by (simp add: list_all_iff)
  qed
qed

end
