(* ===== verification/Forest_Steps.thy ===== *)
theory Forest_Steps
  imports Forest_Branches
begin

text \<open>
  The life of a forest: the steps of its operations, the invariant they keep, and what follows for
  the branches of every session.
\<close>

section \<open>Every operation keeps the forest sound\<close>

locale append_only =
  fixes op :: "'d \<Rightarrow> 'd \<Rightarrow> bool" and log :: "'d \<Rightarrow> 'e list"
  assumes op_appends: "op d d' \<Longrightarrow> \<exists>new. log d' = log d @ new"
begin

lemma log_grows: "op\<^sup>*\<^sup>* d d' \<Longrightarrow> \<exists>new. log d' = log d @ new"
proof (induction rule: rtranclp_induct)
  case (step a b)
  with op_appends [of a b] show ?case by auto
qed simp

lemma entry_stays: "op\<^sup>*\<^sup>* d d' \<Longrightarrow> e \<in> set (log d) \<Longrightarrow> e \<in> set (log d')"
  using log_grows by fastforce

end

inductive forest_step :: "forest_db \<Rightarrow> forest_db \<Rightarrow> bool" where
  opened: "\<not> session_exists d s \<Longrightarrow> forest_step d (d\<lparr>fd_sessions := fd_sessions d @ [(s, native)]\<rparr>)"
| appended: "append_entry st s k p d = Ok (e, d') \<Longrightarrow> forest_step d d'"
| appended_to: "append_to st s parent k p d = Ok (e, d') \<Longrightarrow> forest_step d d'"
| in_transaction: "append_in_transaction st s k p d = Ok (e, d') \<Longrightarrow> forest_step d d'"
| summarised: "append_branch_summary st s parent text_of d = Ok (e, d') \<Longrightarrow> forest_step d d'"
| mirrored: "session_event st trace s ev meta d = Ok (a, d') \<Longrightarrow> forest_step d d'"
| moved: "move_head now s target d = Ok d' \<Longrightarrow> forest_step d d'"
| forked: "fork_history refusal uuid new now s leaf d = Ok d' \<Longrightarrow> forest_step d d'"

inductive_cases forest_stepE: "forest_step d d'"

definition parent_ok :: "forest_db \<Rightarrow> session_entry \<Rightarrow> bool" where
  "parent_ok d e \<longleftrightarrow>
     (case se_parent e of
        None \<Rightarrow> True
      | Some p \<Rightarrow> (\<exists>x\<in>set (fd_entries d). se_id x = p \<and> se_session x = se_session e \<and> se_sequence x < se_sequence e))"

definition entry_ok :: "forest_db \<Rightarrow> session_entry \<Rightarrow> bool" where
  "entry_ok d e \<longleftrightarrow> valid_entry e \<and> session_exists d (se_session e) \<and> 1 \<le> se_sequence e \<and> parent_ok d e"

definition head_ok :: "forest_db \<Rightarrow> session_head \<Rightarrow> bool" where
  "head_ok d h \<longleftrightarrow>
     (case sh_active h of
        None \<Rightarrow> True | Some i \<Rightarrow> (\<exists>x\<in>set (fd_entries d). se_id x = i \<and> se_session x = sh_session h))"

definition forest_ok :: "forest_db \<Rightarrow> bool" where
  "forest_ok d \<longleftrightarrow> keyed_entries (fd_entries d) \<and> list_all (entry_ok d) (fd_entries d)
     \<and> list_all (head_ok d) (fd_heads d)"

definition grows :: "forest_db \<Rightarrow> forest_db \<Rightarrow> bool" where
  "grows d d' \<longleftrightarrow> set (fd_entries d) \<subseteq> set (fd_entries d') \<and> fst ` set (fd_sessions d) \<subseteq> fst ` set (fd_sessions d')"

lemma grows_entry: "grows d d' \<Longrightarrow> entry_ok d e \<Longrightarrow> entry_ok d' e"
  unfolding grows_def entry_ok_def parent_ok_def session_exists_def by (auto split: option.splits)

lemma grows_head: "grows d d' \<Longrightarrow> head_ok d h \<Longrightarrow> head_ok d' h"
  unfolding grows_def head_ok_def by (auto split: option.splits)

lemma insert_entry_Ok:
  "insert_entry r e d = Ok d' \<longleftrightarrow> se_id e \<notin> se_id ` set (fd_entries d)
     \<and> \<not> list_ex (\<lambda>x. se_session x = se_session e \<and> se_sequence x = se_sequence e) (fd_entries d)
     \<and> session_exists d (se_session e)
     \<and> (case se_parent e of None \<Rightarrow> True | Some p \<Rightarrow> p \<in> se_id ` set (fd_entries d))
     \<and> d' = d\<lparr>fd_entries := fd_entries d @ [e]\<rparr>"
  unfolding insert_entry_def by (auto simp: find_entry_None split: option.splits if_splits)

lemma insert_ok:
  assumes "insert_entry r e d = Ok d'" "forest_ok d" "entry_ok d e"
  shows "forest_ok d'"
proof -
  note i = assms(1) [unfolded insert_entry_Ok]
  have g: "grows d d'" using i by (auto simp: grows_def)
  have "keyed_entries (fd_entries d')" using i assms(2) by (auto simp: forest_ok_def keyed_entries_def)
  moreover have "list_all (entry_ok d') (fd_entries d')"
    using i assms(2,3) grows_entry [OF g] by (auto simp: forest_ok_def list_all_iff)
  moreover have "list_all (head_ok d') (fd_heads d')"
    using i assms(2) grows_head [OF g] by (auto simp: forest_ok_def list_all_iff)
  ultimately show ?thesis by (simp add: forest_ok_def)
qed

lemma set_head_ok:
  assumes "forest_ok d" "head_ok d new" "\<And>h. sh_session h = s \<Longrightarrow> head_ok d (update h)"
  shows "forest_ok (set_head s new update d)"
proof -
  have "entry_ok (set_head s new update d) = entry_ok d" "head_ok (set_head s new update d) = head_ok d"
    by (simp_all add: fun_eq_iff entry_ok_def head_ok_def parent_ok_def set_head_def session_exists_def
        split: option.split)
  then show ?thesis using assms by (auto simp: forest_ok_def set_head_def list_all_iff)
qed

lemma point_head_ok:
  assumes "forest_ok d" "\<And>i. active = Some i \<Longrightarrow> \<exists>x\<in>set (fd_entries d). se_id x = i \<and> se_session x = s"
  shows "forest_ok (point_head s active native now d)"
  unfolding point_head_def using assms by (intro set_head_ok) (auto simp: head_ok_def split: option.splits)

lemma point_head_entries [simp]:
  "fd_entries (point_head s active native now d) = fd_entries d"
  "fd_sessions (point_head s active native now d) = fd_sessions d"
  by (simp_all add: point_head_def set_head_def)

lemma fold_max_ge: "y \<in> insert x (set ns) \<Longrightarrow> (y::int) \<le> fold max ns x"
  using Max_ge [of "set (x # ns)" y] by (simp add: Max.set_eq_fold [symmetric] del: set_simps) simp

lemma next_sequence_above:
  assumes "e \<in> set (fd_entries d)" "se_session e = s"
  shows "se_sequence e < next_sequence d s"
proof -
  let ?ns = "map se_sequence (filter (\<lambda>e. se_session e = s) (fd_entries d))"
  have "se_sequence e \<in> set ?ns" using assms by auto
  then obtain n ns where "?ns = n # ns" "se_sequence e \<in> insert n (set ns)" by (cases ?ns) auto
  with fold_max_ge show ?thesis unfolding next_sequence_def by (simp add: zle_add1_eq_le)
qed

lemma next_sequence_pos:
  assumes "forest_ok d"
  shows "1 \<le> next_sequence d s"
proof (cases "\<exists>e\<in>set (fd_entries d). se_session e = s")
  case True
  then obtain e where e: "e \<in> set (fd_entries d)" "se_session e = s" by blast
  then have "1 \<le> se_sequence e" using assms by (auto simp: forest_ok_def entry_ok_def list_all_iff)
  with next_sequence_above [OF e] show ?thesis by linarith
next
  case False
  then have "filter (\<lambda>e. se_session e = s) (fd_entries d) = []" by (auto simp: filter_empty_conv)
  then show ?thesis by (simp add: next_sequence_def)
qed

section \<open>What an append writes\<close>

lemma kind_round_trip: "k \<in> set typed_kinds \<Longrightarrow> kind_from_storage (kind_as_str k) = k"
proof -
  have "list_all (\<lambda>k. kind_from_storage (kind_as_str k) = k) typed_kinds" by code_simp
  then show "k \<in> set typed_kinds \<Longrightarrow> ?thesis" by (simp add: list_all_iff)
qed

lemma typed_or_legacy: "k \<in> set typed_kinds \<or> (\<exists>v. k = LegacyKind v)"
  by (cases k) (auto simp: typed_kinds_def)

definition reserved :: "string \<Rightarrow> bool" where
  "reserved k \<longleftrightarrow> k = typed_schema_marker \<or> k = repo_state_key"

lemma reserved_starts: "reserved k \<Longrightarrow> hd k = CHR ''_''"
  by (auto simp: reserved_def typed_schema_marker_def repo_state_key_def)

lemma reserved_get:
  "reserved k \<Longrightarrow> f \<noteq> [] \<and> hd f \<noteq> CHR ''_'' \<Longrightarrow> json_get (JObj (obj_insert k v ob)) f = json_get (JObj ob) f"
  using reserved_starts by (auto simp: json_get_def)

lemma reserved_require:
  assumes "reserved k"
  shows "list_all (\<lambda>f. f \<noteq> [] \<and> hd f \<noteq> CHR ''_'') fs \<Longrightarrow>
      require_string (JObj (obj_insert k v ob)) kind fs = require_string (JObj ob) kind fs"
    and "list_all (\<lambda>f. f \<noteq> [] \<and> hd f \<noteq> CHR ''_'') fs \<Longrightarrow>
      require_one_string (JObj (obj_insert k v ob)) kind fs = require_one_string (JObj ob) kind fs"
    and "f \<noteq> [] \<and> hd f \<noteq> CHR ''_'' \<Longrightarrow>
      require_number (JObj (obj_insert k v ob)) kind f = require_number (JObj ob) kind f"
proof -
  note g = reserved_get [OF assms, of _ v ob]
  show "list_all (\<lambda>f. f \<noteq> [] \<and> hd f \<noteq> CHR ''_'') fs \<Longrightarrow>
      require_string (JObj (obj_insert k v ob)) kind fs = require_string (JObj ob) kind fs"
    unfolding require_string_def has_text_def using g by (simp add: list_all_iff)
  show "list_all (\<lambda>f. f \<noteq> [] \<and> hd f \<noteq> CHR ''_'') fs \<Longrightarrow>
      require_one_string (JObj (obj_insert k v ob)) kind fs = require_one_string (JObj ob) kind fs"
    unfolding require_one_string_def has_text_def using g by (simp add: list_all_iff list_ex_iff)
  show "f \<noteq> [] \<and> hd f \<noteq> CHR ''_'' \<Longrightarrow>
      require_number (JObj (obj_insert k v ob)) kind f = require_number (JObj ob) kind f"
    unfolding require_number_def by (simp add: g)
qed

lemma payload_contract_insert:
  assumes "reserved key"
  shows "payload_contract (JObj (obj_insert key v ob)) k = payload_contract (JObj ob) k"
  by (cases k) (simp_all add: reserved_require [OF assms] reserved_get [OF assms] numbered_def split: sum.split)

lemma validate_payload_insert:
  "reserved key \<Longrightarrow>
   validate_payload k (JObj (obj_insert key v ob)) = validate_payload k (JObj ob)"
  using payload_contract_insert [of key v ob k] by (cases k) (simp_all add: validate_payload_def)

lemma validate_payload_typed: "validate_payload k p = Ok () \<Longrightarrow> k \<in> set typed_kinds \<and> (\<exists>ob. p = JObj ob)"
  using typed_or_legacy [of k]
  by (auto simp: validate_payload_def split: entry_kind.splits json.splits)

definition entry_of_append :: "stamp \<Rightarrow> string \<Rightarrow> string option \<Rightarrow> entry_kind \<Rightarrow> json_object \<Rightarrow> forest_db \<Rightarrow> session_entry" where
  "entry_of_append st s parent k ob d =
     \<lparr>se_id = st_uuid st, se_session = s, se_parent = parent, se_sequence = next_sequence d s,
      se_schema = semantic_schema_version, se_kind = kind_as_str k,
      se_payload = JObj (obj_insert repo_state_key (st_repo st)
        (obj_insert typed_schema_marker (JPos typed_schema_version) ob)),
      se_provider_event = None, se_visibility = ''eligible'', se_token_estimate = None, se_created = st_now st\<rparr>"

lemma entry_of_append_simps [simp]:
  "se_id (entry_of_append st s parent k ob d) = st_uuid st"
  "se_session (entry_of_append st s parent k ob d) = s"
  "se_parent (entry_of_append st s parent k ob d) = parent"
  "se_sequence (entry_of_append st s parent k ob d) = next_sequence d s"
  by (simp_all add: entry_of_append_def)

lemma appended_valid:
  assumes "validate_payload k (JObj ob) = Ok ()"
  shows "valid_entry (entry_of_append st s parent k ob d)"
proof -
  have k: "kind_from_storage (kind_as_str k) = k"
    using kind_round_trip validate_payload_typed [OF assms] by blast
  have m: "repo_state_key \<noteq> typed_schema_marker" "reserved typed_schema_marker" "reserved repo_state_key"
    by (simp_all add: repo_state_key_def typed_schema_marker_def reserved_def)
  show ?thesis
    using assms k m
    by (simp add: valid_entry_def validate_stored_entry_def entry_of_append_def validate_payload_insert
        min_semantic_schema_version_def semantic_schema_version_def)
qed

lemma append_to_Ok:
  "append_to st s parent k p d = Ok (e, d') \<longleftrightarrow>
     (\<exists>ob. p = JObj ob \<and> validate_payload k (JObj ob) = Ok () \<and> session_exists d s
        \<and> (case parent of None \<Rightarrow> True | Some i \<Rightarrow> ensure_entry_in_session d s i = Ok ())
        \<and> e = entry_of_append st s parent k ob d
        \<and> st_uuid st \<notin> se_id ` set (fd_entries d)
        \<and> d' = point_head s (Some (st_uuid st)) (map_of (fd_sessions d) s \<bind> (\<lambda>v. v)) (st_now st)
             (d\<lparr>fd_entries := fd_entries d @ [e]\<rparr>))"
proof -
  have fresh: "\<not> list_ex (\<lambda>x. se_session x = s \<and> se_sequence x = next_sequence d s) (fd_entries d)"
    using next_sequence_above [of _ d s] by (auto simp: list_ex_iff) (metis less_irrefl)
  have par: "(case parent of None \<Rightarrow> True | Some i \<Rightarrow> ensure_entry_in_session d s i = Ok ()) \<Longrightarrow>
      (case parent of None \<Rightarrow> True | Some i \<Rightarrow> i \<in> se_id ` set (fd_entries d))"
    using find_entry_id [of "fd_entries d"]
    by (auto simp: ensure_entry_in_session_def split: option.splits if_splits)
  show ?thesis
  proof (cases "validate_payload k p = Ok ()")
    case False
    then show ?thesis by (cases "validate_payload k p") (auto simp: append_to_def)
  next
    case True
    then obtain ob where p: "p = JObj ob" using validate_payload_typed by blast
    let ?e = "entry_of_append st s parent k ob d"
    have ins: "\<exists>x. insert_entry (st_refusal st) ?e d =
        (if st_uuid st \<notin> se_id ` set (fd_entries d) then Ok (d\<lparr>fd_entries := fd_entries d @ [?e]\<rparr>) else Err x)"
      if "session_exists d s" "case parent of None \<Rightarrow> True | Some i \<Rightarrow> ensure_entry_in_session d s i = Ok ()"
    proof (cases "insert_entry (st_refusal st) ?e d")
      case (Inl x)
      have "insert_entry (st_refusal st) ?e d \<noteq> Ok (d\<lparr>fd_entries := fd_entries d @ [?e]\<rparr>)" using Inl by simp
      then have "st_uuid st \<in> se_id ` set (fd_entries d)"
        using that par fresh unfolding insert_entry_Ok by simp
      with Inl show ?thesis by simp
    next
      case (Inr d1)
      from insert_entry_Ok [THEN iffD1, OF Inr] Inr show ?thesis by simp
    qed
    have tx: "append_session_entry st s parent (kind_as_str k) (mark_typed_payload p) None ''eligible'' None d
        = (case insert_entry (st_refusal st) (entry_of_append st s parent k ob d) d of
             Inl x \<Rightarrow> Err x
           | Inr d1 \<Rightarrow> Ok (entry_of_append st s parent k ob d,
               point_head s (Some (st_uuid st)) (map_of (fd_sessions d) s \<bind> (\<lambda>v. v)) (st_now st) d1))"
      unfolding p append_session_entry_def mark_typed_payload_def entry_of_append_def Let_def
      by (simp split: sum.split)
    have app: "append_to st s parent k p d =
        (if \<not> session_exists d s then Err (SessionNotFound s)
         else case (case parent of None \<Rightarrow> Ok () | Some i \<Rightarrow> ensure_entry_in_session d s i) of
           Inl x \<Rightarrow> Err x
         | Inr _ \<Rightarrow> (case insert_entry (st_refusal st) (entry_of_append st s parent k ob d) d of
             Inl x \<Rightarrow> Err x
           | Inr d1 \<Rightarrow> Ok (entry_of_append st s parent k ob d,
               point_head s (Some (st_uuid st)) (map_of (fd_sessions d) s \<bind> (\<lambda>v. v)) (st_now st) d1)))"
      unfolding append_to_def ensure_session_def tx [symmetric] by (simp add: True)
    show ?thesis
    proof (cases "session_exists d s \<and> (case parent of None \<Rightarrow> True | Some i \<Rightarrow> ensure_entry_in_session d s i = Ok ())")
      case False
      then show ?thesis unfolding app by (cases parent) (auto split: sum.splits)
    next
      case ok: True
      from ins ok obtain x where x: "insert_entry (st_refusal st) ?e d =
        (if st_uuid st \<notin> se_id ` set (fd_entries d) then Ok (d\<lparr>fd_entries := fd_entries d @ [?e]\<rparr>) else Err x)"
        by blast
      have "(case parent of None \<Rightarrow> Ok () | Some i \<Rightarrow> ensure_entry_in_session d s i) = Ok ()"
        using ok by (simp split: option.splits)
      with x ok True p show ?thesis unfolding app by auto
    qed
  qed
qed

lemma ensure_Ok:
  "ensure_entry_in_session d s i = Ok () \<Longrightarrow> \<exists>x\<in>set (fd_entries d). se_id x = i \<and> se_session x = s"
  using find_entry_id [of "fd_entries d" i]
  by (auto simp: ensure_entry_in_session_def split: option.splits if_splits)

lemma appending:
  assumes "append_to st s parent k p d = Ok (e, d')"
  shows "fd_entries d' = fd_entries d @ [e]" "fd_sessions d' = fd_sessions d"
    "forest_ok d \<Longrightarrow> forest_ok d'" "valid_entry e" "se_session e = s" "se_parent e = parent"
    "session_exists d s"
proof -
  from assms [unfolded append_to_Ok] obtain ob where p: "p = JObj ob" "validate_payload k (JObj ob) = Ok ()"
    and se: "session_exists d s"
    and par: "case parent of None \<Rightarrow> True | Some i \<Rightarrow> ensure_entry_in_session d s i = Ok ()"
    and e: "e = entry_of_append st s parent k ob d" and fresh: "st_uuid st \<notin> se_id ` set (fd_entries d)"
    and d': "d' = point_head s (Some (st_uuid st)) (map_of (fd_sessions d) s \<bind> (\<lambda>v. v)) (st_now st)
             (d\<lparr>fd_entries := fd_entries d @ [e]\<rparr>)" by blast
  show "fd_entries d' = fd_entries d @ [e]" "fd_sessions d' = fd_sessions d" "se_session e = s"
    "se_parent e = parent" "session_exists d s" using d' e se by simp_all
  show v: "valid_entry e" using appended_valid [OF p(2)] e by simp
  show "forest_ok d'" if ok: "forest_ok d"
  proof -
    let ?d = "d\<lparr>fd_entries := fd_entries d @ [e]\<rparr>"
    have "parent_ok d e"
      using par ensure_Ok [of d s] next_sequence_above [of _ d s] e
      by (auto simp: parent_ok_def split: option.splits)
    then have eo: "entry_ok d e" using v se next_sequence_pos [OF ok] e by (simp add: entry_ok_def)
    have g: "grows d ?d" by (auto simp: grows_def)
    have "forest_ok ?d"
      using ok fresh e grows_entry [OF g] grows_head [OF g] eo
      by (auto simp: forest_ok_def keyed_entries_def list_all_iff)
    then show ?thesis unfolding d' by (rule point_head_ok) (use e in auto)
  qed
qed

lemma append_stored:
  assumes "append_session_entry st s parent k payload pe vis tok d = Ok (e, d')"
  obtains ob d1 where "payload = JObj ob"
    "e = \<lparr>se_id = st_uuid st, se_session = s, se_parent = parent, se_sequence = next_sequence d s,
          se_schema = semantic_schema_version, se_kind = k,
          se_payload = JObj (obj_insert repo_state_key (st_repo st) ob), se_provider_event = pe,
          se_visibility = vis, se_token_estimate = tok, se_created = st_now st\<rparr>"
    "insert_entry (st_refusal st) e d = Ok d1"
    "d' = point_head s (Some (se_id e)) (map_of (fd_sessions d) s \<bind> (\<lambda>v. v)) (st_now st) d1"
  using assms that by (auto simp: append_session_entry_def Let_def split: json.splits sum.splits)

lemma stored_ok:
  assumes "append_session_entry st s parent k payload pe vis tok d = Ok (e, d')"
    "forest_ok d" "valid_entry e" "parent_ok d e"
  shows "forest_ok d'"
proof -
  from append_stored [OF assms(1)] obtain d1 where i: "insert_entry (st_refusal st) e d = Ok d1"
    and d': "d' = point_head s (Some (se_id e)) (map_of (fd_sessions d) s \<bind> (\<lambda>v. v)) (st_now st) d1"
    and e: "se_session e = s" "se_sequence e = next_sequence d s" by (metis session_entry.select_convs(2,4))
  have s: "session_exists d s" and d1: "d1 = d\<lparr>fd_entries := fd_entries d @ [e]\<rparr>"
    using i e by (simp_all add: insert_entry_Ok)
  have "entry_ok d e" using assms(2-4) s e next_sequence_pos [OF assms(2), of s] by (simp add: entry_ok_def)
  with insert_ok [OF i assms(2)] have "forest_ok d1" .
  then show ?thesis unfolding d' by (rule point_head_ok) (use d1 e in auto)
qed

lemma head_parent_ok:
  assumes "forest_ok d" "se_parent e = raw_active_head_id d (se_session e)"
    "se_sequence e = next_sequence d (se_session e)"
  shows "parent_ok d e"
proof (cases "raw_active_head_id d (se_session e)")
  case (Some i)
  then obtain h where h: "find_head d (se_session e) = Some h" "sh_active h = Some i"
    by (auto simp: raw_active_head_id_def split: bind_splits)
  then have "h \<in> set (fd_heads d)" "sh_session h = se_session e" by (auto simp: find_head_def find_Some_iff)
  with assms(1) h(2) obtain x where "x \<in> set (fd_entries d)" "se_id x = i" "se_session x = se_session e"
    by (fastforce simp: forest_ok_def list_all_iff head_ok_def)
  with Some assms next_sequence_above [of x d "se_session e"] show ?thesis by (auto simp: parent_ok_def)
qed (use assms in \<open>simp add: parent_ok_def\<close>)

text \<open>A mirrored event carries no marker, so nothing is asked of its payload.\<close>

lemma mirrored_valid:
  assumes "se_schema e = semantic_schema_version"
    "se_payload e = JObj (obj_insert repo_state_key v (mirrored_payload trace s d ev meta))"
  shows "valid_entry e"
proof -
  have "obj_get (mirrored_payload trace s d ev meta) typed_schema_marker = None"
    by (simp add: mirrored_payload_def obj_get_def typed_schema_marker_def)
  then show ?thesis
    using assms by (simp add: valid_entry_def validate_stored_entry_def min_semantic_schema_version_def
        semantic_schema_version_def repo_state_key_def typed_schema_marker_def)
qed

lemma session_event_to:
  assumes "session_event st trace s ev meta d = Ok (a, d')"
  shows "d' = d \<or> (\<exists>new. fd_entries d' = fd_entries d @ [new]) \<and> fd_sessions d' = fd_sessions d
    \<and> (forest_ok d \<longrightarrow> forest_ok d')"
proof (cases "stored_kind ev")
  case None
  with assms show ?thesis by (auto simp: session_event_def split: sum.splits)
next
  case (Some kind)
  with assms obtain e where ap: "append_session_entry st s (raw_active_head_id d s) kind
      (JObj (mirrored_payload trace s d ev meta)) (ne_item_id ev)
      (if kind \<in> set hidden_control_kinds then hidden_visibility else ''eligible'') None d = Ok (e, d')"
    by (auto simp: session_event_def split: sum.splits)
  from append_stored [OF ap] obtain d1 where e: "se_schema e = semantic_schema_version" "se_session e = s"
      "se_payload e = JObj (obj_insert repo_state_key (st_repo st) (mirrored_payload trace s d ev meta))"
      "se_parent e = raw_active_head_id d s" "se_sequence e = next_sequence d s"
    and i: "insert_entry (st_refusal st) e d = Ok d1"
    and d': "d' = point_head s (Some (se_id e)) (map_of (fd_sessions d) s \<bind> (\<lambda>v. v)) (st_now st) d1"
    by (metis (no_types, lifting) json.inject(7) session_entry.select_convs)
  have "forest_ok d \<Longrightarrow> forest_ok d'"
    by (rule stored_ok [OF ap]) (use mirrored_valid [OF e(1,3)] head_parent_ok e in auto)
  with i d' show ?thesis by (auto simp: insert_entry_Ok)
qed

lemma append_entry_to: "append_entry st s k p d = Ok r \<Longrightarrow> \<exists>parent. append_to st s parent k p d = Ok r"
  by (auto simp: append_entry_def split: sum.splits)

lemma in_transaction_to:
  assumes "append_in_transaction st s k p d = Ok r"
  shows "append_to st s (raw_active_head_id d s) k p d = Ok r"
proof -
  from assms have v: "validate_payload k p = Ok ()" and se: "session_exists d s"
    by (auto simp: append_in_transaction_def split: sum.splits if_splits)
  show ?thesis
  proof (cases "raw_active_head_id d s")
    case None
    with assms v se show ?thesis by (simp add: append_in_transaction_def append_to_def ensure_session_def)
  next
    case (Some i)
    with assms v se have "map_option se_session (find_entry (fd_entries d) i) = Some s"
      by (simp add: append_in_transaction_def Let_def split: if_splits)
    then have "ensure_entry_in_session d s i = Ok ()" by (auto simp: ensure_entry_in_session_def)
    with Some assms v se show ?thesis
      by (simp add: append_in_transaction_def append_to_def ensure_session_def Let_def split: if_splits)
  qed
qed

fun fork_copies :: "(nat \<Rightarrow> string) \<Rightarrow> string \<Rightarrow> string option \<Rightarrow> nat \<Rightarrow> session_entry list \<Rightarrow> session_entry list" where
  "fork_copies uuid s parent n [] = []"
| "fork_copies uuid s parent n (e # es) =
     fork_copy (uuid n) s parent n e # fork_copies uuid s (Some (uuid n)) (n + 1) es"

lemma fork_copy_valid [simp]: "valid_entry (fork_copy i s parent n e) = valid_entry e"
  by (auto simp: valid_entry_def validate_stored_entry_def fork_copy_def split: json.splits)

lemma fork_copy_simps [simp]:
  "se_id (fork_copy i s parent n e) = i" "se_session (fork_copy i s parent n e) = s"
  "se_parent (fork_copy i s parent n e) = parent" "se_sequence (fork_copy i s parent n e) = int n + 1"
  by (simp_all add: fork_copy_def)

lemma fork_copies_linked: "linked parent (fork_copies uuid s parent n es)"
  by (induction es arbitrary: parent n) simp_all

lemma fork_copies_valid: "list_all valid_entry (fork_copies uuid s parent n es) = list_all valid_entry es"
  by (induction es arbitrary: parent n) simp_all

lemma fork_copies_session: "list_all (\<lambda>e. se_session e = s) (fork_copies uuid s parent n es)"
  by (induction es arbitrary: parent n) simp_all

lemma fork_copies_Nil [simp]: "fork_copies uuid s parent n es = [] \<longleftrightarrow> es = []"
  by (cases es) simp_all

lemma fork_copies_last:
  "es \<noteq> [] \<Longrightarrow> se_id (last (fork_copies uuid s parent n es)) = uuid (n + length es - 1)"
  by (induction es arbitrary: parent n) auto

lemma copy_branch_Ok:
  assumes "copy_branch refusal uuid s parent cp n es d = Ok (head, cp', d')" "forest_ok d"
    "session_exists d s" "list_all valid_entry es"
    "case parent of None \<Rightarrow> True
     | Some p \<Rightarrow> (\<exists>x\<in>set (fd_entries d). se_id x = p \<and> se_session x = s \<and> se_sequence x < int n + 1)"
  shows "forest_ok d' \<and> d' = d\<lparr>fd_entries := fd_entries d @ fork_copies uuid s parent n es\<rparr>
    \<and> head = (if es = [] then parent else Some (uuid (n + length es - 1)))"
  using assms
proof (induction es arbitrary: parent cp n d)
  case (Cons e es)
  let ?c = "fork_copy (uuid n) s parent n e"
  from Cons.prems(1) obtain d1 where i: "insert_entry refusal ?c d = Ok d1"
    and r: "copy_branch refusal uuid s (Some (uuid n))
      (if se_kind e = kind_as_str CheckpointEntry then Some (uuid n) else cp) (n + 1) es d1 = Ok (head, cp', d')"
    by (auto split: sum.splits)
  have "entry_ok d ?c" using Cons.prems(3-5) by (auto simp: entry_ok_def parent_ok_def split: option.splits)
  with insert_ok [OF i Cons.prems(2)] have ok: "forest_ok d1" .
  have d1: "d1 = d\<lparr>fd_entries := fd_entries d @ [?c]\<rparr>" using i by (simp add: insert_entry_Ok)
  have "forest_ok d' \<and> d' = d1\<lparr>fd_entries := fd_entries d1 @ fork_copies uuid s (Some (uuid n)) (n + 1) es\<rparr>
      \<and> head = (if es = [] then Some (uuid n) else Some (uuid (n + 1 + length es - 1)))"
    by (rule Cons.IH [OF r ok]) (use Cons.prems(3,4) d1 in \<open>auto simp: session_exists_def\<close>)
  with d1 show ?case by auto
qed simp

lemma find_after: "find P xs = None \<Longrightarrow> find P (xs @ ys) = find P ys"
  by (induction xs) (auto split: if_splits)

lemma forking:
  assumes "fork_history refusal uuid new now s leaf d = Ok d'" "forest_ok d"
  obtains branch where "branch_to_leaf d s leaf = Ok branch" "branch \<noteq> []" "\<not> session_exists d new"
    "fd_entries d' = fd_entries d @ fork_copies uuid new None 0 branch"
    "fd_sessions d' = fd_sessions d @ [(new, None)]" "forest_ok d'"
    "raw_active_head_id d' new = Some (uuid (length branch - 1))" "find_head d new = None"
proof -
  let ?d0 = "\<lambda>d. d\<lparr>fd_sessions := fd_sessions d @ [(new, None)]\<rparr>"
  from assms(1) obtain branch head cp d1 where b: "branch_to_leaf d s leaf = Ok branch"
    and n: "\<not> session_exists d new"
    and c: "copy_branch refusal uuid new None None 0 branch (?d0 d) = Ok (Some head, cp, d1)"
    and f: "find_head d1 new = None"
    and d': "d' = d1\<lparr>fd_heads := fd_heads d1 @ [\<lparr>sh_session = new, sh_active = Some head, sh_native = None,
                        sh_restoration = ''checkpoint_restored'', sh_eligibility = ''checkpoint_restored'',
                        sh_checkpoint = cp, sh_updated = now\<rparr>]\<rparr>"
    by (auto simp: fork_history_def split: sum.splits if_splits option.splits prod.splits)
  have k: "keyed_entries (session_entries d s)" using assms(2) keyed_session by (simp add: forest_ok_def)
  with b have p: "path_to (session_entries d s) leaf branch" using branch_Ok by blast
  then have v: "list_all valid_entry branch" "branch \<noteq> []" by (simp_all add: path_to_def)
  have g: "grows d (?d0 d)" by (auto simp: grows_def)
  have ok0: "forest_ok (?d0 d)"
    using assms(2) grows_entry [OF g] grows_head [OF g] by (auto simp: forest_ok_def list_all_iff)
  have "session_exists (?d0 d) new" by (simp add: session_exists_def)
  from copy_branch_Ok [OF c ok0 this v(1)] v(2)
  have ok1: "forest_ok d1" and d1: "d1 = (?d0 d)\<lparr>fd_entries := fd_entries d @ fork_copies uuid new None 0 branch\<rparr>"
    and h: "head = uuid (length branch - 1)" by auto
  have e1: "fd_entries d1 = fd_entries d @ fork_copies uuid new None 0 branch" using d1 by simp
  have "last (fork_copies uuid new None 0 branch) \<in> set (fork_copies uuid new None 0 branch)"
    using v(2) by simp
  with fork_copies_session [of new uuid None 0 branch] fork_copies_last [of branch uuid new None 0] v(2)
  have hd: "\<exists>x\<in>set (fd_entries d1). se_id x = head \<and> se_session x = new"
    unfolding e1 h list_all_iff by (metis (no_types) Un_iff add_0 set_append)
  have "forest_ok d'"
  proof -
    have "entry_ok d' = entry_ok d1" "head_ok d' = head_ok d1"
      by (simp_all add: d' fun_eq_iff entry_ok_def head_ok_def parent_ok_def session_exists_def split: option.split)
    with ok1 hd show ?thesis by (auto simp: forest_ok_def d' head_ok_def list_all_iff)
  qed
  moreover have "raw_active_head_id d' new = Some (uuid (length branch - 1))"
    using f h by (simp add: raw_active_head_id_def find_head_def d' find_after)
  moreover have "find_head d new = None" using f d1 by (simp add: find_head_def)
  ultimately show ?thesis using that [OF b v(2) n] d' d1 by simp
qed

lemma copy_branch_grows:
  "copy_branch refusal uuid s parent cp n es d = Ok (head, cp', d') \<Longrightarrow>
   (\<exists>new. fd_entries d' = fd_entries d @ new) \<and> fd_sessions d' = fd_sessions d"
proof (induction es arbitrary: parent cp n d)
  case (Cons e es)
  from Cons.prems obtain d1 cp1 where i: "insert_entry refusal (fork_copy (uuid n) s parent n e) d = Ok d1"
    and r: "copy_branch refusal uuid s (Some (uuid n)) cp1 (n + 1) es d1 = Ok (head, cp', d')"
    by (auto split: sum.splits)
  with Cons.IH [OF r] show ?case by (auto simp: insert_entry_Ok)
qed simp

lemma fork_grows:
  assumes "fork_history refusal uuid new now s leaf d = Ok d'"
  shows "(\<exists>xs. fd_entries d' = fd_entries d @ xs) \<and> (\<exists>xs. fd_sessions d' = fd_sessions d @ xs)"
proof -
  from assms obtain branch head cp d1 where
    "copy_branch refusal uuid new None None 0 branch (d\<lparr>fd_sessions := fd_sessions d @ [(new, None)]\<rparr>) = Ok (head, cp, d1)"
    "fd_entries d' = fd_entries d1" "fd_sessions d' = fd_sessions d1"
    by (auto simp: fork_history_def split: sum.splits if_splits option.splits prod.splits)
  with copy_branch_grows show ?thesis by fastforce
qed

section \<open>The life of a forest\<close>

lemma step_facts:
  assumes "forest_step d d'"
  shows "\<exists>new. fd_entries d' = fd_entries d @ new"
    and "\<exists>new. fd_sessions d' = fd_sessions d @ new"
    and "forest_ok d \<Longrightarrow> forest_ok d'"
proof -
  have a: "(\<exists>new. fd_entries d' = fd_entries d @ new) \<and> (\<exists>new. fd_sessions d' = fd_sessions d @ new)
      \<and> (forest_ok d \<longrightarrow> forest_ok d')" if "append_to st s parent k p d = Ok (e, d')" for st s parent k p e
    using appending(1-3) [OF that] by auto
  have "(\<exists>new. fd_entries d' = fd_entries d @ new) \<and> (\<exists>new. fd_sessions d' = fd_sessions d @ new)
      \<and> (forest_ok d \<longrightarrow> forest_ok d')"
    using assms
  proof cases
    case (opened s native)
    then have "grows d d'" by (auto simp: grows_def)
    with opened grows_entry [of d d'] grows_head [of d d'] show ?thesis
      by (auto simp: forest_ok_def list_all_iff)
  next
    case (appended st s k p e)
    with append_entry_to a show ?thesis by blast
  next
    case (appended_to st s parent k p e)
    with a show ?thesis by blast
  next
    case (in_transaction st s k p e)
    with in_transaction_to a show ?thesis by blast
  next
    case (summarised st s parent text_of e)
    with a show ?thesis unfolding append_branch_summary_def by blast
  next
    case (mirrored st trace s ev meta a)
    with session_event_to [OF mirrored] show ?thesis by auto
  next
    case (moved now s target)
    then have d': "d' = point_head s target None now d"
      and t: "case target of None \<Rightarrow> True | Some i \<Rightarrow> ensure_entry_in_session d s i = Ok ()"
      by (auto simp: move_head_def split: sum.splits option.splits)
    have "forest_ok d \<Longrightarrow> forest_ok d'"
      unfolding d' by (rule point_head_ok) (use t ensure_Ok in auto)
    with d' show ?thesis by simp
  next
    case (forked refusal uuid new now s leaf)
    then have b: "\<exists>xs. fd_entries d' = fd_entries d @ xs" "\<exists>xs. fd_sessions d' = fd_sessions d @ xs"
      using fork_grows by blast+
    with forked forking show ?thesis by blast
  qed
  then show "\<exists>new. fd_entries d' = fd_entries d @ new" "\<exists>new. fd_sessions d' = fd_sessions d @ new"
    "forest_ok d \<Longrightarrow> forest_ok d'" by blast+
qed

interpretation history: append_only forest_step fd_entries
  by unfold_locales (rule step_facts(1))

interpretation sessions_kept: append_only forest_step fd_sessions
  by unfold_locales (rule step_facts(2))

lemma steps_ok: "forest_step\<^sup>*\<^sup>* d d' \<Longrightarrow> forest_ok d \<Longrightarrow> forest_ok d'"
  by (induction rule: rtranclp_induct) (auto intro: step_facts(3))

lemma sound_rooted:
  assumes "forest_ok d"
  shows "e \<in> set (fd_entries d) \<Longrightarrow> se_session e = s \<Longrightarrow> rooted (session_entries d s) (se_id e)"
proof (induction "nat (se_sequence e)" arbitrary: e rule: less_induct)
  case less
  let ?es = "session_entries d s"
  have k: "keyed_entries ?es" using assms keyed_session by (simp add: forest_ok_def)
  have f: "find_entry ?es (se_id e) = Some e" using find_entry_keyed [OF k] less.prems by simp
  show ?case
  proof (cases "next_up ?es (se_id e)")
    case None
    then show ?thesis by (rule rooted.root)
  next
    case (Some p)
    with f have "se_parent e = Some p" by (auto simp: next_up_def split: option.splits if_splits)
    moreover have "entry_ok d e" using assms less.prems by (auto simp: forest_ok_def list_all_iff)
    ultimately obtain x where x: "x \<in> set (fd_entries d)" "se_id x = p" "se_session x = s"
      "se_sequence x < se_sequence e" "1 \<le> se_sequence e"
      using less.prems by (auto simp: entry_ok_def parent_ok_def)
    then have "rooted ?es (se_id x)" by (intro less.hyps) auto
    with Some x show ?thesis by (auto intro: rooted.up)
  qed
qed

lemma sound_healthy:
  assumes "forest_ok d"
  shows "session_findings d s = []"
proof -
  let ?es = "session_entries d s"
  have k: "keyed_entries (fd_entries d)" and k': "keyed_entries ?es"
    using assms keyed_session by (simp_all add: forest_ok_def)
  have eo: "entry_ok d e" if "e \<in> set ?es" for e using assms that by (auto simp: forest_ok_def list_all_iff)
  have "anchored ?es e" if e: "e \<in> set ?es" for e
  proof (cases "se_parent e")
    case (Some p)
    with eo [OF e] e obtain x where "x \<in> set ?es" "se_id x = p" by (auto simp: entry_ok_def parent_ok_def)
    with Some find_entry_keyed [OF k'] show ?thesis by (auto simp: anchored_def)
  qed (simp add: anchored_def)
  moreover have "case raw_active_head_id d s of None \<Rightarrow> True | Some i \<Rightarrow> find_entry ?es i \<noteq> None"
  proof (cases "raw_active_head_id d s")
    case (Some i)
    then obtain h where h: "find_head d s = Some h" "sh_active h = Some i"
      by (auto simp: raw_active_head_id_def split: bind_splits)
    then have "h \<in> set (fd_heads d)" "sh_session h = s" by (auto simp: find_head_def find_Some_iff)
    with assms h(2) obtain x where "x \<in> set ?es" "se_id x = i"
      by (fastforce simp: forest_ok_def list_all_iff head_ok_def)
    with Some find_entry_keyed [OF k'] show ?thesis by auto
  qed simp
  ultimately show ?thesis
    using eo sound_rooted [OF assms] by (auto simp: findings_Nil Let_def list_all_iff entry_ok_def)
qed

lemma reads:
  assumes "forest_ok d" "session_exists d s"
  shows "is_ok (active_branch d s) \<and> list_all (\<lambda>e. is_ok (branch_to_leaf d s (se_id e))) (session_entries d s)"
proof -
  have "s \<in> set (ir_healthy (integrity_report d))"
    using sound_healthy [OF assms(1)] assms(2) by (auto simp: integrity_report_def Let_def session_exists_def)
  with health [of d s] assms(1) show ?thesis by (simp add: forest_ok_def)
qed

definition no_forest :: forest_db where "no_forest = \<lparr>fd_sessions = [], fd_entries = [], fd_heads = []\<rparr>"

lemma no_forest_ok: "forest_ok no_forest"
  by (simp add: forest_ok_def no_forest_def keyed_entries_def)

text \<open>
  C16. A session is reported healthy exactly if it can be read: from its head, and from every one of
  its entries back to a root. This holds of corrupted stores as well, as long as identifiers are
  unique.
\<close>
theorem healthy_session_reads:
  assumes "keyed_entries (fd_entries d)"
  shows "s \<in> set (ir_healthy (integrity_report d)) \<longleftrightarrow>
     is_ok (active_branch d s) \<and> list_all (\<lambda>e. is_ok (branch_to_leaf d s (se_id e))) (session_entries d s)"
  by (rule health [OF assms])

text \<open>
  C3. Whatever is appended, mirrored, moved and forked, and in whatever order: no session is
  ever quarantined, so every head and every branch of every session can be read.
\<close>
theorem reachable_forest_is_healthy:
  assumes "forest_step\<^sup>*\<^sup>* no_forest d"
  shows "ir_quarantined (integrity_report d) = []
    \<and> list_all (\<lambda>(s, _). is_ok (active_branch d s)
        \<and> list_all (\<lambda>e. is_ok (branch_to_leaf d s (se_id e))) (session_entries d s)) (fd_sessions d)"
proof -
  have ok: "forest_ok d" by (rule steps_ok [OF assms no_forest_ok])
  have f: "session_findings d s = []" for s by (rule sound_healthy [OF ok])
  note reads [OF ok]
  then show ?thesis
    using f by (force simp: integrity_report_def Let_def session_exists_def list_all_iff)
qed

lemma exists_grows: "forest_step\<^sup>*\<^sup>* d d' \<Longrightarrow> session_exists d s \<Longrightarrow> session_exists d' s"
  using sessions_kept.entry_stays unfolding session_exists_def by fastforce

lemma branch_stays:
  assumes "keyed_entries (fd_entries d)" "keyed_entries (fd_entries d')"
    "set (fd_entries d) \<subseteq> set (fd_entries d')" "session_exists d s \<Longrightarrow> session_exists d' s"
    "branch_to_leaf d s leaf = Ok bs"
  shows "branch_to_leaf d' s leaf = Ok bs"
proof -
  have "path_to (session_entries d s) leaf bs" "session_exists d s"
    using branch_Ok [OF keyed_session [OF assms(1)]] assms(5) by blast+
  then have "path_to (session_entries d' s) leaf bs" "session_exists d' s"
    using assms(3,4) by (auto simp: path_to_def)
  with branch_Ok [OF keyed_session [OF assms(2)]] show ?thesis by blast
qed

text \<open>
  C6. History is immutable: no entry is ever changed or removed, and a branch once read reads the
  same ever after, whatever is appended, rewound or forked since.
\<close>
theorem history_is_immutable:
  assumes "forest_step\<^sup>*\<^sup>* no_forest d" "forest_step\<^sup>*\<^sup>* d d'"
  shows "(\<exists>new. fd_entries d' = fd_entries d @ new)
    \<and> (branch_to_leaf d s leaf = Ok bs \<longrightarrow> branch_to_leaf d' s leaf = Ok bs)"
proof -
  have ok: "forest_ok d" by (rule steps_ok [OF assms(1) no_forest_ok])
  have ok': "forest_ok d'" by (rule steps_ok [OF assms(2) ok])
  from history.log_grows [OF assms(2)] obtain new where n: "fd_entries d' = fd_entries d @ new" ..
  have "branch_to_leaf d' s leaf = Ok bs" if "branch_to_leaf d s leaf = Ok bs"
    by (rule branch_stays [OF _ _ _ _ that])
       (use ok ok' n exists_grows [OF assms(2)] in \<open>auto simp: forest_ok_def\<close>)
  with n show ?thesis by blast
qed

lemma find_mapped:
  assumes "\<And>h. sh_session (u h) = sh_session h"
  shows "find (\<lambda>h. sh_session h = s) (map (\<lambda>h. if sh_session h = s then u h else h) hs)
      = map_option u (find (\<lambda>h. sh_session h = s) hs)"
  using assms by (induction hs) auto

lemma pointed: "raw_active_head_id (point_head s active native now d) s = active"
proof (cases "find_head d s")
  case None
  then show ?thesis
    using find_after [of "\<lambda>h. sh_session h = s" "fd_heads d"]
    by (simp add: raw_active_head_id_def find_head_def point_head_def set_head_def)
next
  case (Some h)
  then show ?thesis
    using find_mapped [of "\<lambda>h. h\<lparr>sh_active := active, sh_updated := now\<rparr>" s "fd_heads d"]
    by (simp add: raw_active_head_id_def find_head_def point_head_def set_head_def)
qed

lemma active_of_head:
  assumes "session_exists d s" "raw_active_head_id d s = Some i" "branch_to_leaf d s i = Ok bs"
    "keyed_entries (fd_entries d)"
  shows "active_branch d s = Ok bs"
proof -
  have "path_to (session_entries d s) i bs" using assms(3) branch_Ok [OF keyed_session [OF assms(4)]] by blast
  then have "last bs \<in> set (session_entries d s)" "se_id (last bs) = i" by (auto simp: path_to_def subset_iff)
  then have "find_entry (session_entries d s) i \<noteq> None"
    using find_entry_keyed [OF keyed_session [OF assms(4)]] by blast
  then have "ensure_entry_in_session d s i = Ok ()" using find_in_session [OF assms(4)] by blast
  with assms show ?thesis by (simp add: active_branch_def active_head_id_def ensure_session_def)
qed

text \<open>
  C23. An append extends the branch it names by one entry, and makes that branch the active one.
\<close>
theorem append_extends_its_branch:
  assumes "forest_step\<^sup>*\<^sup>* no_forest d" "append_to st s parent k p d = Ok (e, d')"
  shows "\<exists>bs. (case parent of None \<Rightarrow> bs = [] | Some i \<Rightarrow> branch_to_leaf d s i = Ok bs)
    \<and> branch_to_leaf d' s (se_id e) = Ok (bs @ [e]) \<and> active_branch d' s = Ok (bs @ [e])"
proof -
  have ok: "forest_ok d" by (rule steps_ok [OF assms(1) no_forest_ok])
  note a = appending [OF assms(2)]
  have ok': "forest_ok d'" by (rule a(3) [OF ok])
  have k: "keyed_entries (fd_entries d)" "keyed_entries (fd_entries d')" using ok ok' by (simp_all add: forest_ok_def)
  note K = keyed_session [OF k(1), of s] keyed_session [OF k(2), of s]
  have e': "e \<in> set (session_entries d' s)" using a(1,5) by simp
  have se': "session_exists d' s" using a(2,7) by (simp add: session_exists_def)
  obtain bs where bs: "case parent of None \<Rightarrow> bs = [] | Some i \<Rightarrow> branch_to_leaf d s i = Ok bs"
    and path: "path_to (session_entries d' s) (se_id e) (bs @ [e])"
  proof (cases parent)
    case None
    with a(4,6) e' that [of "[]"] show thesis by (simp add: path_to_def)
  next
    case (Some i)
    then have "ensure_entry_in_session d s i = Ok ()" using assms(2) unfolding append_to_Ok by auto
    then obtain x where x: "x \<in> set (fd_entries d)" "se_id x = i" "se_session x = s" using ensure_Ok by blast
    have "is_ok (branch_to_leaf d s i)"
      using reads [OF ok a(7)] x by (auto simp: list_all_iff)
    then obtain bs where b: "branch_to_leaf d s i = Ok bs" by (auto simp: is_ok_iff)
    then have "path_to (session_entries d s) i bs" using branch_Ok [OF K(1)] by blast
    then have "path_to (session_entries d' s) (se_id e) (bs @ [e])"
      using a(1,4,6) e' Some by (auto simp: path_to_def linked_snoc)
    with Some b that [of bs] show thesis by simp
  qed
  have b': "branch_to_leaf d' s (se_id e) = Ok (bs @ [e])" using branch_Ok [OF K(2)] path se' by blast
  have "raw_active_head_id d' s = Some (se_id e)"
    using assms(2) pointed unfolding append_to_Ok by auto
  with active_of_head [OF se' _ b' k(2)] bs b' show ?thesis by blast
qed

section \<open>Forks\<close>

text \<open>What a fork takes over of an entry; the rest is the fork's own.\<close>

definition content :: "session_entry \<Rightarrow> string \<times> json \<times> int \<times> string \<times> int option \<times> string" where
  "content e = (se_kind e, se_payload e, se_schema e, se_visibility e, se_token_estimate e, se_created e)"

lemma fork_copies_content: "map content (fork_copies uuid s parent n es) = map content es"
  by (induction es arbitrary: parent n) (simp_all add: content_def fork_copy_def)

lemma fork_copies_ids: "map se_id (fork_copies uuid s parent n es) = map uuid [n..<n + length es]"
  by (induction es arbitrary: parent n) (simp_all add: upt_conv_Cons del: upt_Suc)

lemma fork_copies_sequences:
  "map se_sequence (fork_copies uuid s parent n es) = map (\<lambda>i. int i + 1) [n..<n + length es]"
  by (induction es arbitrary: parent n) (simp_all add: upt_conv_Cons del: upt_Suc)

lemma other_session_entries:
  "list_all (\<lambda>e. se_session e \<noteq> s) new \<Longrightarrow> fd_entries d' = fd_entries d @ new \<Longrightarrow>
   session_entries d' s = session_entries d s"
  by (simp add: session_entries_def list_all_iff)

lemma forked_branch:
  assumes "forest_ok d" "fork_history refusal uuid new now s leaf d = Ok d'"
  shows "\<exists>bs. branch_to_leaf d s leaf = Ok bs \<and> bs \<noteq> []
    \<and> active_branch d' new = Ok (fork_copies uuid new None 0 bs)
    \<and> session_entries d' s = session_entries d s"
proof -
  from forking [OF assms(2,1)] obtain bs where b: "branch_to_leaf d s leaf = Ok bs" "bs \<noteq> []"
    and n: "\<not> session_exists d new" and e: "fd_entries d' = fd_entries d @ fork_copies uuid new None 0 bs"
    and s: "fd_sessions d' = fd_sessions d @ [(new, None)]" and ok: "forest_ok d'"
    and h: "raw_active_head_id d' new = Some (uuid (length bs - 1))" by metis
  let ?cs = "fork_copies uuid new None 0 bs"
  have k: "keyed_entries (fd_entries d)" "keyed_entries (fd_entries d')"
    using assms(1) ok by (simp_all add: forest_ok_def)
  from branch_Ok [OF keyed_session [OF k(1)]] b(1)
  have p: "path_to (session_entries d s) leaf bs" and se: "session_exists d s" by blast+
  have "s \<noteq> new" using se n by blast
  then have "list_all (\<lambda>e. se_session e \<noteq> s) ?cs"
    using fork_copies_session [of new uuid None 0 bs] by (auto simp: list_all_iff)
  then have src: "session_entries d' s = session_entries d s" by (rule other_session_entries [OF _ e])
  have "list_all valid_entry ?cs" using p by (simp add: path_to_def fork_copies_valid)
  then have "path_to (session_entries d' new) (uuid (length bs - 1)) ?cs"
    using p b(2) fork_copies_session [of new uuid None 0 bs] fork_copies_last [OF b(2), of uuid new None 0] e
    by (auto simp: path_to_def fork_copies_linked list_all_iff)
  moreover have se': "session_exists d' new" using s by (simp add: session_exists_def)
  ultimately have "branch_to_leaf d' new (uuid (length bs - 1)) = Ok ?cs"
    using branch_Ok [OF keyed_session [OF k(2)]] by blast
  from active_of_head [OF se' h this k(2)] b src show ?thesis by blast
qed

text \<open>
  C29. A fork reads as the branch it was taken from: the same contents in the same order, under fresh
  identifiers and numbered from one, and the session it was taken from keeps its entries.
\<close>
theorem fork_copies_the_branch:
  assumes "forest_step\<^sup>*\<^sup>* no_forest d" "fork_history refusal uuid new now s leaf d = Ok d'"
  shows "\<exists>bs cs. branch_to_leaf d s leaf = Ok bs \<and> active_branch d' new = Ok cs
    \<and> map content cs = map content bs \<and> map se_id cs = map uuid [0..<length bs]
    \<and> map se_sequence cs = map (\<lambda>i. int i + 1) [0..<length bs]
    \<and> session_entries d' s = session_entries d s"
proof -
  from forked_branch [OF steps_ok [OF assms(1) no_forest_ok] assms(2)] obtain bs where
    "branch_to_leaf d s leaf = Ok bs" "active_branch d' new = Ok (fork_copies uuid new None 0 bs)"
    "session_entries d' s = session_entries d s" by blast
  then show ?thesis
    using fork_copies_content fork_copies_ids [of uuid new None 0 bs] fork_copies_sequences [of uuid new None 0 bs]
    by (intro exI [of _ bs] exI [of _ "fork_copies uuid new None 0 bs"]) simp
qed

section \<open>A session with a fork\<close>

definition demo_stamp :: "string \<Rightarrow> stamp" where
  "demo_stamp i = \<lparr>st_uuid = i, st_now = ''t'', st_repo = JNull, st_refusal = \<lambda>_. ''refused''\<rparr>"

definition demo_says :: "string \<Rightarrow> json" where "demo_says t = JObj [(''text'', JStr t)]"

definition forest_one :: forest_db where "forest_one = no_forest\<lparr>fd_sessions := [(''s'', None)]\<rparr>"

definition said :: "string \<Rightarrow> string option \<Rightarrow> int \<Rightarrow> string \<Rightarrow> string \<Rightarrow> string \<Rightarrow> session_entry" where
  "said i parent n k t s =
     \<lparr>se_id = i, se_session = s, se_parent = parent, se_sequence = n, se_schema = 2, se_kind = k,
      se_payload = JObj [(''text'', JStr t), (typed_schema_marker, JPos 1), (repo_state_key, JNull)],
      se_provider_event = None, se_visibility = ''eligible'', se_token_estimate = None, se_created = ''t''\<rparr>"

definition forest_two :: forest_db where
  "forest_two = \<lparr>fd_sessions = [(''s'', None)],
     fd_entries = [said ''u1'' None 1 ''user.message'' ''hi'' ''s''],
     fd_heads = [\<lparr>sh_session = ''s'', sh_active = Some ''u1'', sh_native = None, sh_restoration = ''fresh'',
                  sh_eligibility = ''fresh'', sh_checkpoint = None, sh_updated = ''t''\<rparr>]\<rparr>"

lemma demo_append:
  "append_to (demo_stamp ''u1'') ''s'' None UserMessage (demo_says ''hi'') forest_one
     = Ok (said ''u1'' None 1 ''user.message'' ''hi'' ''s'', forest_two)"
  by code_simp

lemma demo_fork:
  "is_ok (fork_history (\<lambda>_. ''refused'') (\<lambda>n. ''f'') ''t'' ''now'' ''s'' ''u1'' forest_two)"
  by code_simp

lemma demo_steps: "forest_step\<^sup>*\<^sup>* no_forest forest_one" "forest_step\<^sup>*\<^sup>* forest_one forest_two"
proof -
  have "forest_step no_forest forest_one"
    unfolding forest_one_def using forest_step.opened [of no_forest "''s''" None]
    by (simp add: no_forest_def session_exists_def)
  then show "forest_step\<^sup>*\<^sup>* no_forest forest_one" by blast
  show "forest_step\<^sup>*\<^sup>* forest_one forest_two"
    using forest_step.appended_to [OF demo_append] by blast
qed

lemma demo_two: "forest_step\<^sup>*\<^sup>* no_forest forest_two"
  using demo_steps by (rule rtranclp_trans)

theorem healthy_session_reads_witness:
  "''s'' \<in> set (ir_healthy (integrity_report forest_two)) \<longleftrightarrow>
     is_ok (active_branch forest_two ''s'')
     \<and> list_all (\<lambda>e. is_ok (branch_to_leaf forest_two ''s'' (se_id e))) (session_entries forest_two ''s'')"
  by (rule healthy_session_reads) (simp add: keyed_entries_def forest_two_def)

theorem reachable_forest_is_healthy_witness:
  "ir_quarantined (integrity_report forest_two) = []
   \<and> list_all (\<lambda>(s, _). is_ok (active_branch forest_two s)
        \<and> list_all (\<lambda>e. is_ok (branch_to_leaf forest_two s (se_id e))) (session_entries forest_two s))
       (fd_sessions forest_two)"
  by (rule reachable_forest_is_healthy [OF demo_two])

theorem history_is_immutable_witness:
  "\<exists>d bs. branch_to_leaf forest_two ''s'' ''u1'' = Ok bs \<and> fd_entries d \<noteq> fd_entries forest_two
     \<and> branch_to_leaf d ''s'' ''u1'' = Ok bs"
proof -
  obtain d where f: "fork_history (\<lambda>_. ''refused'') (\<lambda>n. ''f'') ''t'' ''now'' ''s'' ''u1'' forest_two = Ok d"
    using demo_fork by (auto simp: is_ok_iff)
  then have "forest_step\<^sup>*\<^sup>* forest_two d" by (blast intro: forest_step.forked)
  from history_is_immutable [OF demo_two this] have
    i: "branch_to_leaf forest_two ''s'' ''u1'' = Ok bs \<Longrightarrow> branch_to_leaf d ''s'' ''u1'' = Ok bs" for bs by blast
  from forking [OF f steps_ok [OF demo_two no_forest_ok]] obtain bs where
    "branch_to_leaf forest_two ''s'' ''u1'' = Ok bs"
    "fd_entries d = fd_entries forest_two @ fork_copies (\<lambda>n. ''f'') ''t'' None 0 bs" "bs \<noteq> []" by metis
  with i [of bs] show ?thesis by (intro exI [of _ d] exI [of _ bs]) simp
qed

theorem append_extends_its_branch_witness:
  "branch_to_leaf forest_two ''s'' ''u1'' = Ok [said ''u1'' None 1 ''user.message'' ''hi'' ''s'']
   \<and> active_branch forest_two ''s'' = Ok [said ''u1'' None 1 ''user.message'' ''hi'' ''s'']"
  using append_extends_its_branch [OF demo_steps(1) demo_append] by (simp add: said_def)

theorem fork_copies_the_branch_witness:
  "\<exists>d cs. fork_history (\<lambda>_. ''refused'') (\<lambda>n. ''f'') ''t'' ''now'' ''s'' ''u1'' forest_two = Ok d
     \<and> active_branch d ''t'' = Ok cs \<and> map se_payload cs
         = [JObj [(''text'', JStr ''hi''), (typed_schema_marker, JPos 1), (repo_state_key, JNull)]]
     \<and> map se_id cs = [''f'']"
proof -
  obtain d where f: "fork_history (\<lambda>_. ''refused'') (\<lambda>n. ''f'') ''t'' ''now'' ''s'' ''u1'' forest_two = Ok d"
    using demo_fork by (auto simp: is_ok_iff)
  from fork_copies_the_branch [OF demo_two f] obtain bs cs where
    "branch_to_leaf forest_two ''s'' ''u1'' = Ok bs" "active_branch d ''t'' = Ok cs"
    "map content cs = map content bs" "map se_id cs = map (\<lambda>n. ''f'') [0..<length bs]" by blast
  moreover have "branch_to_leaf forest_two ''s'' ''u1'' = Ok [said ''u1'' None 1 ''user.message'' ''hi'' ''s'']"
    by code_simp
  ultimately show ?thesis using f by (auto simp: content_def said_def)
qed

end
