(* ===== verification/Session_Context.thy ===== *)
theory Session_Context
  imports Forest_Steps Work_Settings "HOL-Library.Product_Lexorder"
begin

text \<open>
  What a provider is given of a session (\<open>context.rs\<close>): the reading and checking of checkpoints,
  and \<open>ContextProjector::project\<close>, which turns an active branch into the entries to render and the
  summary that stands for the rest. \<open>serde_json\<close> is \<open>lib\<close>; the text of its errors is a parameter.
\<close>

section \<open>Checkpoints\<close>

definition checkpoint_schema_version :: nat where "checkpoint_schema_version = 1"

record checkpoint =
  cp_schema_version :: nat
  cp_summary :: string
  cp_decisions :: "string list"
  cp_files_touched :: "string list"
  cp_source_agent :: string
  cp_first_retained :: string
  cp_tokens_before :: int
  cp_reason :: string
  cp_open_work :: "string list"
  cp_provenance :: "string option"

record checkpoint_draft =
  cd_summary :: string
  cd_decisions :: "string list"
  cd_files_touched :: "string list"
  cd_open_work :: "string list"

datatype context_error =
    InvalidCheckpoint string
  | UnsupportedCheckpointVersion nat
  | UnsupportedEntrySchema string int
  | SourceAgentMismatch string string
  | InvalidContextWindow int
  | DuplicateEntryId string
  | MissingRetainedEntry string string
  | InvalidRetainedBoundary string string

fun context_error_display :: "context_error \<Rightarrow> string" where
  "context_error_display (InvalidCheckpoint e) = ''invalid checkpoint: '' @ e"
| "context_error_display (UnsupportedCheckpointVersion v) =
     ''unsupported checkpoint schema version '' @ dec v"
| "context_error_display (UnsupportedEntrySchema e v) =
     ''unsupported semantic event schema version '' @ dec_int v @ '' on entry '' @ e"
| "context_error_display (SourceAgentMismatch wanted actual) =
     ''checkpoint source agent mismatch: expected '' @ wanted @ '', got '' @ actual"
| "context_error_display (InvalidContextWindow n) = ''context window must be positive, got '' @ dec_int n"
| "context_error_display (DuplicateEntryId i) = ''duplicate active-branch entry id: '' @ i"
| "context_error_display (MissingRetainedEntry b r) =
     ''compaction '' @ b @ '' retains missing entry '' @ r"
| "context_error_display (InvalidRetainedBoundary b r) =
     ''compaction '' @ b @ '' must retain an entry after itself, got '' @ r"

definition require_text :: "string \<Rightarrow> string \<Rightarrow> (context_error, unit) result" where
  "require_text field value =
     (if trim value = [] then Err (InvalidCheckpoint (field @ '' must not be empty'')) else Ok ())"

text \<open>Trimmed and non-empty; the first occurrence wins.\<close>

fun distinct_trimmed :: "string list \<Rightarrow> string list \<Rightarrow> string list" where
  "distinct_trimmed seen [] = []"
| "distinct_trimmed seen (v # vs) =
     (let t = trim v in
      if t = [] \<or> t \<in> set seen then distinct_trimmed seen vs else t # distinct_trimmed (t # seen) vs)"

definition deduplicate :: "string list \<Rightarrow> string list" where
  "deduplicate = distinct_trimmed []"

text \<open>The bytes of the first balanced object, from where the scan stands.\<close>

fun scan_object :: "nat \<Rightarrow> bool \<Rightarrow> bool \<Rightarrow> string \<Rightarrow> string option" where
  "scan_object depth in_string escaped [] = None"
| "scan_object depth in_string escaped (c # cs) =
     (if escaped then map_option (Cons c) (scan_object depth in_string False cs)
      else if c = CHR 0x5C \<and> in_string then map_option (Cons c) (scan_object depth in_string True cs)
      else if c = CHR 0x22 then map_option (Cons c) (scan_object depth (\<not> in_string) False cs)
      else if c = CHR 0x7B \<and> \<not> in_string
      then map_option (Cons c) (scan_object (depth + 1) in_string False cs)
      else if c = CHR 0x7D \<and> \<not> in_string
      then (if depth - 1 = 0 then Some [c]
            else map_option (Cons c) (scan_object (depth - 1) in_string False cs))
      else map_option (Cons c) (scan_object depth in_string False cs))"

definition first_json_object :: "string \<Rightarrow> string option" where
  "first_json_object t = scan_object 0 False False (dropWhile (\<lambda>c. c \<noteq> CHR 0x7B) t)"

text \<open>The derived readers: unknown keys are skipped by a draft and refused by a checkpoint.\<close>

definition read_draft :: "json \<Rightarrow> checkpoint_draft option" where
  "read_draft v = do {
     ob \<leftarrow> as_object v;
     if distinct (filter (\<lambda>k. k \<in> {''summary'', ''decisions'', ''filesTouched'', ''openWork''}) (obj_keys ob))
     then do {
       summary \<leftarrow> (case obj_get ob ''summary'' of None \<Rightarrow> Some [] | Some s \<Rightarrow> as_str s);
       decisions \<leftarrow> read_strings_default ob ''decisions'';
       files \<leftarrow> read_strings_default ob ''filesTouched'';
       open_work \<leftarrow> read_strings_default ob ''openWork'';
       Some \<lparr>cd_summary = summary, cd_decisions = decisions, cd_files_touched = files,
         cd_open_work = open_work\<rparr> }
     else None }"

definition parse_draft :: "lib \<Rightarrow> (string \<Rightarrow> string) \<Rightarrow> string \<Rightarrow> (context_error, checkpoint_draft) result" where
  "parse_draft l serde_error t =
     (case first_json_object t of
        None \<Rightarrow> Err (InvalidCheckpoint ''no JSON object in the reply'')
      | Some ob \<Rightarrow>
          (case lib_entries l ob \<bind> read_draft of
             None \<Rightarrow> Err (InvalidCheckpoint (serde_error ob))
           | Some draft \<Rightarrow>
               (let draft = draft\<lparr>cd_summary := trim (cd_summary draft)\<rparr> in
                case require_text ''summary'' (cd_summary draft) of
                  Inl e \<Rightarrow> Err e
                | Inr _ \<Rightarrow>
                    Ok (draft\<lparr>cd_decisions := deduplicate (cd_decisions draft),
                             cd_files_touched := deduplicate (cd_files_touched draft),
                             cd_open_work := deduplicate (cd_open_work draft)\<rparr>))))"

fun check_items :: "string \<Rightarrow> string list \<Rightarrow> string list \<Rightarrow> (context_error, unit) result" where
  "check_items field seen [] = Ok ()"
| "check_items field seen (v # vs) =
     (case require_text (field @ '' item'') v of
        Inl e \<Rightarrow> Err e
      | Inr _ \<Rightarrow>
          if v \<in> set seen then Err (InvalidCheckpoint (field @ '' contains a duplicate item''))
          else check_items field (v # seen) vs)"

definition validate_string_list :: "string \<Rightarrow> string list \<Rightarrow> (context_error, unit) result" where
  "validate_string_list field = check_items field []"

text \<open>The first error of a sequence of checks, as \<open>?\<close> gives it.\<close>

fun first_error :: "('e, unit) result list \<Rightarrow> ('e, unit) result" where
  "first_error [] = Ok ()"
| "first_error (Inl e # rs) = Err e"
| "first_error (Inr _ # rs) = first_error rs"

definition checkpoint_validate :: "checkpoint \<Rightarrow> string option \<Rightarrow> (context_error, unit) result" where
  "checkpoint_validate c agent =
     first_error
       [if cp_schema_version c \<noteq> checkpoint_schema_version
        then Err (UnsupportedCheckpointVersion (cp_schema_version c)) else Ok (),
        require_text ''summary'' (cp_summary c),
        require_text ''sourceAgent'' (cp_source_agent c),
        require_text ''firstRetainedEntryId'' (cp_first_retained c),
        require_text ''reason'' (cp_reason c),
        (case cp_provenance c of None \<Rightarrow> Ok () | Some p \<Rightarrow> require_text ''provenance'' p),
        validate_string_list ''decisions'' (cp_decisions c),
        validate_string_list ''filesTouched'' (cp_files_touched c),
        validate_string_list ''openWork'' (cp_open_work c),
        if cp_tokens_before c < 0
        then Err (InvalidCheckpoint ''tokensBefore must be non-negative'') else Ok (),
        (case agent of
           None \<Rightarrow> Ok ()
         | Some a \<Rightarrow>
             first_error
               [require_text ''expected source agent'' a,
                if cp_source_agent c \<noteq> a then Err (SourceAgentMismatch a (cp_source_agent c)) else Ok ()])]"

definition checkpoint_fields :: "string list" where
  "checkpoint_fields =
     [''schemaVersion'', ''summary'', ''decisions'', ''filesTouched'', ''sourceAgent'',
      ''firstRetainedEntryId'', ''tokensBefore'', ''reason'', ''openWork'', ''provenance'']"

definition read_checkpoint :: "json \<Rightarrow> checkpoint option" where
  "read_checkpoint v = do {
     ob \<leftarrow> struct_fields checkpoint_fields 8 v;
     if distinct (obj_keys ob) \<and> set (obj_keys ob) \<subseteq> set checkpoint_fields
     then do {
       version \<leftarrow> read_u32 ob ''schemaVersion'';
       summary \<leftarrow> get_str ob ''summary'';
       decisions \<leftarrow> read_strings ob ''decisions'';
       files \<leftarrow> read_strings ob ''filesTouched'';
       source \<leftarrow> get_str ob ''sourceAgent'';
       retained \<leftarrow> get_str ob ''firstRetainedEntryId'';
       tokens \<leftarrow> read_i64 ob ''tokensBefore'';
       reason \<leftarrow> get_str ob ''reason'';
       open_work \<leftarrow> read_strings_default ob ''openWork'';
       provenance \<leftarrow> read_option as_str ob ''provenance'';
       Some \<lparr>cp_schema_version = version, cp_summary = summary, cp_decisions = decisions,
         cp_files_touched = files, cp_source_agent = source, cp_first_retained = retained,
         cp_tokens_before = tokens, cp_reason = reason, cp_open_work = open_work,
         cp_provenance = provenance\<rparr> }
     else None }"

text \<open>The markers of the forest are not part of a checkpoint.\<close>

definition strip_markers :: "json \<Rightarrow> json" where
  "strip_markers v =
     (case v of
        JObj ob \<Rightarrow> JObj (swap_remove repo_state_key (swap_remove typed_schema_marker ob))
      | other \<Rightarrow> other)"

definition from_value :: "(json \<Rightarrow> string) \<Rightarrow> json \<Rightarrow> (context_error, checkpoint) result" where
  "from_value serde_error v =
     (let stored = strip_markers v in
      case read_checkpoint stored of
        None \<Rightarrow> Err (InvalidCheckpoint (serde_error stored))
      | Some c \<Rightarrow> (case checkpoint_validate c None of Inl e \<Rightarrow> Err e | Inr _ \<Rightarrow> Ok c))"

text \<open>\<open>from_value(..).ok()\<close>, where the error is dropped.\<close>

definition stored_checkpoint :: "json \<Rightarrow> checkpoint option" where
  "stored_checkpoint v = ok (from_value (\<lambda>_. []) v)"

section \<open>Projecting a branch\<close>

record restoration_context =
  rc_boundary :: string
  rc_summary :: string
  rc_decisions :: "string list"
  rc_files_touched :: "string list"
  rc_source_agent :: string
  rc_open_work :: "string list"
  rc_provenance :: "string option"

record context_projection =
  pj_entries :: "session_entry list"
  pj_restoration :: "restoration_context option"
  pj_model :: "string option"
  pj_effort :: "string option"
  pj_token_estimate :: int
  pj_pressure :: int

text \<open>Entries in the order of \<open>(sequence, id)\<close>.\<close>

definition canonical :: "session_entry list \<Rightarrow> session_entry list" where
  "canonical = sort_key (\<lambda>e. (se_sequence e, se_id e))"

fun duplicate_id :: "string list \<Rightarrow> session_entry list \<Rightarrow> string option" where
  "duplicate_id seen [] = None"
| "duplicate_id seen (e # es) =
     (if se_id e \<in> set seen then Some (se_id e) else duplicate_id (se_id e # seen) es)"

definition reject_duplicate_entry_ids :: "session_entry list \<Rightarrow> (context_error, unit) result" where
  "reject_duplicate_entry_ids es =
     (case duplicate_id [] es of None \<Rightarrow> Ok () | Some i \<Rightarrow> Err (DuplicateEntryId i))"

definition supported_schema :: "session_entry \<Rightarrow> bool" where
  "supported_schema e \<longleftrightarrow>
     min_semantic_schema_version \<le> se_schema e \<and> se_schema e \<le> semantic_schema_version"

definition trimmed_text :: "json option \<Rightarrow> string option" where
  "trimmed_text v =
     (case v \<bind> as_str of None \<Rightarrow> None | Some s \<Rightarrow> if trim s = [] then None else Some (trim s))"

definition latest_non_empty :: "session_entry list \<Rightarrow> string \<Rightarrow> string \<Rightarrow> string option" where
  "latest_non_empty es kind field =
     find_map (\<lambda>e. if se_kind e = kind then trimmed_text (json_get (se_payload e) field) else None) (rev es)"

fun append_unique :: "string list \<Rightarrow> string list \<Rightarrow> string list" where
  "append_unique target [] = target"
| "append_unique target (v # vs) =
     append_unique (if v \<in> set target then target else target @ [v]) vs"

definition payload_strings :: "json \<Rightarrow> string \<Rightarrow> string list" where
  "payload_strings payload field =
     (case json_get payload field \<bind> as_array of
        None \<Rightarrow> [] | Some xs \<Rightarrow> List.map_filter (\<lambda>x. trimmed_text (Some x)) xs)"

definition entry_decisions :: "session_entry \<Rightarrow> string list" where
  "entry_decisions e =
     (if se_kind e \<in> {''checkpoint'', ''compaction''}
      then (case stored_checkpoint (se_payload e) of None \<Rightarrow> [] | Some c \<Rightarrow> cp_decisions c)
      else if se_kind e = ''worker.result'' then payload_strings (se_payload e) ''decisions''
      else [])"

definition collect_durable_decisions :: "session_entry list \<Rightarrow> string list" where
  "collect_durable_decisions es = fold (\<lambda>e ds. append_unique ds (entry_decisions e)) es []"

definition boundary_of :: "session_entry \<Rightarrow> (session_entry \<times> checkpoint) option" where
  "boundary_of e =
     (if se_kind e = ''compaction'' then map_option (Pair e) (stored_checkpoint (se_payload e)) else None)"

definition position :: "('a \<Rightarrow> bool) \<Rightarrow> 'a list \<Rightarrow> nat option" where
  "position P xs = (let n = length (takeWhile (\<lambda>x. \<not> P x) xs) in if n < length xs then Some n else None)"

definition bookkeeping_kinds :: "string list" where
  "bookkeeping_kinds = [''checkpoint'', ''compaction'', ''compaction.requested'', ''compaction.failed'']"

definition worker_fields :: "string list" where
  "worker_fields =
     [''status'', ''summary'', ''suggestedNextAction'', ''suggestedRole'', ''suggestedTask'', ''childSessionId'']"

definition worker_payload :: "json \<Rightarrow> json_object" where
  "worker_payload payload =
     fold (\<lambda>k ob. case json_get payload k of None \<Rightarrow> ob | Some v \<Rightarrow> obj_insert k v ob) worker_fields []"

definition project_render_entry :: "session_entry \<Rightarrow> session_entry option" where
  "project_render_entry e =
     (if se_kind e \<in> set bookkeeping_kinds then None
      else if se_kind e \<noteq> ''worker.result'' \<and> se_visibility e \<noteq> ''eligible'' then None
      else if se_kind e \<noteq> ''worker.result''
      then Some (case se_payload e of
                   JObj ob \<Rightarrow> e\<lparr>se_payload := JObj (swap_remove repo_state_key ob)\<rparr> | _ \<Rightarrow> e)
      else (let ob = worker_payload (se_payload e) in
            case trimmed_text (obj_get ob ''summary'') of
              None \<Rightarrow> None
            | Some summary \<Rightarrow>
                Some (e\<lparr>se_payload := JObj (obj_insert ''evidenceId'' (JStr (se_id e))
                            (obj_insert ''summary'' (JStr summary) ob)),
                        se_token_estimate := None\<rparr>)))"

definition estimate_bytes :: "nat \<Rightarrow> int" where
  "estimate_bytes n = min i64_max (int (usize_saturating_add n 3 div 4))"

definition estimate_entry_tokens :: "lib \<Rightarrow> session_entry \<Rightarrow> int" where
  "estimate_entry_tokens l e =
     (case se_token_estimate e of
        Some n \<Rightarrow>
          if 0 \<le> n then n
          else estimate_bytes (usize_saturating_add (length (se_kind e)) (length (lib_render_json l (se_payload e))))
      | None \<Rightarrow>
          estimate_bytes (usize_saturating_add (length (se_kind e)) (length (lib_render_json l (se_payload e)))))"

definition write_restoration :: "restoration_context \<Rightarrow> json" where
  "write_restoration r =
     JObj ([(''boundaryEntryId'', JStr (rc_boundary r)), (''summary'', JStr (rc_summary r)),
            (''decisions'', JArr (map JStr (rc_decisions r))),
            (''filesTouched'', JArr (map JStr (rc_files_touched r))),
            (''sourceAgent'', JStr (rc_source_agent r))]
           @ (if rc_open_work r = [] then [] else [(''openWork'', JArr (map JStr (rc_open_work r)))])
           @ (case rc_provenance r of None \<Rightarrow> [] | Some p \<Rightarrow> [(''provenance'', JStr p)]))"

definition i64_saturating_mul :: "int \<Rightarrow> int \<Rightarrow> int" where
  "i64_saturating_mul a b = max i64_min (min i64_max (a * b))"

text \<open>Division truncates; the divisor is positive where it is used.\<close>

definition i64_div :: "int \<Rightarrow> int \<Rightarrow> int" where
  "i64_div a b = (if a < 0 then - (- a div b) else a div b)"

text \<open>What is retained of a canonical branch, and the summary of the rest.\<close>

definition retained_of :: "session_entry list \<Rightarrow> (context_error, session_entry list \<times> restoration_context option) result" where
  "retained_of branch =
     (case find_map boundary_of (rev branch) of
        None \<Rightarrow> Ok (branch, None)
      | Some (b, c) \<Rightarrow>
          (case position (\<lambda>e. se_id e = cp_first_retained c) branch of
             None \<Rightarrow> Err (MissingRetainedEntry (se_id b) (cp_first_retained c))
           | Some r \<Rightarrow>
               if r \<le> the (position (\<lambda>e. se_id e = se_id b) branch)
               then Err (InvalidRetainedBoundary (se_id b) (cp_first_retained c))
               else Ok (drop r branch, Some
                 \<lparr>rc_boundary = se_id b, rc_summary = cp_summary c,
                  rc_decisions = append_unique (collect_durable_decisions branch) (cp_decisions c),
                  rc_files_touched = cp_files_touched c, rc_source_agent = cp_source_agent c,
                  rc_open_work = cp_open_work c, rc_provenance = cp_provenance c\<rparr>)))"

definition project :: "lib \<Rightarrow> session_entry list \<Rightarrow> int \<Rightarrow> (context_error, context_projection) result" where
  "project l entries window =
     (if window \<le> 0 then Err (InvalidContextWindow window)
      else (let branch = canonical entries in
        case reject_duplicate_entry_ids branch of
          Inl x \<Rightarrow> Err x
        | Inr _ \<Rightarrow>
            (case find (\<lambda>e. \<not> supported_schema e) branch of
               Some e \<Rightarrow> Err (UnsupportedEntrySchema (se_id e) (se_schema e))
             | None \<Rightarrow>
                 (case retained_of branch of
                    Inl x \<Rightarrow> Err x
                  | Inr (retained, restoration) \<Rightarrow>
                      (let rendered = List.map_filter project_render_entry retained;
                           restoration_tokens = (case restoration of
                             None \<Rightarrow> 0
                           | Some r \<Rightarrow> estimate_bytes (length (lib_render_json l (write_restoration r))));
                           tokens = i64_saturating_add
                             (fold (\<lambda>n acc. i64_saturating_add acc n) (map (estimate_entry_tokens l) rendered) 0)
                             restoration_tokens in
                       Ok \<lparr>pj_entries = rendered, pj_restoration = restoration,
                           pj_model = latest_non_empty branch ''model.changed'' ''model'',
                           pj_effort = latest_non_empty branch ''effort.changed'' ''effort'',
                           pj_token_estimate = tokens,
                           pj_pressure = max 0 (min 100 (i64_div (i64_saturating_mul tokens 100) window))\<rparr>)))))"

section \<open>Trimming twice\<close>

lemma chars_single: "list_all is_cont cs \<Longrightarrow> chars (c # cs) = [c # cs]"
  by (simp add: list_all_iff takeWhile_eq_all_conv [THEN iffD2] dropWhile_eq_Nil_conv [THEN iffD2])

lemma chars_drop: "chars (concat (drop n (chars s))) = drop n (chars s)"
proof (induction s arbitrary: n rule: chars.induct)
  case (2 c cs)
  show ?case
  proof (cases n)
    case 0
    then show ?thesis by (simp only: drop_0 concat_chars)
  next
    case (Suc k)
    with 2 show ?thesis by simp
  qed
qed simp

lemma chars_take: "chars (concat (take n (chars s))) = take n (chars s)"
proof (induction s arbitrary: n rule: chars.induct)
  case (2 c cs)
  show ?case
  proof (cases n)
    case (Suc k)
    let ?g = "c # takeWhile is_cont cs" and ?b = "concat (take k (chars (dropWhile is_cont cs)))"
    have "?b = [] \<or> \<not> is_cont (hd ?b)"
    proof (cases "dropWhile is_cont cs")
      case (Cons d ds)
      then have "\<not> is_cont d" by (metis hd_dropWhile list.distinct(1) list.sel(1))
      with Cons show ?thesis by (cases k) simp_all
    next
      case Nil
      then show ?thesis by (simp only: chars.simps(1) take_Nil concat.simps(1)) simp
    qed
    then have "chars (?g @ ?b) = chars ?g @ chars ?b" by (rule chars_append)
    moreover have "chars ?g = [?g]" by (rule chars_single) (auto simp: list_all_iff dest: set_takeWhileD)
    ultimately show ?thesis using Suc 2 by simp
  qed simp
qed simp

lemma dropWhile_drop: "\<exists>n. dropWhile P xs = drop n xs"
  by (metis dropWhile_eq_drop)

lemma drop_rev_take: "\<exists>n. rev (dropWhile P (rev xs)) = take n xs"
  using dropWhile_drop [of P "rev xs"] by (metis rev_drop rev_rev_ident)

lemma chars_trim: "chars (trim s) = rev (dropWhile is_ws (rev (dropWhile is_ws (chars s))))"
proof -
  obtain n where n: "dropWhile is_ws (chars s) = drop n (chars s)" using dropWhile_drop by blast
  let ?t = "concat (drop n (chars s))"
  have t: "chars ?t = drop n (chars s)" by (rule chars_drop)
  obtain k where "rev (dropWhile is_ws (rev (chars ?t))) = take k (chars ?t)" using drop_rev_take by blast
  then show ?thesis using chars_take [of k ?t] unfolding trim_def n t by metis
qed

lemma dropWhile_both_ends:
  "dropWhile P (rev (dropWhile P (rev (dropWhile P xs)))) = rev (dropWhile P (rev (dropWhile P xs)))"
proof (cases "dropWhile P xs")
  case (Cons y ys)
  then have "\<not> P y" by (metis hd_dropWhile list.distinct(1) list.sel(1))
  with Cons show ?thesis by (simp add: dropWhile_append)
next
  case Nil
  then show ?thesis by (simp only: rev.simps(1) dropWhile.simps(1))
qed

lemma trim_trim [simp]: "trim (trim s) = trim s"
proof -
  have "trim (trim s) = concat (rev (dropWhile is_ws (rev (dropWhile is_ws (chars (trim s))))))"
    by (simp only: trim_def)
  also have "\<dots> = trim s"
    unfolding chars_trim dropWhile_both_ends rev_rev_ident dropWhile_idem by (simp only: trim_def)
  finally show ?thesis .
qed

lemma distinct_trimmed_spec:
  "distinct (distinct_trimmed seen vs) \<and> set (distinct_trimmed seen vs) \<inter> set seen = {}
   \<and> set (distinct_trimmed seen vs) = trim ` set vs - {[]} - set seen"
  by (induction seen vs rule: distinct_trimmed.induct) (auto simp: Let_def)

lemma deduplicate_spec:
  "distinct (deduplicate vs)" "set (deduplicate vs) = trim ` set vs - {[]}"
  using distinct_trimmed_spec [of "[]" vs] by (simp_all add: deduplicate_def)

lemma deduplicate_trimmed: "v \<in> set (deduplicate vs) \<Longrightarrow> trim v = v \<and> v \<noteq> []"
  by (auto simp: deduplicate_spec)

section \<open>The checks of a checkpoint\<close>

lemma first_error_Ok: "first_error rs = Ok () \<longleftrightarrow> list_all (\<lambda>r. r = Ok ()) rs"
  by (induction rs rule: first_error.induct) auto

lemma require_text_Ok [simp]: "require_text f v = Ok () \<longleftrightarrow> trim v \<noteq> []"
  by (simp add: require_text_def)

lemma check_items_Ok:
  "check_items f seen vs = Ok () \<longleftrightarrow> distinct vs \<and> set vs \<inter> set seen = {} \<and> list_all (\<lambda>v. trim v \<noteq> []) vs"
proof (induction f seen vs rule: check_items.induct)
  case (2 f seen v vs)
  then show ?case by (cases "require_text (f @ '' item'') v") (auto simp: require_text_def split: if_splits)
qed simp

lemma validate_string_list_Ok [simp]:
  "validate_string_list f vs = Ok () \<longleftrightarrow> distinct vs \<and> list_all (\<lambda>v. trim v \<noteq> []) vs"
  by (simp add: validate_string_list_def check_items_Ok)

definition good_checkpoint :: "checkpoint \<Rightarrow> bool" where
  "good_checkpoint c \<longleftrightarrow>
     cp_schema_version c = checkpoint_schema_version \<and> trim (cp_summary c) \<noteq> []
     \<and> trim (cp_source_agent c) \<noteq> [] \<and> trim (cp_first_retained c) \<noteq> [] \<and> trim (cp_reason c) \<noteq> []
     \<and> (case cp_provenance c of None \<Rightarrow> True | Some p \<Rightarrow> trim p \<noteq> [])
     \<and> distinct (cp_decisions c) \<and> list_all (\<lambda>v. trim v \<noteq> []) (cp_decisions c)
     \<and> distinct (cp_files_touched c) \<and> list_all (\<lambda>v. trim v \<noteq> []) (cp_files_touched c)
     \<and> distinct (cp_open_work c) \<and> list_all (\<lambda>v. trim v \<noteq> []) (cp_open_work c)
     \<and> 0 \<le> cp_tokens_before c"

lemma checkpoint_validate_Ok:
  "checkpoint_validate c None = Ok () \<longleftrightarrow> good_checkpoint c"
  unfolding checkpoint_validate_def good_checkpoint_def first_error_Ok
  by (auto split: option.splits if_splits)

section \<open>The order of the entries does not matter\<close>

lemma sort_key_keys: "map f (sort_key f xs) = sort (map f xs)"
  by (rule sym, rule properties_for_sort) simp_all

lemma canonical_keys:
  assumes "mset es = mset es'"
  shows "map (\<lambda>e. (se_sequence e, se_id e)) (canonical es) = map (\<lambda>e. (se_sequence e, se_id e)) (canonical es')"
  unfolding canonical_def sort_key_keys
  by (rule properties_for_sort) (simp_all only: mset_sort mset_map assms sorted_sort)

lemma canonical_ids:
  assumes "mset es = mset es'"
  shows "map se_id (canonical es) = map se_id (canonical es')"
proof -
  have "map snd (map (\<lambda>e. (se_sequence e, se_id e)) (canonical es))
      = map snd (map (\<lambda>e. (se_sequence e, se_id e)) (canonical es'))"
    by (simp only: canonical_keys [OF assms])
  then show ?thesis by (simp only: map_map comp_def snd_conv)
qed

lemma duplicate_id_ids:
  "map se_id es = map se_id es' \<Longrightarrow> duplicate_id seen es = duplicate_id seen es'"
  by (induction es es' arbitrary: seen rule: list_induct2') simp_all

lemma duplicate_id_None:
  "duplicate_id seen es = None \<longleftrightarrow> distinct (map se_id es) \<and> se_id ` set es \<inter> set seen = {}"
  by (induction es arbitrary: seen) auto

lemma canonical_set [simp]: "set (canonical es) = set es"
  by (simp add: canonical_def)

lemma canonical_mset [simp]: "mset (canonical es) = mset es"
  by (simp add: canonical_def)

lemma canonical_eq:
  assumes "mset es = mset es'" "distinct (map se_id es)"
  shows "canonical es = canonical es'"
proof -
  have i: "inj_on (\<lambda>e. (se_sequence e, se_id e)) (set es)"
    using assms(2) by (auto simp: distinct_map inj_on_def)
  show ?thesis
    unfolding canonical_def
    by (rule sort_key_inj_key_eq) (simp_all only: mset_sort assms(1) i sorted_sort_key)
qed

lemma canonical_id:
  assumes "sorted_wrt (\<lambda>a b. se_sequence a < se_sequence b) es"
  shows "canonical es = es"
proof -
  have "sorted_wrt (\<lambda>a b. (se_sequence a, se_id a) \<le> (se_sequence b, se_id b)) es"
    using assms by (rule sorted_wrt_mono_rel [rotated]) (simp add: less_eq_prod_def)
  then show ?thesis unfolding canonical_def by (intro sort_key_id_if_sorted) (simp add: sorted_map)
qed

lemma distinct_canonical: "distinct (map se_id (canonical es)) \<longleftrightarrow> distinct (map se_id es)"
  by (metis canonical_mset mset_eq_imp_distinct_iff mset_map)

text \<open>
  What is projected is a function of the entries alone: in whatever order the branch is given,
  the projection is the same, and so is the error.
\<close>
theorem projection_ignores_order:
  assumes "mset es = mset es'"
  shows "project l es window = project l es' window"
proof (cases "distinct (map se_id es)")
  case True
  then show ?thesis using canonical_eq [OF assms True] by (simp add: project_def)
next
  case False
  then have "\<not> distinct (map se_id (canonical es))" by (simp add: distinct_canonical)
  then obtain i where i: "duplicate_id [] (canonical es) = Some i"
    using duplicate_id_None [of "[]" "canonical es"] by auto
  then have "duplicate_id [] (canonical es') = Some i"
    using duplicate_id_ids [OF canonical_ids [OF assms]] by simp
  with i show ?thesis by (simp add: project_def Let_def reject_duplicate_entry_ids_def)
qed

section \<open>Bounds\<close>

lemma i64_bounds: "i64_min < 0" "0 < i64_max" "0 \<le> i64_max"
  by (simp_all add: i64_min_def i64_max_def)

lemma estimate_bytes_bounds: "0 \<le> estimate_bytes n" "estimate_bytes n \<le> i64_max"
  using i64_bounds by (simp_all add: estimate_bytes_def)

lemma estimate_entry_nonneg: "0 \<le> estimate_entry_tokens l e"
  using estimate_bytes_bounds by (simp add: estimate_entry_tokens_def split: option.split)

lemma saturating_sum:
  "list_all (\<lambda>n. 0 \<le> n) ns \<Longrightarrow> 0 \<le> acc \<Longrightarrow> acc \<le> i64_max \<Longrightarrow>
   fold (\<lambda>n acc. i64_saturating_add acc n) ns acc = min i64_max (acc + sum_list ns)"
proof (induction ns arbitrary: acc)
  case (Cons n ns)
  have "i64_saturating_add acc n = min i64_max (acc + n)" "0 \<le> min i64_max (acc + n)"
    using Cons.prems i64_bounds by (simp_all add: i64_saturating_add_def)
  moreover have "0 \<le> sum_list ns" using Cons.prems by (auto simp: list_all_iff intro: sum_list_nonneg)
  ultimately show ?case using Cons by simp
qed simp

definition restoration_tokens :: "lib \<Rightarrow> restoration_context option \<Rightarrow> int" where
  "restoration_tokens l r =
     (case r of None \<Rightarrow> 0 | Some c \<Rightarrow> estimate_bytes (length (lib_render_json l (write_restoration c))))"

lemma project_Ok:
  assumes "project l es window = Ok p"
  obtains retained where "0 < window" "distinct (map se_id (canonical es))" "list_all supported_schema es"
    "retained_of (canonical es) = Ok (retained, pj_restoration p)"
    "pj_entries p = List.map_filter project_render_entry retained"
    "pj_token_estimate p = min i64_max
       (sum_list (map (estimate_entry_tokens l) (pj_entries p)) + restoration_tokens l (pj_restoration p))"
    "pj_pressure p = max 0 (min 100 (i64_div (i64_saturating_mul (pj_token_estimate p) 100) window))"
proof -
  from assms have w: "0 < window" by (simp add: project_def split: if_splits)
  from assms have d: "duplicate_id [] (canonical es) = None"
    by (auto simp: project_def Let_def reject_duplicate_entry_ids_def split: if_splits sum.splits option.splits)
  from assms w d have f: "find (\<lambda>e. \<not> supported_schema e) (canonical es) = None"
    by (auto simp: project_def Let_def reject_duplicate_entry_ids_def split: option.splits)
  from assms w d f obtain retained r where r: "retained_of (canonical es) = Ok (retained, r)"
    by (auto simp: project_def Let_def reject_duplicate_entry_ids_def split: sum.splits)
  let ?ns = "map (estimate_entry_tokens l) (List.map_filter project_render_entry retained)"
  have nn: "list_all (\<lambda>n. 0 \<le> n) ?ns" using estimate_entry_nonneg by (simp add: list_all_iff)
  then have s: "0 \<le> sum_list ?ns" by (intro sum_list_nonneg) (auto simp: estimate_entry_nonneg)
  have rt: "0 \<le> restoration_tokens l r"
    using estimate_bytes_bounds by (simp add: restoration_tokens_def split: option.split)
  have t: "i64_saturating_add (fold (\<lambda>n acc. i64_saturating_add acc n) ?ns 0) (restoration_tokens l r)
      = min i64_max (sum_list ?ns + restoration_tokens l r)"
    using saturating_sum [OF nn, of 0] s rt i64_bounds by (simp add: i64_saturating_add_def)
  from assms w d f r have p: "p = \<lparr>pj_entries = List.map_filter project_render_entry retained,
      pj_restoration = r, pj_model = latest_non_empty (canonical es) ''model.changed'' ''model'',
      pj_effort = latest_non_empty (canonical es) ''effort.changed'' ''effort'',
      pj_token_estimate = min i64_max (sum_list ?ns + restoration_tokens l r),
      pj_pressure = max 0 (min 100 (i64_div (i64_saturating_mul
        (min i64_max (sum_list ?ns + restoration_tokens l r)) 100) window))\<rparr>"
    unfolding t [symmetric]
    by (simp add: project_def Let_def reject_duplicate_entry_ids_def restoration_tokens_def)
  have u: "list_all supported_schema es" using f by (auto simp: find_None_iff list_all_iff)
  show thesis
    by (rule that [of retained]) (use w d r p u duplicate_id_None in \<open>auto simp del: map_map\<close>)
qed

lemma le_div_int: "0 < (w::int) \<Longrightarrow> n \<le> a div w \<longleftrightarrow> n * w \<le> a"
proof
  assume w: "0 < w" "n \<le> a div w"
  then have "n * w \<le> a div w * w" by (intro mult_right_mono) auto
  also have "\<dots> \<le> a" using w by (metis div_mult_mod_eq le_add_same_cancel1 pos_mod_sign)
  finally show "n * w \<le> a" .
next
  assume w: "0 < w" "n * w \<le> a"
  then show "n \<le> a div w" using zdiv_mono1 [of "n * w" a w] by simp
qed

text \<open>
  The estimate is the saturated sum of what is rendered and of the summary, the pressure is a
  percentage, and it reads 100 exactly when the window is full.
\<close>
theorem projection_is_bounded:
  assumes "project l es window = Ok p"
  shows "0 \<le> pj_token_estimate p \<and> pj_token_estimate p \<le> i64_max
    \<and> 0 \<le> pj_pressure p \<and> pj_pressure p \<le> 100
    \<and> (window \<le> i64_max div 100 \<longrightarrow> (pj_pressure p = 100 \<longleftrightarrow> window \<le> pj_token_estimate p))"
proof -
  from project_Ok [OF assms] obtain retained where w: "0 < window"
    and t: "pj_token_estimate p = min i64_max
       (sum_list (map (estimate_entry_tokens l) (pj_entries p)) + restoration_tokens l (pj_restoration p))"
    and pr: "pj_pressure p = max 0 (min 100 (i64_div (i64_saturating_mul (pj_token_estimate p) 100) window))"
    by blast
  have s: "0 \<le> sum_list (map (estimate_entry_tokens l) (pj_entries p))"
    using estimate_entry_nonneg by (intro sum_list_nonneg) auto
  have r: "0 \<le> restoration_tokens l (pj_restoration p)"
    using estimate_bytes_bounds by (simp add: restoration_tokens_def split: option.split)
  let ?t = "pj_token_estimate p"
  have tb: "0 \<le> ?t" "?t \<le> i64_max" using t s r i64_bounds by simp_all
  have "i64_saturating_mul ?t 100 = min i64_max (?t * 100)"
    using tb i64_bounds by (simp add: i64_saturating_mul_def)
  moreover have "\<not> min i64_max (?t * 100) < 0" using tb i64_bounds by simp
  ultimately have d: "i64_div (i64_saturating_mul ?t 100) window = min i64_max (?t * 100) div window"
    by (simp only: i64_div_def if_False)
  have "pj_pressure p = 100 \<longleftrightarrow> window \<le> ?t" if "window \<le> i64_max div 100"
  proof -
    have wm: "100 * window \<le> i64_max" using that by linarith
    have "100 \<le> min i64_max (?t * 100) div window \<longleftrightarrow> 100 * window \<le> min i64_max (?t * 100)"
      by (rule le_div_int [OF w])
    with wm show ?thesis unfolding pr d by auto
  qed
  with tb pr show ?thesis by simp
qed

section \<open>What is rendered\<close>

lemma position_Some:
  "position P xs = Some n \<longleftrightarrow> n < length xs \<and> P (xs ! n) \<and> (\<forall>i<n. \<not> P (xs ! i))"
proof
  assume "position P xs = Some n"
  then have n: "n = length (takeWhile (\<lambda>x. \<not> P x) xs)" "n < length xs"
    by (auto simp: position_def Let_def split: if_splits)
  then show "n < length xs \<and> P (xs ! n) \<and> (\<forall>i<n. \<not> P (xs ! i))"
    using nth_length_takeWhile [of "\<lambda>x. \<not> P x" xs] by (auto dest: nth_mem simp: takeWhile_nth [symmetric])
      (metis nth_mem set_takeWhileD takeWhile_nth)
next
  assume n: "n < length xs \<and> P (xs ! n) \<and> (\<forall>i<n. \<not> P (xs ! i))"
  then have "takeWhile (\<lambda>x. \<not> P x) xs = take n xs" by (intro takeWhile_eq_take_P_nth) auto
  with n show "position P xs = Some n" by (simp add: position_def Let_def)
qed

lemma position_exists: "x \<in> set xs \<Longrightarrow> P x \<Longrightarrow> \<exists>n. position P xs = Some n"
proof -
  assume "x \<in> set xs" "P x"
  then have "length (takeWhile (\<lambda>x. \<not> P x) xs) < length xs" by (induction xs) auto
  then show ?thesis by (simp add: position_def Let_def)
qed

lemma find_map_Some: "find_map f xs = Some y \<Longrightarrow> \<exists>x\<in>set xs. f x = Some y"
  by (induction xs) (auto split: option.splits)

lemma retained_cases:
  assumes "retained_of branch = Ok (retained, r)"
  obtains "r = None" "retained = branch" "find_map boundary_of (rev branch) = None"
  | b c n k where "find_map boundary_of (rev branch) = Some (b, c)" "b \<in> set branch" "se_kind b = ''compaction''"
      "position (\<lambda>e. se_id e = cp_first_retained c) branch = Some n"
      "position (\<lambda>e. se_id e = se_id b) branch = Some k" "k < n" "retained = drop n branch"
      "r = Some \<lparr>rc_boundary = se_id b, rc_summary = cp_summary c,
                  rc_decisions = append_unique (collect_durable_decisions branch) (cp_decisions c),
                  rc_files_touched = cp_files_touched c, rc_source_agent = cp_source_agent c,
                  rc_open_work = cp_open_work c, rc_provenance = cp_provenance c\<rparr>"
proof (cases "find_map boundary_of (rev branch)")
  case None
  with assms that(1) show thesis by (simp add: retained_of_def)
next
  case (Some bc)
  obtain b c where bc: "bc = (b, c)" by (cases bc)
  from find_map_Some [OF Some] bc have b: "b \<in> set branch" "se_kind b = ''compaction''"
    by (auto simp: boundary_of_def split: if_splits)
  then have "\<exists>k. position (\<lambda>e. se_id e = se_id b) branch = Some k"
    by (auto intro: position_exists)
  then obtain k where k: "position (\<lambda>e. se_id e = se_id b) branch = Some k" ..
  with assms Some bc obtain n where n: "position (\<lambda>e. se_id e = cp_first_retained c) branch = Some n"
    by (auto simp: retained_of_def split: option.splits)
  with assms Some bc k have kn: "k < n"
    by (auto simp: retained_of_def split: if_splits)
  with assms Some bc n k have "retained = drop n branch \<and> r = Some \<lparr>rc_boundary = se_id b, rc_summary = cp_summary c,
                  rc_decisions = append_unique (collect_durable_decisions branch) (cp_decisions c),
                  rc_files_touched = cp_files_touched c, rc_source_agent = cp_source_agent c,
                  rc_open_work = cp_open_work c, rc_provenance = cp_provenance c\<rparr>"
    by (simp add: retained_of_def)
  with that(2) Some bc b n k kn show thesis by blast
qed

definition keyed_payload :: "session_entry \<Rightarrow> bool" where
  "keyed_payload e \<longleftrightarrow> (case se_payload e of JObj ob \<Rightarrow> distinct (obj_keys ob) | _ \<Rightarrow> True)"

definition after_boundary :: "session_entry list \<Rightarrow> restoration_context option \<Rightarrow> session_entry \<Rightarrow> bool" where
  "after_boundary es r e \<longleftrightarrow>
     (case r of
        None \<Rightarrow> True
      | Some c \<Rightarrow> (\<exists>b\<in>set es. se_id b = rc_boundary c \<and> se_kind b = ''compaction''
          \<and> (se_sequence b, se_id b) < (se_sequence e, se_id e)))"

definition shown_payload :: "session_entry \<Rightarrow> bool" where
  "shown_payload e \<longleftrightarrow>
     (if se_kind e = ''worker.result''
      then (\<exists>ob. se_payload e = JObj ob \<and> set (obj_keys ob) \<subseteq> set worker_fields \<union> {''evidenceId''}
              \<and> obj_get ob ''evidenceId'' = Some (JStr (se_id e)))
      else se_visibility e = ''eligible'' \<and> json_get (se_payload e) repo_state_key = None)"

lemma worker_payload_keys: "set (obj_keys (worker_payload payload)) \<subseteq> set worker_fields"
proof -
  have "set (obj_keys (fold (\<lambda>k ob. case json_get payload k of None \<Rightarrow> ob | Some v \<Rightarrow> obj_insert k v ob) ks ob))
      \<subseteq> set ks \<union> set (obj_keys ob)" for ks ob
  proof (induction ks arbitrary: ob)
    case (Cons k ks)
    let ?ob = "case json_get payload k of None \<Rightarrow> ob | Some v \<Rightarrow> obj_insert k v ob"
    have "set (obj_keys ?ob) \<subseteq> insert k (set (obj_keys ob))"
      by (auto simp: obj_keys_insert split: option.split)
    with Cons [of ?ob] show ?case by auto
  qed simp
  from this [of worker_fields "[]"] show ?thesis by (simp add: worker_payload_def obj_keys_def)
qed

lemma rendered:
  assumes "project_render_entry e = Some e'" "keyed_payload e"
  shows "se_kind e' = se_kind e \<and> se_id e' = se_id e \<and> se_sequence e' = se_sequence e
    \<and> se_kind e \<notin> set bookkeeping_kinds \<and> shown_payload e'"
proof -
  have k: "se_kind e \<notin> set bookkeeping_kinds" using assms(1) by (auto simp: project_render_entry_def split: if_splits)
  show ?thesis
  proof (cases "se_kind e = ''worker.result''")
    case True
    with assms(1) k obtain summary where
      e': "e' = e\<lparr>se_payload := JObj (obj_insert ''evidenceId'' (JStr (se_id e))
              (obj_insert ''summary'' (JStr summary) (worker_payload (se_payload e)))), se_token_estimate := None\<rparr>"
      by (auto simp: project_render_entry_def Let_def split: option.splits)
    let ?ob = "obj_insert ''evidenceId'' (JStr (se_id e))
        (obj_insert ''summary'' (JStr summary) (worker_payload (se_payload e)))"
    have "''summary'' \<in> set worker_fields" by (simp add: worker_fields_def)
    then have "set (obj_keys ?ob) \<subseteq> set worker_fields \<union> {''evidenceId''}"
      unfolding obj_keys_insert using worker_payload_keys [of "se_payload e"] by blast
    moreover have "obj_get ?ob ''evidenceId'' = Some (JStr (se_id e))" by simp
    moreover have "se_payload e' = JObj ?ob" "se_kind e' = se_kind e" "se_id e' = se_id e" "se_sequence e' = se_sequence e"
      by (simp_all add: e')
    ultimately show ?thesis using k True unfolding shown_payload_def by (metis True)
  next
    case False
    with assms(1) k have v: "se_visibility e = ''eligible''" and
      e': "e' = (case se_payload e of JObj ob \<Rightarrow> e\<lparr>se_payload := JObj (swap_remove repo_state_key ob)\<rparr> | _ \<Rightarrow> e)"
      by (auto simp: project_render_entry_def split: if_splits)
    show ?thesis
      using k False v assms(2)
      by (auto simp: e' shown_payload_def keyed_payload_def json_get_def obj_get_swap_remove split: json.splits)
  qed
qed

lemma canonical_strict:
  assumes "distinct (map se_id (canonical es))" "i < j" "j < length (canonical es)"
  shows "(se_sequence (canonical es ! i), se_id (canonical es ! i))
       < (se_sequence (canonical es ! j), se_id (canonical es ! j))"
proof -
  have s: "sorted (map (\<lambda>e. (se_sequence e, se_id e)) (canonical es))" unfolding canonical_def by simp
  have "(se_sequence (canonical es ! i), se_id (canonical es ! i))
      \<le> (se_sequence (canonical es ! j), se_id (canonical es ! j))"
    using sorted_nth_mono [OF s, of i j] assms(2,3) by simp
  moreover have "se_id (canonical es ! i) \<noteq> se_id (canonical es ! j)"
    using assms nth_eq_iff_index_eq [OF assms(1), of i j] by simp
  ultimately show ?thesis by (auto simp: order_less_le)
qed

text \<open>
  C17. A projection shows the conversation and nothing of the machinery: no bookkeeping entry, nothing
  hidden, no state of the repository, of a worker's result only the fields meant for routing, and
  nothing at or before the boundary whose summary it carries.
\<close>
theorem projection_shows_the_conversation:
  assumes "project l es window = Ok p" "list_all keyed_payload es" "e \<in> set (pj_entries p)"
  shows "se_kind e \<notin> set bookkeeping_kinds \<and> shown_payload e \<and> after_boundary es (pj_restoration p) e
    \<and> (\<exists>src\<in>set es. se_id src = se_id e \<and> se_kind src = se_kind e)"
proof -
  from project_Ok [OF assms(1)] obtain retained where d: "distinct (map se_id (canonical es))"
    and r: "retained_of (canonical es) = Ok (retained, pj_restoration p)"
    and e: "pj_entries p = List.map_filter project_render_entry retained" by blast
  from assms(3) e obtain src where src: "src \<in> set retained" "project_render_entry src = Some e"
    by (auto simp: List.map_filter_def)
  have sub: "set retained \<subseteq> set es"
    by (rule retained_cases [OF r]) (auto dest: in_set_dropD)
  with src assms(2) have k: "keyed_payload src" by (auto simp: list_all_iff)
  note rd = rendered [OF src(2) k]
  have "after_boundary es (pj_restoration p) e"
  proof (rule retained_cases [OF r])
    fix b c n k
    assume b: "b \<in> set (canonical es)" "se_kind b = ''compaction''" and n: "position (\<lambda>e. se_id e = cp_first_retained c) (canonical es) = Some n"
      and kp: "position (\<lambda>e. se_id e = se_id b) (canonical es) = Some k" "k < n" "retained = drop n (canonical es)"
      and pr: "pj_restoration p = Some \<lparr>rc_boundary = se_id b, rc_summary = cp_summary c,
                  rc_decisions = append_unique (collect_durable_decisions (canonical es)) (cp_decisions c),
                  rc_files_touched = cp_files_touched c, rc_source_agent = cp_source_agent c,
                  rc_open_work = cp_open_work c, rc_provenance = cp_provenance c\<rparr>"
    from src(1) kp obtain i where i: "i < length (canonical es) - n" "src = canonical es ! (n + i)"
      by (auto simp: in_set_conv_nth)
    from in_set_conv_nth [THEN iffD1, OF b(1)] obtain j where j: "j < length (canonical es)" "b = canonical es ! j"
      by blast
    have "k < length (canonical es)" "se_id (canonical es ! k) = se_id b" using kp(1) by (auto simp: position_Some)
    with j nth_eq_iff_index_eq [OF d, of k j] have "k = j" by simp
    with i j kp canonical_strict [OF d, of k "n + i"]
    have "(se_sequence b, se_id b) < (se_sequence src, se_id src)" by simp
    with b pr rd show ?thesis by (auto simp: after_boundary_def)
  qed (simp add: after_boundary_def)
  with rd src(1) sub show ?thesis by auto
qed

section \<open>One entry\<close>

lemma one_projected:
  assumes "0 < window" "supported_schema e" "boundary_of e = None"
  obtains p where "project l [e] window = Ok p" "pj_entries p = List.map_filter project_render_entry [e]"
  using assms that
  by (simp add: project_def canonical_def reject_duplicate_entry_ids_def retained_of_def Let_def)

definition demo_said :: session_entry where
  "demo_said = said ''u1'' None 1 ''user.message'' ''hi'' ''s''"

lemma demo_said_projected:
  obtains p where "project plain_lib [demo_said] 10 = Ok p" "pj_entries p \<noteq> []"
proof -
  have s: "supported_schema demo_said" "boundary_of demo_said = None"
    by (simp_all add: demo_said_def said_def supported_schema_def boundary_of_def min_semantic_schema_version_def
        semantic_schema_version_def)
  have r: "List.map_filter project_render_entry [demo_said] \<noteq> []"
    by (simp add: demo_said_def said_def project_render_entry_def bookkeeping_kinds_def List.map_filter_def)
  show thesis by (rule one_projected [OF _ s, of 10 plain_lib]) (use r that in simp_all)
qed

theorem projection_ignores_order_witness:
  "project plain_lib [demo_said, said ''a'' None 2 ''user.message'' ''x'' ''s''] 10
   = project plain_lib [said ''a'' None 2 ''user.message'' ''x'' ''s'', demo_said] 10"
  by (rule projection_ignores_order) simp

theorem projection_is_bounded_witness:
  "\<exists>p. project plain_lib [demo_said] 10 = Ok p \<and> pj_pressure p \<le> 100"
proof -
  obtain p where p: "project plain_lib [demo_said] 10 = Ok p" by (rule demo_said_projected)
  with projection_is_bounded [OF p] show ?thesis by blast
qed

theorem projection_shows_the_conversation_witness:
  "\<exists>p e. project plain_lib [demo_said] 10 = Ok p \<and> e \<in> set (pj_entries p) \<and> shown_payload e"
proof -
  obtain p where p: "project plain_lib [demo_said] 10 = Ok p" and "pj_entries p \<noteq> []"
    by (rule demo_said_projected)
  then obtain e where e: "e \<in> set (pj_entries p)" using hd_in_set by blast
  have "list_all keyed_payload [demo_said]"
    by (simp add: keyed_payload_def demo_said_def said_def obj_keys_def typed_schema_marker_def repo_state_key_def)
  from projection_shows_the_conversation [OF p this e] p e show ?thesis by blast
qed

end
