(* ===== verification/Compaction.thy ===== *)
theory Compaction
  imports Session_Context
begin

text \<open>
  Compaction (\<open>compaction_controller.rs\<close>): a session is asked for a summary of itself, and the
  answer moves the boundary its projection starts from. A request, its repair, its failure and its
  outcome are entries of the session's forest; what was asked is read back from there. Fresh
  identifiers and clock readings come with the stamps, and the audit log of \<open>store::event\<close> is a list
  whose writes succeed.
\<close>

section \<open>When to compact\<close>

datatype compaction_reason =
  ContextPressure | ResponseReserve | PhaseBoundary | BeforeSuspend | BeforeDowngrade | BeforeShutdown | Manual

fun compaction_reason_str :: "compaction_reason \<Rightarrow> string" where
  "compaction_reason_str ContextPressure = ''context_pressure''"
| "compaction_reason_str ResponseReserve = ''response_reserve''"
| "compaction_reason_str PhaseBoundary = ''phase_boundary''"
| "compaction_reason_str BeforeSuspend = ''before_suspend''"
| "compaction_reason_str BeforeDowngrade = ''before_downgrade''"
| "compaction_reason_str BeforeShutdown = ''before_shutdown''"
| "compaction_reason_str Manual = ''manual''"

definition reason_parse :: "string \<Rightarrow> compaction_reason option" where
  "reason_parse v =
     (if v = ''context_pressure'' then Some ContextPressure
      else if v = ''response_reserve'' then Some ResponseReserve
      else if v = ''phase_boundary'' then Some PhaseBoundary
      else if v \<in> {''before_suspend'', ''warm_idle_timeout''} then Some BeforeSuspend
      else if v = ''before_downgrade'' then Some BeforeDowngrade
      else if v = ''before_shutdown'' then Some BeforeShutdown
      else if v = ''manual'' then Some Manual
      else None)"

fun why_asked :: "compaction_reason \<Rightarrow> string" where
  "why_asked ContextPressure =
     ''This session's context is nearly full, so I need a summary to carry forward before older turns are dropped.''"
| "why_asked ResponseReserve =
     ''This session's context is nearly full, so I need a summary to carry forward before older turns are dropped.''"
| "why_asked PhaseBoundary =
     ''This session has reached a phase boundary, so I need a summary to carry into the next phase.''"
| "why_asked BeforeSuspend =
     ''This session is about to be suspended, so I need a summary to resume it from later.''"
| "why_asked BeforeDowngrade =
     ''The user is switching this chat to a different model, so I need a summary for the incoming model to inherit.''"
| "why_asked BeforeShutdown =
     ''This session is shutting down, so I need a summary of it kept on record.''"
| "why_asked Manual = ''Someone asked to compact this session, so I need a summary to carry forward.''"

text \<open>The percentage is a finite \<open>f64\<close>.\<close>

record trigger_state =
  ts_reason :: compaction_reason
  ts_context_percent :: "rat option"
  ts_projected_tokens :: "int option"
  ts_window_tokens :: "int option"
  ts_typed_result :: bool
  ts_one_shot :: bool
  ts_tool_call :: bool
  ts_approval :: bool
  ts_new_work :: bool
  ts_wall_clock_only :: bool

datatype suppression =
  OneShotResult | ToolCallActive | ApprovalActive | NoMeaningfulWork | WallClockOnly | BelowThreshold

definition context_pressure_percent :: rat where "context_pressure_percent = 75"

definition fires :: "trigger_state \<Rightarrow> bool" where
  "fires t =
     (case ts_reason t of
        ContextPressure \<Rightarrow>
          (case ts_context_percent t of None \<Rightarrow> False | Some p \<Rightarrow> context_pressure_percent \<le> p)
      | ResponseReserve \<Rightarrow>
          (case (ts_projected_tokens t, ts_window_tokens t) of
             (Some projected, Some window) \<Rightarrow> window \<le> projected | _ \<Rightarrow> False)
      | _ \<Rightarrow> True)"

definition decide_compaction :: "trigger_state \<Rightarrow> (suppression, compaction_reason) result" where
  "decide_compaction t =
     (if ts_one_shot t \<and> ts_typed_result t then Err OneShotResult
      else if ts_tool_call t then Err ToolCallActive
      else if ts_approval t then Err ApprovalActive
      else if \<not> ts_new_work t then Err NoMeaningfulWork
      else if ts_wall_clock_only t then Err WallClockOnly
      else if fires t then Ok (ts_reason t) else Err BelowThreshold)"

section \<open>Failures as shown\<close>

record failure_presentation =
  fp_kind :: string
  fp_message :: string
  fp_retryable :: bool
  fp_recovery_action :: string

definition failure_kind :: "string \<Rightarrow> string" where
  "failure_kind reason =
     (let lower = to_ascii_lowercase reason in
      if list_ex (str_contains lower)
           [''timed out'', ''without an assistant response'', ''adapter exited'', ''adapter exit'',
            ''connection closed'', ''connection reset''] then ''timeout_or_exit''
      else if list_ex (str_contains lower)
           [''could not start'', ''could not be delivered'', ''not running'', ''pipe is closed'', ''wait failed'']
      then ''provider_unavailable''
      else if list_ex (str_contains lower)
           [''invalid'', ''parse'', ''schema'', ''metadata does not match'', ''missing decision'', ''missing file'',
            ''durable evidence'', ''omits'', ''checkpoint response''] then ''invalid_checkpoint''
      else ''unknown'')"

definition classify_failure :: "string \<Rightarrow> compaction_reason option \<Rightarrow> failure_presentation" where
  "classify_failure reason trigger =
     (let kind = failure_kind reason; switching = (trigger = Some BeforeDowngrade) in
      \<lparr>fp_kind = kind,
       fp_message =
         (if switching
          then (if kind = ''invalid_checkpoint''
                then ''The previous model returned a checkpoint Bridge could not verify. The model switch continued with stored conversation history.''
                else ''The previous model did not finish the checkpoint. The model switch continued with stored conversation history.'')
          else if kind = ''timeout_or_exit''
          then ''The provider did not finish compaction. The original conversation history is intact.''
          else if kind = ''provider_unavailable''
          then ''Compaction could not reach a ready provider. The original conversation history is intact.''
          else if kind = ''invalid_checkpoint''
          then ''Bridge could not verify the provider's checkpoint, so no conversation history was replaced.''
          else ''Compaction failed before a verified checkpoint was stored. The original conversation history is intact.''),
       fp_retryable = True,
       fp_recovery_action =
         (if switching
          then ''Retry compaction after the new model starts, or keep working; the original history is intact.''
          else ''Retry compaction when the provider is ready, or keep working with the original history.'')\<rparr>)"

section \<open>The database a compaction works on\<close>

record chat_db =
  ch_forest :: forest_db
  ch_events :: "(string \<times> string \<times> string \<times> string) list"

definition store_event :: "string \<Rightarrow> string \<Rightarrow> string \<Rightarrow> string \<Rightarrow> chat_db \<Rightarrow> chat_db" where
  "store_event source kind entity body c = c\<lparr>ch_events := ch_events c @ [(source, kind, entity, body)]\<rparr>"

text \<open>\<open>map_err(|error| BridgeError::Invalid(error.to_string()))\<close>\<close>

definition bridge_invalid :: "(forest_error, 'a) result \<Rightarrow> (forest_error, 'a) result" where
  "bridge_invalid r = (case r of Inl x \<Rightarrow> Err (StorageError (forest_error_display x)) | Inr v \<Rightarrow> Ok v)"

definition append_chat ::
    "stamp \<Rightarrow> string \<Rightarrow> entry_kind \<Rightarrow> json \<Rightarrow> chat_db \<Rightarrow> (forest_error, session_entry) result \<times> chat_db" where
  "append_chat st s k payload c =
     (case bridge_invalid (append_entry st s k payload (ch_forest c)) of
        Inl x \<Rightarrow> (Err x, c) | Inr (e, d) \<Rightarrow> (Ok e, c\<lparr>ch_forest := d\<rparr>))"

section \<open>What is on record\<close>

record checkpoint_evidence =
  ev_decisions :: "string list"
  ev_files :: "string list"

text \<open>A \<open>BTreeSet\<close> is its elements in order.\<close>

definition collect_strings :: "json \<Rightarrow> string \<Rightarrow> string list \<Rightarrow> string list" where
  "collect_strings payload field target = fold insort_insert (payload_strings payload field) target"

definition entry_evidence :: "session_entry \<Rightarrow> checkpoint_evidence \<Rightarrow> checkpoint_evidence" where
  "entry_evidence e ev =
     (let ev = (if se_kind e \<in> {''worker.result'', ''checkpoint''}
                then ev\<lparr>ev_decisions := collect_strings (se_payload e) ''decisions'' (ev_decisions ev)\<rparr> else ev) in
      if se_kind e = ''worker.result''
      then ev\<lparr>ev_files := collect_strings (se_payload e) ''filesChanged'' (ev_files ev)\<rparr>
      else if se_kind e = ''artifact.created''
      then (case trimmed_text (json_get (se_payload e) ''path'') of
              None \<Rightarrow> ev | Some p \<Rightarrow> ev\<lparr>ev_files := insort_insert p (ev_files ev)\<rparr>)
      else ev)"

definition rposition :: "('a \<Rightarrow> bool) \<Rightarrow> 'a list \<Rightarrow> nat option" where
  "rposition P xs = map_option (\<lambda>n. length xs - 1 - n) (position P (rev xs))"

definition first_request :: "session_entry \<Rightarrow> bool" where
  "first_request e \<longleftrightarrow>
     se_kind e = ''compaction.requested''
     \<and> (case json_get (se_payload e) ''attempt'' \<bind> as_u64 of None \<Rightarrow> True | Some n \<Rightarrow> n = 0)"

definition evidence_of :: "session_entry list \<Rightarrow> bool \<Rightarrow> checkpoint_evidence" where
  "evidence_of branch stop_at_request =
     (let start = (case rposition (\<lambda>e. se_kind e = ''compaction'') branch of None \<Rightarrow> 0 | Some n \<Rightarrow> n + 1);
          stop = (if stop_at_request
                  then (case rposition first_request branch of None \<Rightarrow> length branch | Some n \<Rightarrow> n)
                  else length branch) in
      fold entry_evidence (drop start (take (max stop start) branch)) \<lparr>ev_decisions = [], ev_files = []\<rparr>)"

definition collect_evidence ::
    "chat_db \<Rightarrow> string \<Rightarrow> bool \<Rightarrow> (forest_error, checkpoint_evidence) result" where
  "collect_evidence c s stop_at_request =
     (case bridge_invalid (active_branch (ch_forest c) s) of
        Inl x \<Rightarrow> Err x | Inr branch \<Rightarrow> Ok (evidence_of branch stop_at_request))"

definition prompt_section :: "checkpoint_evidence \<Rightarrow> string" where
  "prompt_section ev =
     (if ev_decisions ev = [] \<and> ev_files ev = [] then []
      else '' Bridge has these on record from this session, so account for them in your lists (''
        @ join '', ''
            ((if ev_decisions ev = [] then []
              else [''decisions already on record: '' @ join ''; '' (ev_decisions ev)])
             @ (if ev_files ev = [] then [] else [''files already on record: '' @ join ''; '' (ev_files ev)]))
        @ '').'')"

definition missing_from :: "string list \<Rightarrow> string list \<Rightarrow> string list" where
  "missing_from required present = filter (\<lambda>v. v \<notin> trim ` set present) required"

definition augment :: "checkpoint_evidence \<Rightarrow> checkpoint \<Rightarrow> checkpoint \<times> string" where
  "augment ev c =
     (let decisions = missing_from (ev_decisions ev) (cp_decisions c);
          files = missing_from (ev_files ev) (cp_files_touched c) in
      if decisions = [] \<and> files = [] then (c, ''agent'')
      else (c\<lparr>cp_decisions := cp_decisions c @ decisions, cp_files_touched := cp_files_touched c @ files\<rparr>,
            ''agent+controller''))"

section \<open>Requests\<close>

record pending_compaction =
  pc_reason :: compaction_reason
  pc_attempt :: nat
  pc_tokens_before :: int
  pc_requested_at :: string
  pc_first_retained :: string
  pc_background :: bool

datatype compaction_start = CompactReady string | AlreadyPending | ProviderLimited string string

fun start_prompt :: "compaction_start \<Rightarrow> string option" where
  "start_prompt (CompactReady p) = Some p"
| "start_prompt _ = None"

definition checkpoint_prompt ::
    "pending_compaction \<Rightarrow> string option \<Rightarrow> checkpoint_evidence option \<Rightarrow> string" where
  "checkpoint_prompt pending repair_error evidence =
     ''Bridge is asking, not the person you are talking to. '' @ why_asked (pc_reason pending)
     @ '' Reply with one JSON object and nothing else: ''
     @ ''{\"summary\":\"what this session has been about\",\"decisions\":[],\"filesTouched\":[],\"openWork\":[]}''
     @ '' `summary` is prose. `decisions` are the choices made and worth keeping. ''
     @ ''`filesTouched` are paths actually changed. `openWork` is what is still unfinished. ''
     @ ''Report only what happened: leave a list empty if there is nothing in it, and say so in `summary` ''
     @ ''if this session has barely started. Invent nothing.''
     @ (case evidence of None \<Rightarrow> [] | Some ev \<Rightarrow> prompt_section ev)
     @ '' This is bookkeeping, so do not call tools, run commands, change files, or delegate; ''
     @ ''the only thing this turn may produce is that object. ''
     @ ''Nothing you write here reaches the user and none of it becomes part of your conversation with them.''
     @ (case repair_error of
          None \<Rightarrow> []
        | Some e \<Rightarrow> '' Your previous reply could not be read as that object: '' @ e @ ''. Send the object.'')"

definition marker_kinds :: "string list" where
  "marker_kinds = [''compaction'', ''compaction.failed'', ''checkpoint'', ''compaction.requested'']"

definition max_walk :: nat where "max_walk = 1000000"

text \<open>The recursive query: from the head up to the first marker, at most \<open>max_walk\<close> steps.\<close>

fun nearest_marker :: "session_entry list \<Rightarrow> nat \<Rightarrow> string \<Rightarrow> session_entry option" where
  "nearest_marker es n i =
     (case find_entry es i of
        None \<Rightarrow> None
      | Some e \<Rightarrow>
          if se_kind e \<in> set marker_kinds then Some e
          else (case n of
                  0 \<Rightarrow> None
                | Suc k \<Rightarrow> (case se_parent e of None \<Rightarrow> None | Some p \<Rightarrow> nearest_marker es k p)))"

declare nearest_marker.simps [simp del]

definition pending_from_marker :: "session_entry \<Rightarrow> (forest_error, pending_compaction option) result" where
  "pending_from_marker e =
     (if se_kind e \<noteq> ''compaction.requested'' then Ok None
      else (let p = se_payload e in
        case json_get p ''reason'' \<bind> as_str \<bind> reason_parse of
          None \<Rightarrow> Err (StorageError ''invalid compaction reason'')
        | Some reason \<Rightarrow>
            Ok (Some
              \<lparr>pc_reason = reason,
               pc_attempt = (case json_get p ''attempt'' \<bind> as_u64 of None \<Rightarrow> 0 | Some n \<Rightarrow> n mod 256),
               pc_tokens_before = (case json_get p ''tokensBefore'' \<bind> as_i64 of None \<Rightarrow> 0 | Some n \<Rightarrow> n),
               pc_requested_at =
                 (case json_get p ''requestedAt'' \<bind> as_str of None \<Rightarrow> se_created e | Some t \<Rightarrow> t),
               pc_first_retained =
                 (case json_get p ''firstRetainedEntryId'' \<bind> as_str of None \<Rightarrow> [] | Some i \<Rightarrow> i),
               pc_background = (case json_get p ''background'' \<bind> as_bool of None \<Rightarrow> False | Some b \<Rightarrow> b)\<rparr>)))"

definition pending :: "chat_db \<Rightarrow> string \<Rightarrow> (forest_error, pending_compaction option) result" where
  "pending c s =
     (let es = session_entries (ch_forest c) s in
      if \<not> list_ex (\<lambda>e. se_kind e \<in> set marker_kinds) es then Ok None
      else (case raw_active_head_id (ch_forest c) s \<bind> nearest_marker es max_walk of
              None \<Rightarrow> Ok None | Some e \<Rightarrow> pending_from_marker e))"

text \<open>\<open>json!\<close> of a request; \<open>repairOf\<close> only on a repair.\<close>

definition request_payload :: "string \<Rightarrow> pending_compaction \<Rightarrow> json_object" where
  "request_payload s p =
     [(''reason'', JStr (compaction_reason_str (pc_reason p))), (''attempt'', JPos (pc_attempt p)),
      (''tokensBefore'', json_int (pc_tokens_before p)), (''sourceAgent'', JStr s),
      (''requestedAt'', JStr (pc_requested_at p)), (''firstRetainedEntryId'', JStr (pc_first_retained p)),
      (''background'', JBool (pc_background p))]"

text \<open>\<open>retained\<close> is the fresh identifier, \<open>cooldown\<close> what the router says of the session's provider.\<close>

definition begin_compaction ::
    "stamp \<Rightarrow> string \<Rightarrow> string \<Rightarrow> (string \<times> string) option \<Rightarrow> string \<Rightarrow> compaction_reason \<Rightarrow> int \<Rightarrow> bool
     \<Rightarrow> chat_db \<Rightarrow> (forest_error, compaction_start) result \<times> chat_db" where
  "begin_compaction st now retained cooldown s reason tokens background c =
     (case pending c s of
        Inl x \<Rightarrow> (Err x, c)
      | Inr (Some _) \<Rightarrow> (Ok AlreadyPending, c)
      | Inr None \<Rightarrow>
          (case cooldown of
             Some (harness, until) \<Rightarrow>
               (Ok (ProviderLimited harness until),
                store_event ''compaction'' ''compaction.suppressed_provider_limit'' s
                  (harness @ '' is out of quota until '' @ until @ ''; compaction ('' @ compaction_reason_str reason
                   @ '') was not attempted'') c)
           | None \<Rightarrow>
               (let p = \<lparr>pc_reason = reason, pc_attempt = 0, pc_tokens_before = max tokens 0,
                         pc_requested_at = now, pc_first_retained = retained, pc_background = background\<rparr> in
                case append_chat st s CompactionRequested (JObj (request_payload s p)) c of
                  (Inl x, c') \<Rightarrow> (Err x, c')
                | (Inr _, c') \<Rightarrow>
                    (case collect_evidence c' s False of
                       Inl x \<Rightarrow> (Err x, c')
                     | Inr ev \<Rightarrow> (Ok (CompactReady (checkpoint_prompt p None (Some ev))), c')))))"

definition request_repair ::
    "stamp \<Rightarrow> string \<Rightarrow> string \<Rightarrow> pending_compaction \<Rightarrow> string \<Rightarrow> checkpoint_evidence \<Rightarrow> chat_db
     \<Rightarrow> (forest_error, string) result \<times> chat_db" where
  "request_repair st now s p error ev c =
     (let p' = p\<lparr>pc_attempt := 1\<rparr> in
      case append_chat st s CompactionRequested
             (JObj (request_payload s (p'\<lparr>pc_requested_at := now\<rparr>) @ [(''repairOf'', JStr error)])) c of
        (Inl x, c') \<Rightarrow> (Err x, c')
      | (Inr _, c') \<Rightarrow> (Ok (checkpoint_prompt p' (Some error) (Some ev)), c'))"

definition repair_prompt ::
    "chat_db \<Rightarrow> string \<Rightarrow> pending_compaction \<Rightarrow> string \<Rightarrow> (forest_error, string) result" where
  "repair_prompt c s p error =
     (case collect_evidence c s False of
        Inl x \<Rightarrow> Err x | Inr ev \<Rightarrow> Ok (checkpoint_prompt p (Some error) (Some ev)))"

section \<open>Outcomes\<close>

datatype checkpoint_outcome =
    CheckpointCompleted string string
  | LateCheckpoint string
  | CheckpointRepair string
  | CheckpointFailed
  | CheckpointNotPending

definition provenance_of :: "checkpoint \<Rightarrow> string \<Rightarrow> string" where
  "provenance_of c provenance = (case cp_provenance c of None \<Rightarrow> provenance | Some p \<Rightarrow> p)"

definition checkpoint_payload :: "checkpoint \<Rightarrow> pending_compaction \<Rightarrow> string \<Rightarrow> json_object" where
  "checkpoint_payload c p provenance =
     [(''schemaVersion'', JPos (cp_schema_version c)), (''summary'', JStr (cp_summary c)),
      (''decisions'', JArr (map JStr (cp_decisions c))), (''filesTouched'', JArr (map JStr (cp_files_touched c))),
      (''openWork'', JArr (map JStr (cp_open_work c))), (''tokensBefore'', json_int (pc_tokens_before p)),
      (''reason'', JStr (compaction_reason_str (pc_reason p))), (''sourceAgent'', JStr (cp_source_agent c)),
      (''firstRetainedEntryId'', JStr (cp_first_retained c)),
      (''provenance'', JStr (provenance_of c provenance))]"

definition compaction_payload :: "checkpoint \<Rightarrow> pending_compaction \<Rightarrow> string \<Rightarrow> json_object" where
  "compaction_payload c p provenance =
     [(''schemaVersion'', JPos 1), (''summary'', JStr (cp_summary c)),
      (''decisions'', JArr (map JStr (cp_decisions c))), (''filesTouched'', JArr (map JStr (cp_files_touched c))),
      (''openWork'', JArr (map JStr (cp_open_work c))), (''firstRetainedEntryId'', JStr (cp_first_retained c)),
      (''tokensBefore'', json_int (pc_tokens_before p)), (''reason'', JStr (compaction_reason_str (pc_reason p))),
      (''sourceAgent'', JStr (cp_source_agent c)), (''provenance'', JStr (provenance_of c provenance))]"

text \<open>The entry the boundary retains, written with the identifier the request reserved.\<close>

definition retained_entry :: "stamp \<Rightarrow> string \<Rightarrow> string \<Rightarrow> string \<Rightarrow> forest_db \<Rightarrow> session_entry" where
  "retained_entry st s i parent d =
     \<lparr>se_id = i, se_session = s, se_parent = Some parent, se_sequence = next_sequence d s,
      se_schema = semantic_schema_version, se_kind = ''branch.summary'',
      se_payload = JObj [(''summary'', JStr ''Compaction boundary; subsequent entries are retained''),
        (typed_schema_marker, JPos 1), (repo_state_key, st_repo st)],
      se_provider_event = None, se_visibility = ''eligible'', se_token_estimate = None,
      se_created = st_now st\<rparr>"

definition move_boundary :: "string \<Rightarrow> string \<Rightarrow> string \<Rightarrow> string \<Rightarrow> forest_db \<Rightarrow> forest_db" where
  "move_boundary s retained checkpoint now d =
     d\<lparr>fd_heads := map (\<lambda>h. if sh_session h = s
        then h\<lparr>sh_active := Some retained, sh_checkpoint := Some checkpoint, sh_updated := now\<rparr> else h) (fd_heads d)\<rparr>"

text \<open>One transaction: what fails leaves the database as it was.\<close>

definition record_checkpoint ::
    "lib \<Rightarrow> stamp \<times> stamp \<times> stamp \<Rightarrow> string \<Rightarrow> checkpoint \<Rightarrow> pending_compaction \<Rightarrow> string
     \<Rightarrow> checkpoint_evidence option \<Rightarrow> chat_db \<Rightarrow> (forest_error, checkpoint_outcome) result \<times> chat_db" where
  "record_checkpoint l sts s c p provenance evidence db =
     (case sts of (st1, st2, st3) \<Rightarrow>
      if cp_first_retained c \<noteq> pc_first_retained p \<or> cp_tokens_before c \<noteq> pc_tokens_before p
         \<or> cp_reason c \<noteq> compaction_reason_str (pc_reason p)
      then (Err (StorageError ''checkpoint metadata does not match its controller request''), db)
      else (case bridge_invalid (append_in_transaction st1 s CheckpointEntry
                     (JObj (checkpoint_payload c p provenance)) (ch_forest db)) of
              Inl x \<Rightarrow> (Err x, db)
            | Inr (ck, d1) \<Rightarrow>
                (case bridge_invalid (append_in_transaction st2 s CompactionEntry
                        (JObj (compaction_payload c p provenance)) d1) of
                   Inl x \<Rightarrow> (Err x, db)
                 | Inr (cp, d2) \<Rightarrow>
                     (case insert_entry (st_refusal st3)
                             (retained_entry st3 s (cp_first_retained c) (se_id cp) d2) d2 of
                        Inl x \<Rightarrow> (Err x, db)
                      | Inr d3 \<Rightarrow>
                          (let db' = db\<lparr>ch_forest :=
                                 move_boundary s (cp_first_retained c) (se_id ck) (st_now st3) d3\<rparr> in
                           (Ok (CheckpointCompleted (se_id ck) (se_id cp)),
                            case evidence of
                              None \<Rightarrow> db'
                            | Some ev \<Rightarrow>
                                store_event ''compaction'' ''checkpoint.evidence_verified'' s
                                  (lib_render_json l (JObj [(''decisionCount'', JPos (length (ev_decisions ev))),
                                     (''fileCount'', JPos (length (ev_files ev)))])) db'))))))"

definition record_late_checkpoint ::
    "stamp \<Rightarrow> string \<Rightarrow> checkpoint \<Rightarrow> pending_compaction \<Rightarrow> string \<Rightarrow> chat_db
     \<Rightarrow> (forest_error, checkpoint_outcome) result \<times> chat_db" where
  "record_late_checkpoint st s c p provenance db =
     (case append_chat st s CheckpointEntry
             (JObj (checkpoint_payload c p provenance @ [(''landing'', JStr ''late'')])) db of
        (Inl x, db') \<Rightarrow> (Err x, db')
      | (Inr e, db') \<Rightarrow>
          (Ok (LateCheckpoint (se_id e)),
           store_event ''compaction'' ''checkpoint.landed_late'' s
             ''Background handoff summary recorded as a checkpoint; the new model had already replied, so no boundary moved'' db'))"

definition record_compaction_failure ::
    "stamp \<Rightarrow> string \<Rightarrow> string \<Rightarrow> string \<Rightarrow> nat \<Rightarrow> chat_db \<Rightarrow> (forest_error, unit) result \<times> chat_db" where
  "record_compaction_failure st now s reason attempt db =
     (case pending db s of
        Inl x \<Rightarrow> (Err x, db)
      | Inr p \<Rightarrow>
          (let trigger = map_option pc_reason p; shown = classify_failure reason trigger in
           case append_chat st s CompactionFailed
                  (JObj [(''reason'', JStr reason), (''attempt'', JPos attempt), (''failedAt'', JStr now),
                     (''failureKind'', JStr (fp_kind shown)), (''message'', JStr (fp_message shown)),
                     (''retryable'', JBool (fp_retryable shown)),
                     (''recoveryAction'', JStr (fp_recovery_action shown)),
                     (''trigger'', json_opt (JStr \<circ> compaction_reason_str) trigger)]) db of
             (Inl x, db') \<Rightarrow> (Err x, db')
           | (Inr _, db') \<Rightarrow> (Ok (), store_event ''compaction'' ''compaction.failed'' s reason db')))"

definition conversation_kinds :: "string list" where
  "conversation_kinds = [''user.message'', ''assistant.message'', ''worker.result'', ''tool.completed'']"

text \<open>The loop over the branch, newest first; \<open>spoke\<close> is what it has seen.\<close>

fun spoke_since :: "bool \<Rightarrow> session_entry list \<Rightarrow> bool" where
  "spoke_since spoke [] = False"
| "spoke_since spoke (e # es) =
     (if first_request e then spoke
      else spoke_since (spoke \<or> se_kind e \<in> set conversation_kinds) es)"

definition conversation_appended_since_request :: "chat_db \<Rightarrow> string \<Rightarrow> (forest_error, bool) result" where
  "conversation_appended_since_request c s =
     (case bridge_invalid (active_branch (ch_forest c) s) of
        Inl x \<Rightarrow> Err x | Inr branch \<Rightarrow> Ok (spoke_since False (rev branch)))"

definition handle_output ::
    "lib \<Rightarrow> (string \<Rightarrow> string) \<Rightarrow> stamp \<times> stamp \<times> stamp \<Rightarrow> string \<Rightarrow> string \<Rightarrow> string \<Rightarrow> chat_db
     \<Rightarrow> (forest_error, checkpoint_outcome) result \<times> chat_db" where
  "handle_output l serde_error sts now s output c =
     (case pending c s of
        Inl x \<Rightarrow> (Err x, c)
      | Inr None \<Rightarrow> (Ok CheckpointNotPending, c)
      | Inr (Some p) \<Rightarrow>
          (case collect_evidence c s (pc_background p) of
             Inl x \<Rightarrow> (Err x, c)
           | Inr ev \<Rightarrow>
               (case parse_draft l serde_error output of
                  Inl error \<Rightarrow>
                    if pc_attempt p = 0
                    then (case request_repair (fst sts) now s p (context_error_display error) ev c of
                            (Inl x, c') \<Rightarrow> (Err x, c') | (Inr prompt, c') \<Rightarrow> (Ok (CheckpointRepair prompt), c'))
                    else (case record_compaction_failure (fst sts) now s (context_error_display error) (pc_attempt p) c of
                            (Inl x, c') \<Rightarrow> (Err x, c') | (Inr _, c') \<Rightarrow> (Ok CheckpointFailed, c'))
                | Inr draft \<Rightarrow>
                    (let cp = \<lparr>cp_schema_version = checkpoint_schema_version, cp_summary = cd_summary draft,
                           cp_decisions = cd_decisions draft, cp_files_touched = cd_files_touched draft,
                           cp_source_agent = s, cp_first_retained = pc_first_retained p,
                           cp_tokens_before = pc_tokens_before p, cp_reason = compaction_reason_str (pc_reason p),
                           cp_open_work = cd_open_work draft, cp_provenance = None\<rparr> in
                     case augment ev cp of (cp, provenance) \<Rightarrow>
                     (if pc_background p
                      then (case conversation_appended_since_request c s of
                              Inl x \<Rightarrow> (Err x, c)
                            | Inr True \<Rightarrow> record_late_checkpoint (fst sts) s cp p provenance c
                            | Inr False \<Rightarrow> record_checkpoint l sts s cp p provenance (Some ev) c)
                      else record_checkpoint l sts s cp p provenance (Some ev) c)))))"

section \<open>Reconstruction\<close>

definition entry_token_estimate :: "lib \<Rightarrow> session_entry \<Rightarrow> int" where
  "entry_token_estimate l e =
     (case se_token_estimate e of
        Some n \<Rightarrow> n | None \<Rightarrow> (int (length (lib_render_json l (se_payload e))) + 3) div 4)"

definition active_token_estimate :: "lib \<Rightarrow> chat_db \<Rightarrow> string \<Rightarrow> (forest_error, int) result" where
  "active_token_estimate l c s =
     (case bridge_invalid (active_branch (ch_forest c) s) of
        Inl x \<Rightarrow> Err x
      | Inr branch \<Rightarrow> Ok (fold (\<lambda>e n. i64_add n (entry_token_estimate l e)) branch 0))"

definition conversation_token_estimate :: "lib \<Rightarrow> chat_db \<Rightarrow> string \<Rightarrow> (forest_error, int) result" where
  "conversation_token_estimate l c s =
     (case bridge_invalid (active_branch (ch_forest c) s) of
        Inl x \<Rightarrow> Err x
      | Inr branch \<Rightarrow>
          Ok (fold (\<lambda>e n. i64_add n (entry_token_estimate l e))
            (filter (\<lambda>e. se_kind e \<in> set conversation_kinds) branch) 0))"

definition record_reconstructed ::
    "lib \<Rightarrow> stamp \<times> stamp \<times> stamp \<Rightarrow> string \<Rightarrow> string \<Rightarrow> string \<Rightarrow> string \<Rightarrow> string list \<Rightarrow> string list
     \<Rightarrow> compaction_reason \<Rightarrow> chat_db \<Rightarrow> (forest_error, checkpoint_outcome) result \<times> chat_db" where
  "record_reconstructed l sts now retained s summary decisions files reason c =
     (case active_token_estimate l c s of
        Inl x \<Rightarrow> (Err x, c)
      | Inr tokens \<Rightarrow>
          (let cp = \<lparr>cp_schema_version = 1, cp_summary = summary, cp_decisions = decisions,
                 cp_files_touched = files, cp_source_agent = s, cp_first_retained = retained,
                 cp_tokens_before = tokens, cp_reason = compaction_reason_str reason, cp_open_work = [],
                 cp_provenance = Some ''reconstructed''\<rparr> in
           case checkpoint_validate cp (Some s) of
             Inl x \<Rightarrow> (Err (StorageError (context_error_display x)), c)
           | Inr _ \<Rightarrow>
               record_checkpoint l sts s cp
                 \<lparr>pc_reason = reason, pc_attempt = 1, pc_tokens_before = tokens, pc_requested_at = now,
                  pc_first_retained = retained, pc_background = False\<rparr> ''reconstructed'' None c))"

definition entry_fact :: "json \<Rightarrow> string option" where
  "entry_fact payload =
     trimmed_text (case json_get payload ''summary'' of
        Some v \<Rightarrow> Some v
      | None \<Rightarrow> (case json_get payload ''text'' of
                   Some v \<Rightarrow> Some v
                 | None \<Rightarrow> json_get payload ''data'' \<bind> (\<lambda>v. json_get v ''text'')))"

text \<open>The loop over the branch, newest first, until twelve facts are known.\<close>

fun gather_facts :: "session_entry list \<Rightarrow> string list \<Rightarrow> string list \<Rightarrow> string list \<times> string list" where
  "gather_facts [] facts decisions = (facts, decisions)"
| "gather_facts (e # es) facts decisions =
     (let known = se_kind e \<in> {''user.message'', ''assistant.message'', ''worker.result''};
          facts = (if known then (case entry_fact (se_payload e) of None \<Rightarrow> facts | Some f \<Rightarrow> facts @ [f]) else facts);
          decisions = (if known then append_unique decisions (payload_strings (se_payload e) ''decisions'')
                       else decisions) in
      if 12 \<le> length facts then (facts, decisions) else gather_facts es facts decisions)"

definition status_path :: "string \<Rightarrow> string option" where
  "status_path line =
     (if is_char_boundary line 3 \<and> 3 \<le> length line
      then (let p = trim (drop 3 line) in if p = [] then None else Some p) else None)"

definition reconstruct ::
    "lib \<Rightarrow> stamp \<times> stamp \<times> stamp \<Rightarrow> string \<Rightarrow> string \<Rightarrow> string \<Rightarrow> string \<Rightarrow> compaction_reason \<Rightarrow> chat_db
     \<Rightarrow> (forest_error, checkpoint_outcome) result \<times> chat_db" where
  "reconstruct l sts now retained s git_status reason c =
     (case bridge_invalid (active_branch (ch_forest c) s) of
        Inl x \<Rightarrow> (Err x, c)
      | Inr branch \<Rightarrow>
          (case gather_facts (rev branch) [] [] of (facts, decisions) \<Rightarrow>
           let facts = rev facts;
               files = List.map_filter status_path (str_lines git_status);
               summary = (if facts = []
                 then ''Recovered checkpoint from immutable normalized events and current Git facts''
                 else ''Recovered from normalized events: '' @ join '' | '' facts) in
           case record_reconstructed l sts now retained s summary decisions files reason c of
             (Inl x, c') \<Rightarrow> (Err x, c')
           | (Inr outcome, c') \<Rightarrow>
               (Ok outcome, store_event ''compaction'' ''compaction.recovery_worker.completed'' s
                  ''Reconstructed from normalized events and Git facts'' c')))"

section \<open>Branches of a sound forest\<close>

lemma active_Ok:
  assumes "forest_ok d" "session_exists d s"
  shows "active_branch d s = Ok bs \<longleftrightarrow>
    (case raw_active_head_id d s of None \<Rightarrow> bs = [] | Some i \<Rightarrow> path_to (session_entries d s) i bs)"
proof -
  have k: "keyed_entries (fd_entries d)" using assms(1) by (simp add: forest_ok_def)
  note K = branch_Ok [OF keyed_session [OF k, of s]]
  show ?thesis
  proof (cases "raw_active_head_id d s")
    case None
    then show ?thesis using assms(2) by (auto simp: active_branch_def active_head_id_def ensure_session_def)
  next
    case (Some i)
    have "ensure_entry_in_session d s i = Ok ()"
      using reads [OF assms] Some assms(2)
      by (auto simp: active_branch_def active_head_id_def ensure_session_def split: sum.splits)
    with Some assms(2) K show ?thesis
      by (simp add: active_branch_def active_head_id_def ensure_session_def)
  qed
qed

lemma active_reads:
  assumes "forest_ok d" "session_exists d s"
  obtains bs where "active_branch d s = Ok bs"
  using reads [OF assms] by (auto simp: is_ok_iff)

lemma path_sorted:
  assumes "forest_ok d"
  shows "set bs \<subseteq> set (session_entries d s) \<Longrightarrow> linked None bs \<Longrightarrow>
    sorted_wrt (\<lambda>a b. se_sequence a < se_sequence b) bs"
proof (induction bs rule: rev_induct)
  case (snoc e bs)
  show ?case
  proof (cases "bs = []")
    case False
    with snoc.prems have p: "se_parent e = Some (se_id (last bs))" by (simp add: linked_snoc)
    have s: "sorted_wrt (\<lambda>a b. se_sequence a < se_sequence b) bs" using snoc by (simp add: linked_snoc)
    have k: "keyed_entries (fd_entries d)" and eo: "entry_ok d e"
      using assms snoc.prems(1) by (auto simp: forest_ok_def list_all_iff)
    have "last bs \<in> set bs" using False by simp
    with snoc.prems(1) have l: "last bs \<in> set (fd_entries d)" by auto
    from eo p obtain x where "x \<in> set (fd_entries d)" "se_id x = se_id (last bs)" "se_sequence x < se_sequence e"
      by (auto simp: entry_ok_def parent_ok_def)
    with keyed_inj [OF k _ l] have lt: "se_sequence (last bs) < se_sequence e" by auto
    have "se_sequence a \<le> se_sequence (last bs)" if "a \<in> set bs" for a
    proof -
      from False obtain xs x where bs: "bs = xs @ [x]" by (cases bs rule: rev_cases) auto
      with s that show ?thesis by (auto simp: sorted_wrt_append)
    qed
    with s lt show ?thesis by (fastforce simp: sorted_wrt_append)
  qed simp
qed simp

lemma path_canonical:
  assumes "forest_ok d" "path_to (session_entries d s) i bs"
  shows "canonical bs = bs" "distinct (map se_id bs)" "list_all supported_schema bs"
proof -
  have k: "keyed_entries (session_entries d s)" using assms(1) keyed_session by (simp add: forest_ok_def)
  from assms(2) have p: "set bs \<subseteq> set (session_entries d s)" "linked None bs" "list_all valid_entry bs"
    by (simp_all add: path_to_def)
  show "canonical bs = bs" by (rule canonical_id [OF path_sorted [OF assms(1) p(1,2)]])
  show "distinct (map se_id bs)" by (rule linked_distinct [OF k p(2,1)])
  show "list_all supported_schema bs"
    using p(3) by (auto simp: list_all_iff valid_entry_def validate_stored_entry_def supported_schema_def split: if_splits)
qed

lemma project_path:
  assumes "forest_ok d" "path_to (session_entries d s) i bs" "0 < window"
  shows "project l bs window =
    (case retained_of bs of
       Inl x \<Rightarrow> Err x
     | Inr (retained, r) \<Rightarrow>
         (let rendered = List.map_filter project_render_entry retained;
              tokens = i64_saturating_add
                (fold (\<lambda>n acc. i64_saturating_add acc n) (map (estimate_entry_tokens l) rendered) 0)
                (restoration_tokens l r) in
          Ok \<lparr>pj_entries = rendered, pj_restoration = r,
              pj_model = latest_non_empty bs ''model.changed'' ''model'',
              pj_effort = latest_non_empty bs ''effort.changed'' ''effort'',
              pj_token_estimate = tokens,
              pj_pressure = max 0 (min 100 (i64_div (i64_saturating_mul tokens 100) window))\<rparr>))"
proof -
  note c = path_canonical [OF assms(1,2)]
  have "duplicate_id [] bs = None" using c(2) duplicate_id_None [of "[]" bs] by simp
  moreover have "find (\<lambda>e. \<not> supported_schema e) bs = None" using c(3) by (auto simp: find_None_iff list_all_iff)
  ultimately show ?thesis
    using assms(3) c(1)
    by (simp add: project_def Let_def reject_duplicate_entry_ids_def restoration_tokens_def split: sum.split)
qed

text \<open>An append at the head extends the active branch.\<close>

lemma append_at_head:
  assumes "forest_ok d" "append_to st s (raw_active_head_id d s) k p d = Ok (e, d')" "active_branch d s = Ok bs"
  shows "active_branch d' s = Ok (bs @ [e])" "raw_active_head_id d' s = Some (se_id e)"
    "path_to (session_entries d' s) (se_id e) (bs @ [e])" "forest_ok d'"
proof -
  note a = appending [OF assms(2)]
  show ok': "forest_ok d'" by (rule a(3) [OF assms(1)])
  show h: "raw_active_head_id d' s = Some (se_id e)" using assms(2) pointed unfolding append_to_Ok by auto
  have e': "e \<in> set (session_entries d' s)" using a(1,5) by simp
  have sub: "set (session_entries d s) \<subseteq> set (session_entries d' s)" using a(1) by auto
  from active_Ok [OF assms(1) a(7)] assms(3) have b: "case raw_active_head_id d s of
      None \<Rightarrow> bs = [] | Some i \<Rightarrow> path_to (session_entries d s) i bs" by blast
  show path: "path_to (session_entries d' s) (se_id e) (bs @ [e])"
  proof (cases "raw_active_head_id d s")
    case None
    with a(4,6) e' b show ?thesis by (simp add: path_to_def)
  next
    case (Some i)
    with b have "path_to (session_entries d s) i bs" by simp
    with a(4,6) e' sub Some show ?thesis by (auto simp: path_to_def linked_snoc)
  qed
  have "session_exists d' s" using a(2,7) by (simp add: session_exists_def)
  with active_Ok [OF ok' this] h path show "active_branch d' s = Ok (bs @ [e])" by simp
qed

lemma bridge_invalid_Ok [simp]: "bridge_invalid r = Ok v \<longleftrightarrow> r = Ok v"
  by (simp add: bridge_invalid_def split: sum.split)

lemma append_entry_at_head:
  assumes "append_entry st s k p d = Ok r"
  shows "append_to st s (raw_active_head_id d s) k p d = Ok r"
proof -
  from assms obtain parent where h: "active_head_id d s = Ok parent" and a: "append_to st s parent k p d = Ok r"
    by (auto simp: append_entry_def split: sum.splits)
  have "parent = raw_active_head_id d s"
    using h by (auto simp: active_head_id_def split: sum.splits option.splits)
  with a show ?thesis by simp
qed

lemma append_chat_Ok:
  assumes "append_chat st s k p c = (Ok e, c')"
  shows "append_to st s (raw_active_head_id (ch_forest c) s) k p (ch_forest c) = Ok (e, ch_forest c')"
    "ch_events c' = ch_events c"
proof -
  from assms have "append_entry st s k p (ch_forest c) = Ok (e, ch_forest c') \<and> ch_events c' = ch_events c"
    by (auto simp: append_chat_def bridge_invalid_def split: sum.splits)
  then show "append_to st s (raw_active_head_id (ch_forest c) s) k p (ch_forest c) = Ok (e, ch_forest c')"
    "ch_events c' = ch_events c" using append_entry_at_head by blast+
qed

lemma append_chat_Err: "append_chat st s k p c = (Err x, c') \<Longrightarrow> c' = c"
  by (auto simp: append_chat_def split: sum.splits)

lemma appended_fields:
  assumes "append_to st s parent k (JObj ob) d = Ok (e, d')"
  shows "se_kind e = kind_as_str k" "se_id e = st_uuid st" "se_session e = s"
    "se_payload e = JObj (obj_insert repo_state_key (st_repo st)
      (obj_insert typed_schema_marker (JPos typed_schema_version) ob))" "se_visibility e = ''eligible''"
  using assms unfolding append_to_Ok by (auto simp: entry_of_append_def)

section \<open>The pending request\<close>

definition is_marker :: "session_entry \<Rightarrow> bool" where
  "is_marker e \<longleftrightarrow> se_kind e \<in> set marker_kinds"

lemma nearest_on_path:
  assumes "keyed_entries es"
  shows "bs \<noteq> [] \<Longrightarrow> linked None bs \<Longrightarrow> set bs \<subseteq> set es \<Longrightarrow> length bs \<le> n + 1 \<Longrightarrow>
    nearest_marker es n (se_id (last bs)) = find is_marker (rev bs)"
proof (induction bs arbitrary: n rule: rev_induct)
  case (snoc e bs)
  have f: "find_entry es (se_id e) = Some e" using find_entry_keyed [OF assms] snoc.prems(3) by simp
  show ?case
  proof (cases "is_marker e \<or> bs = []")
    case True
    with f snoc.prems show ?thesis
      by (auto simp: nearest_marker.simps [of es n "se_id e"] is_marker_def split: nat.split)
  next
    case False
    with snoc.prems obtain k where n: "n = Suc k" by (cases n) auto
    have p: "se_parent e = Some (se_id (last bs))" using snoc.prems(2) False by (simp add: linked_snoc)
    have "nearest_marker es k (se_id (last bs)) = find is_marker (rev bs)"
      using snoc.prems False n by (intro snoc.IH) (auto simp: linked_snoc)
    with f p False n show ?thesis
      by (simp add: nearest_marker.simps [of es "Suc k" "se_id e"] is_marker_def [of e])
  qed
qed simp

lemma path_length:
  assumes "keyed_entries (fd_entries d)" "path_to (session_entries d s) i bs"
  shows "length bs \<le> length (session_entries d s)"
proof -
  have "distinct (map se_id bs)"
    using linked_distinct [OF keyed_session [OF assms(1), of s], of bs] assms(2) by (simp add: path_to_def)
  then have "distinct bs" by (simp add: distinct_map)
  then have "length bs = card (set bs)" by (simp add: distinct_card)
  also have "\<dots> \<le> card (set (session_entries d s))"
    using assms(2) by (intro card_mono) (auto simp: path_to_def)
  also have "\<dots> \<le> length (session_entries d s)" by (rule card_length)
  finally show ?thesis .
qed

lemma pending_scan:
  assumes "forest_ok (ch_forest c)" "session_exists (ch_forest c) s"
    "length (session_entries (ch_forest c) s) \<le> max_walk + 1" "active_branch (ch_forest c) s = Ok bs"
  shows "pending c s = (case find is_marker (rev bs) of None \<Rightarrow> Ok None | Some e \<Rightarrow> pending_from_marker e)"
proof -
  let ?es = "session_entries (ch_forest c) s"
  have k: "keyed_entries (fd_entries (ch_forest c))" using assms(1) by (simp add: forest_ok_def)
  from active_Ok [OF assms(1,2)] assms(4) have b: "case raw_active_head_id (ch_forest c) s of
      None \<Rightarrow> bs = [] | Some i \<Rightarrow> path_to ?es i bs" by blast
  show ?thesis
  proof (cases "raw_active_head_id (ch_forest c) s")
    case None
    with b show ?thesis by (simp add: pending_def Let_def)
  next
    case (Some i)
    with b have p: "path_to ?es i bs" by simp
    then have l: "length bs \<le> max_walk + 1" using path_length [OF k p] assms(3) by simp
    have n: "nearest_marker ?es max_walk i = find is_marker (rev bs)"
      using nearest_on_path [OF keyed_session [OF k, of s], of bs max_walk] p l by (auto simp: path_to_def)
    have "find is_marker (rev bs) = None" if "\<not> list_ex (\<lambda>e. se_kind e \<in> set marker_kinds) ?es"
      using that p by (auto simp: find_None_iff list_ex_iff is_marker_def path_to_def subset_iff)
    with Some n show ?thesis by (auto simp: pending_def Let_def)
  qed
qed

text \<open>
  The walk of the recursive query finds what a scan of the loaded branch finds: the newest
  settlement marker of the active branch decides whether a compaction is pending.
\<close>
theorem pending_reads_the_branch:
  assumes "forest_step\<^sup>*\<^sup>* no_forest (ch_forest c)" "active_branch (ch_forest c) s = Ok bs"
    "length (session_entries (ch_forest c) s) \<le> max_walk"
  shows "pending c s = (case find (\<lambda>e. se_kind e \<in> set marker_kinds) (rev bs) of
      None \<Rightarrow> Ok None | Some e \<Rightarrow> pending_from_marker e)"
proof -
  have "session_exists (ch_forest c) s"
    using assms(2) by (auto simp: active_branch_def active_head_id_def ensure_session_def split: sum.splits if_splits)
  moreover have "is_marker = (\<lambda>e. se_kind e \<in> set marker_kinds)" by (simp add: fun_eq_iff is_marker_def)
  ultimately show ?thesis
    using pending_scan [OF steps_ok [OF assms(1) no_forest_ok] _ _ assms(2)] assms(3) by simp
qed

theorem pending_reads_the_branch_witness:
  "active_branch forest_two ''s'' = Ok [said ''u1'' None 1 ''user.message'' ''hi'' ''s'']
   \<and> pending \<lparr>ch_forest = forest_two, ch_events = []\<rparr> ''s'' = Ok None"
proof -
  let ?c = "\<lparr>ch_forest = forest_two, ch_events = []\<rparr>"
  have b: "active_branch (ch_forest ?c) ''s'' = Ok [said ''u1'' None 1 ''user.message'' ''hi'' ''s'']" by code_simp
  have "forest_step\<^sup>*\<^sup>* no_forest (ch_forest ?c)" using demo_two by simp
  from pending_reads_the_branch [OF this b] b show ?thesis
    by (simp add: said_def marker_kinds_def session_entries_def forest_two_def max_walk_def)
qed

end
