(* ===== verification/Compaction_Steps.thy ===== *)
theory Compaction_Steps
  imports Compaction
begin

text \<open>
  What a recorded checkpoint writes and how it is read back; the relation \<open>chat_step\<close> of everything
  that happens to a chat, appends and compactions alike, with its invariant; and what is pending
  after each operation.
\<close>

section \<open>What a recorded checkpoint writes\<close>

lemma in_transaction_fields:
  assumes "append_in_transaction st s k (JObj ob) d = Ok (e, d')"
  shows "append_to st s (raw_active_head_id d s) k (JObj ob) d = Ok (e, d')"
  by (rule in_transaction_to [OF assms])

lemma head_exists:
  assumes "append_to st s parent k p d = Ok (e, d')"
  shows "find_head d' s \<noteq> None"
proof -
  have "raw_active_head_id d' s = Some (se_id e)" using assms pointed unfolding append_to_Ok by auto
  then show ?thesis by (cases "find_head d' s") (auto simp: raw_active_head_id_def)
qed

lemma moved_boundary:
  assumes "find_head d s \<noteq> None"
  shows "raw_active_head_id (move_boundary s i k now d) s = Some i"
  using assms find_mapped [of "\<lambda>h. h\<lparr>sh_active := Some i, sh_checkpoint := Some k, sh_updated := now\<rparr>" s "fd_heads d"]
  by (auto simp: raw_active_head_id_def find_head_def move_boundary_def)

lemma move_boundary_ok:
  assumes "forest_ok d" "x \<in> set (fd_entries d)" "se_id x = i" "se_session x = s"
  shows "forest_ok (move_boundary s i k now d)"
proof -
  have "entry_ok (move_boundary s i k now d) = entry_ok d" "head_ok (move_boundary s i k now d) = head_ok d"
    by (simp_all add: fun_eq_iff entry_ok_def head_ok_def parent_ok_def move_boundary_def session_exists_def
        split: option.split)
  then show ?thesis using assms by (auto simp: forest_ok_def move_boundary_def list_all_iff head_ok_def)
qed

lemma retained_valid: "valid_entry (retained_entry st s i parent d)"
  by (simp add: retained_entry_def valid_entry_def validate_stored_entry_def min_semantic_schema_version_def
      semantic_schema_version_def obj_get_def typed_schema_marker_def typed_schema_version_def
      kind_from_storage_def typed_kinds_def validate_payload_def require_string_def has_text_def json_get_def
      repo_state_key_def) code_simp

lemma retained_fields [simp]:
  "se_id (retained_entry st s i parent d) = i" "se_session (retained_entry st s i parent d) = s"
  "se_parent (retained_entry st s i parent d) = Some parent"
  "se_sequence (retained_entry st s i parent d) = next_sequence d s"
  "se_kind (retained_entry st s i parent d) = ''branch.summary''"
  "se_visibility (retained_entry st s i parent d) = ''eligible''"
  by (simp_all add: retained_entry_def)

lemma recorded:
  assumes "record_checkpoint l sts s c p provenance evidence db = (Ok out, db')" "forest_ok (ch_forest db)"
    "active_branch (ch_forest db) s = Ok bs"
  obtains ck cp re d and st2 st3 :: stamp where "out = CheckpointCompleted (se_id ck) (se_id cp)"
    "active_branch (ch_forest db') s = Ok (bs @ [ck, cp, re])"
    "path_to (session_entries (ch_forest db') s) (se_id re) (bs @ [ck, cp, re])"
    "forest_ok (ch_forest db')" "session_exists (ch_forest db') s"
    "fd_entries (ch_forest db') = fd_entries (ch_forest db) @ [ck, cp, re]"
    "fd_sessions (ch_forest db') = fd_sessions (ch_forest db)"
    "se_kind ck = ''checkpoint''" "se_kind cp = ''compaction''"
    "se_payload cp = JObj (obj_insert repo_state_key (st_repo st2)
       (obj_insert typed_schema_marker (JPos typed_schema_version) (compaction_payload c p provenance)))"
    "re = retained_entry st3 s (cp_first_retained c) (se_id cp) d"
    "cp_first_retained c = pc_first_retained p" "cp_tokens_before c = pc_tokens_before p"
    "cp_reason c = compaction_reason_str (pc_reason p)" "prefix (ch_events db) (ch_events db')"
proof -
  obtain st1 st2 st3 where sts: "sts = (st1, st2, st3)" by (cases sts) auto
  let ?d = "ch_forest db"
  from assms(1) sts have meta: "cp_first_retained c = pc_first_retained p" "cp_tokens_before c = pc_tokens_before p"
      "cp_reason c = compaction_reason_str (pc_reason p)"
    by (simp_all add: record_checkpoint_def split: if_splits)
  with assms(1) sts obtain ck d1 where a1: "append_in_transaction st1 s CheckpointEntry
      (JObj (checkpoint_payload c p provenance)) ?d = Ok (ck, d1)"
    by (auto simp: record_checkpoint_def bridge_invalid_def split: sum.splits)
  with assms(1) sts meta obtain cp d2 where a2: "append_in_transaction st2 s CompactionEntry
      (JObj (compaction_payload c p provenance)) d1 = Ok (cp, d2)"
    by (auto simp: record_checkpoint_def bridge_invalid_def split: sum.splits)
  let ?re = "retained_entry st3 s (cp_first_retained c) (se_id cp) d2"
  from assms(1) sts meta a1 a2 obtain d3 where i3: "insert_entry (st_refusal st3) ?re d2 = Ok d3"
    and out: "out = CheckpointCompleted (se_id ck) (se_id cp)"
    and f': "ch_forest db' = move_boundary s (cp_first_retained c) (se_id ck) (st_now st3) d3"
    and evs: "prefix (ch_events db) (ch_events db')"
    by (auto simp: record_checkpoint_def bridge_invalid_def Let_def store_event_def split: sum.splits option.splits)
  note t1 = in_transaction_to [OF a1] and t2 = in_transaction_to [OF a2]
  note h1 = append_at_head [OF assms(2) t1 assms(3)]
  note h2 = append_at_head [OF h1(4) t2 h1(1)]
  note f1 = appended_fields [OF t1] appending(1,2,7) [OF t1]
  note f2 = appended_fields [OF t2] appending(1,2) [OF t2]
  have d3: "d3 = d2\<lparr>fd_entries := fd_entries d2 @ [?re]\<rparr>" using i3 by (simp add: insert_entry_Ok)
  have s2: "session_exists d2 s" using f1(7,8) f2(7) by (simp add: session_exists_def)
  have cpin: "cp \<in> set (fd_entries d2)" "se_session cp = s" using f2(3,6) by simp_all
  have "parent_ok d2 ?re" using cpin next_sequence_above [OF cpin(1), of s] by (auto simp: parent_ok_def)
  then have "entry_ok d2 ?re"
    using retained_valid s2 next_sequence_pos [OF h2(4)] by (simp add: entry_ok_def)
  with insert_ok [OF i3 h2(4)] have ok3: "forest_ok d3" .
  have ok': "forest_ok (ch_forest db')"
    unfolding f' by (rule move_boundary_ok [OF ok3, of ?re]) (simp_all add: d3)
  have ents: "fd_entries (ch_forest db') = fd_entries d2 @ [?re]"
    "fd_sessions (ch_forest db') = fd_sessions d2" by (simp_all add: f' d3 move_boundary_def)
  have s': "session_exists (ch_forest db') s" using s2 ents(2) by (simp add: session_exists_def)
  have path: "path_to (session_entries (ch_forest db') s) (se_id ?re) ((bs @ [ck, cp]) @ [?re])"
  proof -
    have "set (session_entries d2 s) \<subseteq> set (session_entries (ch_forest db') s)" using ents(1) by auto
    moreover have "?re \<in> set (session_entries (ch_forest db') s)" using ents(1) by simp
    moreover have "linked None ((bs @ [ck, cp]) @ [?re])"
      unfolding linked_snoc using h2(3) by (simp add: path_to_def)
    ultimately show ?thesis
      using h2(3) retained_valid by (simp add: path_to_def del: set_session_entries) blast
  qed
  have "find_head d3 s \<noteq> None" using head_exists [OF t2] by (simp add: d3 find_head_def)
  then have "raw_active_head_id (ch_forest db') s = Some (se_id ?re)"
    unfolding f' using moved_boundary by simp
  with active_Ok [OF ok' s'] path have act: "active_branch (ch_forest db') s = Ok (bs @ [ck, cp, ?re])" by simp
  have E: "fd_entries (ch_forest db') = fd_entries ?d @ [ck, cp, ?re]"
    "fd_sessions (ch_forest db') = fd_sessions ?d" using ents f1 f2 by simp_all
  have K: "se_kind ck = ''checkpoint''" "se_kind cp = ''compaction''" using f1(1) f2(1) by simp_all
  show thesis
    by (rule that [of ck cp ?re st2 st3 d2]) (use out act path ok' s' E K f2(4) meta evs in simp_all)
qed

section \<open>Reading the boundary back\<close>

lemma strip_stored:
  assumes "list_all (\<lambda>(k, v). \<not> reserved k) ob"
  shows "strip_markers (JObj (obj_insert repo_state_key r (obj_insert typed_schema_marker m ob))) = JObj ob"
proof -
  have ne: "repo_state_key \<noteq> typed_schema_marker" by (simp add: repo_state_key_def typed_schema_marker_def)
  have ins: "obj_insert k v xs = xs @ [(k, v)]" if "k \<notin> fst ` set xs" for k v xs
    using that by (induction k v xs rule: obj_insert.induct) auto
  have rem1: "swap_remove k (xs @ [(k, v)]) = xs" if "k \<notin> fst ` set xs" for k v xs
    using that by (induction k xs rule: swap_remove.induct) auto
  have rem2: "swap_remove k (xs @ [(k, v), y]) = xs @ [y]" if "k \<notin> fst ` set xs" for k v xs y
    using that by (induction k xs rule: swap_remove.induct) auto
  have n: "typed_schema_marker \<notin> fst ` set ob" "repo_state_key \<notin> fst ` set ob"
    using assms by (auto simp: list_all_iff reserved_def)
  show ?thesis using n ne by (simp add: strip_markers_def ins rem1 rem2)
qed

lemma read_all_strings: "read_all as_str (map JStr xs) = Some xs"
  by (induction xs) simp_all

lemma as_i64_small: "i \<le> i64_max \<Longrightarrow> as_i64 (json_int i) = Some i"
  by (simp add: json_int_def)

lemma stored_compaction:
  assumes "good_checkpoint c" "cp_tokens_before c \<le> i64_max" "cp_tokens_before c = pc_tokens_before p"
    "cp_reason c = compaction_reason_str (pc_reason p)" "trim (provenance_of c provenance) \<noteq> []"
  shows "stored_checkpoint (JObj (obj_insert repo_state_key r
      (obj_insert typed_schema_marker m (compaction_payload c p provenance))))
    = Some (c\<lparr>cp_provenance := Some (provenance_of c provenance)\<rparr>)"
proof -
  let ?c = "c\<lparr>cp_provenance := Some (provenance_of c provenance)\<rparr>"
  have s: "strip_markers (JObj (obj_insert repo_state_key r
      (obj_insert typed_schema_marker m (compaction_payload c p provenance)))) = JObj (compaction_payload c p provenance)"
    by (rule strip_stored)
       (simp add: compaction_payload_def reserved_def typed_schema_marker_def repo_state_key_def)
  have v: "cp_schema_version c = 1" using assms(1) by (simp add: good_checkpoint_def checkpoint_schema_version_def)
  have "read_checkpoint (JObj (compaction_payload c p provenance)) = Some ?c"
    using assms(2-4) v as_i64_small
    by (simp add: read_checkpoint_def struct_fields_def compaction_payload_def obj_keys_def checkpoint_fields_def
        read_u32_def obj_get_def get_str_def read_strings_def read_strings_default_def read_all_strings
        read_i64_def read_option_def u32_max_def)
  moreover have "checkpoint_validate ?c None = Ok ()"
    unfolding checkpoint_validate_Ok using assms(1,5) by (simp add: good_checkpoint_def)
  ultimately show ?thesis by (simp add: stored_checkpoint_def from_value_def Let_def s)
qed

section \<open>Projecting across a boundary\<close>

lemma find_map_append: "find_map f (xs @ ys) = (case find_map f xs of Some y \<Rightarrow> Some y | None \<Rightarrow> find_map f ys)"
  by (induction xs) (auto split: option.split)

lemma find_map_none: "list_all (\<lambda>x. f x = None) xs \<Longrightarrow> find_map f xs = None"
  by (induction xs) auto

lemma position_id:
  assumes "distinct (map se_id (xs @ y # ys))"
  shows "position (\<lambda>e. se_id e = se_id y) (xs @ y # ys) = Some (length xs)"
proof -
  have "se_id (xs ! i) \<noteq> se_id y" if "i < length xs" for i
  proof -
    have "se_id (xs ! i) \<in> se_id ` set xs" using nth_mem [OF that] by (rule imageI)
    with assms show ?thesis by auto
  qed
  then show ?thesis by (simp add: position_Some nth_append)
qed

lemma boundary_projects:
  assumes "forest_ok d" "path_to (session_entries d s) i (bs @ [b, re] @ xs)" "0 < window"
    "boundary_of b = Some (b, c)" "cp_first_retained c = se_id re" "boundary_of re = None"
    "list_all (\<lambda>x. boundary_of x = None) xs"
  obtains p r where "project l (bs @ [b, re] @ xs) window = Ok p"
    "pj_entries p = List.map_filter project_render_entry (re # xs)" "pj_restoration p = Some r"
    "rc_boundary r = se_id b" "rc_summary r = cp_summary c" "rc_files_touched r = cp_files_touched c"
    "set (cp_decisions c) \<subseteq> set (rc_decisions r)"
proof -
  let ?bs = "bs @ [b, re] @ xs"
  note c = path_canonical [OF assms(1,2)]
  have fm: "find_map boundary_of (rev ?bs) = Some (b, c)"
    using assms(4,6,7) find_map_none [of boundary_of "rev xs"] by (simp add: find_map_append)
  have pb: "position (\<lambda>e. se_id e = se_id b) ?bs = Some (length bs)"
    using position_id [of bs b "re # xs"] c(2) by simp
  have pr: "position (\<lambda>e. se_id e = cp_first_retained c) ?bs = Some (length bs + 1)"
    using position_id [of "bs @ [b]" re xs] c(2) assms(5) by simp
  have au: "set ds \<subseteq> set (append_unique ts ds)" for ts ds
  proof -
    have "set ts \<union> set ds \<subseteq> set (append_unique ts ds)" by (induction ts ds rule: append_unique.induct) auto
    then show ?thesis by blast
  qed
  have "retained_of ?bs = Ok (re # xs, Some \<lparr>rc_boundary = se_id b, rc_summary = cp_summary c,
      rc_decisions = append_unique (collect_durable_decisions ?bs) (cp_decisions c),
      rc_files_touched = cp_files_touched c, rc_source_agent = cp_source_agent c,
      rc_open_work = cp_open_work c, rc_provenance = cp_provenance c\<rparr>)"
    unfolding retained_of_def fm by (simp add: pb [simplified] pr [simplified])
  with project_path [OF assms(1-3), of l] that au show thesis by (simp add: Let_def)
qed

text \<open>The copies of a branch with a boundary retain an entry they do not have.\<close>

lemma fork_boundary:
  "find_map boundary_of (rev (fork_copies uuid s parent n es)) = None \<longleftrightarrow> find_map boundary_of (rev es) = None"
  "find_map boundary_of (rev es) = Some (b, c) \<Longrightarrow>
     \<exists>b'. find_map boundary_of (rev (fork_copies uuid s parent n es)) = Some (b', c) \<and> se_id b' \<in> uuid ` {n..<n + length es}"
proof -
  have copy: "boundary_of (fork_copy i s parent n e) = map_option (\<lambda>(_, c). (fork_copy i s parent n e, c)) (boundary_of e)"
    for i parent n e by (simp add: boundary_of_def fork_copy_def option.map_comp comp_def)
  show none: "find_map boundary_of (rev (fork_copies uuid s parent n es)) = None \<longleftrightarrow> find_map boundary_of (rev es) = None"
    for parent n es
  proof (induction es arbitrary: parent n)
    case (Cons e es)
    then show ?case
      using Cons.IH [of "Some (uuid n)" "Suc n"]
      by (cases "find_map boundary_of (rev es)"; cases "find_map boundary_of (rev (fork_copies uuid s (Some (uuid n)) (Suc n) es))")
         (simp_all add: find_map_append copy split: option.split)
  qed simp
  show "find_map boundary_of (rev es) = Some (b, c) \<Longrightarrow>
     \<exists>b'. find_map boundary_of (rev (fork_copies uuid s parent n es)) = Some (b', c) \<and> se_id b' \<in> uuid ` {n..<n + length es}"
  proof (induction es arbitrary: parent n)
    case (Cons e es)
    show ?case
    proof (cases "find_map boundary_of (rev es)")
      case (Some bc)
      with Cons.prems have "find_map boundary_of (rev es) = Some (b, c)" by (simp add: find_map_append)
      from Cons.IH [OF this, of "Some (uuid n)" "n + 1"] show ?thesis by (fastforce simp: find_map_append)
    next
      case None
      with none have n: "find_map boundary_of (rev (fork_copies uuid s (Some (uuid n)) (n + 1) es)) = None" by blast
      from None Cons.prems have "boundary_of e = Some (b, c)" by (simp add: find_map_append split: option.splits)
      with n show ?thesis by (auto simp: find_map_append copy)
    qed
  qed simp
qed

section \<open>The life of a chat\<close>

inductive chat_step :: "chat_db \<Rightarrow> chat_db \<Rightarrow> bool" where
  talked: "forest_step (ch_forest c) d \<Longrightarrow> chat_step c (c\<lparr>ch_forest := d\<rparr>)"
| begun: "begin_compaction st now retained cooldown s reason tokens background c = (r, c') \<Longrightarrow> chat_step c c'"
| answered: "handle_output l serde_error sts now s output c = (r', c') \<Longrightarrow> chat_step c c'"
| gave_up: "record_compaction_failure st now s why attempt c = (r'', c') \<Longrightarrow> chat_step c c'"
| noted: "chat_step c (store_event source kind entity body c)"
| reconstructed: "reconstruct l sts now retained s git_status reason c = (r', c') \<Longrightarrow> chat_step c c'"

definition no_chat :: chat_db where "no_chat = \<lparr>ch_forest = no_forest, ch_events = []\<rparr>"

definition grows_into :: "chat_db \<Rightarrow> chat_db \<Rightarrow> bool" where
  "grows_into c c' \<longleftrightarrow> forest_ok (ch_forest c) \<longrightarrow>
     forest_ok (ch_forest c') \<and> (\<exists>new. fd_entries (ch_forest c') = fd_entries (ch_forest c) @ new)
     \<and> (\<exists>new. fd_sessions (ch_forest c') = fd_sessions (ch_forest c) @ new)"

lemma grows_into_refl [simp]: "grows_into c c"
  by (simp add: grows_into_def)

lemma grows_into_log [simp]: "grows_into c (store_event a b i t c') = grows_into c c'"
  by (simp add: grows_into_def store_event_def)

lemma append_chat_evolves:
  assumes "append_chat st s k p c = (r, c')"
  shows "grows_into c c'"
proof (cases r)
  case (Inl x)
  with assms append_chat_Err show ?thesis by fastforce
next
  case (Inr e)
  with appending(1-3) [OF append_chat_Ok(1)] assms show ?thesis by (simp add: grows_into_def)
qed

lemma record_checkpoint_evolves:
  assumes "record_checkpoint l sts s c p provenance evidence db = (r, db')"
  shows "grows_into db db'"
proof (cases r)
  case (Inl x)
  with assms have "db' = db"
    by (auto simp: record_checkpoint_def Let_def split: prod.splits if_splits sum.splits)
  then show ?thesis by simp
next
  case (Inr out)
  have s: "session_exists (ch_forest db) s"
    using assms Inr in_transaction_to appending(7)
    by (fastforce simp: record_checkpoint_def Let_def split: prod.splits if_splits sum.splits)
  show ?thesis
    unfolding grows_into_def
  proof
    assume ok: "forest_ok (ch_forest db)"
    obtain bs where b: "active_branch (ch_forest db) s = Ok bs" by (rule active_reads [OF ok s])
    from recorded [OF _ ok b] assms Inr
    show "forest_ok (ch_forest db') \<and> (\<exists>new. fd_entries (ch_forest db') = fd_entries (ch_forest db) @ new)
        \<and> (\<exists>new. fd_sessions (ch_forest db') = fd_sessions (ch_forest db) @ new)" by (metis append_Nil2)
  qed
qed

lemma late_evolves: "record_late_checkpoint st s c p provenance db = (r, db') \<Longrightarrow> grows_into db db'"
  using append_chat_evolves by (fastforce simp: record_late_checkpoint_def split: prod.splits sum.splits)

lemma failure_evolves: "record_compaction_failure st now s why attempt db = (r, db') \<Longrightarrow> grows_into db db'"
  using append_chat_evolves by (fastforce simp: record_compaction_failure_def Let_def split: prod.splits sum.splits)

lemma repair_evolves: "request_repair st now s p error ev db = (r, db') \<Longrightarrow> grows_into db db'"
  using append_chat_evolves by (fastforce simp: request_repair_def Let_def split: prod.splits sum.splits)

lemma begin_evolves:
  "begin_compaction st now retained cooldown s reason tokens background c = (r, c') \<Longrightarrow> grows_into c c'"
  using append_chat_evolves
  by (fastforce simp: begin_compaction_def Let_def split: prod.splits sum.splits option.splits)

lemma handle_cases:
  assumes "handle_output l serde_error sts now s output c = (r, c')"
  obtains "c' = c" "case r of Inl _ \<Rightarrow> True | Inr out \<Rightarrow> out = CheckpointNotPending \<and> pending c s = Ok None"
  | p ev error prompt where "pending c s = Ok (Some p)" "collect_evidence c s (pc_background p) = Ok ev" "pc_attempt p = 0"
      "request_repair (fst sts) now s p (context_error_display error) ev c = (prompt, c')"
      "case prompt of Inl x \<Rightarrow> r = Err x | Inr t \<Rightarrow> r = Ok (CheckpointRepair t)"
      "parse_draft l serde_error output = Err error"
  | p error u where "pending c s = Ok (Some p)" "pc_attempt p \<noteq> 0"
      "record_compaction_failure (fst sts) now s (context_error_display error) (pc_attempt p) c = (u, c')"
      "case u of Inl x \<Rightarrow> r = Err x | Inr _ \<Rightarrow> r = Ok CheckpointFailed"
      "parse_draft l serde_error output = Err error"
  | p ev draft cp provenance where "pending c s = Ok (Some p)" "collect_evidence c s (pc_background p) = Ok ev"
      "parse_draft l serde_error output = Ok draft"
      "augment ev \<lparr>cp_schema_version = checkpoint_schema_version, cp_summary = cd_summary draft,
         cp_decisions = cd_decisions draft, cp_files_touched = cd_files_touched draft, cp_source_agent = s,
         cp_first_retained = pc_first_retained p, cp_tokens_before = pc_tokens_before p,
         cp_reason = compaction_reason_str (pc_reason p), cp_open_work = cd_open_work draft, cp_provenance = None\<rparr>
       = (cp, provenance)"
      "pc_background p \<and> conversation_appended_since_request c s = Ok True
         \<and> record_late_checkpoint (fst sts) s cp p provenance c = (r, c')
       \<or> (pc_background p \<longrightarrow> conversation_appended_since_request c s = Ok False)
         \<and> record_checkpoint l sts s cp p provenance (Some ev) c = (r, c')"
proof (cases "pending c s")
  case (Inl x)
  with assms that(1) show thesis by (auto simp: handle_output_def)
next
  case (Inr po)
  show thesis
  proof (cases po)
    case None
    with Inr assms that(1) show thesis by (auto simp: handle_output_def)
  next
    case (Some p)
    with Inr have p: "pending c s = Ok (Some p)" by simp
    show thesis
    proof (cases "collect_evidence c s (pc_background p)")
      case (Inl x)
      with p assms that(1) show thesis by (auto simp: handle_output_def)
    next
      case ev: (Inr ev)
      show thesis
      proof (cases "parse_draft l serde_error output")
        case (Inl error)
        show thesis
        proof (cases "pc_attempt p = 0")
          case True
          with assms p ev Inl show thesis
            by (intro that(2) [of p ev error "fst (request_repair (fst sts) now s p (context_error_display error) ev c)"])
               (auto simp: handle_output_def split: prod.splits sum.splits)
        next
          case False
          with assms p ev Inl show thesis
            by (intro that(3) [of p error "fst (record_compaction_failure (fst sts) now s (context_error_display error) (pc_attempt p) c)"])
               (auto simp: handle_output_def split: prod.splits sum.splits)
        qed
      next
        case (Inr draft)
        let ?c = "\<lparr>cp_schema_version = checkpoint_schema_version, cp_summary = cd_summary draft,
         cp_decisions = cd_decisions draft, cp_files_touched = cd_files_touched draft, cp_source_agent = s,
         cp_first_retained = pc_first_retained p, cp_tokens_before = pc_tokens_before p,
         cp_reason = compaction_reason_str (pc_reason p), cp_open_work = cd_open_work draft, cp_provenance = None\<rparr>"
        obtain cp provenance where a: "augment ev ?c = (cp, provenance)" by fastforce
        show thesis
        proof (cases "pc_background p \<and> (\<exists>x. conversation_appended_since_request c s = Err x)")
          case True
          with assms p ev Inr a that(1) show thesis by (auto simp: handle_output_def Let_def)
        next
          case False
          with assms p ev Inr a show thesis
            by (intro that(4) [OF p ev Inr a])
               (auto simp: handle_output_def Let_def split: if_splits sum.splits bool.splits)
        qed
      qed
    qed
  qed
qed

lemma handle_evolves:
  assumes "handle_output l serde_error sts now s output c = (r, c')"
  shows "grows_into c c'"
proof (rule handle_cases [OF assms])
  assume "c' = c"
  then show ?thesis by simp
qed (blast dest: repair_evolves failure_evolves late_evolves record_checkpoint_evolves)+

lemma reconstruct_evolves:
  assumes "reconstruct l sts now retained s git_status reason c = (r, c')"
  shows "grows_into c c'"
proof -
  have rr: "grows_into c c1" if "record_reconstructed l sts now retained s summary decisions files reason c = (r1, c1)"
    for summary decisions files r1 c1
    using that record_checkpoint_evolves
    by (fastforce simp: record_reconstructed_def Let_def split: sum.splits)
  show ?thesis
  proof (cases "bridge_invalid (active_branch (ch_forest c) s)")
    case (Inl x)
    with assms show ?thesis by (simp add: reconstruct_def)
  next
    case (Inr branch)
    obtain facts decisions where g: "gather_facts (rev branch) [] [] = (facts, decisions)" by fastforce
    let ?r = "record_reconstructed l sts now retained s
       (if rev facts = [] then ''Recovered checkpoint from immutable normalized events and current Git facts''
        else ''Recovered from normalized events: '' @ join '' | '' (rev facts)) decisions
       (List.map_filter status_path (str_lines git_status)) reason c"
    obtain r1 c1 where r1: "?r = (r1, c1)" by fastforce
    with assms Inr g have "c' = c1 \<or> (\<exists>a b i t. c' = store_event a b i t c1)"
      by (auto simp: reconstruct_def Let_def split: sum.splits)
    with rr [OF r1] show ?thesis by auto
  qed
qed

lemma step_evolves: "chat_step c c' \<Longrightarrow> grows_into c c'"
proof (induction rule: chat_step.induct)
  case (talked c d)
  with step_facts show ?case by (auto simp: grows_into_def)
qed (simp | erule begin_evolves handle_evolves failure_evolves reconstruct_evolves)+

lemma chat_evolves: "chat_step\<^sup>*\<^sup>* c c' \<Longrightarrow> grows_into c c'"
proof (induction rule: rtranclp_induct)
  case (step a b)
  with step_evolves [of a b] show ?case by (auto simp: grows_into_def)
qed simp

lemma chat_ok: "chat_step\<^sup>*\<^sup>* no_chat c \<Longrightarrow> forest_ok (ch_forest c)"
  using chat_evolves no_forest_ok by (fastforce simp: grows_into_def no_chat_def)

lemma active_exists: "active_branch d s = Ok bs \<Longrightarrow> session_exists d s"
  by (auto simp: active_branch_def active_head_id_def ensure_session_def split: sum.splits if_splits)

section \<open>What is pending after an operation\<close>

lemma reserved_both:
  "f \<noteq> [] \<and> hd f \<noteq> CHR ''_'' \<Longrightarrow>
   json_get (JObj (obj_insert repo_state_key v (obj_insert typed_schema_marker m ob))) f = json_get (JObj ob) f"
  using reserved_get [of repo_state_key f v] reserved_get [of typed_schema_marker f m ob]
  by (simp add: reserved_def)

lemma reason_round_trip: "reason_parse (compaction_reason_str r) = Some r"
  by (cases r) (simp_all add: reason_parse_def)

lemma request_fields [simp]:
  "json_get (JObj (request_payload s p)) ''reason'' = Some (JStr (compaction_reason_str (pc_reason p)))"
  "json_get (JObj (request_payload s p)) ''attempt'' = Some (JPos (pc_attempt p))"
  "json_get (JObj (request_payload s p)) ''tokensBefore'' = Some (json_int (pc_tokens_before p))"
  "json_get (JObj (request_payload s p)) ''requestedAt'' = Some (JStr (pc_requested_at p))"
  "json_get (JObj (request_payload s p)) ''firstRetainedEntryId'' = Some (JStr (pc_first_retained p))"
  "json_get (JObj (request_payload s p)) ''background'' = Some (JBool (pc_background p))"
  by (simp_all add: request_payload_def json_get_def obj_get_def)

lemma request_reads_back:
  assumes "se_kind e = ''compaction.requested''" "pc_attempt p < 256" "pc_tokens_before p \<le> i64_max"
    "se_payload e = JObj (obj_insert repo_state_key v
       (obj_insert typed_schema_marker m (request_payload s p @ extra)))"
    "list_all (\<lambda>(k, _). k = ''repairOf'') extra"
  shows "pending_from_marker e = Ok (Some p)"
proof -
  have g: "json_get (JObj (request_payload s p @ extra)) f = json_get (JObj (request_payload s p)) f"
    if "f \<noteq> ''repairOf''" for f
  proof -
    have "map_of extra f = None" using assms(5) that by (auto simp: map_of_eq_None_iff list_all_iff)
    then show ?thesis by (simp add: json_get_def obj_get_def map_add_def split: option.split)
  qed
  show ?thesis
    unfolding pending_from_marker_def assms(4) Let_def
    using assms(1-3) as_i64_small [of "pc_tokens_before p"]
    by (simp add: reserved_both g reason_round_trip)
qed

lemma pending_after_append:
  assumes "forest_ok (ch_forest c)" "append_chat st s k (JObj ob) c = (Ok e, c')"
    "length (session_entries (ch_forest c') s) \<le> max_walk" "is_marker e"
  shows "pending c' s = pending_from_marker e"
proof -
  note a = append_chat_Ok(1) [OF assms(2)]
  obtain bs where b: "active_branch (ch_forest c) s = Ok bs"
    by (rule active_reads [OF assms(1) appending(7) [OF a]])
  note h = append_at_head [OF assms(1) a b]
  have "pending c' s = (case find is_marker (rev (bs @ [e])) of None \<Rightarrow> Ok None | Some e \<Rightarrow> pending_from_marker e)"
    using assms(3) by (intro pending_scan h(1,4) active_exists [OF h(1)]) simp
  with assms(4) show ?thesis by simp
qed

lemma pending_log [simp]: "pending (store_event a b i t c) s = pending c s"
  by (simp add: pending_def store_event_def cong: if_cong)

lemma no_request: "se_kind e \<noteq> ''compaction.requested'' \<Longrightarrow> pending_from_marker e = Ok None"
  by (simp add: pending_from_marker_def)

lemma pending_after_checkpoint:
  assumes "forest_ok (ch_forest c)" "record_checkpoint l sts s cp p provenance evidence c = (Ok out, c')"
    "length (session_entries (ch_forest c') s) \<le> max_walk"
  shows "pending c' s = Ok None \<and> (\<exists>a b. out = CheckpointCompleted a b)"
proof -
  have "session_exists (ch_forest c) s"
    using assms(2) in_transaction_to appending(7)
    by (fastforce simp: record_checkpoint_def Let_def split: prod.splits if_splits sum.splits)
  then obtain bs where b: "active_branch (ch_forest c) s = Ok bs" by (rule active_reads [OF assms(1)])
  from recorded [OF assms(2,1) b] obtain ck b' re st3 d where out: "out = CheckpointCompleted (se_id ck) (se_id b')"
    and act: "active_branch (ch_forest c') s = Ok (bs @ [ck, b', re])" and ok: "forest_ok (ch_forest c')"
    and k: "se_kind b' = ''compaction''" and re: "re = retained_entry st3 s (cp_first_retained cp) (se_id b') d"
    by metis
  have "pending c' s = (case find is_marker (rev (bs @ [ck, b', re])) of None \<Rightarrow> Ok None | Some e \<Rightarrow> pending_from_marker e)"
    using assms(3) by (intro pending_scan ok act active_exists [OF act]) simp
  moreover have "\<not> is_marker re" "is_marker b'" using k re by (simp_all add: is_marker_def marker_kinds_def)
  ultimately show ?thesis using out k no_request by simp
qed

lemma pending_after_failure:
  assumes "forest_ok (ch_forest c)" "record_compaction_failure st now s why attempt c = (Ok u, c')"
    "length (session_entries (ch_forest c') s) \<le> max_walk"
  shows "pending c' s = Ok None"
proof -
  from assms(2) obtain po ob e c1 where ap: "append_chat st s CompactionFailed (JObj ob) c = (Ok e, c1)"
    and c': "c' = store_event ''compaction'' ''compaction.failed'' s why c1"
    by (auto simp: record_compaction_failure_def Let_def split: sum.splits prod.splits)
  have k: "se_kind e = ''compaction.failed''" using appended_fields(1) [OF append_chat_Ok(1) [OF ap]] by simp
  have "pending c1 s = pending_from_marker e"
    using assms(3) k c'
    by (intro pending_after_append [OF assms(1) ap]) (simp_all add: store_event_def is_marker_def marker_kinds_def)
  with k c' no_request show ?thesis by simp
qed

lemma pending_after_late:
  assumes "forest_ok (ch_forest c)" "record_late_checkpoint st s cp p provenance c = (Ok out, c')"
    "length (session_entries (ch_forest c') s) \<le> max_walk"
  shows "pending c' s = Ok None \<and> (\<exists>a. out = LateCheckpoint a)"
proof -
  from assms(2) obtain ob e c1 t where ap: "append_chat st s CheckpointEntry (JObj ob) c = (Ok e, c1)"
    and c': "c' = store_event ''compaction'' ''checkpoint.landed_late'' s t c1" and out: "out = LateCheckpoint (se_id e)"
    by (auto simp: record_late_checkpoint_def Let_def split: sum.splits prod.splits)
  have k: "se_kind e = ''checkpoint''" using appended_fields(1) [OF append_chat_Ok(1) [OF ap]] by simp
  have "pending c1 s = pending_from_marker e"
    using assms(3) k c'
    by (intro pending_after_append [OF assms(1) ap]) (simp_all add: store_event_def is_marker_def marker_kinds_def)
  with k c' out no_request show ?thesis by simp
qed

lemma pending_after_repair:
  assumes "forest_ok (ch_forest c)" "request_repair st now s p error ev c = (Ok t, c')"
    "length (session_entries (ch_forest c') s) \<le> max_walk" "pc_tokens_before p \<le> i64_max"
  shows "pending c' s = Ok (Some (p\<lparr>pc_attempt := 1, pc_requested_at := now\<rparr>))"
proof -
  let ?p = "p\<lparr>pc_attempt := 1, pc_requested_at := now\<rparr>"
  from assms(2) obtain e where ap: "append_chat st s CompactionRequested
      (JObj (request_payload s ?p @ [(''repairOf'', JStr error)])) c = (Ok e, c')"
    by (auto simp: request_repair_def Let_def split: sum.splits prod.splits)
  note f = appended_fields [OF append_chat_Ok(1) [OF ap]]
  have "pending_from_marker e = Ok (Some ?p)"
    by (rule request_reads_back [OF _ _ _ f(4)]) (use f(1) assms(4) in simp_all)
  with pending_after_append [OF assms(1) ap assms(3)] f(1) show ?thesis
    by (simp add: is_marker_def marker_kinds_def)
qed

text \<open>
  What a compaction asks for is what is read back: a request that was started is pending, with
  the identifier it reserved, until it is answered; and while it is, nothing else is started.
\<close>
theorem request_is_read_back:
  assumes "chat_step\<^sup>*\<^sup>* no_chat c" "begin_compaction st now retained cooldown s reason tokens background c = (r, c')"
    "tokens \<le> i64_max" "length (session_entries (ch_forest c') s) \<le> max_walk"
  shows "(case r of
      Inr (CompactReady t) \<Rightarrow> pending c s = Ok None \<and> cooldown = None
        \<and> pending c' s = Ok (Some \<lparr>pc_reason = reason, pc_attempt = 0, pc_tokens_before = max tokens 0,
            pc_requested_at = now, pc_first_retained = retained, pc_background = background\<rparr>)
    | Inr AlreadyPending \<Rightarrow> c' = c \<and> (\<exists>p. pending c s = Ok (Some p))
    | Inr (ProviderLimited h u) \<Rightarrow> ch_forest c' = ch_forest c \<and> cooldown = Some (h, u)
    | Inl x \<Rightarrow> True)"
proof (cases "pending c s")
  case (Inl x)
  with assms(2) show ?thesis by (auto simp: begin_compaction_def)
next
  case (Inr po)
  show ?thesis
  proof (cases "po = None \<and> cooldown = None")
    case False
    with Inr assms(2) show ?thesis
      by (cases po; cases cooldown) (auto simp: begin_compaction_def store_event_def)
  next
    case True
    let ?p = "\<lparr>pc_reason = reason, pc_attempt = 0, pc_tokens_before = max tokens 0,
            pc_requested_at = now, pc_first_retained = retained, pc_background = background\<rparr>"
    obtain re c1 where ap: "append_chat st s CompactionRequested (JObj (request_payload s ?p)) c = (re, c1)" by fastforce
    show ?thesis
    proof (cases re)
      case (Inl x)
      with True Inr assms(2) ap show ?thesis by (auto simp: begin_compaction_def Let_def)
    next
      case e: (Inr e)
      with True Inr assms(2) ap have c': "c' = c1" and r: "\<exists>x t. r = Err x \<or> r = Ok (CompactReady t)"
        by (auto simp: begin_compaction_def Let_def split: sum.splits)
      note f = appended_fields [OF append_chat_Ok(1) [OF ap [unfolded e]]]
      have "pending_from_marker e = Ok (Some ?p)"
        by (rule request_reads_back [where extra = "[]"]) (use f assms(3) i64_bounds in simp_all)
      moreover have "pending c1 s = pending_from_marker e"
        using assms(4) c' f(1)
        by (intro pending_after_append [OF chat_ok [OF assms(1)] ap [unfolded e]])
           (simp_all add: is_marker_def marker_kinds_def)
      ultimately show ?thesis using r c' True Inr by auto
    qed
  qed
qed

text \<open>
  C25. A compaction is settled by the second reply at the latest. Of a reply that is handled without an
  error: when it cannot be read it is asked for again if it was the first, now pending as the second,
  and fails the compaction if it was not; when it can be read it completes the compaction or lands late;
  and but for the one repair nothing is left pending. The token count is in an \<open>i64\<close>, and the session
  has no more entries than a walk of its branch visits.
\<close>
theorem second_reply_settles:
  assumes "chat_step\<^sup>*\<^sup>* no_chat c" "pending c s = Ok (Some p)" "pc_tokens_before p \<le> i64_max"
    "handle_output l serde_error sts now s output c = (Ok out, c')"
    "length (session_entries (ch_forest c') s) \<le> max_walk"
  shows "(case parse_draft l serde_error output of
      Inl _ \<Rightarrow>
        if pc_attempt p = 0
        then (\<exists>t. out = CheckpointRepair t)
          \<and> pending c' s = Ok (Some (p\<lparr>pc_attempt := 1, pc_requested_at := now\<rparr>))
        else out = CheckpointFailed \<and> pending c' s = Ok None
    | Inr _ \<Rightarrow>
        ((\<exists>a. out = LateCheckpoint a) \<or> (\<exists>a b. out = CheckpointCompleted a b)) \<and> pending c' s = Ok None)"
proof -
  have ok: "forest_ok (ch_forest c)" by (rule chat_ok [OF assms(1)])
  show ?thesis
  proof (rule handle_cases [OF assms(4)], goal_cases)
    case 1
    with assms(2) show ?case by simp
  next
    case (2 q ev error prompt)
    then obtain t where "prompt = Ok t" "out = CheckpointRepair t" by (cases prompt) auto
    with 2 assms(2,3,5) pending_after_repair [OF ok] show ?case by auto
  next
    case (3 q error u)
    then have "\<exists>v. u = Ok v" "out = CheckpointFailed" by (cases u; simp)+
    with 3 assms(2) pending_after_failure [OF ok] assms(5) show ?case by auto
  next
    case (4 q ev draft cp provenance)
    from 4(5) have "pending c' s = Ok None \<and> ((\<exists>a. out = LateCheckpoint a) \<or> (\<exists>a b. out = CheckpointCompleted a b))"
      using pending_after_late [OF ok _ assms(5)] pending_after_checkpoint [OF ok _ assms(5)] by blast
    with 4(3) show ?case by auto
  qed
qed

end
