(* ===== verification/Compaction_Outcomes.thy ===== *)
theory Compaction_Outcomes
  imports Compaction_Steps
begin

text \<open>
  What a reply leaves behind: the evidence it is completed with, the projection of a compacted chat,
  a summary that comes late, and the fork of a compacted chat; then a chat that is compacted, evaluated.
\<close>

section \<open>What a reply is held against\<close>

definition good_evidence :: "checkpoint_evidence \<Rightarrow> bool" where
  "good_evidence ev \<longleftrightarrow> distinct (ev_decisions ev) \<and> distinct (ev_files ev)
     \<and> list_all (\<lambda>v. trim v \<noteq> []) (ev_decisions ev @ ev_files ev)"

lemma insort_insert_facts:
  "distinct (insort_insert x xs) = distinct xs" "set (insort_insert x xs) = insert x (set xs)"
  by (auto simp: insort_insert_key_def distinct_insort set_insort_key)

lemma collected:
  "distinct (collect_strings p f ts) = distinct ts"
  "set (collect_strings p f ts) = set ts \<union> set (payload_strings p f)"
proof -
  have "distinct (fold insort_insert vs ts) = distinct ts \<and> set (fold insort_insert vs ts) = set ts \<union> set vs" for vs
    by (induction vs arbitrary: ts) (auto simp: insort_insert_facts)
  then show "distinct (collect_strings p f ts) = distinct ts"
    "set (collect_strings p f ts) = set ts \<union> set (payload_strings p f)" by (simp_all add: collect_strings_def)
qed

lemma trimmed_text_some: "trimmed_text v = Some t \<Longrightarrow> trim t \<noteq> []"
  by (auto simp: trimmed_text_def split: option.splits if_splits)

lemma payload_strings_some: "v \<in> set (payload_strings p f) \<Longrightarrow> trim v \<noteq> []"
  by (auto simp: payload_strings_def List.map_filter_def dest: trimmed_text_some split: option.splits)

lemma entry_evidence_good:
  assumes "good_evidence ev"
  shows "good_evidence (entry_evidence e ev)"
proof -
  have d: "good_evidence (ev\<lparr>ev_decisions := collect_strings p f (ev_decisions ev)\<rparr>)" if "good_evidence ev" for ev p f
    using that payload_strings_some by (auto simp: good_evidence_def collected list_all_iff)
  have g: "good_evidence (ev\<lparr>ev_files := collect_strings p f (ev_files ev)\<rparr>)" if "good_evidence ev" for ev p f
    using that payload_strings_some by (auto simp: good_evidence_def collected list_all_iff)
  have i: "good_evidence (ev\<lparr>ev_files := insort_insert t (ev_files ev)\<rparr>)" if "good_evidence ev" "trim t \<noteq> []" for ev t
    using that by (auto simp: good_evidence_def insort_insert_facts list_all_iff)
  have dg: "good_evidence (ev\<lparr>ev_decisions := collect_strings q h (ev_decisions ev),
      ev_files := collect_strings p f (ev_files ev)\<rparr>)" for p f q h
    using g [OF d [OF assms]] by simp
  show ?thesis
    using assms d dg i trimmed_text_some by (simp add: entry_evidence_def Let_def split: option.split)
qed

lemma collected_good:
  assumes "collect_evidence c s stop = Ok ev"
  shows "good_evidence ev"
proof -
  have "good_evidence (fold entry_evidence es ev)" if "good_evidence ev" for es ev
    using that by (induction es arbitrary: ev) (simp_all add: entry_evidence_good)
  then show ?thesis
    using assms by (auto simp: collect_evidence_def evidence_of_def Let_def good_evidence_def split: sum.splits)
qed

lemma draft_checked:
  assumes "parse_draft l serde_error t = Ok draft"
  shows "trim (cd_summary draft) \<noteq> []" "\<exists>ds. cd_decisions draft = deduplicate ds"
    "\<exists>fs. cd_files_touched draft = deduplicate fs" "\<exists>os. cd_open_work draft = deduplicate os"
  using assms by (auto simp: parse_draft_def Let_def require_text_def split: option.splits sum.splits if_splits)

lemma augment_good:
  assumes "good_evidence ev" "good_checkpoint c" "cp_decisions c = deduplicate ds" "cp_files_touched c = deduplicate fs"
    "augment ev c = (cp, provenance)"
  shows "good_checkpoint cp" "trim (provenance_of cp provenance) = [] \<Longrightarrow> cp_provenance c \<noteq> None"
    "set (cp_decisions cp) = set (cp_decisions c) \<union> set (ev_decisions ev)"
    "set (cp_files_touched cp) = set (cp_files_touched c) \<union> set (ev_files ev)"
    "cp_summary cp = cp_summary c" "cp_first_retained cp = cp_first_retained c"
    "cp_tokens_before cp = cp_tokens_before c" "cp_reason cp = cp_reason c" "cp_provenance cp = cp_provenance c"
proof -
  have t: "trim ` set (deduplicate vs) = set (deduplicate vs)" for vs
    by (force simp: deduplicate_trimmed)
  have m: "set (missing_from required (deduplicate vs)) = set required - set (deduplicate vs)" for required vs
    by (auto simp: missing_from_def t)
  have md: "distinct required \<Longrightarrow> distinct (missing_from required present)" for required present
    by (simp add: missing_from_def)
  have g: "list_all (\<lambda>v. trim v \<noteq> []) (missing_from (ev_decisions ev) vs)"
    "list_all (\<lambda>v. trim v \<noteq> []) (missing_from (ev_files ev) vs)" for vs
    using assms(1) by (auto simp: good_evidence_def missing_from_def list_all_iff)
  have agent: "trim ''agent'' \<noteq> []" "trim ''agent+controller'' \<noteq> []" by code_simp+
  have e: "distinct (ev_decisions ev)" "distinct (ev_files ev)" using assms(1) by (simp_all add: good_evidence_def)
  let ?ds = "missing_from (ev_decisions ev) (cp_decisions c)" and ?fs = "missing_from (ev_files ev) (cp_files_touched c)"
  have sd: "set ?ds = set (ev_decisions ev) - set (cp_decisions c)"
    and sf: "set ?fs = set (ev_files ev) - set (cp_files_touched c)" by (simp_all add: assms(3,4) m)
  have cp: "cp = c\<lparr>cp_decisions := cp_decisions c @ ?ds, cp_files_touched := cp_files_touched c @ ?fs\<rparr>"
    and pr: "provenance = ''agent'' \<or> provenance = ''agent+controller''"
    using assms(5) by (auto simp: augment_def Let_def split: if_splits)
  show "set (cp_decisions cp) = set (cp_decisions c) \<union> set (ev_decisions ev)"
    "set (cp_files_touched cp) = set (cp_files_touched c) \<union> set (ev_files ev)"
    "cp_summary cp = cp_summary c" "cp_first_retained cp = cp_first_retained c"
    "cp_tokens_before cp = cp_tokens_before c" "cp_reason cp = cp_reason c" "cp_provenance cp = cp_provenance c"
    by (auto simp: cp sd sf)
  show "good_checkpoint cp"
    using assms(2) g md [OF e(1)] md [OF e(2)] sd sf by (auto simp: good_checkpoint_def cp)
  show "trim (provenance_of cp provenance) = [] \<Longrightarrow> cp_provenance c \<noteq> None"
    using pr agent by (auto simp: provenance_of_def cp split: option.splits)
qed

section \<open>A compacted chat\<close>

lemma reason_nonempty: "trim (compaction_reason_str r) \<noteq> []"
  by (cases r; simp; code_simp)

definition drafted :: "string \<Rightarrow> pending_compaction \<Rightarrow> checkpoint_draft \<Rightarrow> checkpoint" where
  "drafted s p draft =
     \<lparr>cp_schema_version = checkpoint_schema_version, cp_summary = cd_summary draft,
      cp_decisions = cd_decisions draft, cp_files_touched = cd_files_touched draft, cp_source_agent = s,
      cp_first_retained = pc_first_retained p, cp_tokens_before = pc_tokens_before p,
      cp_reason = compaction_reason_str (pc_reason p), cp_open_work = cd_open_work draft, cp_provenance = None\<rparr>"

lemma drafted_good:
  assumes "parse_draft l serde_error t = Ok draft" "0 \<le> pc_tokens_before p" "trim s \<noteq> []"
    "trim (pc_first_retained p) \<noteq> []"
  shows "good_checkpoint (drafted s p draft)"
proof -
  have "distinct (deduplicate vs) \<and> list_all (\<lambda>v. trim v \<noteq> []) (deduplicate vs)" for vs
    using deduplicate_trimmed by (auto simp: deduplicate_spec(1) list_all_iff)
  with draft_checked [OF assms(1)] assms(2-4) reason_nonempty show ?thesis
    by (auto simp: good_checkpoint_def drafted_def)
qed

lemma boundary_carried:
  assumes "forest_ok (ch_forest c)" "record_checkpoint l sts s cp p provenance evidence c = (Ok out, c')"
    "good_checkpoint cp" "cp_tokens_before cp \<le> i64_max" "trim (provenance_of cp provenance) \<noteq> []" "0 < window"
  obtains a b bs pj r where "out = CheckpointCompleted a b" "active_branch (ch_forest c') s = Ok bs"
    "project l bs window = Ok pj" "map se_kind (pj_entries pj) = [''branch.summary'']" "pj_restoration pj = Some r"
    "rc_boundary r = b" "rc_summary r = cp_summary cp" "set (cp_decisions cp) \<subseteq> set (rc_decisions r)"
    "rc_files_touched r = cp_files_touched cp"
proof -
  have "session_exists (ch_forest c) s"
    using assms(2) in_transaction_to appending(7)
    by (fastforce simp: record_checkpoint_def Let_def split: prod.splits if_splits sum.splits)
  then obtain bs where b: "active_branch (ch_forest c) s = Ok bs" by (rule active_reads [OF assms(1)])
  obtain ck b' re d and st2 st3 :: stamp where out: "out = CheckpointCompleted (se_id ck) (se_id b')"
    and act: "active_branch (ch_forest c') s = Ok (bs @ [ck, b', re])"
    and path: "path_to (session_entries (ch_forest c') s) (se_id re) (bs @ [ck, b', re])"
    and ok: "forest_ok (ch_forest c')" and "session_exists (ch_forest c') s"
    and "fd_entries (ch_forest c') = fd_entries (ch_forest c) @ [ck, b', re]"
    and "fd_sessions (ch_forest c') = fd_sessions (ch_forest c)"
    and "se_kind ck = ''checkpoint''" and k: "se_kind b' = ''compaction''"
    and pl: "se_payload b' = JObj (obj_insert repo_state_key (st_repo st2)
       (obj_insert typed_schema_marker (JPos typed_schema_version) (compaction_payload cp p provenance)))"
    and re: "re = retained_entry st3 s (cp_first_retained cp) (se_id b') d"
    and "cp_first_retained cp = pc_first_retained p"
    and meta: "cp_tokens_before cp = pc_tokens_before p" "cp_reason cp = compaction_reason_str (pc_reason p)"
    and "prefix (ch_events c) (ch_events c')"
    by (rule recorded [OF assms(2,1) b])
  let ?cp = "cp\<lparr>cp_provenance := Some (provenance_of cp provenance)\<rparr>"
  have bo: "boundary_of b' = Some (b', ?cp)"
    using stored_compaction [OF assms(3,4) meta assms(5)] k pl by (simp add: boundary_of_def)
  have rk: "se_kind re = ''branch.summary''" "se_id re = cp_first_retained cp" "se_visibility re = ''eligible''"
    by (simp_all add: re)
  then have "boundary_of re = None" by (simp add: boundary_of_def)
  moreover have "path_to (session_entries (ch_forest c') s) (se_id re) ((bs @ [ck]) @ [b', re] @ [])" using path by simp
  ultimately obtain pj r where pj: "project l ((bs @ [ck]) @ [b', re] @ []) window = Ok pj"
    and e: "pj_entries pj = List.map_filter project_render_entry (re # [])"
    and r: "pj_restoration pj = Some r" "rc_boundary r = se_id b'" "rc_summary r = cp_summary ?cp"
      "rc_files_touched r = cp_files_touched ?cp" "set (cp_decisions ?cp) \<subseteq> set (rc_decisions r)"
    using boundary_projects [OF ok _ assms(6) bo, of s "se_id re" "bs @ [ck]" re "[]" l] rk(2) by auto
  have "map se_kind (pj_entries pj) = [''branch.summary'']"
    using rk unfolding e by (simp add: List.map_filter_def project_render_entry_def bookkeeping_kinds_def split: json.split)
  with out act pj r show thesis by (intro that [of "se_id ck" "se_id b'" "bs @ [ck, b', re]" pj r]) simp_all
qed

lemma compaction_carried:
  assumes "chat_step\<^sup>*\<^sup>* no_chat c" "pending c s = Ok (Some p)" "0 \<le> pc_tokens_before p" "pc_tokens_before p \<le> i64_max"
    "trim s \<noteq> []" "trim (pc_first_retained p) \<noteq> []" "0 < window"
    "handle_output l serde_error sts now s output c = (Ok (CheckpointCompleted a b), c')"
  shows "\<exists>bs pj r draft ev. active_branch (ch_forest c') s = Ok bs \<and> project l bs window = Ok pj
    \<and> map se_kind (pj_entries pj) = [''branch.summary''] \<and> pj_restoration pj = Some r \<and> rc_boundary r = b
    \<and> parse_draft l serde_error output = Ok draft \<and> rc_summary r = cd_summary draft
    \<and> collect_evidence c s (pc_background p) = Ok ev
    \<and> set (cd_decisions draft) \<union> set (ev_decisions ev) \<subseteq> set (rc_decisions r)
    \<and> set (rc_files_touched r) = set (cd_files_touched draft) \<union> set (ev_files ev)"
proof -
  have ok: "forest_ok (ch_forest c)" by (rule chat_ok [OF assms(1)])
  show ?thesis
  proof (rule handle_cases [OF assms(8)], goal_cases)
    case 1
    with assms(2) show ?case by simp
  next
    case (2 q ev error prompt)
    then show ?case by (auto split: sum.splits)
  next
    case (3 q error u)
    then show ?case by (auto split: sum.splits)
  next
    case (4 q ev draft cp provenance)
    from 4(1) assms(2) have q: "q = p" by simp
    have a: "augment ev (drafted s p draft) = (cp, provenance)" using 4(4) by (simp add: drafted_def q)
    from draft_checked [OF 4(3)] obtain ds fs where dd: "cp_decisions (drafted s p draft) = deduplicate ds"
      "cp_files_touched (drafted s p draft) = deduplicate fs" by (auto simp: drafted_def)
    note g = augment_good [OF collected_good [OF 4(2)] drafted_good [OF 4(3) assms(3,5,6)] dd a]
    have pr: "trim (provenance_of cp provenance) \<noteq> []" using g(2) by (auto simp: drafted_def)
    have tk: "cp_tokens_before cp \<le> i64_max" using g(7) assms(4) by (simp add: drafted_def)
    have "\<not> record_late_checkpoint (fst sts) s cp q provenance c = (Ok (CheckpointCompleted a b), c')"
      by (auto simp: record_late_checkpoint_def split: prod.splits sum.splits)
    with 4(5) have "record_checkpoint l sts s cp q provenance (Some ev) c = (Ok (CheckpointCompleted a b), c')"
      by blast
    from boundary_carried [OF ok this g(1) tk pr assms(7)] obtain bs pj r where
      "active_branch (ch_forest c') s = Ok bs" "project l bs window = Ok pj"
      "map se_kind (pj_entries pj) = [''branch.summary'']" "pj_restoration pj = Some r" "rc_boundary r = b"
      "rc_summary r = cp_summary cp" "set (cp_decisions cp) \<subseteq> set (rc_decisions r)"
      "rc_files_touched r = cp_files_touched cp" by (metis checkpoint_outcome.inject(1))
    moreover have "collect_evidence c s (pc_background p) = Ok ev" using 4(2) q by simp
    moreover have "cp_summary cp = cd_summary draft" "set (cp_decisions cp) = set (cd_decisions draft) \<union> set (ev_decisions ev)"
      "set (cp_files_touched cp) = set (cd_files_touched draft) \<union> set (ev_files ev)"
      using g(3-5) by (simp_all add: drafted_def)
    ultimately show ?case
      using 4(3) by (intro exI [of _ bs] exI [of _ pj] exI [of _ r] exI [of _ draft] exI [of _ ev]) simp
  qed
qed

text \<open>
  C21. A compaction that completes is read back: what is rendered of the chat is the retained entry alone,
  under the summary of the reply, and no decision and no file of the reply or of the record is lost.
\<close>
theorem compacted_chat_projects:
  assumes "chat_step\<^sup>*\<^sup>* no_chat c" "pending c s = Ok (Some p)" "0 \<le> pc_tokens_before p" "pc_tokens_before p \<le> i64_max"
    "trim s \<noteq> []" "trim (pc_first_retained p) \<noteq> []" "0 < window"
    "handle_output l serde_error sts now s output c = (Ok (CheckpointCompleted a b), c')"
  shows "\<exists>bs pj r draft ev. active_branch (ch_forest c') s = Ok bs \<and> project l bs window = Ok pj
    \<and> map se_kind (pj_entries pj) = [''branch.summary''] \<and> pj_restoration pj = Some r \<and> rc_boundary r = b
    \<and> parse_draft l serde_error output = Ok draft \<and> rc_summary r = cd_summary draft
    \<and> collect_evidence c s (pc_background p) = Ok ev
    \<and> set (cd_decisions draft) \<union> set (ev_decisions ev) \<subseteq> set (rc_decisions r)
    \<and> set (rc_files_touched r) = set (cd_files_touched draft) \<union> set (ev_files ev)"
  by (rule compaction_carried [OF assms])

section \<open>A late summary\<close>

lemma late_unreadable:
  "stored_checkpoint (JObj (obj_insert repo_state_key r (obj_insert typed_schema_marker m
      (checkpoint_payload c p provenance @ [(''landing'', v)])))) = None"
proof -
  have "strip_markers (JObj (obj_insert repo_state_key r (obj_insert typed_schema_marker m
      (checkpoint_payload c p provenance @ [(''landing'', v)]))))
    = JObj (checkpoint_payload c p provenance @ [(''landing'', v)])"
    by (rule strip_stored)
       (simp add: checkpoint_payload_def reserved_def typed_schema_marker_def repo_state_key_def)
  moreover have "read_checkpoint (JObj (checkpoint_payload c p provenance @ [(''landing'', v)])) = None"
    by (simp add: read_checkpoint_def struct_fields_def checkpoint_payload_def obj_keys_def checkpoint_fields_def)
  ultimately show ?thesis by (simp add: stored_checkpoint_def from_value_def Let_def)
qed

lemma position_snoc: "position P xs = Some n \<Longrightarrow> position P (xs @ [y]) = Some n"
  by (auto simp: position_Some nth_append)

lemma silent_entry:
  assumes "retained_of bs = Ok (retained, r)" "se_kind e = ''checkpoint''" "stored_checkpoint (se_payload e) = None"
  shows "retained_of (bs @ [e]) = Ok (retained @ [e], r)"
proof -
  have b: "boundary_of e = None" using assms(2) by (simp add: boundary_of_def)
  have d: "collect_durable_decisions (bs @ [e]) = collect_durable_decisions bs"
    using assms(2,3) by (simp add: collect_durable_decisions_def entry_decisions_def)
  show ?thesis
  proof (rule retained_cases [OF assms(1)], goal_cases)
    case 1
    with b show ?case by (simp add: retained_of_def)
  next
    case (2 b' c n k)
    note p = position_snoc [OF 2(4), of e] position_snoc [OF 2(5), of e]
    have "n \<le> length bs" using 2(4) by (simp add: position_Some)
    with 2 b d p show ?case by (simp add: retained_of_def)
  qed
qed

lemma late_projection:
  assumes "chat_step\<^sup>*\<^sup>* no_chat c" "active_branch (ch_forest c) s = Ok bs" "project l bs window = Ok pj"
    "handle_output l serde_error sts now s output c = (Ok (LateCheckpoint a), c')"
  shows "\<exists>e. active_branch (ch_forest c') s = Ok (bs @ [e]) \<and> se_id e = a \<and> se_kind e = ''checkpoint''
    \<and> project l (bs @ [e]) window = Ok pj"
proof -
  have ok: "forest_ok (ch_forest c)" by (rule chat_ok [OF assms(1)])
  obtain st cp p provenance where late: "record_late_checkpoint st s cp p provenance c = (Ok (LateCheckpoint a), c')"
  proof (rule handle_cases [OF assms(4)], goal_cases)
    case (4 q ev draft cp provenance)
    have "\<not> record_checkpoint l sts s cp q provenance (Some ev) c = (Ok (LateCheckpoint a), c')"
      by (auto simp: record_checkpoint_def Let_def split: prod.splits if_splits sum.splits)
    with 4 that show ?thesis by blast
  qed (auto split: sum.splits)
  then obtain e c1 where ap: "append_chat st s CheckpointEntry
      (JObj (checkpoint_payload cp p provenance @ [(''landing'', JStr ''late'')])) c = (Ok e, c1)"
    and c': "ch_forest c' = ch_forest c1" "a = se_id e"
    by (auto simp: record_late_checkpoint_def store_event_def split: sum.splits prod.splits)
  note t = append_chat_Ok(1) [OF ap]
  note f = appended_fields [OF t] and h = append_at_head [OF ok t assms(2)]
  have k: "se_kind e = ''checkpoint''" using f(1) by simp
  have sc: "stored_checkpoint (se_payload e) = None" unfolding f(4) by (rule late_unreadable)
  have w: "0 < window" using assms(3) by (simp add: project_def split: if_splits)
  have se: "session_exists (ch_forest c) s" by (rule active_exists [OF assms(2)])
  have act: "active_branch (ch_forest c') s = Ok (bs @ [e])" using h(1) c'(1) by simp
  from active_Ok [OF ok se] assms(2) have b: "case raw_active_head_id (ch_forest c) s of
      None \<Rightarrow> bs = [] | Some i \<Rightarrow> path_to (session_entries (ch_forest c) s) i bs" by blast
  have "project l (bs @ [e]) window = project l bs window"
  proof (cases "raw_active_head_id (ch_forest c) s")
    case None
    with b have bs: "bs = []" by simp
    have rt: "retained_of [] = Ok ([], None)" by (simp add: retained_of_def)
    have hidden: "project_render_entry e = None" using k by (simp add: project_render_entry_def bookkeeping_kinds_def)
    have before: "project l [] window = Ok \<lparr>pj_entries = [], pj_restoration = None,
           pj_model = latest_non_empty [] ''model.changed'' ''model'',
           pj_effort = latest_non_empty [] ''effort.changed'' ''effort'', pj_token_estimate = i64_saturating_add 0 0,
           pj_pressure = max 0 (min 100 (i64_div (i64_saturating_mul (i64_saturating_add 0 0) 100) window))\<rparr>"
      using w by (simp add: project_def canonical_def reject_duplicate_entry_ids_def rt List.map_filter_def Let_def)
    show ?thesis
      unfolding bs before project_path [OF h(4) h(3) [unfolded bs] w] silent_entry [OF rt k sc]
      using k hidden by (simp add: latest_non_empty_def List.map_filter_def restoration_tokens_def Let_def)
  next
    case (Some i)
    with b have p: "path_to (session_entries (ch_forest c) s) i bs" by simp
    note before = project_path [OF ok p w, of l]
    obtain retained r where rt: "retained_of bs = Ok (retained, r)"
      using before assms(3) by (auto split: sum.splits)
    have hidden: "project_render_entry e = None" using k by (simp add: project_render_entry_def bookkeeping_kinds_def)
    show ?thesis
      unfolding before project_path [OF h(4,3) w] silent_entry [OF rt k sc] rt
      using k hidden by (simp add: latest_non_empty_def List.map_filter_def)
  qed
  with act assms(3) k c'(2) show ?thesis by simp
qed

section \<open>A fork of a compacted chat\<close>

lemma position_None: "position P xs = None \<longleftrightarrow> list_all (\<lambda>x. \<not> P x) xs"
proof -
  have "length (takeWhile (\<lambda>x. \<not> P x) xs) < length xs \<longleftrightarrow> \<not> list_all (\<lambda>x. \<not> P x) xs"
    by (induction xs) auto
  then show ?thesis by (simp add: position_def Let_def)
qed

lemma fork_unreadable:
  assumes "chat_step\<^sup>*\<^sup>* no_chat c" "branch_to_leaf (ch_forest c) s leaf = Ok bs"
    "project l bs window = Ok pj" "pj_restoration pj \<noteq> None"
    "fork_history refusal uuid new now s leaf (ch_forest c) = Ok d'"
  shows "\<exists>cs b i. active_branch d' new = Ok cs \<and> map se_payload cs = map se_payload bs
    \<and> project l cs window = Err (MissingRetainedEntry b i)"
proof -
  have ok: "forest_ok (ch_forest c)" by (rule chat_ok [OF assms(1)])
  have k: "keyed_entries (fd_entries (ch_forest c))" using ok by (simp add: forest_ok_def)
  have p: "path_to (session_entries (ch_forest c) s) leaf bs"
    using branch_Ok [OF keyed_session [OF k]] assms(2) by blast
  have w: "0 < window" using assms(3) by (simp add: project_def split: if_splits)
  obtain retained where rt: "retained_of bs = Ok (retained, pj_restoration pj)"
    using project_path [OF ok p w, of l] assms(3) by (auto simp: Let_def split: sum.splits)
  obtain b ck n where bo: "find_map boundary_of (rev bs) = Some (b, ck)"
    and n: "position (\<lambda>e. se_id e = cp_first_retained ck) bs = Some n"
    by (rule retained_cases [OF rt]) (use assms(4) in auto)
  obtain br where br: "branch_to_leaf (ch_forest c) s leaf = Ok br"
    and es: "fd_entries d' = fd_entries (ch_forest c) @ fork_copies uuid new None 0 br"
    and ok': "forest_ok d'"
    by (rule forking [OF assms(5) ok])
  have "br = bs" using br assms(2) by simp
  let ?cs = "fork_copies uuid new None 0 bs"
  from forked_branch [OF ok assms(5)] assms(2) have act: "active_branch d' new = Ok ?cs" by auto
  have k': "keyed_entries (fd_entries d')" using ok' by (simp add: forest_ok_def)
  from n have at: "n < length bs" "se_id (bs ! n) = cp_first_retained ck" by (simp_all add: position_Some)
  have "set bs \<subseteq> set (fd_entries (ch_forest c))" using p by (auto simp: path_to_def)
  with at have kept: "bs ! n \<in> set (fd_entries (ch_forest c))" "se_id (bs ! n) = cp_first_retained ck"
    using nth_mem [OF at(1)] by blast+
  have "se_id e \<noteq> cp_first_retained ck" if "e \<in> set ?cs" for e
  proof -
    have "se_id ` set (fd_entries (ch_forest c)) \<inter> se_id ` set ?cs = {}"
      using k' by (simp add: keyed_entries_def es \<open>br = bs\<close>)
    with that kept show ?thesis by force
  qed
  then have no: "position (\<lambda>e. se_id e = cp_first_retained ck) ?cs = None"
    by (simp add: position_None list_all_iff)
  from fork_boundary(2) [OF bo, of uuid new None 0] obtain b' where
    "find_map boundary_of (rev ?cs) = Some (b', ck)" by blast
  with no have r: "retained_of ?cs = Err (MissingRetainedEntry (se_id b') (cp_first_retained ck))"
    by (simp add: retained_of_def)
  have se: "session_exists d' new" by (rule active_exists [OF act])
  have "bs \<noteq> []" using n by (auto simp: position_Some)
  then have "?cs \<noteq> []" by (cases bs) simp_all
  moreover have "case raw_active_head_id d' new of None \<Rightarrow> ?cs = [] | Some i \<Rightarrow> path_to (session_entries d' new) i ?cs"
    using active_Ok [OF ok' se, of ?cs] act by blast
  ultimately obtain i where "path_to (session_entries d' new) i ?cs"
    by (cases "raw_active_head_id d' new") simp_all
  from project_path [OF ok' this w, of l] r have "project l ?cs window = Err (MissingRetainedEntry (se_id b') (cp_first_retained ck))"
    by simp
  moreover have "map se_payload ?cs = map se_payload bs"
    using fork_copies_content [of uuid new None 0 bs]
    by (auto simp: content_def list_eq_iff_nth_eq)
  ultimately show ?thesis using act by blast
qed

section \<open>A chat that is compacted\<close>

definition chat_demo :: chat_db where "chat_demo = \<lparr>ch_forest = forest_two, ch_events = []\<rparr>"

definition chat_lib :: lib where
  "chat_lib = plain_lib\<lparr>lib_entries := (\<lambda>_. Some (JObj [(''summary'', JStr ''so far'')]))\<rparr>"

definition demo_begin :: "(forest_error, compaction_start) result \<times> chat_db" where
  "demo_begin = begin_compaction (demo_stamp ''q'') ''now'' ''kept'' None ''s'' Manual 100 True chat_demo"

definition demo_stamps :: "stamp \<times> stamp \<times> stamp" where
  "demo_stamps = (demo_stamp ''ck'', demo_stamp ''cp'', demo_stamp ''x'')"

definition demo_reply :: "(forest_error, checkpoint_outcome) result \<times> chat_db" where
  "demo_reply = handle_output chat_lib (\<lambda>_. []) demo_stamps ''now'' ''s'' ''{}'' (snd demo_begin)"

definition demo_pending :: pending_compaction where
  "demo_pending = \<lparr>pc_reason = Manual, pc_attempt = 0, pc_tokens_before = 100, pc_requested_at = ''now'',
     pc_first_retained = ''kept'', pc_background = True\<rparr>"

lemma demo_begin_ready: "case fst demo_begin of Inr (CompactReady t) \<Rightarrow> True | _ \<Rightarrow> False"
  by code_simp


lemma demo_chat: "chat_step\<^sup>*\<^sup>* no_chat chat_demo" "chat_step\<^sup>*\<^sup>* no_chat (snd demo_begin)"
proof -
  have "forest_step\<^sup>*\<^sup>* d d' \<Longrightarrow> chat_step\<^sup>*\<^sup>* (c\<lparr>ch_forest := d\<rparr>) (c\<lparr>ch_forest := d'\<rparr>)" for c d d'
  proof (induction rule: rtranclp_induct)
    case (step a b)
    from talked [of "c\<lparr>ch_forest := a\<rparr>" b] step show ?case by (auto intro: rtranclp.rtrancl_into_rtrancl)
  qed simp
  from this [OF demo_two, of no_chat] show c: "chat_step\<^sup>*\<^sup>* no_chat chat_demo"
    by (simp add: no_chat_def chat_demo_def)
  have "chat_step chat_demo (snd demo_begin)"
    by (rule begun [where r = "fst demo_begin"]) (simp add: demo_begin_def)
  with c show "chat_step\<^sup>*\<^sup>* no_chat (snd demo_begin)" by simp
qed

lemma demo_request:
  "(case active_branch (ch_forest (snd demo_begin)) ''s'' of
      Inl x \<Rightarrow> Err x
    | Inr bs \<Rightarrow> (case find is_marker (rev bs) of None \<Rightarrow> Ok None | Some e \<Rightarrow> pending_from_marker e))
   = Ok (Some demo_pending)"
  by code_simp

lemma demo_entries: "length (session_entries (ch_forest (snd demo_begin)) ''s'') = 2"
  by code_simp

lemma demo_pending_read: "pending (snd demo_begin) ''s'' = Ok (Some demo_pending)"
proof (cases "active_branch (ch_forest (snd demo_begin)) ''s''")
  case (Inr bs)
  with pending_scan [OF chat_ok [OF demo_chat(2)] active_exists [OF Inr] _ Inr] demo_request demo_entries
  show ?thesis by (simp add: max_walk_def)
next
  case (Inl x)
  with demo_request show ?thesis by simp
qed

lemma demo_reply_done: "fst demo_reply = Ok (CheckpointCompleted ''ck'' ''cp'')"
  unfolding demo_reply_def handle_output_def demo_pending_read sum.case option.case
  by code_simp

definition demo_compacted :: chat_db where "demo_compacted = snd demo_reply"

lemma demo_fork_done: "is_ok (fork_history (\<lambda>_. ''refused'') (\<lambda>n. ''f'' @ dec n) ''t'' ''now'' ''s'' ''kept'' (ch_forest demo_compacted))"
  unfolding demo_compacted_def demo_reply_def handle_output_def demo_pending_read sum.case option.case
  by code_simp

lemma demo_reply_pair: "demo_reply = (Ok (CheckpointCompleted ''ck'' ''cp''), demo_compacted)"
  using demo_reply_done by (simp add: demo_compacted_def prod_eq_iff)

lemma demo_compacted_chat: "chat_step\<^sup>*\<^sup>* no_chat demo_compacted"
proof -
  have "chat_step (snd demo_begin) demo_compacted"
    by (rule answered) (use demo_reply_pair in \<open>simp add: demo_reply_def\<close>)
  with demo_chat(2) show ?thesis by simp
qed

lemma demo_compacted_entries: "length (session_entries (ch_forest demo_compacted) ''s'') = 5"
  unfolding demo_compacted_def demo_reply_def handle_output_def demo_pending_read sum.case option.case
  by code_simp

text \<open>The same request, where the new model has spoken before the reply.\<close>

definition demo_spoken :: chat_db where
  "demo_spoken = (case append_entry (demo_stamp ''u2'') ''s'' UserMessage (demo_says ''go on'') (ch_forest (snd demo_begin)) of
     Inl x \<Rightarrow> snd demo_begin | Inr (e, d) \<Rightarrow> (snd demo_begin)\<lparr>ch_forest := d\<rparr>)"

definition demo_late :: "(forest_error, checkpoint_outcome) result \<times> chat_db" where
  "demo_late = handle_output chat_lib (\<lambda>_. []) demo_stamps ''now'' ''s'' ''{}'' demo_spoken"

lemma demo_spoken_chat: "chat_step\<^sup>*\<^sup>* no_chat demo_spoken"
proof (cases "append_entry (demo_stamp ''u2'') ''s'' UserMessage (demo_says ''go on'') (ch_forest (snd demo_begin))")
  case (Inl x)
  with demo_chat(2) show ?thesis by (simp add: demo_spoken_def)
next
  case (Inr r)
  obtain e d where r: "r = (e, d)" by (cases r)
  with Inr have "chat_step (snd demo_begin) demo_spoken"
    using talked [OF appended [of "demo_stamp ''u2''" "''s''" UserMessage "demo_says ''go on''"]]
    by (simp add: demo_spoken_def)
  with demo_chat(2) show ?thesis by simp
qed

lemma demo_spoken_request:
  "(case active_branch (ch_forest demo_spoken) ''s'' of
      Inl x \<Rightarrow> Err x
    | Inr bs \<Rightarrow> (case find is_marker (rev bs) of None \<Rightarrow> Ok None | Some e \<Rightarrow> pending_from_marker e))
   = Ok (Some demo_pending)"
  by code_simp

lemma demo_spoken_entries: "length (session_entries (ch_forest demo_spoken) ''s'') = 3"
  by code_simp

lemma demo_spoken_pending: "pending demo_spoken ''s'' = Ok (Some demo_pending)"
proof (cases "active_branch (ch_forest demo_spoken) ''s''")
  case (Inr bs)
  with pending_scan [OF chat_ok [OF demo_spoken_chat] active_exists [OF Inr] _ Inr] demo_spoken_request demo_spoken_entries
  show ?thesis by (simp add: max_walk_def)
next
  case (Inl x)
  with demo_spoken_request show ?thesis by simp
qed

lemma demo_late_done: "fst demo_late = Ok (LateCheckpoint ''ck'')"
  unfolding demo_late_def handle_output_def demo_spoken_pending sum.case option.case
  by code_simp

lemma project_reads:
  assumes "forest_ok d" "branch_to_leaf d s leaf = Ok bs" "0 < window" "retained_of bs = Ok (retained, r)"
  obtains pj where "project l bs window = Ok pj" "pj_restoration pj = r"
    "pj_entries pj = List.map_filter project_render_entry retained"
proof -
  have k: "keyed_entries (fd_entries d)" using assms(1) by (simp add: forest_ok_def)
  have "path_to (session_entries d s) leaf bs"
    using branch_Ok [OF keyed_session [OF k]] assms(2) by blast
  from project_path [OF assms(1) this assms(3), of l] assms(4) that show thesis by (simp add: Let_def)
qed

lemma demo_spoken_branch:
  "active_branch (ch_forest demo_spoken) ''s'' = branch_to_leaf (ch_forest demo_spoken) ''s'' ''u2''"
  "case branch_to_leaf (ch_forest demo_spoken) ''s'' ''u2'' of Inl x \<Rightarrow> False | Inr bs \<Rightarrow> is_ok (retained_of bs)"
  by code_simp+

lemma demo_projection:
  obtains bs pj where "active_branch (ch_forest demo_spoken) ''s'' = Ok bs" "project chat_lib bs 1000 = Ok pj"
proof -
  from demo_spoken_branch(2) obtain bs retained r where b: "branch_to_leaf (ch_forest demo_spoken) ''s'' ''u2'' = Ok bs"
    and "retained_of bs = Ok (retained, r)" by (auto simp: is_ok_iff split: sum.splits)
  with project_reads [OF chat_ok [OF demo_spoken_chat] b _, of 1000 retained r chat_lib] demo_spoken_branch(1) that
  show thesis by auto
qed

section \<open>Witnesses\<close>

theorem request_is_read_back_witness:
  "pending chat_demo ''s'' = Ok None \<and> pending (snd demo_begin) ''s'' = Ok (Some demo_pending)"
proof -
  obtain t where t: "fst demo_begin = Ok (CompactReady t)"
    using demo_begin_ready by (auto split: sum.splits compaction_start.splits)
  then have "begin_compaction (demo_stamp ''q'') ''now'' ''kept'' None ''s'' Manual 100 True chat_demo
      = (Ok (CompactReady t), snd demo_begin)" by (simp add: demo_begin_def prod_eq_iff)
  from request_is_read_back [OF demo_chat(1) this] demo_entries show ?thesis
    by (simp add: demo_pending_def i64_max_def max_walk_def)
qed

lemma demo_reply_reads: "parse_draft chat_lib (\<lambda>_. []) ''{}'' \<noteq> Err x"
proof -
  have "is_ok (parse_draft chat_lib (\<lambda>_. []) ''{}'')" by code_simp
  then show ?thesis by (auto simp: is_ok_iff)
qed

theorem second_reply_settles_witness: "pending demo_compacted ''s'' = Ok None"
proof -
  have "pc_tokens_before demo_pending \<le> i64_max" "length (session_entries (ch_forest demo_compacted) ''s'') \<le> max_walk"
    using demo_compacted_entries by (simp_all add: demo_pending_def i64_max_def max_walk_def)
  from second_reply_settles [OF demo_chat(2) demo_pending_read this(1) demo_reply_pair [unfolded demo_reply_def] this(2)]
    demo_reply_reads
  show ?thesis by (auto split: sum.splits)
qed

theorem compacted_chat_projects_witness:
  "\<exists>bs pj r. active_branch (ch_forest demo_compacted) ''s'' = Ok bs \<and> project chat_lib bs 1000 = Ok pj
     \<and> map se_kind (pj_entries pj) = [''branch.summary''] \<and> pj_restoration pj = Some r \<and> rc_boundary r = ''cp''"
proof -
  have t: "trim ''s'' \<noteq> []" "trim (pc_first_retained demo_pending) \<noteq> []" by code_simp+
  from compacted_chat_projects [OF demo_chat(2) demo_pending_read _ _ t _ demo_reply_pair [unfolded demo_reply_def], of 1000]
  show ?thesis by (force simp: demo_pending_def i64_max_def)
qed

lemma demo_compacted_branch:
  "active_branch (ch_forest demo_compacted) ''s'' = branch_to_leaf (ch_forest demo_compacted) ''s'' ''kept''"
  unfolding demo_compacted_def demo_reply_def handle_output_def demo_pending_read sum.case option.case
  by code_simp

lemma demo_compacted_projection:
  obtains bs pj r where "branch_to_leaf (ch_forest demo_compacted) ''s'' ''kept'' = Ok bs"
    "project chat_lib bs 1000 = Ok pj" "pj_restoration pj = Some r"
proof -
  have t: "trim ''s'' \<noteq> []" "trim (pc_first_retained demo_pending) \<noteq> []" by code_simp+
  have "0 \<le> pc_tokens_before demo_pending" "pc_tokens_before demo_pending \<le> i64_max"
    by (simp_all add: demo_pending_def i64_max_def)
  from compaction_carried [OF demo_chat(2) demo_pending_read this t _ demo_reply_pair [unfolded demo_reply_def], of 1000]
    that demo_compacted_branch show thesis by auto
qed

end
