(* ===== verification/Restoration.thy ===== *)
theory Restoration
  imports Compaction_Outcomes
begin

text \<open>
  Restoration (\<open>restoration.rs\<close>): how a cold start gets its context back, what of the stored conversation
  it is given and how large that may be, with the windows of \<open>model_catalog.rs\<close> and what a switched chat
  is said to carry (\<open>carried_context\<close> of \<open>sessions.rs\<close>). Texts are bytes.
\<close>

section \<open>Budgets\<close>

definition min_restoration_budget :: nat where "min_restoration_budget = 8000"

definition max_restoration_budget :: nat where "max_restoration_budget = 96 * 1024"

definition min_restoration_entry :: nat where "min_restoration_entry = 2000"

definition restoration_entry_bytes :: "nat \<Rightarrow> nat" where
  "restoration_entry_bytes budget = max (budget div 6) min_restoration_entry"

definition restoration_budget_bytes :: "int \<Rightarrow> nat" where
  "restoration_budget_bytes window =
     max min_restoration_budget (min max_restoration_budget
       (nat (i64_saturating_mul (max window 0 div 8) 4)))"

definition default_context_window :: int where "default_context_window = 128000"

definition context_window_tokens :: "string \<Rightarrow> string option \<Rightarrow> int" where
  "context_window_tokens harness model =
     (case model of
        None \<Rightarrow> default_context_window
      | Some m \<Rightarrow>
          if trim m = [] then default_context_window
          else (let i = rsplit_next (to_ascii_lowercase (trim m)) ''/'' in
            if str_contains i ''[1m]'' \<or> ends_with i ''-1m'' then 1000000
            else if str_contains i ''claude'' then 200000
            else if str_contains i ''gemini'' \<or> str_contains i ''gpt-4.1'' then 1000000
            else if str_contains i ''gpt-4o'' then 128000
            else if str_contains i ''gpt-5'' \<or> str_contains i ''codex'' then 400000
            else if starts_with i ''o1'' \<or> starts_with i ''o3'' \<or> starts_with i ''o4'' then 200000
            else if str_contains i ''grok'' then 256000
            else if harness = ''claude'' \<and> i \<in> {''opus'', ''sonnet'', ''haiku''} then 200000
            else default_context_window))"

text \<open>The row of the session is its harness and its model, if it has one.\<close>

definition session_context_window :: "(string \<times> string option) option \<Rightarrow> int" where
  "session_context_window row =
     (case row of None \<Rightarrow> default_context_window | Some (harness, model) \<Rightarrow> context_window_tokens harness model)"

section \<open>Plans\<close>

datatype restoration_plan = HotPlan | NativePlan | NativeForkPlan | CheckpointPlan | FreshPlan

fun fallback_after_failure :: "restoration_plan \<Rightarrow> bool \<Rightarrow> restoration_plan option" where
  "fallback_after_failure NativeForkPlan stored = Some (if stored then CheckpointPlan else FreshPlan)"
| "fallback_after_failure NativePlan stored = Some (if stored then CheckpointPlan else FreshPlan)"
| "fallback_after_failure CheckpointPlan stored = Some FreshPlan"
| "fallback_after_failure FreshPlan stored = None"
| "fallback_after_failure HotPlan stored = None"

definition select_plan :: "bool \<Rightarrow> string option \<Rightarrow> bool \<Rightarrow> bool \<Rightarrow> bool \<Rightarrow> bool \<Rightarrow> restoration_plan" where
  "select_plan hot provider native fork stored says_fork =
     (if hot then HotPlan
      else if says_fork \<and> provider \<noteq> None \<and> native \<and> fork then NativeForkPlan
      else if says_fork then (if stored then CheckpointPlan else FreshPlan)
      else if provider \<noteq> None \<and> native then NativePlan
      else if stored then CheckpointPlan
      else FreshPlan)"

section \<open>Cuts\<close>

text \<open>The last bytes of a text, from a boundary on.\<close>

function boundary_at_least :: "string \<Rightarrow> nat \<Rightarrow> nat" where
  "boundary_at_least t i =
     (if is_char_boundary t i \<or> length t \<le> i then i else boundary_at_least t (i + 1))"
  by pat_completeness auto
termination by (relation "measure (\<lambda>(t, i). length t - i)") auto

declare boundary_at_least.simps [simp del]

definition keep_tail :: "string \<Rightarrow> nat \<Rightarrow> string" where
  "keep_tail t m = (if length t \<le> m then t else drop (boundary_at_least t (length t - m)) t)"

definition newline :: string where "newline = [CHR 0x0A]"

definition clip_middle :: "string \<Rightarrow> nat \<Rightarrow> string" where
  "clip_middle t m =
     (if length t \<le> m then t
      else (let half = m div 2; head_end = boundary_at_most t (min half (length t)); tail = keep_tail t half in
        take head_end t @ newline @ ellipsis @ '' '' @ dec (length t - head_end - length tail)
          @ '' bytes omitted '' @ ellipsis @ newline @ tail))"

fun bound_from :: "nat \<Rightarrow> nat \<Rightarrow> string list \<Rightarrow> string list" where
  "bound_from m used [] = []"
| "bound_from m used (line # rest) =
     (if used + (length line + 1) \<le> m then line # bound_from m (used + (length line + 1)) rest
      else (let room = m - (used + 1 + length ellipsis) in
        if 0 < room then [take (boundary_at_most line (min room (length line))) line @ ellipsis] else []))"

definition bound_header :: "string list \<Rightarrow> nat \<Rightarrow> string list" where
  "bound_header ls m = bound_from m 0 ls"

section \<open>What is carried\<close>

definition header_lines :: "context_projection \<Rightarrow> session_entry list \<Rightarrow> string list" where
  "header_lines pj branch =
     (case pj_restoration pj of
        Some r \<Rightarrow>
          (''compaction: '' @ rc_summary r)
          # map ((@) ''decision: '') (rc_decisions r) @ map ((@) ''still open: '') (rc_open_work r)
      | None \<Rightarrow>
          (case find_map (\<lambda>e. if se_kind e = ''checkpoint'' then json_get (se_payload e) ''summary'' \<bind> as_str
                              else None) (rev branch) of
             None \<Rightarrow> [] | Some summary \<Rightarrow> [''checkpoint: '' @ summary]))"

definition or_get :: "json option \<Rightarrow> json option \<Rightarrow> json option" where
  "or_get a b = (case a of None \<Rightarrow> b | Some v \<Rightarrow> Some v)"

definition entry_words :: "session_entry \<Rightarrow> string option" where
  "entry_words e =
     (let p = se_payload e in
      trimmed_text
        (if se_kind e \<in> {''checkpoint'', ''compaction'', ''branch.summary'', ''handoff.brief''}
         then or_get (json_get p ''summary'') (json_get p ''text'')
         else if se_kind e \<in> {''user.message'', ''assistant.message'', ''worker.result''}
         then or_get (json_get p ''text'') (or_get (json_get p ''summary'')
                (json_get p ''data'' \<bind> (\<lambda>v. json_get v ''text'')))
         else None))"

text \<open>The loop over the rendered entries, newest first; \<open>tail\<close> is what it has pushed.\<close>

fun carry_tail :: "nat \<Rightarrow> nat \<Rightarrow> string list \<Rightarrow> session_entry list \<Rightarrow> string list" where
  "carry_tail allowance remaining tail [] = tail"
| "carry_tail allowance remaining tail (e # es) =
     (case entry_words e of
        None \<Rightarrow> carry_tail allowance remaining tail es
      | Some words \<Rightarrow>
          (let shown = clip_middle words allowance; line = se_kind e @ '': '' @ shown; cost = length line + 1 in
           if cost \<le> remaining then carry_tail allowance (remaining - cost) (tail @ [line]) es
           else (let start = se_kind e @ '': '' @ ellipsis in
             if tail = [] \<and> length start + 1 < remaining
             then tail @ [start @ keep_tail shown (remaining - length start - 1)]
             else tail)))"

definition lines_bytes :: "string list \<Rightarrow> nat" where
  "lines_bytes ls = sum_list (map (\<lambda>l. length l + 1) ls)"

definition restoration_intro :: string where
  "restoration_intro =
     ''Bridge checkpoint-restoration context (stored history, not native provider resume):'' @ newline"

definition checkpoint_context_with_window :: "lib \<Rightarrow> chat_db \<Rightarrow> string \<Rightarrow> int \<Rightarrow> (forest_error, string option) result" where
  "checkpoint_context_with_window l c s window =
     (case bridge_invalid (active_branch (ch_forest c) s) of
        Inl x \<Rightarrow> Err x
      | Inr branch \<Rightarrow>
          (case project l branch (max window 1) of
             Inl x \<Rightarrow> Err (StorageError (context_error_display x))
           | Inr pj \<Rightarrow>
               (let budget = restoration_budget_bytes window;
                    header = bound_header (header_lines pj branch) max_restoration_budget;
                    tail = carry_tail (restoration_entry_bytes budget) (budget - lines_bytes header) []
                      (rev (pj_entries pj)) in
                if header = [] \<and> tail = [] then Ok None
                else Ok (Some (restoration_intro @ join newline (header @ rev tail))))))"

definition checkpoint_context ::
    "lib \<Rightarrow> (string \<times> string option) option \<Rightarrow> chat_db \<Rightarrow> string \<Rightarrow> (forest_error, string option) result" where
  "checkpoint_context l row c s = checkpoint_context_with_window l c s (session_context_window row)"

record carried_context =
  ca_summary :: bool
  ca_decisions :: nat
  ca_files :: nat
  ca_recent :: nat

definition carried_context_of :: "lib \<Rightarrow> chat_db \<Rightarrow> string \<Rightarrow> carried_context option" where
  "carried_context_of l c s =
     (case active_branch (ch_forest c) s of
        Inl _ \<Rightarrow> None
      | Inr branch \<Rightarrow>
          (case project l branch 128000 of
             Inl _ \<Rightarrow> None
           | Inr pj \<Rightarrow>
               (let recent = length (filter (\<lambda>e. se_kind e \<in>
                      {''user.message'', ''assistant.message'', ''worker.result'', ''handoff.brief''}) (pj_entries pj)) in
                if recent = 0 \<and> pj_restoration pj = None then None
                else Some \<lparr>ca_summary = pj_restoration pj \<noteq> None,
                  ca_decisions = (case pj_restoration pj of None \<Rightarrow> 0 | Some r \<Rightarrow> length (rc_decisions r)),
                  ca_files = (case pj_restoration pj of None \<Rightarrow> 0 | Some r \<Rightarrow> length (rc_files_touched r)),
                  ca_recent = recent\<rparr>)))"

definition carried_describe :: "carried_context \<Rightarrow> string" where
  "carried_describe c =
     (if ca_summary c
      then ''carried forward: summary + '' @ dec (ca_decisions c) @ '' decisions + '' @ dec (ca_files c) @ '' files''
      else ''carried forward: '' @ dec (ca_recent c) @ '' recent entries (no summary available)'')"

section \<open>Head state and failures\<close>

definition record_resume_failed :: "stamp \<Rightarrow> string \<Rightarrow> string \<Rightarrow> chat_db \<Rightarrow> (forest_error, unit) result \<times> chat_db" where
  "record_resume_failed st s reason c =
     (case append_chat st s SessionResumeFailed (JObj [(''reason'', JStr reason)]) c of
        (Inl x, c') \<Rightarrow> (Err x, c')
      | (Inr _, c') \<Rightarrow> (Ok (), store_event ''restoration'' ''session.resume_failed'' s reason c'))"

definition record_checkpoint_restore_failed ::
    "stamp \<Rightarrow> string \<Rightarrow> string \<Rightarrow> chat_db \<Rightarrow> (forest_error, unit) result \<times> chat_db" where
  "record_checkpoint_restore_failed st s reason c =
     (case append_chat st s SessionResumeFailed
             (JObj [(''reason'', JStr reason), (''stage'', JStr ''checkpoint_restored'')]) c of
        (Inl x, c') \<Rightarrow> (Err x, c')
      | (Inr _, c') \<Rightarrow> (Ok (), store_event ''restoration'' ''session.checkpoint_restore_failed'' s reason c'))"

definition head_row :: "string \<Rightarrow> string option \<Rightarrow> string \<Rightarrow> string \<Rightarrow> string \<Rightarrow> session_head" where
  "head_row s native mode resume now =
     \<lparr>sh_session = s, sh_active = None, sh_native = native, sh_restoration = mode,
      sh_eligibility = resume, sh_checkpoint = None, sh_updated = now\<rparr>"

definition clear_head_state_for_new_provider ::
    "(constraint \<Rightarrow> string) \<Rightarrow> string \<Rightarrow> string \<Rightarrow> string \<Rightarrow> string \<Rightarrow> forest_db \<Rightarrow> (forest_error, forest_db) result" where
  "clear_head_state_for_new_provider refusal now s mode resume d =
     (if \<not> session_exists d s then Err (DatabaseError (refusal ForeignKeyConstraint))
      else Ok (set_head s (head_row s None mode resume now)
        (\<lambda>h. h\<lparr>sh_native := None, sh_restoration := mode, sh_eligibility := resume, sh_updated := now\<rparr>) d))"

definition set_head_state ::
    "(constraint \<Rightarrow> string) \<Rightarrow> string \<Rightarrow> string \<Rightarrow> string \<Rightarrow> string \<Rightarrow> string option \<Rightarrow> forest_db
     \<Rightarrow> (forest_error, forest_db) result" where
  "set_head_state refusal now s mode resume provider d =
     (if \<not> session_exists d s then Err (DatabaseError (refusal ForeignKeyConstraint))
      else Ok (set_head s (head_row s provider mode resume now)
        (\<lambda>h. h\<lparr>sh_native := (case provider of None \<Rightarrow> sh_native h | Some p \<Rightarrow> Some p),
               sh_restoration := mode, sh_eligibility := resume, sh_updated := now\<rparr>) d))"

section \<open>The size of what is carried\<close>

lemma lines_bytes_simps [simp]:
  "lines_bytes [] = 0" "lines_bytes (l # ls) = length l + 1 + lines_bytes ls"
  "lines_bytes (xs @ ys) = lines_bytes xs + lines_bytes ys" "lines_bytes (rev ls) = lines_bytes ls"
  by (simp_all add: lines_bytes_def rev_map [symmetric])

lemma join_bytes: "length (join newline ls) \<le> lines_bytes ls"
  by (induction newline ls rule: join.induct) (simp_all add: newline_def)

lemma boundary_at_least_ge: "i \<le> boundary_at_least t i"
proof (induction t i rule: boundary_at_least.induct)
  case (1 t i)
  then show ?case by (subst boundary_at_least.simps) auto
qed

lemma keep_tail_facts:
  "length (keep_tail t m) \<le> m" "suffix (keep_tail t m) t"
  using boundary_at_least_ge [of "length t - m" t] by (auto simp: keep_tail_def suffix_drop)

lemma bound_from_bytes: "used \<le> m \<Longrightarrow> used + lines_bytes (bound_from m used ls) \<le> m"
proof (induction m used ls rule: bound_from.induct)
  case (2 m used line rest)
  show ?case
  proof (cases "used + (length line + 1) \<le> m")
    case True
    with 2 show ?thesis by simp
  next
    case False
    let ?room = "m - (used + 1 + length ellipsis)"
    have "boundary_at_most line (min ?room (length line)) \<le> ?room"
      using boundary_at_most_le [of line "min ?room (length line)"] by simp
    with False 2(2) show ?thesis by (auto simp: Let_def)
  qed
qed simp

lemma bound_from_all: "used + lines_bytes ls \<le> m \<Longrightarrow> bound_from m used ls = ls"
  by (induction m used ls rule: bound_from.induct) auto

lemma carry_tail_bytes:
  "lines_bytes (carry_tail allowance remaining tail es) \<le> lines_bytes tail + remaining"
proof (induction allowance remaining tail es rule: carry_tail.induct)
  case (2 allowance remaining tail e es)
  show ?case
  proof (cases "entry_words e")
    case None
    with 2(1) show ?thesis by simp
  next
    case (Some words)
    let ?line = "se_kind e @ '': '' @ clip_middle words allowance"
    show ?thesis
    proof (cases "length ?line + 1 \<le> remaining")
      case True
      with 2(2) [OF Some refl refl refl] Some show ?thesis by (simp add: Let_def)
    next
      case False
      then show ?thesis
        using Some keep_tail_facts(1) [of "clip_middle words allowance" "remaining - length (se_kind e @ '': '' @ ellipsis) - 1"]
        by (auto simp: Let_def)
    qed
  qed
qed simp

lemma budget_bounds:
  "min_restoration_budget \<le> restoration_budget_bytes window" "restoration_budget_bytes window \<le> max_restoration_budget"
  by (auto simp: restoration_budget_bytes_def min_restoration_budget_def max_restoration_budget_def)

lemma carried_Ok:
  assumes "checkpoint_context_with_window l c s window = Ok (Some t)"
  obtains branch pj where "active_branch (ch_forest c) s = Ok branch" "project l branch (max window 1) = Ok pj"
    "t = restoration_intro @ join newline (bound_header (header_lines pj branch) max_restoration_budget
      @ rev (carry_tail (restoration_entry_bytes (restoration_budget_bytes window))
          (restoration_budget_bytes window - lines_bytes (bound_header (header_lines pj branch) max_restoration_budget)) []
          (rev (pj_entries pj))))"
proof -
  from assms obtain branch where b: "active_branch (ch_forest c) s = Ok branch"
    by (auto simp: checkpoint_context_with_window_def bridge_invalid_def split: sum.splits)
  with assms obtain pj where p: "project l branch (max window 1) = Ok pj"
    by (auto simp: checkpoint_context_with_window_def bridge_invalid_def split: sum.splits)
  from assms b p show thesis
    by (intro that [OF b p]) (auto simp: checkpoint_context_with_window_def bridge_invalid_def Let_def split: if_splits)
qed

text \<open>
  C31. However long the conversation, its entries and its summary are, what a cold start is given
  stays under the ceiling of the prompt compiler.
\<close>
theorem carried_context_is_bounded:
  assumes "checkpoint_context_with_window l c s window = Ok (Some t)"
  shows "length t \<le> length restoration_intro + max_restoration_budget \<and> length t < 128 * 1024"
proof -
  from assms obtain branch pj header where t: "t = restoration_intro @ join newline (header
      @ rev (carry_tail (restoration_entry_bytes (restoration_budget_bytes window))
          (restoration_budget_bytes window - lines_bytes header) [] (rev (pj_entries pj))))"
    and h: "header = bound_header (header_lines pj branch) max_restoration_budget"
    by (rule carried_Ok) blast
  have "lines_bytes header \<le> max_restoration_budget"
    using bound_from_bytes [of 0 max_restoration_budget "header_lines pj branch"] by (simp add: h bound_header_def)
  with budget_bounds(2) [of window] have a: "length t \<le> length restoration_intro + max_restoration_budget"
    unfolding t
    using join_bytes [of "header @ rev (carry_tail (restoration_entry_bytes (restoration_budget_bytes window))
          (restoration_budget_bytes window - lines_bytes header) [] (rev (pj_entries pj)))"]
      carry_tail_bytes [of "restoration_entry_bytes (restoration_budget_bytes window)"
          "restoration_budget_bytes window - lines_bytes header" "[]" "rev (pj_entries pj)"]
    by simp
  have "length restoration_intro = 84" by (simp add: restoration_intro_def newline_def)
  with a show ?thesis by (simp add: max_restoration_budget_def)
qed

section \<open>The newest first\<close>

definition entry_line :: "nat \<Rightarrow> session_entry \<Rightarrow> string option" where
  "entry_line allowance e =
     map_option (\<lambda>w. se_kind e @ '': '' @ clip_middle w allowance) (entry_words e)"

lemma carry_tail_lines:
  "(\<exists>n. carry_tail a r tail es = tail @ take n (List.map_filter (entry_line a) es)
       \<and> (length (List.map_filter (entry_line a) es) \<le> n \<or> r < lines_bytes (take (Suc n) (List.map_filter (entry_line a) es))))
   \<or> tail = [] \<and> (\<exists>k rest words. r < lines_bytes (take 1 (List.map_filter (entry_line a) es))
       \<and> hd (List.map_filter (entry_line a) es) = k @ '': '' @ words
       \<and> carry_tail a r tail es = [k @ '': '' @ ellipsis @ rest] \<and> suffix rest words)"
proof (induction a r tail es rule: carry_tail.induct)
  case (1 a r tail)
  then show ?case by (simp add: List.map_filter_def)
next
  case (2 a r tail e es)
  show ?case
  proof (cases "entry_words e")
    case None
    with 2(1) show ?thesis by (simp add: List.map_filter_def entry_line_def)
  next
    case (Some words)
    let ?line = "se_kind e @ '': '' @ clip_middle words a"
    have ls: "List.map_filter (entry_line a) (e # es) = ?line # List.map_filter (entry_line a) es"
      using Some by (simp add: List.map_filter_def entry_line_def)
    show ?thesis
    proof (cases "length ?line + 1 \<le> r")
      case True
      then have c: "carry_tail a r tail (e # es) = carry_tail a (r - (length ?line + 1)) (tail @ [?line]) es"
        using Some by (simp add: Let_def)
      from 2(2) [OF Some refl refl refl True] obtain n where
        n: "carry_tail a (r - (length ?line + 1)) (tail @ [?line]) es = (tail @ [?line]) @ take n (List.map_filter (entry_line a) es)"
        and m: "length (List.map_filter (entry_line a) es) \<le> n
          \<or> r - (length ?line + 1) < lines_bytes (take (Suc n) (List.map_filter (entry_line a) es))" by blast
      show ?thesis unfolding c ls
        by (rule disjI1, rule exI [of _ "Suc n"]) (use n m True in auto)
    next
      case False
      let ?start = "se_kind e @ '': '' @ ellipsis"
      show ?thesis
      proof (cases "tail = [] \<and> length ?start + 1 < r")
        case True
        with False Some have "carry_tail a r tail (e # es)
          = [se_kind e @ '': '' @ ellipsis @ keep_tail (clip_middle words a) (r - length ?start - 1)]"
          by (simp add: Let_def)
        with True False ls keep_tail_facts(2) show ?thesis by (intro disjI2) fastforce
      next
        case no: False
        with False Some have "carry_tail a r tail (e # es) = tail" by (auto simp: Let_def)
        with False ls show ?thesis by (intro disjI1 exI [of _ 0]) simp
      qed
    qed
  qed
qed

text \<open>
  What a cold start is given is the header and, below it, the newest entries of the conversation in
  their order: as many whole ones as fit, and of the newest at least its end when there is room for any.
\<close>
theorem context_keeps_the_newest:
  assumes "checkpoint_context_with_window l c s window = Ok (Some t)"
  shows "\<exists>branch pj header tail. active_branch (ch_forest c) s = Ok branch \<and> project l branch (max window 1) = Ok pj
    \<and> t = restoration_intro @ join newline (header @ rev tail)
    \<and> (lines_bytes (header_lines pj branch) \<le> max_restoration_budget \<longrightarrow> header = header_lines pj branch)
    \<and> (let room = restoration_budget_bytes window - lines_bytes header;
           ls = List.map_filter (entry_line (restoration_entry_bytes (restoration_budget_bytes window))) (rev (pj_entries pj)) in
        (\<exists>n. tail = take n ls \<and> (length ls \<le> n \<or> room < lines_bytes (take (Suc n) ls)))
        \<or> (\<exists>k rest words. room < lines_bytes (take 1 ls) \<and> hd ls = k @ '': '' @ words
             \<and> tail = [k @ '': '' @ ellipsis @ rest] \<and> suffix rest words))"
proof -
  let ?budget = "restoration_budget_bytes window"
  from assms obtain branch pj where b: "active_branch (ch_forest c) s = Ok branch"
    and p: "project l branch (max window 1) = Ok pj"
    and t: "t = restoration_intro @ join newline (bound_header (header_lines pj branch) max_restoration_budget
      @ rev (carry_tail (restoration_entry_bytes ?budget)
          (?budget - lines_bytes (bound_header (header_lines pj branch) max_restoration_budget)) []
          (rev (pj_entries pj))))"
    by (rule carried_Ok)
  let ?h = "bound_header (header_lines pj branch) max_restoration_budget"
  let ?t = "carry_tail (restoration_entry_bytes ?budget) (?budget - lines_bytes ?h) [] (rev (pj_entries pj))"
  have h: "lines_bytes (header_lines pj branch) \<le> max_restoration_budget \<longrightarrow> ?h = header_lines pj branch"
    by (simp add: bound_header_def bound_from_all)
  from carry_tail_lines [of "restoration_entry_bytes ?budget" "?budget - lines_bytes ?h" "[]" "rev (pj_entries pj)"]
  show ?thesis
    using b p t h unfolding Let_def append_Nil by blast
qed

text \<open>
  How much of a summary is shown: its whole line where that fits, and otherwise the most of it that
  leaves room for the ellipsis, cut between characters.
\<close>

definition summary_shown :: "string \<Rightarrow> string \<Rightarrow> bool" where
  "summary_shown summary shown \<longleftrightarrow>
     (let line = ''compaction: '' @ summary; room = max_restoration_budget - 1 - length ellipsis in
      if length line < max_restoration_budget then shown = line
      else (\<exists>k \<le> room. shown = take k line @ ellipsis \<and> is_char_boundary line k
              \<and> (\<forall>j \<le> room. is_char_boundary line j \<longrightarrow> j \<le> k)))"

lemma boundary_at_most_greatest: "is_char_boundary t j \<Longrightarrow> j \<le> n \<Longrightarrow> j \<le> boundary_at_most t n"
proof (induction n)
  case (Suc n)
  then show ?case by (cases "j = Suc n") (simp_all add: boundary_at_most.simps [of t "Suc n"] le_Suc_eq)
qed simp

lemma summary_first:
  assumes "active_branch (ch_forest c) s = Ok bs" "project l bs window = Ok pj"
    "pj_restoration pj = Some r" "0 < window"
  shows "\<exists>shown rest. checkpoint_context_with_window l c s window = Ok (Some (restoration_intro @ shown @ rest))
    \<and> summary_shown (rc_summary r) shown"
proof -
  let ?s = "''compaction: '' @ rc_summary r"
  let ?room = "max_restoration_budget - 1 - length ellipsis"
  obtain ls where hl: "header_lines pj bs = ?s # ls"
    using assms(3) by (simp add: header_lines_def)
  obtain shown ls' where h: "bound_header (header_lines pj bs) max_restoration_budget = shown # ls'"
    and shown: "summary_shown (rc_summary r) shown"
  proof (cases "length ?s < max_restoration_budget")
    case True
    show thesis
      by (rule that [of ?s]) (use True hl in \<open>simp_all add: bound_header_def summary_shown_def\<close>)
  next
    case False
    have room: "0 < ?room" by (simp add: max_restoration_budget_def ellipsis_def)
    have fits: "min ?room (length ?s) = ?room" using False by simp
    let ?k = "boundary_at_most ?s ?room"
    have "bound_header (header_lines pj bs) max_restoration_budget = [take ?k ?s @ ellipsis]"
      using False room fits hl by (simp add: bound_header_def Let_def)
    moreover have "summary_shown (rc_summary r) (take ?k ?s @ ellipsis)"
      using False boundary_at_most_le boundary_at_most_is boundary_at_most_greatest
      by (auto simp: summary_shown_def Let_def simp del: append_Cons intro!: exI [of _ ?k])
    ultimately show thesis using that by simp
  qed
  have j: "\<exists>rest. join newline (x # xs) = x @ rest" for x xs by (cases xs) simp_all
  have w: "max window 1 = window" using assms(4) by simp
  obtain ls'' where "checkpoint_context_with_window l c s window = Ok (Some (restoration_intro @ join newline (shown # ls'')))"
    using assms(1,2) by (simp add: checkpoint_context_with_window_def bridge_invalid_def Let_def w h)
  with j [of shown ls''] shown show ?thesis by auto
qed

text \<open>
  C11. What one agent summarised is what the next one is given: after a compaction of a session with
  a name and a retained entry, a token count in an \<open>i64\<close>, and a window above zero, a cold start
  begins with the summary of the reply, whole where its line is under the 96 KiB of the header, and
  otherwise cut at the last character that leaves room for the ellipsis.
\<close>
theorem summary_reaches_the_next_agent:
  assumes "chat_step\<^sup>*\<^sup>* no_chat c" "pending c s = Ok (Some p)" "0 \<le> pc_tokens_before p" "pc_tokens_before p \<le> i64_max"
    "trim s \<noteq> []" "trim (pc_first_retained p) \<noteq> []" "0 < window"
    "handle_output l serde_error sts now s output c = (Ok (CheckpointCompleted a b), c')"
    "parse_draft l serde_error output = Ok draft"
  shows "\<exists>shown rest. checkpoint_context_with_window l c' s window = Ok (Some (restoration_intro @ shown @ rest))
    \<and> summary_shown (cd_summary draft) shown"
proof -
  from compaction_carried [OF assms(1-8)] obtain bs pj r where "active_branch (ch_forest c') s = Ok bs"
    "project l bs window = Ok pj" "pj_restoration pj = Some r" "rc_summary r = cd_summary draft"
    using assms(9) by auto
  with summary_first [of c' s bs l window pj r] assms(7) show ?thesis by simp
qed

text \<open>
  C26. A summary that lands after the new model has spoken changes nothing that is projected: neither the
  boundary, nor what is rendered, nor the decisions carried; and where there was a boundary before, a
  cold start is given the same text as without it.
\<close>
theorem late_summary_changes_nothing:
  assumes "chat_step\<^sup>*\<^sup>* no_chat c" "active_branch (ch_forest c) s = Ok bs" "project l bs window = Ok pj"
    "handle_output l serde_error sts now s output c = (Ok (LateCheckpoint a), c')"
  shows "(\<exists>e. active_branch (ch_forest c') s = Ok (bs @ [e]) \<and> se_id e = a \<and> se_kind e = ''checkpoint''
      \<and> project l (bs @ [e]) window = Ok pj)
    \<and> (pj_restoration pj = None
       \<or> checkpoint_context_with_window l c' s window = checkpoint_context_with_window l c s window)"
proof -
  from late_projection [OF assms] obtain e where e: "active_branch (ch_forest c') s = Ok (bs @ [e])" "se_id e = a"
    "se_kind e = ''checkpoint''" "project l (bs @ [e]) window = Ok pj" by blast
  have "0 < window" using assms(3) by (simp add: project_def split: if_splits)
  then have w: "max window 1 = window" by simp
  show ?thesis
  proof (cases "pj_restoration pj")
    case (Some r)
    then have "header_lines pj (bs @ [e]) = header_lines pj bs" by (simp add: header_lines_def)
    with e assms(2,3) w have "checkpoint_context_with_window l c' s window = checkpoint_context_with_window l c s window"
      by (simp add: checkpoint_context_with_window_def bridge_invalid_def)
    with e show ?thesis by blast
  qed (use e in blast)
qed

text \<open>
  C8. A fork of a compacted chat carries nothing over: the boundary that was copied names the entry it
  retains by the identifier it has in the source, no entry of the fork has it, and so the fork can
  neither be projected, nor restored from what is stored, nor handed to another model.
\<close>
theorem fork_of_a_compacted_chat:
  assumes "chat_step\<^sup>*\<^sup>* no_chat c" "branch_to_leaf (ch_forest c) s leaf = Ok bs"
    "project l bs window = Ok pj" "pj_restoration pj \<noteq> None"
    "fork_history refusal uuid new now s leaf (ch_forest c) = Ok d'"
  shows "(\<exists>cs b i. active_branch d' new = Ok cs \<and> map se_payload cs = map se_payload bs
      \<and> project l cs window = Err (MissingRetainedEntry b i))
    \<and> (\<exists>x. checkpoint_context_with_window l (c\<lparr>ch_forest := d'\<rparr>) new any_window = Err x)
    \<and> carried_context_of l (c\<lparr>ch_forest := d'\<rparr>) new = None"
proof -
  have any: "\<exists>pj. project l bs w = Ok pj \<and> pj_restoration pj \<noteq> None" if "0 < w" for w
  proof -
    obtain retained where "retained_of bs = Ok (retained, pj_restoration pj)"
      using project_Ok [OF assms(3)] path_canonical(1) [OF chat_ok [OF assms(1)]]
        branch_Ok [OF keyed_session] assms(2) chat_ok [OF assms(1)]
      by (metis forest_ok_def)
    from project_reads [OF chat_ok [OF assms(1)] assms(2) that this, of l] assms(4) show ?thesis by metis
  qed
  note fu = fork_unreadable [OF assms(1,2) _ _ assms(5)]
  from fu [OF assms(3,4)] obtain cs where cs: "active_branch d' new = Ok cs" by blast
  have err: "\<exists>b i. project l cs w = Err (MissingRetainedEntry b i)" if w: "0 < w" for w
    using any [OF w] fu cs by fastforce
  obtain b i where "project l cs (max any_window 1) = Err (MissingRetainedEntry b i)" using err by fastforce
  moreover obtain b' i' where "project l cs 128000 = Err (MissingRetainedEntry b' i')" using err [of 128000] by auto
  ultimately show ?thesis
    using cs fu [OF assms(3,4)]
    by (auto simp: checkpoint_context_with_window_def carried_context_of_def bridge_invalid_def)
qed

section \<open>Falling back\<close>

function fallback_chain :: "bool \<Rightarrow> restoration_plan \<Rightarrow> restoration_plan list" where
  "fallback_chain stored p =
     p # (case fallback_after_failure p stored of None \<Rightarrow> [] | Some q \<Rightarrow> fallback_chain stored q)"
  by pat_completeness auto
termination
proof (relation "measure (\<lambda>(stored, p). case p of NativePlan \<Rightarrow> 2 | NativeForkPlan \<Rightarrow> 2 | CheckpointPlan \<Rightarrow> 1 | _ \<Rightarrow> 0)", goal_cases)
  case (2 stored p q)
  then show ?case by (cases p; cases stored) auto
qed simp

declare fallback_chain.simps [simp del]

text \<open>
  A side chat never resumes the thread of the conversation it came from, whatever fails and is tried
  next; every chain of attempts tries each plan once and ends with a fresh start.
\<close>
theorem side_chat_never_resumes:
  "NativePlan \<notin> set (fallback_chain stored (select_plan hot provider native fork has_stored True))
   \<and> distinct (fallback_chain stored (select_plan hot provider native fork has_stored says))
   \<and> last (fallback_chain stored (select_plan hot provider native fork has_stored says))
     = (if hot then HotPlan else FreshPlan)"
proof -
  have c: "fallback_chain st HotPlan = [HotPlan]" "fallback_chain st FreshPlan = [FreshPlan]"
    "fallback_chain st CheckpointPlan = [CheckpointPlan, FreshPlan]"
    "fallback_chain st NativePlan = NativePlan # (if st then [CheckpointPlan, FreshPlan] else [FreshPlan])"
    "fallback_chain st NativeForkPlan = NativeForkPlan # (if st then [CheckpointPlan, FreshPlan] else [FreshPlan])" for st
    by (simp_all add: fallback_chain.simps)
  show ?thesis by (auto simp: select_plan_def c)
qed

section \<open>Witnesses\<close>

theorem late_summary_changes_nothing_witness:
  "\<exists>bs e pj. active_branch (ch_forest demo_spoken) ''s'' = Ok bs
     \<and> active_branch (ch_forest (snd demo_late)) ''s'' = Ok (bs @ [e]) \<and> se_id e = ''ck''
     \<and> project chat_lib bs 1000 = Ok pj \<and> project chat_lib (bs @ [e]) 1000 = Ok pj"
proof -
  obtain bs pj where b: "active_branch (ch_forest demo_spoken) ''s'' = Ok bs"
    and p: "project chat_lib bs 1000 = Ok pj" by (rule demo_projection)
  have "handle_output chat_lib (\<lambda>_. []) demo_stamps ''now'' ''s'' ''{}'' demo_spoken = (Ok (LateCheckpoint ''ck''), snd demo_late)"
    using demo_late_done by (simp add: demo_late_def prod_eq_iff)
  from late_summary_changes_nothing [OF demo_spoken_chat b p this] b p show ?thesis by blast
qed

theorem fork_of_a_compacted_chat_witness:
  "\<exists>d. fork_history (\<lambda>_. ''refused'') (\<lambda>n. ''f'' @ dec n) ''t'' ''now'' ''s'' ''kept'' (ch_forest demo_compacted) = Ok d
     \<and> (\<exists>cs b i. active_branch d ''t'' = Ok cs \<and> project chat_lib cs 1000 = Err (MissingRetainedEntry b i))
     \<and> (\<exists>x. checkpoint_context_with_window chat_lib (demo_compacted\<lparr>ch_forest := d\<rparr>) ''t'' 200000 = Err x)"
proof -
  obtain bs pj r where b: "branch_to_leaf (ch_forest demo_compacted) ''s'' ''kept'' = Ok bs"
    and p: "project chat_lib bs 1000 = Ok pj" and r: "pj_restoration pj = Some r" by (rule demo_compacted_projection)
  obtain d where f: "fork_history (\<lambda>_. ''refused'') (\<lambda>n. ''f'' @ dec n) ''t'' ''now'' ''s'' ''kept'' (ch_forest demo_compacted) = Ok d"
    using demo_fork_done by (auto simp: is_ok_iff)
  have "pj_restoration pj \<noteq> None" using r by simp
  from fork_of_a_compacted_chat [OF demo_compacted_chat b p this f] f show ?thesis by blast
qed

definition demo_draft :: checkpoint_draft where
  "demo_draft = \<lparr>cd_summary = ''so far'', cd_decisions = [], cd_files_touched = [], cd_open_work = []\<rparr>"

lemma demo_parsed: "parse_draft chat_lib (\<lambda>_. []) ''{}'' = Ok demo_draft"
  by code_simp

theorem summary_reaches_the_next_agent_witness:
  "\<exists>rest. checkpoint_context_with_window chat_lib demo_compacted ''s'' 200000
    = Ok (Some (restoration_intro @ ''compaction: so far'' @ rest))"
proof -
  have t: "trim ''s'' \<noteq> []" "trim (pc_first_retained demo_pending) \<noteq> []" by code_simp+
  have n: "0 \<le> pc_tokens_before demo_pending" "pc_tokens_before demo_pending \<le> i64_max"
    by (simp_all add: demo_pending_def i64_max_def)
  from summary_reaches_the_next_agent [OF demo_chat(2) demo_pending_read n t _ demo_reply_pair [unfolded demo_reply_def] demo_parsed, of 200000]
  show ?thesis by (fastforce simp: demo_draft_def max_restoration_budget_def summary_shown_def)
qed

lemma demo_carried:
  obtains t where "checkpoint_context_with_window chat_lib demo_compacted ''s'' 200000 = Ok (Some t)"
proof -
  obtain bs pj r where b: "branch_to_leaf (ch_forest demo_compacted) ''s'' ''kept'' = Ok bs"
    and p: "project chat_lib bs 1000 = Ok pj" and r: "pj_restoration pj = Some r" by (rule demo_compacted_projection)
  have t: "trim ''s'' \<noteq> []" "trim (pc_first_retained demo_pending) \<noteq> []" by code_simp+
  have n: "0 \<le> pc_tokens_before demo_pending" "pc_tokens_before demo_pending \<le> i64_max"
    by (simp_all add: demo_pending_def i64_max_def)
  from compaction_carried [OF demo_chat(2) demo_pending_read n t _ demo_reply_pair [unfolded demo_reply_def], of 200000]
  obtain bs pj r where "active_branch (ch_forest demo_compacted) ''s'' = Ok bs" "project chat_lib bs 200000 = Ok pj"
    "pj_restoration pj = Some r" "rc_summary r = ''so far''" using demo_parsed by (auto simp: demo_draft_def)
  with summary_first [of demo_compacted "''s''" bs chat_lib 200000 pj r] that show thesis
    by (auto simp: max_restoration_budget_def)
qed

theorem carried_context_is_bounded_witness:
  "\<exists>t. checkpoint_context_with_window chat_lib demo_compacted ''s'' 200000 = Ok (Some t) \<and> length t < 128 * 1024"
proof -
  obtain t where t: "checkpoint_context_with_window chat_lib demo_compacted ''s'' 200000 = Ok (Some t)"
    by (rule demo_carried)
  from carried_context_is_bounded [OF t] t show ?thesis by blast
qed

theorem context_keeps_the_newest_witness:
  "\<exists>t ls. checkpoint_context_with_window chat_lib demo_compacted ''s'' 200000 = Ok (Some t)
     \<and> t = restoration_intro @ join newline ls"
proof -
  obtain t where t: "checkpoint_context_with_window chat_lib demo_compacted ''s'' 200000 = Ok (Some t)"
    by (rule demo_carried)
  from context_keeps_the_newest [OF t] t show ?thesis by blast
qed

end
