(* ===== verification/Spec2Isabelle.thy ===== *)
theory Spec2Isabelle
  imports Worker_Lifecycle Frame_Queue Worker_Leases Envelope_Parsing Agent_Operations Secret_Interception Briefing_Policy Live_Briefing Restoration
begin

text \<open>
  Bridge runs coding agents side by side: a desktop shell and a daemon over one service
  library, \<open>src/src-tauri/bridge-core\<close>. This development models the parts of that library that
  decide: who may launch what, who may write where, what an agent may be told or shown, and
  what a briefing may put in front of a user, and what the history of a conversation keeps. File names below are under
  \<open>src/src-tauri/bridge-core/src\<close>.

  The parts and their theories, each importing what the code calls:

  \<^item> \<open>Rust_Prelude\<close>: results, options, strings, counting, saturating arithmetic and
    the association lists that stand for tables and hash maps; \<open>Json\<close> for \<open>serde_json\<close> values.
  \<^item> \<open>Lifecycle\<close> is the contract of a state machine as a locale. \<open>Worker_Lifecycle\<close>
    (\<open>worker_lifecycle.rs\<close>) and \<open>Agent_Lifecycle\<close> (the states of \<open>agent_lifecycle.rs\<close>)
    interpret it on their own tables.
  \<^item> \<open>Agent_Coordinator\<close> and \<open>Agent_Operations\<close> (\<open>agent_lifecycle.rs\<close>): the coordinator's maps of
    slots and every operation on them, as state passing; the replies of the operating system
    are an argument of each operation.
  \<^item> \<open>Frame_Queue\<close> (\<open>frame_queue.rs\<close>): a bounded queue between threads. Each critical section
    is one step; the theorems are about every interleaving of steps.
  \<^item> \<open>Harness\<close> (\<open>model.rs\<close>, \<open>common.rs\<close>), \<open>Owned_Paths\<close> and \<open>Policy\<close> (\<open>policy.rs\<close>): identities,
    glob patterns with their overlap and provenance, and \<open>PolicyEngine::decide\<close>.
  \<^item> \<open>Delegation\<close>, \<open>Envelopes\<close>, \<open>Directives\<close>, \<open>Machine_Blocks\<close>, \<open>Envelope_Parsing\<close>
    (\<open>delegation.rs\<close>): vocabulary, requests and results, their normalisation, the
    orchestrator's directives, the fenced blocks and the parsers.
  \<^item> \<open>Worker_Leases\<close> (\<open>policy.rs\<close>, \<open>policy_coordinator.rs\<close>, parts of \<open>live_turn.rs\<close>,
    \<open>worker_pool.rs\<close>, \<open>worktree_coordinator.rs\<close>): the ledger, the leases, and the input that
    \<open>decide\<close> is given, so that a launch is decided on what was actually recorded. The settings are
    read anew for each decision; the limits of the theorems are ceilings none of them exceeds.
  \<^item> \<open>Secret_Interception\<close> (\<open>secret_interception.rs\<close>): detection, selection and
    replacement of secrets in a message.
  \<^item> \<open>Briefing_Policy\<close> (\<open>briefing_policy.rs\<close>), \<open>Work_Tasks\<close> (\<open>work_task_state.rs\<close>,
    \<open>work_fingerprint.rs\<close>), \<open>Work_Evidence\<close> (\<open>work_connectors.rs\<close>, \<open>work_evidence.rs\<close>),
    \<open>Work_Brief\<close> (\<open>work_brief_parser.rs\<close>) and \<open>Work_Board\<close> (\<open>work_reconcile.rs\<close>,
    \<open>work_actions.rs\<close>, \<open>work_brief_store.rs\<close>, the handlers of \<open>api.rs\<close> and \<open>work.rs\<close>): a
    briefing calls connectors its policy allows, earns evidence in a ledger, has its answer
    validated against the ledger, and commits it to the board of tasks a user acts on.
  \<^item> \<open>Work_Settings\<close> (the settings of \<open>work.rs\<close>, \<open>work_briefing_config.rs\<close>, the handler of
    \<open>api.rs\<close>), \<open>Work_Runs\<close> (\<open>work_briefing_trigger.rs\<close>, the rest of \<open>work_brief_store.rs\<close>, the end
    of a run) and \<open>Live_Briefing\<close> (\<open>work_briefing_live.rs\<close>): what may be configured, who may
    start a run and hold its lease, and the run itself. \<open>run_step\<close> is the relation of everything
    that writes a run row, and the lease theorems hold of every state it reaches.

  \<^item> \<open>Session_Forest\<close> (\<open>session_forest.rs\<close>, the appends of \<open>store.rs\<close>, the copying of a branch by
    a fork in \<open>sessions.rs\<close>): the immutable entries of a session, its head, its branches and the
    integrity report. \<open>Forest_Branches\<close> shows what reading a branch returns and what the report
    looks for; \<open>Forest_Steps\<close> has the relation \<open>forest_step\<close> of everything that writes a history,
    its invariant, and what follows for heads, branches and forks.
  \<^item> \<open>Session_Context\<close> (\<open>context.rs\<close>), \<open>Compaction\<close> (\<open>compaction_controller.rs\<close>) and
    \<open>Restoration\<close> (\<open>restoration.rs\<close>, the windows of \<open>model_catalog.rs\<close>, \<open>carried_context\<close> of
    \<open>sessions.rs\<close>): what of a branch a provider is given, how a session is asked for a summary of itself
    and how the answer moves the boundary, and what a cold start gets back. \<open>Compaction_Steps\<close> has the
    relation \<open>chat_step\<close>, which adds the life of compactions to \<open>forest_step\<close>, and what is pending after
    each operation; \<open>Compaction_Outcomes\<close> follows a reply to the projection of the chat it leaves.

  How the model corresponds to the code. A struct is a record, an enum a datatype; \<open>Result\<close> is
  a sum with the error on the left and \<open>Option\<close> an option. \<open>u32\<close>, \<open>u64\<close> and \<open>usize\<close> counters
  are naturals or integers with the saturation or the comparison the code has written out;
  hashes are functions on strings. A mutex-protected section is one function from state to
  state. An SQL statement is the function on lists of rows that its \<open>WHERE\<close>, \<open>SET\<close> and
  \<open>ON CONFLICT\<close> clauses describe, in the order of the rows; a transaction that fails returns
  the database it was given.

  Parameters. What the code calls and does not define is an argument: the parser and printer of
  JSON text, SHA-256, the calendar (\<open>chrono\<close>), regular expressions, Unicode case folding, random
  identifiers, the reading of lexical paths by the operating system. The clock is an argument of
  each operation that reads it; what another connection writes between a read and the
  compare-and-swap that follows it is the argument \<open>peer\<close> of a claim; a provider is a script
  of the lines it streams, the ticks between them and the results of the sends. A theorem that needs a law
  of one of them (an instant printed is read back, a digest is injective) has it as a
  hypothesis, and a witness at concrete functions.

  What the groups of lemmas show: invariants of the agent slots, the queue, the ledger, the
  board and the leases of runs under every operation and every interleaving; that a worker which
  lost its lease changes nothing; that every reference a live run commits comes from a call that its
  stream shows and a later line answers without an error; what an accepted launch, message, brief
  or call has passed; equivalence of the code's loops with direct definitions (overlap of globs,
  matching, secret selection, coverage); round trips of stored text; and bounds on what is
  kept. The findings are theorems too, stated for every input of their shape: behaviours that the
  comments of the code deny.

  Fuel is used once, in \<open>Owned_Paths\<close> for the backtracking match of a segment; its bound is the
  product of the lengths, and a theorem there shows that it is enough. A turn of a live run is
  read to the end of its script; a script that ends before the turn does gives no result. The walk to
  a pending compaction stops after a million entries, as the query of the code does; theorems about
  it have that bound as a hypothesis.

  Not modelled: the threads and streams of a live turn, SQL text and migrations, the rows of
  sessions other than their history, the text of prompts, the writes of another connection between two statements of
  a claim other than its compare-and-swap, failures of SQLite when a compaction, a resume or a
  restoration writes a line of the event log, the adapters of
  third-party agents and their processes, git and file-system commands, HTTP, the desktop shell
  and the user interface. They are effects around the decisions above, and what they return is
  an argument here.
\<close>

end
